(* ===== verification/Blobio_Prelude.thy ===== *)
theory Blobio_Prelude
  imports Main "HOL-Library.Word"
begin

text \<open>
  Shared vocabulary of the development: C's characters and integer widths, the C-locale
  character classes of \<^verbatim>\<open>ctype.h\<close>, reads of NUL-terminated strings, the \<^verbatim>\<open>errno\<close> values the
  code tests, the outcome of a routine that may terminate its process, and the generic
  list lemmas the components share.
\<close>

section \<open>C types\<close>

text \<open>
  A C \<^verbatim>\<open>char\<close> or \<^verbatim>\<open>unsigned char\<close> is a \<open>char\<close> (eight bits); a NUL-terminated string is the
  list of the characters before the NUL; a byte buffer is the list of its bytes.
\<close>

type_synonym bytes = "char list"
type_synonym ui8 = "8 word"
type_synonym ui16 = "16 word"
type_synonym ui32 = "32 word"
type_synonym ui64 = "64 word"

abbreviation NUL :: char where "NUL \<equiv> CHR 0x00"
abbreviation NL :: char where "NL \<equiv> CHR 0x0A"
abbreviation CR :: char where "CR \<equiv> CHR 0x0D"
abbreviation TAB :: char where "TAB \<equiv> CHR 0x09"

abbreviation code :: "char \<Rightarrow> nat" where "code c \<equiv> of_char c"

text \<open>A byte as an unsigned integer and back.\<close>

definition byte_char :: "ui8 \<Rightarrow> char" where "byte_char w = char_of (unat w)"
definition char_byte :: "char \<Rightarrow> ui8" where "char_byte c = of_nat (code c)"

lemma code_less_256 [simp]: "code c < 256"
  by (rule nat_of_char_less_256)

lemma char_byte_inverse [simp]: "byte_char (char_byte c) = c"
  by (simp add: byte_char_def char_byte_def unat_of_nat take_bit_eq_mod)

lemma byte_char_inverse [simp]: "char_byte (byte_char w) = w"
proof -
  have "unat w < 2 ^ LENGTH(8)" by (rule unsigned_less)
  then show ?thesis by (simp add: byte_char_def char_byte_def)
qed

lemma all_bytes: "list_all P (map of_nat [0..<256]) \<Longrightarrow> P (x :: ui8)"
proof -
  assume a: "list_all P (map of_nat [0..<256])"
  have "unat x < 2 ^ LENGTH(8)" by (rule unsigned_less)
  then have "x \<in> of_nat ` set [0..<256]" by (intro image_eqI [of _ _ "unat x"]) simp_all
  with a show "P x" by (auto simp: list_all_iff)
qed

text \<open>The sizes of \<^verbatim>\<open>bio4d/bio4d.h\<close>.\<close>

definition MAX_DIGEST_SIZE :: nat where "MAX_DIGEST_SIZE = 128"
definition MAX_ALGORITHM_SIZE :: nat where "MAX_ALGORITHM_SIZE = 8"
definition MAX_UDIG_SIZE :: nat where "MAX_UDIG_SIZE = MAX_DIGEST_SIZE + MAX_ALGORITHM_SIZE + 1"
definition MSG_SIZE :: nat where "MSG_SIZE = 255"

section \<open>Character classes\<close>

text \<open>
  The classes of \<^verbatim>\<open>ctype.h\<close> in the C locale, where no character above 127 belongs to any
  class; the server and the client never call \<^verbatim>\<open>setlocale\<close>.
\<close>

definition c_isdigit :: "char \<Rightarrow> bool" where
  "c_isdigit c \<longleftrightarrow> 48 \<le> code c \<and> code c \<le> 57"

definition c_islower :: "char \<Rightarrow> bool" where
  "c_islower c \<longleftrightarrow> 97 \<le> code c \<and> code c \<le> 122"

definition c_isupper :: "char \<Rightarrow> bool" where
  "c_isupper c \<longleftrightarrow> 65 \<le> code c \<and> code c \<le> 90"

definition c_isalpha :: "char \<Rightarrow> bool" where
  "c_isalpha c \<longleftrightarrow> c_islower c \<or> c_isupper c"

definition c_isalnum :: "char \<Rightarrow> bool" where
  "c_isalnum c \<longleftrightarrow> c_isalpha c \<or> c_isdigit c"

definition c_isxdigit :: "char \<Rightarrow> bool" where
  "c_isxdigit c \<longleftrightarrow> c_isdigit c \<or> (97 \<le> code c \<and> code c \<le> 102) \<or> (65 \<le> code c \<and> code c \<le> 70)"

definition c_isgraph :: "char \<Rightarrow> bool" where
  "c_isgraph c \<longleftrightarrow> 33 \<le> code c \<and> code c \<le> 126"

definition c_isprint :: "char \<Rightarrow> bool" where
  "c_isprint c \<longleftrightarrow> 32 \<le> code c \<and> code c \<le> 126"

definition c_isascii :: "char \<Rightarrow> bool" where
  "c_isascii c \<longleftrightarrow> code c \<le> 127"

named_theorems ctype \<open>definitions of the character classes\<close>

lemmas ctype_defs [ctype] =
  c_isdigit_def c_islower_def c_isupper_def c_isalpha_def c_isalnum_def c_isxdigit_def
  c_isgraph_def c_isprint_def c_isascii_def

lemma c_isalnum_graph: "c_isalnum c \<Longrightarrow> c_isgraph c"
  by (auto simp: ctype)

lemma c_isalpha_alnum: "c_isalpha c \<Longrightarrow> c_isalnum c"
  by (auto simp: ctype)

lemma c_isgraph_not_blank:
  assumes "c_isgraph c"
  shows "c \<noteq> NUL" "c \<noteq> NL" "c \<noteq> CR" "c \<noteq> TAB" "c \<noteq> CHR '' ''"
  using assms by (auto simp: ctype)

lemma c_isalnum_not_punct:
  assumes "c_isalnum c"
  shows "c \<noteq> CHR '':''" "c \<noteq> CHR '' ''" "c \<noteq> NUL" "c \<noteq> NL" "c \<noteq> CR" "c \<noteq> TAB"
  using assms by (auto simp: ctype)

section \<open>Strings\<close>

text \<open>\<^verbatim>\<open>s[i]\<close> of a NUL-terminated string: the terminator is read at \<open>length s\<close>.\<close>

definition cstr_at :: "bytes \<Rightarrow> nat \<Rightarrow> char" where
  "cstr_at s i = (if i < length s then s ! i else NUL)"

lemma cstr_at_simps [simp]:
  "cstr_at [] i = NUL"
  "cstr_at (c # cs) 0 = c"
  "cstr_at (c # cs) (Suc i) = cstr_at cs i"
  by (auto simp: cstr_at_def)

lemma cstr_at_numeral [simp]:
  "cstr_at (c # cs) (numeral k) = cstr_at cs (pred_numeral k)"
  by (simp add: cstr_at_def numeral_eq_Suc)

text \<open>A buffer cut at its first NUL: what \<^verbatim>\<open>strlen\<close> and \<^verbatim>\<open>strcpy\<close> see.\<close>

definition cstr :: "bytes \<Rightarrow> bytes" where
  "cstr buf = takeWhile (\<lambda>c. c \<noteq> NUL) buf"

lemma cstr_append_NUL [simp]: "NUL \<notin> set s \<Longrightarrow> cstr (s @ NUL # t) = s"
  by (auto simp: cstr_def takeWhile_append)

lemma cstr_id [simp]: "NUL \<notin> set s \<Longrightarrow> cstr s = s"
  by (auto simp: cstr_def takeWhile_eq_all_conv)

section \<open>Decimal numbers\<close>

text \<open>What \<^verbatim>\<open>%d\<close> and \<^verbatim>\<open>%llu\<close> print of a natural number.\<close>

definition dec_digit :: "nat \<Rightarrow> char" where
  "dec_digit d = char_of (48 + d)"

fun dec_nat :: "nat \<Rightarrow> bytes" where
  "dec_nat n = (if n < 10 then [dec_digit n] else dec_nat (n div 10) @ [dec_digit (n mod 10)])"

declare dec_nat.simps [simp del]

lemma code_dec_digit [simp]: "d < 10 \<Longrightarrow> code (dec_digit d) = 48 + d"
  by (simp add: dec_digit_def)

lemma dec_digit_isdigit: "d < 10 \<Longrightarrow> c_isdigit (dec_digit d)"
  by (simp add: c_isdigit_def)

lemma dec_digits:
  "dec_digit 0 = CHR ''0''" "dec_digit 1 = CHR ''1''" "dec_digit 2 = CHR ''2''"
  "dec_digit 3 = CHR ''3''" "dec_digit 4 = CHR ''4''" "dec_digit 5 = CHR ''5''"
  "dec_digit 6 = CHR ''6''" "dec_digit 7 = CHR ''7''" "dec_digit 8 = CHR ''8''"
  "dec_digit 9 = CHR ''9''" "dec_digit (Suc 0) = CHR ''1''"
  by code_simp+

text \<open>Decimal texts of numerals, by simplification.\<close>

lemmas dec_text = dec_nat.simps dec_digits

lemma dec_nat_isdigit: "c \<in> set (dec_nat n) \<Longrightarrow> c_isdigit c"
proof (induction n rule: dec_nat.induct)
  case (1 n)
  then show ?case
    by (auto simp: dec_nat.simps [of n] dec_digit_isdigit split: if_splits)
qed

lemma dec_nat_not_Nil [simp]: "dec_nat n \<noteq> []"
  by (simp add: dec_nat.simps)

text \<open>\<^verbatim>\<open>strtoul\<close> on a string of digits.\<close>

definition undec :: "bytes \<Rightarrow> nat" where
  "undec s = fold (\<lambda>c v. 10 * v + (code c - 48)) s 0"

lemma undec_snoc: "undec (s @ [c]) = 10 * undec s + (code c - 48)"
  by (simp add: undec_def)

lemma undec_dec [simp]: "undec (dec_nat n) = n"
proof (induction n rule: dec_nat.induct)
  case (1 n)
  show ?case
  proof (cases "n < 10")
    case True
    then show ?thesis by (simp add: dec_nat.simps undec_def)
  next
    case False
    with 1 show ?thesis by (simp add: dec_nat.simps [of n] undec_snoc)
  qed
qed

lemma dec_nat_length: "n < 10 ^ k \<Longrightarrow> 0 < k \<Longrightarrow> length (dec_nat n) \<le> k"
proof (induction k arbitrary: n)
  case (Suc k)
  show ?case
  proof (cases "n < 10")
    case False
    then have "0 < k" using Suc.prems by (cases k) auto
    moreover have "n div 10 < 10 ^ k" using Suc.prems by (simp add: less_mult_imp_div_less mult.commute)
    ultimately show ?thesis using Suc.IH [of "n div 10"] False by (simp add: dec_nat.simps [of n])
  qed (simp add: dec_nat.simps)
qed simp

section \<open>System calls\<close>

text \<open>The values of \<^verbatim>\<open>errno\<close> that the code distinguishes; \<open>EOTHER\<close> is any other.\<close>

datatype errno =
  EINTR | ENOENT | EEXIST | ENOTEMPTY | ENOTDIR | EINVAL | EBADMSG | ENODATA | EXDEV | EPIPE | EOTHER

text \<open>The result of a call that returns -1 with \<^verbatim>\<open>errno\<close> set (\<open>Inl\<close>) or a value (\<open>Inr\<close>).\<close>

type_synonym 'a sysret = "errno + 'a"

section \<open>Outcome of a routine that may end its process\<close>

text \<open>
  Many routines end their process (\<^verbatim>\<open>panic\<close>, \<^verbatim>\<open>die\<close>, \<^verbatim>\<open>exit\<close>) and some may block forever in
  the kernel: the outcome is a value and the new state, or the state at the exit, or the state
  at the call that never returns.  \<open>proceed\<close> runs the rest of the caller when the callee
  returned.
\<close>

datatype ('a, 's) outcome = Ret 'a 's | Exited 's | Blocked 's

fun proceed :: "('a, 's) outcome \<Rightarrow> ('a \<Rightarrow> 's \<Rightarrow> ('b, 's) outcome) \<Rightarrow> ('b, 's) outcome" where
  "proceed (Ret a s) k = k a s"
| "proceed (Exited s) k = Exited s"
| "proceed (Blocked s) k = Blocked s"

named_theorems outcome_iff \<open>inversion of sequenced outcomes\<close>

lemma proceed_Ret_iff [outcome_iff]:
  "proceed m k = Ret b t \<longleftrightarrow> (\<exists>a s. m = Ret a s \<and> k a s = Ret b t)"
  by (cases m) auto

lemma proceed_Exited_iff [outcome_iff]:
  "proceed m k = Exited t \<longleftrightarrow> m = Exited t \<or> (\<exists>a s. m = Ret a s \<and> k a s = Exited t)"
  by (cases m) auto

lemma proceed_Blocked_iff [outcome_iff]:
  "proceed m k = Blocked t \<longleftrightarrow> m = Blocked t \<or> (\<exists>a s. m = Ret a s \<and> k a s = Blocked t)"
  by (cases m) auto

section \<open>Lists\<close>

lemma append_sep_eq:
  "u @ x # s = v @ x # t \<Longrightarrow> x \<notin> set u \<Longrightarrow> x \<notin> set v \<Longrightarrow> u = v \<and> s = t"
proof (induction u arbitrary: v)
  case Nil
  then show ?case by (cases v) auto
next
  case (Cons a u)
  then show ?case by (cases v) auto
qed

lemma concat_map_snoc_inj:
  assumes "concat (map (\<lambda>u. u @ [x]) us) = concat (map (\<lambda>u. u @ [x]) vs)"
    and "\<forall>u \<in> set us. x \<notin> set u" and "\<forall>v \<in> set vs. x \<notin> set v"
  shows "us = vs"
  using assms
proof (induction us arbitrary: vs)
  case Nil
  then show ?case by (cases vs) auto
next
  case (Cons u us)
  then obtain v vs' where vs: "vs = v # vs'" by (cases vs) auto
  have "u @ x # concat (map (\<lambda>u. u @ [x]) us) = v @ x # concat (map (\<lambda>u. u @ [x]) vs')"
    using Cons.prems(1) vs by simp
  moreover have "x \<notin> set u" "x \<notin> set v" using Cons.prems vs by auto
  ultimately have "u = v" "concat (map (\<lambda>u. u @ [x]) us) = concat (map (\<lambda>u. u @ [x]) vs')"
    by (auto dest: append_sep_eq)
  with Cons vs show ?case by simp
qed

text \<open>
  \<open>after Q E m\<close>: the value and state of a return satisfy \<open>Q\<close>, the state of an exit or a hang
  satisfies \<open>E\<close>.
\<close>

fun after :: "('a \<Rightarrow> 's \<Rightarrow> bool) \<Rightarrow> ('s \<Rightarrow> bool) \<Rightarrow> ('a, 's) outcome \<Rightarrow> bool" where
  "after Q E (Ret a s) = Q a s"
| "after Q E (Exited s) = E s"
| "after Q E (Blocked s) = E s"

lemma after_proceed [simp]:
  "after Q E (proceed m k) = after (\<lambda>a s. after Q E (k a s)) E m"
  by (cases m) auto

lemma after_mono:
  "after Q E m \<Longrightarrow> (\<And>a s. Q a s \<Longrightarrow> Q' a s) \<Longrightarrow> (\<And>s. E s \<Longrightarrow> E' s) \<Longrightarrow> after Q' E' m"
  by (cases m) auto

lemma after_conj:
  "after Q E m \<Longrightarrow> after Q' E' m \<Longrightarrow> after (\<lambda>a s. Q a s \<and> Q' a s) E m"
  by (cases m) auto

lemma after_Ret: "after Q E m \<Longrightarrow> m = Ret a s \<Longrightarrow> Q a s"
  by simp

end
