(* ===== verification/Blob_Set.thy ===== *)
theory Blob_Set
  imports Blobio_Prelude
begin

text \<open>
  \<^verbatim>\<open>bio4d/blob_set.c\<close>: a hash set of small byte strings.  The bucket array is a function from
  indices to chains; a chain is the list of the values in \<^verbatim>\<open>next\<close> order, and the \<^verbatim>\<open>size\<close> field of
  an element is the length of its value.  The model is proved to implement the interface
  \<open>blob_set_api\<close>, through which the udig set parser uses it.
\<close>

section \<open>The hash table\<close>

definition HASH_TABLE_SIZE :: nat where
  "HASH_TABLE_SIZE = 99991"

text \<open>\<^verbatim>\<open>hash = ((hash << 5) + hash) + *p++\<close> on 32-bit unsigned integers.\<close>

fun djb_loop :: "ui32 \<Rightarrow> bytes \<Rightarrow> ui32" where
  "djb_loop hash [] = hash"
| "djb_loop hash (p # ps) = djb_loop ((push_bit 5 hash + hash) + of_char p) ps"

definition djb :: "bytes \<Rightarrow> ui32" where
  "djb buf = djb_loop 5381 buf"

record hash_set =
  hs_size :: nat
  hs_table :: "nat \<Rightarrow> bytes list"
  hs_level :: nat

definition bucket :: "hash_set \<Rightarrow> bytes \<Rightarrow> nat" where
  "bucket s e = unat (djb e) mod hs_size s"

definition blob_set_alloc :: hash_set where
  "blob_set_alloc = \<lparr>hs_size = HASH_TABLE_SIZE, hs_table = (\<lambda>_. []), hs_level = 0\<rparr>"

text \<open>The walk of \<^verbatim>\<open>blob_set_exists\<close> along one chain.\<close>

fun chain_has :: "bytes list \<Rightarrow> bytes \<Rightarrow> bool" where
  "chain_has [] element = False"
| "chain_has (v # next) element =
     (if length element = length v \<and> v = element then True else chain_has next element)"

definition blob_set_exists :: "hash_set \<Rightarrow> bytes \<Rightarrow> bool" where
  "blob_set_exists s element = chain_has (hs_table s (bucket s element)) element"

text \<open>
  \<^verbatim>\<open>blob_set_put\<close>: \<open>PutPanic\<close> inside a \<^verbatim>\<open>blob_set_for_each\<close>, \<open>PutExists\<close> is the return value 1,
  \<open>PutAdded\<close> is 0 with the new set.
\<close>

datatype 's put_result = PutPanic | PutExists | PutAdded 's

definition blob_set_put :: "hash_set \<Rightarrow> bytes \<Rightarrow> hash_set put_result" where
  "blob_set_put s element =
     (if hs_level s > 0 then PutPanic
      else if blob_set_exists s element then PutExists
      else (let hash = bucket s element
            in PutAdded (s\<lparr>hs_table := (hs_table s)(hash := element # hs_table s hash)\<rparr>)))"

text \<open>
  \<^verbatim>\<open>blob_set_for_each\<close>: the callback gets the value, its size and the caller's context, and stops
  the traversal with a non-zero status.
\<close>

fun each_chain :: "(bytes \<Rightarrow> nat \<Rightarrow> 'c \<Rightarrow> int \<times> 'c) \<Rightarrow> bytes list \<Rightarrow> 'c \<Rightarrow> int \<times> 'c" where
  "each_chain each_callback [] ctx = (0, ctx)"
| "each_chain each_callback (e # next) ctx =
     (case each_callback e (length e) ctx of
        (status, ctx') \<Rightarrow> if status \<noteq> 0 then (status, ctx') else each_chain each_callback next ctx')"

fun each_table :: "(bytes \<Rightarrow> nat \<Rightarrow> 'c \<Rightarrow> int \<times> 'c) \<Rightarrow> bytes list list \<Rightarrow> 'c \<Rightarrow> int \<times> 'c" where
  "each_table each_callback [] ctx = (0, ctx)"
| "each_table each_callback (b # bs) ctx =
     (case each_chain each_callback b ctx of
        (status, ctx') \<Rightarrow> if status \<noteq> 0 then (status, ctx') else each_table each_callback bs ctx')"

definition blob_set_for_each ::
  "hash_set \<Rightarrow> (bytes \<Rightarrow> nat \<Rightarrow> 'c \<Rightarrow> int \<times> 'c) \<Rightarrow> 'c \<Rightarrow> (int \<times> 'c) \<times> hash_set" where
  "blob_set_for_each s each_callback ctx =
     (let s' = s\<lparr>hs_level := hs_level s + 1\<rparr>;
          r = each_table each_callback (map (hs_table s') [0..<hs_size s']) ctx
      in (r, s'\<lparr>hs_level := hs_level s' - 1\<rparr>))"

section \<open>The interface the server relies on\<close>

text \<open>
  A set with an insertion that reports whether the element was already there.  \<open>elems\<close> is the
  abstract value of a set and \<open>wf\<close> what every operation keeps.
\<close>

locale blob_set_api =
  fixes empty :: 's
    and put :: "'s \<Rightarrow> bytes \<Rightarrow> 's put_result"
    and mem :: "'s \<Rightarrow> bytes \<Rightarrow> bool"
    and elems :: "'s \<Rightarrow> bytes set"
    and wf :: "'s \<Rightarrow> bool"
  assumes wf_empty: "wf empty"
    and elems_empty: "elems empty = {}"
    and mem_elems: "wf s \<Longrightarrow> mem s e \<longleftrightarrow> e \<in> elems s"
    and put_old: "wf s \<Longrightarrow> e \<in> elems s \<Longrightarrow> put s e = PutExists"
    and put_new: "wf s \<Longrightarrow> e \<notin> elems s \<Longrightarrow>
      \<exists>s'. put s e = PutAdded s' \<and> wf s' \<and> elems s' = insert e (elems s)"

text \<open>Insert every element of a list, failing on the first that is already present.\<close>

fun put_all :: "('s \<Rightarrow> bytes \<Rightarrow> 's put_result) \<Rightarrow> 's \<Rightarrow> bytes list \<Rightarrow> 's option" where
  "put_all put s [] = Some s"
| "put_all put s (e # es) =
     (case put s e of PutAdded s' \<Rightarrow> put_all put s' es | _ \<Rightarrow> None)"

text \<open>Insert ignoring the result, as \<^verbatim>\<open>(void)blob_set_put(...)\<close> does; \<open>None\<close> is the panic.\<close>

fun put_quiet :: "('s \<Rightarrow> bytes \<Rightarrow> 's put_result) \<Rightarrow> 's \<Rightarrow> bytes \<Rightarrow> 's option" where
  "put_quiet put s e =
     (case put s e of PutAdded s' \<Rightarrow> Some s' | PutExists \<Rightarrow> Some s | PutPanic \<Rightarrow> None)"

context blob_set_api
begin

lemma put_no_panic: "wf s \<Longrightarrow> put s e \<noteq> PutPanic"
  by (metis put_new put_old put_result.distinct(1,3))

lemma put_added_iff:
  "wf s \<Longrightarrow> (\<exists>s'. put s e = PutAdded s') \<longleftrightarrow> e \<notin> elems s"
  by (metis put_new put_old put_result.distinct(5))

lemma put_addedD:
  "wf s \<Longrightarrow> put s e = PutAdded s' \<Longrightarrow> wf s' \<and> elems s' = insert e (elems s) \<and> e \<notin> elems s"
  by (metis put_new put_old put_result.distinct(5) put_result.inject)

lemma put_exists_iff: "wf s \<Longrightarrow> put s e = PutExists \<longleftrightarrow> e \<in> elems s"
  by (metis put_new put_old put_result.distinct(5))

lemma put_quiet_some:
  "wf s \<Longrightarrow> \<exists>s'. put_quiet put s e = Some s' \<and> wf s' \<and> elems s' = insert e (elems s)"
  by (cases "e \<in> elems s") (use put_new put_old in \<open>fastforce simp: insert_absorb\<close>)+

lemma put_all_some:
  assumes "wf s" and "distinct es" and "set es \<inter> elems s = {}"
  shows "\<exists>s'. put_all put s es = Some s' \<and> wf s' \<and> elems s' = set es \<union> elems s"
  using assms
proof (induction es arbitrary: s)
  case Nil
  then show ?case by simp
next
  case (Cons e es)
  then obtain s1 where "put s e = PutAdded s1" "wf s1" "elems s1 = insert e (elems s)"
    using put_new [of s e] by auto
  with Cons.IH [of s1] Cons.prems show ?case by auto
qed

lemma put_all_someD:
  assumes "wf s" and "put_all put s es = Some s'"
  shows "distinct es \<and> set es \<inter> elems s = {} \<and> wf s' \<and> elems s' = set es \<union> elems s"
  using assms
proof (induction es arbitrary: s)
  case Nil
  then show ?case by simp
next
  case (Cons e es)
  then obtain s1 where s1: "put s e = PutAdded s1" "put_all put s1 es = Some s'"
    by (auto split: put_result.splits)
  with put_addedD [OF Cons.prems(1)] Cons.IH [of s1] show ?case by auto
qed

lemma mem_after_put_all:
  assumes "put_all put empty es = Some s"
  shows "mem s e \<longleftrightarrow> e \<in> set es"
  using put_all_someD [OF wf_empty assms] by (simp add: mem_elems elems_empty)

end

section \<open>The hash table implements the interface\<close>

definition hs_elems :: "hash_set \<Rightarrow> bytes set" where
  "hs_elems s = (\<Union>i < hs_size s. set (hs_table s i))"

definition hs_wf :: "hash_set \<Rightarrow> bool" where
  "hs_wf s \<longleftrightarrow> hs_level s = 0 \<and> 0 < hs_size s \<and>
     (\<forall>i < hs_size s. distinct (hs_table s i) \<and> (\<forall>e \<in> set (hs_table s i). bucket s e = i))"

lemma chain_has_iff: "chain_has c e \<longleftrightarrow> e \<in> set c"
  by (induction c) auto

lemma bucket_less: "hs_wf s \<Longrightarrow> bucket s e < hs_size s"
  by (simp add: hs_wf_def bucket_def)

lemma hs_elems_bucket: "hs_wf s \<Longrightarrow> e \<in> hs_elems s \<longleftrightarrow> e \<in> set (hs_table s (bucket s e))"
  unfolding hs_elems_def using bucket_less [of s e] by (auto simp: hs_wf_def)

lemma bucket_table [simp]: "bucket (s\<lparr>hs_table := t\<rparr>) e = bucket s e"
  by (simp add: bucket_def)

lemma bucket_level [simp]: "bucket (s\<lparr>hs_level := l\<rparr>) e = bucket s e"
  by (simp add: bucket_def)

lemma blob_set_exists_elems: "hs_wf s \<Longrightarrow> blob_set_exists s e \<longleftrightarrow> e \<in> hs_elems s"
  by (simp add: blob_set_exists_def chain_has_iff hs_elems_bucket)

lemma hs_elems_insert:
  assumes "i < hs_size s"
  shows "hs_elems (s\<lparr>hs_table := (hs_table s)(i := e # hs_table s i)\<rparr>) = insert e (hs_elems s)"
  unfolding hs_elems_def using assms by (auto split: if_splits)

lemma blob_set_put_new:
  assumes "hs_wf s" and "e \<notin> hs_elems s"
  shows "\<exists>s'. blob_set_put s e = PutAdded s' \<and> hs_wf s' \<and> hs_elems s' = insert e (hs_elems s)"
proof -
  let ?i = "bucket s e"
  let ?s = "s\<lparr>hs_table := (hs_table s)(?i := e # hs_table s ?i)\<rparr>"
  have put: "blob_set_put s e = PutAdded ?s"
    using assms by (simp add: blob_set_put_def blob_set_exists_elems hs_wf_def Let_def)
  have "hs_wf ?s"
    using assms hs_elems_bucket [OF assms(1), of e] by (auto simp: hs_wf_def)
  with put hs_elems_insert [OF bucket_less [OF assms(1)], of e e] show ?thesis by blast
qed

interpretation hs: blob_set_api blob_set_alloc blob_set_put blob_set_exists hs_elems hs_wf
proof unfold_locales
  show "hs_wf blob_set_alloc"
    by (simp add: hs_wf_def blob_set_alloc_def HASH_TABLE_SIZE_def)
  show "hs_elems blob_set_alloc = {}"
    by (simp add: hs_elems_def blob_set_alloc_def)
  show "hs_wf s \<Longrightarrow> blob_set_exists s e \<longleftrightarrow> e \<in> hs_elems s" for s e
    by (rule blob_set_exists_elems)
  show "hs_wf s \<Longrightarrow> e \<in> hs_elems s \<Longrightarrow> blob_set_put s e = PutExists" for s e
    by (simp add: blob_set_put_def blob_set_exists_elems hs_wf_def)
  show "hs_wf s \<Longrightarrow> e \<notin> hs_elems s \<Longrightarrow>
      \<exists>s'. blob_set_put s e = PutAdded s' \<and> hs_wf s' \<and> hs_elems s' = insert e (hs_elems s)" for s e
    by (rule blob_set_put_new)
qed

section \<open>Traversal\<close>

text \<open>The callback that records what it sees and stops before the \<open>n\<close>-th element is reached.\<close>

lemma each_chain_collect:
  "each_chain (\<lambda>v n acc. (0, f v n acc)) c acc = (0, fold (\<lambda>v. f v (length v)) c acc)"
  by (induction c arbitrary: acc) auto

lemma each_table_collect:
  "each_table (\<lambda>v n acc. (0, f v n acc)) t acc = (0, fold (\<lambda>v. f v (length v)) (concat t) acc)"
  by (induction t arbitrary: acc) (auto simp: each_chain_collect)

lemma buckets_disjoint:
  assumes "hs_wf s" and "i < hs_size s" and "j < hs_size s" and "i \<noteq> j"
  shows "set (hs_table s i) \<inter> set (hs_table s j) = {}"
proof -
  have "bucket s e = i" if "e \<in> set (hs_table s i)" for e
    using assms that by (simp add: hs_wf_def)
  moreover have "bucket s e = j" if "e \<in> set (hs_table s j)" for e
    using assms that by (simp add: hs_wf_def)
  ultimately show ?thesis using assms(4) by auto
qed

lemma distinct_concat_buckets:
  assumes "hs_wf s" and "n \<le> hs_size s"
  shows "distinct (concat (map (hs_table s) [0..<n]))"
  using assms(2)
proof (induction n)
  case 0
  then show ?case by simp
next
  case (Suc n)
  have "e \<notin> set (hs_table s n)" if "i < n" "e \<in> set (hs_table s i)" for i e
    using buckets_disjoint [OF assms(1), of i n] that Suc.prems by auto
  moreover have "distinct (hs_table s n)" using assms(1) Suc.prems by (simp add: hs_wf_def)
  ultimately show ?case using Suc.IH Suc.prems by auto
qed

lemma concat_buckets_elems: "set (concat (map (hs_table s) [0..<hs_size s])) = hs_elems s"
  by (auto simp: hs_elems_def)

lemma fold_record: "fold (\<lambda>v acc. (v, length v) # acc) c acc = rev (map (\<lambda>v. (v, length v)) c) @ acc"
  by (induction c arbitrary: acc) auto

text \<open>
  A complete traversal calls the callback once for each element of the set, with its length, and
  leaves the set as it was.
\<close>

lemma for_each_records:
  "blob_set_for_each s (\<lambda>v n acc. (0, (v, n) # acc)) [] =
     ((0, rev (map (\<lambda>v. (v, length v)) (concat (map (hs_table s) [0..<hs_size s])))), s)"
  by (simp add: blob_set_for_each_def Let_def each_table_collect fold_record)

text \<open>A put from inside a traversal is refused: the table cannot change under the walk.\<close>

lemma put_in_for_each: "blob_set_put (s\<lparr>hs_level := hs_level s + 1\<rparr>) e = PutPanic"
  by (simp add: blob_set_put_def)

text \<open>
  C33: the hash set refines a mathematical set.  Inserting a list of strings into a fresh set with
  \<^verbatim>\<open>blob_set_put\<close> meets no duplicate (and no panic) exactly when the strings are distinct, and
  afterwards \<^verbatim>\<open>blob_set_exists\<close> answers for exactly the inserted strings, whatever the hash
  collisions.
\<close>

theorem blob_set_refines_set:
  "(put_all blob_set_put blob_set_alloc es \<noteq> None \<longleftrightarrow> distinct es) \<and>
   (case put_all blob_set_put blob_set_alloc es of
      None \<Rightarrow> True
    | Some s \<Rightarrow> (\<forall>e. blob_set_exists s e \<longleftrightarrow> e \<in> set es))"
proof (cases "put_all blob_set_put blob_set_alloc es")
  case None
  then show ?thesis
    using hs.put_all_some [OF hs.wf_empty, of es] by (auto simp: hs.elems_empty)
next
  case (Some s)
  then show ?thesis
    using hs.put_all_someD [OF hs.wf_empty Some] hs.mem_after_put_all [OF Some] by simp
qed


lemma two_elements: "put_all blob_set_put blob_set_alloc [''a:1'', ''b:2''] \<noteq> None"
  using hs.put_all_some [OF hs.wf_empty, of "[''a:1'', ''b:2'']"] by (auto simp: hs.elems_empty)


end
