(* ===== verification/Udig_Set.thy ===== *)
theory Udig_Set
  imports Blob_Set
begin

text \<open>
  \<^verbatim>\<open>blob2udig_set\<close> of \<^verbatim>\<open>bio4d/brr.c\<close>: the state machine that parses the blob of a roll request,
  one udig per line, into a set of udigs and a set of algorithms.  It is stated over any
  implementation of the interface of \<open>Blob_Set\<close> and instantiated with the hash table.
\<close>

section \<open>The parser\<close>

datatype parse_state = NEW_UDIG | IN_ALGORITHM | IN_DIGEST | PUT_UDIG

text \<open>
  The parser's variables: \<open>up_rest\<close> is the blob from \<^verbatim>\<open>b\<close> to \<^verbatim>\<open>b_end\<close>, \<open>up_cur\<close> the blob from
  \<^verbatim>\<open>udig_start\<close> to \<^verbatim>\<open>b\<close>, and \<open>up_dig\<close> is \<^verbatim>\<open>digest_start - udig_start\<close>.
\<close>

record 's udig_parser =
  up_state :: parse_state
  up_rest :: bytes
  up_cur :: bytes
  up_dig :: nat
  up_line :: nat
  up_uset :: 's
  up_aset :: 's

datatype croak =
    LastNotNewline
  | EmptyUdig nat
  | UnexpectedColon nat
  | FirstNotAZ char nat
  | NonGraphic char nat
  | AlgorithmTooLong nat
  | NonGraphicAlgorithm char nat
  | DigestTooLong nat
  | NonGraphicDigest char nat
  | DuplicateUdig bytes

datatype 's parse_result = ParsePanic | Croak croak | Parsed 's 's

datatype 's parse_step = Next "'s udig_parser" | Stop "'s parse_result"

text \<open>The body of the loop on the character \<open>c\<close> at \<^verbatim>\<open>b\<close>, with \<^verbatim>\<open>b\<close> already incremented.\<close>

definition new_udig_step :: "'s udig_parser \<Rightarrow> char \<Rightarrow> bytes \<Rightarrow> 's parse_step" where
  "new_udig_step p c b =
     (if c = NL then Stop (Croak (EmptyUdig (up_line p)))
      else if c = CHR '':'' then Stop (Croak (UnexpectedColon (up_line p)))
      else if code (CHR ''a'') \<le> code c \<and> code c < code (CHR ''z'') then
        Next (p\<lparr>up_rest := b, up_cur := [c], up_state := IN_ALGORITHM\<rparr>)
      else if c_isgraph c then Stop (Croak (FirstNotAZ c (up_line p)))
      else Stop (Croak (NonGraphic c (up_line p))))"

definition in_algorithm_step :: "'s udig_parser \<Rightarrow> char \<Rightarrow> bytes \<Rightarrow> 's parse_step" where
  "in_algorithm_step p c b =
     (let cur = up_cur p @ [c] in
      if length cur > MAX_ALGORITHM_SIZE then Stop (Croak (AlgorithmTooLong (up_line p)))
      else if c = CHR '':'' then
        Next (p\<lparr>up_rest := b, up_cur := cur, up_dig := length cur + 1, up_state := IN_DIGEST\<rparr>)
      else if \<not> c_isgraph c then Stop (Croak (NonGraphicAlgorithm c (up_line p)))
      else Next (p\<lparr>up_rest := b, up_cur := cur\<rparr>))"

text \<open>The newline is overwritten with NUL and pushed back: \<^verbatim>\<open>*--b = 0\<close>.\<close>

definition in_digest_step :: "'s udig_parser \<Rightarrow> char \<Rightarrow> bytes \<Rightarrow> 's parse_step" where
  "in_digest_step p c b =
     (if up_dig p > MAX_DIGEST_SIZE then Stop (Croak (DigestTooLong (up_line p)))
      else if c = NL then
        Next (p\<lparr>up_rest := NUL # b, up_line := up_line p + 1, up_state := PUT_UDIG\<rparr>)
      else if \<not> c_isgraph c then Stop (Croak (NonGraphicDigest c (up_line p)))
      else Next (p\<lparr>up_rest := b, up_cur := up_cur p @ [c]\<rparr>))"

text \<open>
  The character is the NUL pushed back; the udig has \<^verbatim>\<open>b - udig_start - 1\<close> characters and its
  algorithm \<^verbatim>\<open>digest_start - udig_start - 2\<close>.
\<close>

definition put_udig_step ::
  "('s \<Rightarrow> bytes \<Rightarrow> 's put_result) \<Rightarrow> 's udig_parser \<Rightarrow> char \<Rightarrow> bytes \<Rightarrow> 's parse_step" where
  "put_udig_step put p c b =
     (let udig = take (length (up_cur p @ [c]) - 1) (up_cur p @ [c]) in
      case put (up_uset p) udig of
        PutPanic \<Rightarrow> Stop ParsePanic
      | PutExists \<Rightarrow> Stop (Croak (DuplicateUdig udig))
      | PutAdded uset \<Rightarrow>
          (case put_quiet put (up_aset p) (take (up_dig p - 2) (up_cur p)) of
             None \<Rightarrow> Stop ParsePanic
           | Some aset \<Rightarrow>
               Next (p\<lparr>up_rest := b, up_cur := [], up_uset := uset, up_aset := aset,
                       up_state := NEW_UDIG\<rparr>)))"

definition udig_step ::
  "('s \<Rightarrow> bytes \<Rightarrow> 's put_result) \<Rightarrow> 's udig_parser \<Rightarrow> char \<Rightarrow> bytes \<Rightarrow> 's parse_step" where
  "udig_step put p c b =
     (case up_state p of
        NEW_UDIG \<Rightarrow> new_udig_step p c b
      | IN_ALGORITHM \<Rightarrow> in_algorithm_step p c b
      | IN_DIGEST \<Rightarrow> in_digest_step p c b
      | PUT_UDIG \<Rightarrow> put_udig_step put p c b)"

text \<open>What is left to do: the pushed-back newline is read twice.\<close>

definition up_work :: "'s udig_parser \<Rightarrow> nat" where
  "up_work p = 2 * length (up_rest p) + (if up_state p = PUT_UDIG then 0 else 1)"

lemmas udig_step_defs =
  udig_step_def new_udig_step_def in_algorithm_step_def in_digest_step_def put_udig_step_def Let_def

lemma udig_step_work:
  "up_rest p = c # b \<Longrightarrow> udig_step put p c b = Next q \<Longrightarrow> up_work q < up_work p"
  by (auto simp: udig_step_defs up_work_def
      split: parse_state.splits if_splits put_result.splits option.splits)

function udig_loop :: "('s \<Rightarrow> bytes \<Rightarrow> 's put_result) \<Rightarrow> 's udig_parser \<Rightarrow> 's parse_result" where
  "udig_loop put p =
     (case up_rest p of
        [] \<Rightarrow> if up_state p \<noteq> NEW_UDIG then ParsePanic else Parsed (up_uset p) (up_aset p)
      | c # b \<Rightarrow> (case udig_step put p c b of Stop r \<Rightarrow> r | Next q \<Rightarrow> udig_loop put q))"
  by pat_completeness auto
termination
  by (relation "measure (\<lambda>(put, p). up_work p)") (auto dest: udig_step_work)

declare udig_loop.simps [simp del]

definition parse_udigs ::
  "('s \<Rightarrow> bytes \<Rightarrow> 's put_result) \<Rightarrow> 's \<Rightarrow> bytes \<Rightarrow> 's parse_result" where
  "parse_udigs put fresh blob =
     (if length blob = 0 then ParsePanic
      else if last blob \<noteq> NL then Croak LastNotNewline
      else udig_loop put
        \<lparr>up_state = NEW_UDIG, up_rest = blob, up_cur = [], up_dig = 0, up_line = 1,
         up_uset = fresh, up_aset = fresh\<rparr>)"

definition blob2udig_set :: "bytes \<Rightarrow> hash_set parse_result" where
  "blob2udig_set blob = parse_udigs blob_set_put blob_set_alloc blob"


section \<open>The language of a udig set\<close>

text \<open>
  What one line of the blob may be, as the code tests it: an algorithm of one to seven graphic
  characters that starts with a letter from a to y and has no colon, a colon, and any graphic
  characters.
\<close>

definition set_algorithm :: "bytes \<Rightarrow> bool" where
  "set_algorithm a \<longleftrightarrow> a \<noteq> [] \<and> length a \<le> 7 \<and> code (CHR ''a'') \<le> code (hd a) \<and>
     code (hd a) < code (CHR ''z'') \<and> CHR '':'' \<notin> set a \<and> (\<forall>c \<in> set a. c_isgraph c)"

definition set_udig :: "bytes \<Rightarrow> bool" where
  "set_udig u \<longleftrightarrow> (\<exists>a d. u = a @ CHR '':'' # d \<and> set_algorithm a \<and> (\<forall>c \<in> set d. c_isgraph c))"

definition algorithm_of :: "bytes \<Rightarrow> bytes" where
  "algorithm_of u = takeWhile (\<lambda>c. c \<noteq> CHR '':'') u"

definition nl_lines :: "bytes list \<Rightarrow> bytes" where
  "nl_lines us = concat (map (\<lambda>u. u @ [NL]) us)"

lemma nl_lines_simps [simp]:
  "nl_lines [] = []"
  "nl_lines (u # us) = u @ NL # nl_lines us"
  by (simp_all add: nl_lines_def)

lemma algorithm_of_append [simp]: "CHR '':'' \<notin> set a \<Longrightarrow> algorithm_of (a @ CHR '':'' # d) = a"
  by (auto simp: algorithm_of_def takeWhile_append)

lemma set_algorithm_colon: "set_algorithm a \<Longrightarrow> CHR '':'' \<notin> set a"
  by (simp add: set_algorithm_def)

lemma set_udig_graph: "set_udig u \<Longrightarrow> c \<in> set u \<Longrightarrow> c_isgraph c"
  by (auto simp: set_udig_def set_algorithm_def) (simp add: c_isgraph_def)

lemma set_udig_no_nl: "set_udig u \<Longrightarrow> NL \<notin> set u"
  using set_udig_graph [of u NL] by (auto simp: c_isgraph_def)

lemma set_udig_not_Nil: "set_udig u \<Longrightarrow> u \<noteq> []"
  by (auto simp only: set_udig_def append_is_Nil_conv list.distinct)

lemma set_udig_algorithm: "set_algorithm a \<Longrightarrow> set_udig (a @ '':'') \<and> algorithm_of (a @ '':'') = a"
  using algorithm_of_append [of a "[]"] set_algorithm_colon [of a]
  unfolding set_udig_def by (intro conjI exI [of _ a] exI [of _ "[]"]) auto

lemma hd_in_algorithm:
  "set_algorithm (c # a) \<Longrightarrow> code (CHR ''a'') \<le> code c \<and> code c < code (CHR ''z'')"
  by (simp add: set_algorithm_def)

lemma c_isgraph_a_y: "code (CHR ''a'') \<le> code c \<Longrightarrow> code c < code (CHR ''z'') \<Longrightarrow> c_isgraph c"
  by (simp add: c_isgraph_def)

text \<open>The part of the current udig that the parser has read, state by state.\<close>

definition up_inv :: "'s udig_parser \<Rightarrow> bool" where
  "up_inv p \<longleftrightarrow>
     (case up_state p of
        NEW_UDIG \<Rightarrow> True
      | IN_ALGORITHM \<Rightarrow> up_cur p \<noteq> [] \<and> length (up_cur p) \<le> 8 \<and>
          code (CHR ''a'') \<le> code (hd (up_cur p)) \<and> code (hd (up_cur p)) < code (CHR ''z'') \<and>
          CHR '':'' \<notin> set (up_cur p) \<and> (\<forall>c \<in> set (up_cur p). c_isgraph c)
      | IN_DIGEST \<Rightarrow> set_udig (up_cur p) \<and> up_dig p = length (algorithm_of (up_cur p)) + 2
      | PUT_UDIG \<Rightarrow> set_udig (up_cur p) \<and> up_dig p = length (algorithm_of (up_cur p)) + 2 \<and>
          (\<exists>b. up_rest p = NUL # b))"

text \<open>The text still to be accounted for: the current udig with what follows.\<close>

definition up_pending :: "'s udig_parser \<Rightarrow> bytes" where
  "up_pending p =
     (case up_state p of
        NEW_UDIG \<Rightarrow> up_rest p
      | IN_ALGORITHM \<Rightarrow> up_cur p @ up_rest p
      | IN_DIGEST \<Rightarrow> up_cur p @ up_rest p
      | PUT_UDIG \<Rightarrow> up_cur p @ NL # tl (up_rest p))"

lemma set_udig_snoc: "set_udig u \<Longrightarrow> c_isgraph c \<Longrightarrow> set_udig (u @ [c]) \<and>
    algorithm_of (u @ [c]) = algorithm_of u"
proof -
  assume "set_udig u" "c_isgraph c"
  then obtain a d where ad: "u = a @ CHR '':'' # d" "set_algorithm a" "\<forall>c \<in> set d. c_isgraph c"
    by (auto simp: set_udig_def)
  have "u @ [c] = a @ CHR '':'' # (d @ [c])" using ad by simp
  moreover have "\<forall>c \<in> set (d @ [c]). c_isgraph c" using ad \<open>c_isgraph c\<close> by simp
  ultimately show ?thesis
    using ad set_algorithm_colon [OF ad(2)] algorithm_of_append [of a d]
      algorithm_of_append [of a "d @ [c]"]
    by (metis set_udig_def)
qed

lemma algorithm_len: "set_udig u \<Longrightarrow> length (algorithm_of u) \<le> 7 \<and>
    take (length (algorithm_of u)) u = algorithm_of u"
  by (auto simp: set_udig_def set_algorithm_def)

lemma pending_algorithm:
  assumes "up_inv p" and "up_state p = IN_ALGORITHM" and "length (up_cur p) \<le> 7"
  shows "set_algorithm (up_cur p)"
  using assms by (simp add: up_inv_def set_algorithm_def)

lemma udig_step_inv:
  assumes "up_inv p" and "up_rest p = c # b" and "udig_step put p c b = Next q"
  shows "up_inv q"
proof (cases "up_state p")
  case NEW_UDIG
  then show ?thesis using assms
    by (auto simp: udig_step_def new_udig_step_def up_inv_def c_isgraph_def split: if_splits)
next
  case IN_ALGORITHM
  show ?thesis
  proof (cases "c = CHR '':''")
    case True
    then have "length (up_cur p) \<le> 7" and
      q: "q = p\<lparr>up_rest := b, up_cur := up_cur p @ '':'', up_dig := length (up_cur p) + 2,
                up_state := IN_DIGEST\<rparr>"
      using assms IN_ALGORITHM
      by (auto simp: udig_step_def in_algorithm_step_def Let_def MAX_ALGORITHM_SIZE_def
          split: if_splits)
    with pending_algorithm [OF assms(1) IN_ALGORITHM]
    have "set_algorithm (up_cur p)" by simp
    from set_udig_algorithm [OF this] show ?thesis unfolding q by (simp add: up_inv_def)
  next
    case False
    with IN_ALGORITHM assms show ?thesis
      by (auto simp: udig_step_def in_algorithm_step_def up_inv_def Let_def
          MAX_ALGORITHM_SIZE_def split: if_splits)
  qed
next
  case IN_DIGEST
  then show ?thesis using assms set_udig_snoc [of "up_cur p" c]
    by (auto simp: udig_step_def in_digest_step_def up_inv_def split: if_splits)
next
  case PUT_UDIG
  then show ?thesis using assms
    by (auto simp: udig_step_def put_udig_step_def up_inv_def Let_def
        split: if_splits put_result.splits option.splits)
qed

text \<open>A step that goes on reads the pending text or files its first line.\<close>

lemma udig_step_read:
  assumes "up_inv p" and "up_rest p = c # b" and "udig_step put p c b = Next q"
    and "up_state p \<noteq> PUT_UDIG"
  shows "up_pending q = up_pending p \<and> up_uset q = up_uset p \<and> up_aset q = up_aset p"
  using assms
  by (cases "up_state p")
    (auto simp: udig_step_def new_udig_step_def in_algorithm_step_def in_digest_step_def Let_def
      up_pending_def split: if_splits)

lemma udig_step_put:
  assumes "up_inv p" and "up_rest p = c # b" and "up_state p = PUT_UDIG"
  shows "udig_step put p c b =
      (case put (up_uset p) (up_cur p) of
         PutPanic \<Rightarrow> Stop ParsePanic
       | PutExists \<Rightarrow> Stop (Croak (DuplicateUdig (up_cur p)))
       | PutAdded uset \<Rightarrow>
           (case put_quiet put (up_aset p) (algorithm_of (up_cur p)) of
              None \<Rightarrow> Stop ParsePanic
            | Some aset \<Rightarrow> Next (p\<lparr>up_rest := b, up_cur := [], up_uset := uset, up_aset := aset,
                up_state := NEW_UDIG\<rparr>)))"
    and "up_pending p = up_cur p @ NL # b" and "set_udig (up_cur p)"
proof -
  have inv: "set_udig (up_cur p)" "up_dig p - 2 = length (algorithm_of (up_cur p))"
    using assms by (auto simp: up_inv_def)
  have t: "take (up_dig p - 2) (up_cur p) = algorithm_of (up_cur p)"
    using algorithm_len [OF inv(1)] by (simp add: inv(2))
  have whole: "take (length (up_cur p @ [c]) - 1) (up_cur p @ [c]) = up_cur p" by simp
  show "set_udig (up_cur p)" by (rule inv)
  show "up_pending p = up_cur p @ NL # b" using assms by (simp add: up_pending_def)
  show "udig_step put p c b =
      (case put (up_uset p) (up_cur p) of
         PutPanic \<Rightarrow> Stop ParsePanic
       | PutExists \<Rightarrow> Stop (Croak (DuplicateUdig (up_cur p)))
       | PutAdded uset \<Rightarrow>
           (case put_quiet put (up_aset p) (algorithm_of (up_cur p)) of
              None \<Rightarrow> Stop ParsePanic
            | Some aset \<Rightarrow> Next (p\<lparr>up_rest := b, up_cur := [], up_uset := uset, up_aset := aset,
                up_state := NEW_UDIG\<rparr>)))"
    unfolding udig_step_def put_udig_step_def Let_def t assms(3) whole by simp
qed

text \<open>The first line of a pending text that is a list of udigs, met by the parser in mid-udig.\<close>

lemma prefix_no_sep:
  "p @ c # b = u @ x # r \<Longrightarrow> x \<notin> set p \<Longrightarrow> c \<noteq> x \<Longrightarrow> \<exists>v. u = p @ c # v"
proof (induction p arbitrary: u)
  case Nil
  then show ?case by (cases u) auto
next
  case (Cons a p)
  then show ?case by (cases u) auto
qed

lemma stop_in_algorithm:
  assumes "up_inv p" and "up_rest p = c # b" and "up_state p = IN_ALGORITHM"
    and "up_pending p = nl_lines us" and "\<forall>u \<in> set us. set_udig u"
  shows "\<exists>q. udig_step put p c b = Next q"
proof -
  have pend: "up_cur p @ c # b = nl_lines us" using assms by (simp add: up_pending_def)
  then obtain u us' where us: "us = u # us'" by (cases us) auto
  then obtain a d where u: "u = a @ CHR '':'' # d" "set_algorithm a" "\<forall>c \<in> set d. c_isgraph c"
    using assms(5) by (auto simp: set_udig_def)
  have eq: "up_cur p @ c # b = a @ CHR '':'' # (d @ NL # nl_lines us')"
    using pend us u by simp
  have nc: "CHR '':'' \<notin> set (up_cur p)" using assms by (simp add: up_inv_def)
  show ?thesis
  proof (cases "c = CHR '':''")
    case True
    then have "up_cur p = a"
      using append_sep_eq [of "up_cur p" "CHR '':''"] eq nc set_algorithm_colon [OF u(2)] by auto
    then have "length (up_cur p) \<le> 7" using u by (simp add: set_algorithm_def)
    with True show ?thesis
      using assms(3) by (simp add: udig_step_def in_algorithm_step_def Let_def MAX_ALGORITHM_SIZE_def)
  next
    case False
    with prefix_no_sep [OF eq nc] obtain v where "a = up_cur p @ c # v" by auto
    with u have "length (up_cur p) < 7" "c_isgraph c" by (auto simp: set_algorithm_def)
    with False show ?thesis
      using assms(3) by (simp add: udig_step_def in_algorithm_step_def Let_def MAX_ALGORITHM_SIZE_def)
  qed
qed

lemma stop_in_digest:
  assumes "up_inv p" and "up_rest p = c # b" and "up_state p = IN_DIGEST"
    and "up_pending p = nl_lines us" and "\<forall>u \<in> set us. set_udig u"
  shows "\<exists>q. udig_step put p c b = Next q"
proof -
  have pend: "up_cur p @ c # b = nl_lines us" using assms by (simp add: up_pending_def)
  then obtain u us' where us: "us = u # us'" by (cases us) auto
  then obtain a d where u: "u = a @ CHR '':'' # d" "set_algorithm a" "\<forall>c \<in> set d. c_isgraph c"
    using assms(5) by (auto simp: set_udig_def)
  have cur: "NL \<notin> set (up_cur p)" "up_dig p \<le> 9"
    using assms(1,3) algorithm_len [of "up_cur p"] set_udig_no_nl by (auto simp: up_inv_def)
  have "c_isgraph c" if "c \<noteq> NL"
  proof -
    have "up_cur p @ c # b = u @ NL # nl_lines us'" using pend us by simp
    from prefix_no_sep [OF this cur(1) that] have "c \<in> set u" by auto
    with u show ?thesis by (auto simp: set_algorithm_def c_isgraph_def)
  qed
  with cur show ?thesis
    using assms(3) by (auto simp: udig_step_def in_digest_step_def MAX_DIGEST_SIZE_def)
qed

lemma stop_new_udig:
  assumes "up_rest p = c # b" and "up_state p = NEW_UDIG"
    and "up_pending p = nl_lines us" and "\<forall>u \<in> set us. set_udig u"
  shows "\<exists>q. udig_step put p c b = Next q"
proof -
  have pend: "c # b = nl_lines us" using assms by (simp add: up_pending_def)
  then obtain u us' where us: "us = u # us'" by (cases us) auto
  then obtain a d where u: "u = a @ CHR '':'' # d" "set_algorithm a"
    using assms(4) by (auto simp: set_udig_def)
  then obtain a' where "a = c # a'" using pend us by (cases a) (auto simp: set_algorithm_def)
  with u(2) have "code (CHR ''a'') \<le> code c" "code c < code (CHR ''z'')" "c \<noteq> CHR '':''"
    by (auto simp: set_algorithm_def)
  moreover from this have "c \<noteq> NL" by auto
  ultimately show ?thesis using assms(2) by (simp add: udig_step_def new_udig_step_def)
qed

lemma stop_never:
  assumes "up_inv p" and "up_rest p = c # b" and "up_state p \<noteq> PUT_UDIG"
    and "up_pending p = nl_lines us" and "\<forall>u \<in> set us. set_udig u"
  shows "\<exists>q. udig_step put p c b = Next q"
  using assms stop_new_udig [of p c b us put] stop_in_algorithm [of p c b us put]
    stop_in_digest [of p c b us put]
  by (cases "up_state p") auto

lemma udig_step_not_Parsed: "udig_step put p c b \<noteq> Stop (Parsed us as)"
  by (auto simp: udig_step_defs split: parse_state.splits if_splits put_result.splits option.splits)

section \<open>The parser over the set interface\<close>

context blob_set_api
begin

text \<open>Whatever is parsed is a list of distinct udigs, one per line, all of them filed.\<close>

lemma udig_loop_sound:
  assumes "udig_loop put p = Parsed us as" and "up_inv p"
    and "wf (up_uset p)" and "wf (up_aset p)"
  shows "\<exists>xs. up_pending p = nl_lines xs \<and> (\<forall>x \<in> set xs. set_udig x) \<and>
    put_all put (up_uset p) xs = Some us \<and> wf as \<and>
    elems as = algorithm_of ` set xs \<union> elems (up_aset p)"
  using assms
proof (induction "up_work p" arbitrary: p rule: less_induct)
  case less
  show ?case
  proof (cases "up_rest p")
    case Nil
    with less.prems show ?thesis
      by (auto simp: udig_loop.simps [of put p] up_pending_def split: if_splits
          intro: exI [of _ "[]"])
  next
    case (Cons c b)
    then obtain q where q: "udig_step put p c b = Next q" and lq: "udig_loop put q = Parsed us as"
      using less.prems(1) udig_step_not_Parsed [of put p c b]
      by (auto simp: udig_loop.simps [of put p] split: parse_step.splits)
    note IH = less.hyps [OF udig_step_work [OF Cons q] lq udig_step_inv [OF less.prems(2) Cons q]]
    show ?thesis
    proof (cases "up_state p = PUT_UDIG")
      case False
      from udig_step_read [OF less.prems(2) Cons q False] IH less.prems show ?thesis by simp
    next
      case True
      note step = udig_step_put [OF less.prems(2) Cons True]
      obtain u1 where u1: "put (up_uset p) (up_cur p) = PutAdded u1"
        using q step(1) [of put] by (auto split: put_result.splits)
      obtain a1 where a1: "put_quiet put (up_aset p) (algorithm_of (up_cur p)) = Some a1"
        "wf a1" "elems a1 = insert (algorithm_of (up_cur p)) (elems (up_aset p))"
        using put_quiet_some [OF less.prems(4)] by blast
      have q': "q = p\<lparr>up_rest := b, up_cur := [], up_uset := u1, up_aset := a1,
                        up_state := NEW_UDIG\<rparr>"
        using q step(1) [of put] u1 a1(1) by simp
      obtain xs where xs: "up_pending q = nl_lines xs" "\<forall>x \<in> set xs. set_udig x"
        "put_all put (up_uset q) xs = Some us" "wf as"
        "elems as = algorithm_of ` set xs \<union> elems (up_aset q)"
        using IH a1(2) put_addedD [OF less.prems(3) u1] by (auto simp: q')
      have "up_pending p = nl_lines (up_cur p # xs)"
        using xs(1) step(2) by (simp add: q' up_pending_def)
      with xs step(3) u1 a1(3) show ?thesis
        by (intro exI [of _ "up_cur p # xs"]) (simp add: q')
    qed
  qed
qed

text \<open>A list of distinct udigs, one per line, is parsed.\<close>

lemma udig_loop_complete:
  assumes "up_pending p = nl_lines xs" and "\<forall>x \<in> set xs. set_udig x" and "up_inv p"
    and "wf (up_uset p)" and "wf (up_aset p)" and "put_all put (up_uset p) xs = Some us"
  shows "\<exists>as. udig_loop put p = Parsed us as"
  using assms
proof (induction "up_work p" arbitrary: p xs rule: less_induct)
  case less
  show ?case
  proof (cases "up_rest p")
    case Nil
    have "up_state p = NEW_UDIG"
    proof (rule ccontr)
      assume ns: "up_state p \<noteq> NEW_UDIG"
      then have pend: "up_pending p = up_cur p"
        using less.prems(3) Nil by (cases "up_state p") (auto simp: up_pending_def up_inv_def)
      have "NL \<notin> set (up_cur p) \<and> up_cur p \<noteq> []"
        using less.prems(3) ns Nil set_udig_no_nl [of "up_cur p"] set_udig_not_Nil [of "up_cur p"]
        by (cases "up_state p") (auto simp: up_inv_def c_isgraph_def)
      moreover have "NL \<in> set (nl_lines xs)" if "xs \<noteq> []" using that by (cases xs) auto
      ultimately show False using pend less.prems(1) by (cases "xs = []") auto
    qed
    with Nil less.prems show ?thesis
      by (cases xs) (auto simp: udig_loop.simps [of put p] up_pending_def)
  next
    case (Cons c b)
    show ?thesis
    proof (cases "up_state p = PUT_UDIG")
      case False
      then obtain q where q: "udig_step put p c b = Next q"
        using stop_never [OF less.prems(3) Cons False less.prems(1,2)] by blast
      from udig_step_read [OF less.prems(3) Cons q False]
        less.hyps [OF udig_step_work [OF Cons q], of xs] udig_step_inv [OF less.prems(3) Cons q]
        less.prems
      show ?thesis by (simp add: udig_loop.simps [of put p] Cons q)
    next
      case True
      note step = udig_step_put [OF less.prems(3) Cons True]
      have nl: "NL \<notin> set (up_cur p)" using step(3) by (rule set_udig_no_nl)
      have "xs \<noteq> []" using less.prems(1) step(2) by auto
      then obtain x xs' where xs: "xs = x # xs'" by (cases xs) auto
      then have "up_cur p = x \<and> b = nl_lines xs'"
        using less.prems(1,2) step(2) nl set_udig_no_nl [of x]
          append_sep_eq [of "up_cur p" NL b x "nl_lines xs'"] by simp
      moreover from this obtain u1 where u1: "put (up_uset p) (up_cur p) = PutAdded u1"
        "put_all put u1 xs' = Some us"
        using less.prems(6) xs by (auto split: put_result.splits)
      moreover obtain a1 where a1: "put_quiet put (up_aset p) (algorithm_of (up_cur p)) = Some a1"
        "wf a1"
        using put_quiet_some [OF less.prems(5)] by blast
      ultimately have q: "udig_step put p c b = Next (p\<lparr>up_rest := b, up_cur := [],
          up_uset := u1, up_aset := a1, up_state := NEW_UDIG\<rparr>)" and b: "b = nl_lines xs'"
        using step(1) [of put] by simp_all
      show ?thesis
        using less.hyps [OF udig_step_work [OF Cons q], of xs'] udig_step_inv [OF less.prems(3) Cons q]
          less.prems(2) xs u1 a1(2) put_addedD [OF less.prems(4) u1(1)]
        by (simp add: udig_loop.simps [of put p] Cons q [unfolded b] up_pending_def b)
    qed
  qed
qed

text \<open>The parse of a whole blob.\<close>

lemma parse_udigs_sound:
  assumes "parse_udigs put empty blob = Parsed us as"
  shows "\<exists>xs. xs \<noteq> [] \<and> blob = nl_lines xs \<and> (\<forall>x \<in> set xs. set_udig x) \<and> distinct xs \<and>
    elems us = set xs \<and> elems as = algorithm_of ` set xs \<and> wf us \<and> wf as"
proof -
  let ?p = "\<lparr>up_state = NEW_UDIG, up_rest = blob, up_cur = [], up_dig = 0, up_line = 1,
    up_uset = empty, up_aset = empty\<rparr>"
  have b: "blob \<noteq> []" and l: "udig_loop put ?p = Parsed us as"
    using assms by (auto simp: parse_udigs_def split: if_splits)
  from udig_loop_sound [OF l] obtain xs where xs: "blob = nl_lines xs" "\<forall>x \<in> set xs. set_udig x"
    "put_all put empty xs = Some us" "wf as" "elems as = algorithm_of ` set xs"
    by (auto simp: up_inv_def up_pending_def wf_empty elems_empty)
  with b put_all_someD [OF wf_empty xs(3)] show ?thesis
    by (intro exI [of _ xs]) (auto simp: elems_empty)
qed

lemma last_nl_lines: "xs \<noteq> [] \<Longrightarrow> nl_lines xs \<noteq> [] \<and> last (nl_lines xs) = NL"
proof (induction xs)
  case (Cons x xs)
  then show ?case by (cases "xs = []") auto
qed simp

lemma parse_udigs_complete:
  assumes "xs \<noteq> []" and "\<forall>x \<in> set xs. set_udig x" and "distinct xs"
  shows "\<exists>us as. parse_udigs put empty (nl_lines xs) = Parsed us as"
proof -
  let ?p = "\<lparr>up_state = NEW_UDIG, up_rest = nl_lines xs, up_cur = [], up_dig = 0, up_line = 1,
    up_uset = empty, up_aset = empty\<rparr>"
  obtain us where "put_all put empty xs = Some us"
    using put_all_some [OF wf_empty assms(3)] by (auto simp: elems_empty)
  then obtain as where "udig_loop put ?p = Parsed us as"
    using udig_loop_complete [of ?p xs us] assms(2)
    by (auto simp: up_inv_def up_pending_def wf_empty)
  then show ?thesis using last_nl_lines [OF assms(1)] by (simp add: parse_udigs_def)
qed

text \<open>
  The panic at the end of the parse is dead: the blob ends in a newline, and every state reads a
  newline either as an error or as the end of its udig.
\<close>

lemma udig_loop_no_panic:
  assumes "up_inv p" and "wf (up_uset p)" and "wf (up_aset p)"
    and "up_rest p \<noteq> [] \<longrightarrow> last (up_rest p) = NL \<or> (up_state p = PUT_UDIG \<and> length (up_rest p) = 1)"
    and "up_rest p = [] \<longrightarrow> up_state p = NEW_UDIG"
  shows "udig_loop put p \<noteq> ParsePanic"
  using assms
proof (induction "up_work p" arbitrary: p rule: less_induct)
  case less
  show ?case
  proof (cases "up_rest p")
    case Nil
    with less.prems(5) show ?thesis by (simp add: udig_loop.simps [of put p])
  next
    case (Cons c b)
    show ?thesis
    proof (cases "udig_step put p c b")
      case (Stop r)
      have "r \<noteq> ParsePanic"
      proof (cases "up_state p = PUT_UDIG")
        case True
        with Stop show ?thesis
          using udig_step_put(1) [OF less.prems(1) Cons True, of put] put_no_panic [OF less.prems(2)]
            put_quiet_some [OF less.prems(3), of "algorithm_of (up_cur p)"]
          by (auto split: put_result.splits option.splits)
      next
        case False
        with Stop show ?thesis
          by (cases "up_state p") (auto simp: udig_step_defs split: if_splits)
      qed
      with Stop Cons show ?thesis by (simp add: udig_loop.simps [of put p])
    next
      case (Next q)
      have wf: "wf (up_uset q) \<and> wf (up_aset q)"
      proof (cases "up_state p = PUT_UDIG")
        case True
        with Next show ?thesis
          using udig_step_put(1) [OF less.prems(1) Cons True, of put] put_addedD [OF less.prems(2)]
            put_quiet_some [OF less.prems(3), of "algorithm_of (up_cur p)"]
          by (auto split: put_result.splits option.splits)
      next
        case False
        from udig_step_read [OF less.prems(1) Cons Next False] less.prems show ?thesis by simp
      qed
      have rest: "(up_rest q \<noteq> [] \<longrightarrow> last (up_rest q) = NL \<or>
          (up_state q = PUT_UDIG \<and> length (up_rest q) = 1)) \<and> (up_rest q = [] \<longrightarrow> up_state q = NEW_UDIG)"
        using Next less.prems(4) Cons
        by (cases "up_state p")
          (auto simp: udig_step_defs c_isgraph_def split: if_splits put_result.splits option.splits)
      show ?thesis
        using less.hyps [OF udig_step_work [OF Cons Next] udig_step_inv [OF less.prems(1) Cons Next]]
          wf rest Next Cons
        by (simp add: udig_loop.simps [of put p])
    qed
  qed
qed

lemma parse_udigs_no_panic: "blob \<noteq> [] \<Longrightarrow> parse_udigs put empty blob \<noteq> ParsePanic"
  using udig_loop_no_panic [of "\<lparr>up_state = NEW_UDIG, up_rest = blob, up_cur = [], up_dig = 0,
      up_line = 1, up_uset = empty, up_aset = empty\<rparr>"]
  by (auto simp: parse_udigs_def up_inv_def wf_empty)

end

section \<open>The roll set\<close>

text \<open>
  C11: \<^verbatim>\<open>blob2udig_set\<close> accepts a blob exactly when it is a non-empty sequence of distinct udig
  lines (with the algorithms the code's guards let through), and the two sets it returns then
  answer \<^verbatim>\<open>blob_set_exists\<close> for exactly the udigs of the blob and exactly their algorithms.  A
  non-empty blob never takes the parser to one of its panics.
\<close>

theorem blob2udig_set_correct:
  "((\<exists>us as. blob2udig_set blob = Parsed us as) \<longleftrightarrow>
     (\<exists>xs. xs \<noteq> [] \<and> blob = nl_lines xs \<and> (\<forall>x \<in> set xs. set_udig x) \<and> distinct xs)) \<and>
   (case blob2udig_set blob of
      Parsed us as \<Rightarrow>
        (\<exists>xs. blob = nl_lines xs \<and> (\<forall>e. blob_set_exists us e \<longleftrightarrow> e \<in> set xs) \<and>
              (\<forall>e. blob_set_exists as e \<longleftrightarrow> e \<in> algorithm_of ` set xs))
    | Croak e \<Rightarrow> True
    | ParsePanic \<Rightarrow> blob = [])"
proof (cases "blob2udig_set blob")
  case ParsePanic
  then show ?thesis
    using hs.parse_udigs_no_panic [of blob] hs.parse_udigs_complete
    by (auto simp: blob2udig_set_def) (metis parse_result.distinct(3))+
next
  case (Croak e)
  then show ?thesis using hs.parse_udigs_complete by (fastforce simp: blob2udig_set_def)
next
  case (Parsed us as)
  with hs.parse_udigs_sound [of blob us as] show ?thesis
    by (auto simp: blob2udig_set_def hs.mem_elems)
qed

theorem blob2udig_set_correct_witness:
  "(\<exists>us as. blob2udig_set (nl_lines [''sha:ab'', ''sha:cd'']) = Parsed us as) \<and>
   \<not> (\<exists>us as. blob2udig_set (nl_lines [''zip:ab'']) = Parsed us as)"
proof
  have a: "set_algorithm ''sha''" and d: "\<forall>c \<in> set ''ab''. c_isgraph c" "\<forall>c \<in> set ''cd''. c_isgraph c"
    by (simp_all add: set_algorithm_def c_isgraph_def)
  have "set_udig (''sha'' @ CHR '':'' # ''ab'') \<and> set_udig (''sha'' @ CHR '':'' # ''cd'')"
    using a d unfolding set_udig_def by blast
  then have "\<forall>x \<in> set [''sha:ab'', ''sha:cd'']. set_udig x" by simp
  then have "\<exists>xs. xs \<noteq> [] \<and> nl_lines [''sha:ab'', ''sha:cd''] = nl_lines xs \<and>
      (\<forall>x \<in> set xs. set_udig x) \<and> distinct xs"
    by (intro exI [of _ "[''sha:ab'', ''sha:cd'']"]) simp
  then show "\<exists>us as. blob2udig_set (nl_lines [''sha:ab'', ''sha:cd'']) = Parsed us as"
    by (rule iffD2 [OF conjunct1 [OF blob2udig_set_correct]])
  show "\<not> (\<exists>us as. blob2udig_set (nl_lines [''zip:ab'']) = Parsed us as)"
    by (simp add: blob2udig_set_def parse_udigs_def udig_loop.simps udig_step_def new_udig_step_def
        c_isgraph_def)
qed

end
