(* ===== verification/Io.thy ===== *)
theory Io
  imports Blobio_Prelude
begin

text \<open>
  \<^verbatim>\<open>bio4d/io.c\<close>: the wrappers that restart interrupted system calls, the buffered write, and the
  length-prefixed messages that the request children send to the logger processes.
\<close>

section \<open>Restarting an interrupted call\<close>

text \<open>
  Every wrapper of the file has the shape \<^verbatim>\<open>again: call; if it succeeded return; if errno == EINTR
  goto again; return -1\<close>.  The kernel is a parameter: a function from its state to the result and
  the new state.  \<open>None\<close> is a call interrupted forever.
\<close>

partial_function (option) io_again :: "('w \<Rightarrow> 'a sysret \<times> 'w) \<Rightarrow> 'w \<Rightarrow> ('a sysret \<times> 'w) option" where
  "io_again call w =
     (case call w of
        (Inr v, w') \<Rightarrow> Some (Inr v, w')
      | (Inl e, w') \<Rightarrow> if e = EINTR then io_again call w' else Some (Inl e, w'))"

text \<open>\<^verbatim>\<open>io_path_exists\<close>: 1 when it is there, 0 on \<open>ENOENT\<close>, -1 on any other error of \<^verbatim>\<open>stat\<close>.\<close>

definition io_path_exists :: "('w \<Rightarrow> 'a sysret \<times> 'w) \<Rightarrow> 'w \<Rightarrow> (int \<times> 'w) option" where
  "io_path_exists sys_stat w =
     (case io_again sys_stat w of
        None \<Rightarrow> None
      | Some (Inl e, w') \<Rightarrow> Some (if e = ENOENT then 0 else -1, w')
      | Some (Inr _, w') \<Rightarrow> Some (1, w'))"

text \<open>\<^verbatim>\<open>io_unlink\<close> treats a path that is not there as removed.\<close>

definition io_unlink :: "('w \<Rightarrow> unit sysret \<times> 'w) \<Rightarrow> 'w \<Rightarrow> (unit sysret \<times> 'w) option" where
  "io_unlink sys_unlink w =
     io_again (\<lambda>w. case sys_unlink w of
        (Inr u, w') \<Rightarrow> (Inr u, w')
      | (Inl e, w') \<Rightarrow> if e = ENOENT then (Inr (), w') else (Inl e, w')) w"

text \<open>The wrappers with nothing else in them; the argument is the system call on its arguments.\<close>

definition io_open :: "('w \<Rightarrow> int sysret \<times> 'w) \<Rightarrow> 'w \<Rightarrow> (int sysret \<times> 'w) option" where
  "io_open = io_again"

definition io_pipe :: "('w \<Rightarrow> (int \<times> int) sysret \<times> 'w) \<Rightarrow> 'w \<Rightarrow> ((int \<times> int) sysret \<times> 'w) option" where
  "io_pipe = io_again"

definition io_close :: "('w \<Rightarrow> unit sysret \<times> 'w) \<Rightarrow> 'w \<Rightarrow> (unit sysret \<times> 'w) option" where
  "io_close = io_again"

definition io_stat :: "('w \<Rightarrow> 'st sysret \<times> 'w) \<Rightarrow> 'w \<Rightarrow> ('st sysret \<times> 'w) option" where
  "io_stat = io_again"

definition io_lstat :: "('w \<Rightarrow> 'st sysret \<times> 'w) \<Rightarrow> 'w \<Rightarrow> ('st sysret \<times> 'w) option" where
  "io_lstat = io_again"

definition io_select :: "('w \<Rightarrow> int sysret \<times> 'w) \<Rightarrow> 'w \<Rightarrow> (int sysret \<times> 'w) option" where
  "io_select = io_again"

definition io_rename :: "('w \<Rightarrow> unit sysret \<times> 'w) \<Rightarrow> 'w \<Rightarrow> (unit sysret \<times> 'w) option" where
  "io_rename = io_again"

definition io_opendir :: "('w \<Rightarrow> 'd sysret \<times> 'w) \<Rightarrow> 'w \<Rightarrow> ('d sysret \<times> 'w) option" where
  "io_opendir = io_again"

definition io_rmdir :: "('w \<Rightarrow> unit sysret \<times> 'w) \<Rightarrow> 'w \<Rightarrow> (unit sysret \<times> 'w) option" where
  "io_rmdir = io_again"

definition io_mkfifo :: "('w \<Rightarrow> int sysret \<times> 'w) \<Rightarrow> 'w \<Rightarrow> (int sysret \<times> 'w) option" where
  "io_mkfifo = io_again"

definition io_chmod :: "('w \<Rightarrow> unit sysret \<times> 'w) \<Rightarrow> 'w \<Rightarrow> (unit sysret \<times> 'w) option" where
  "io_chmod = io_again"

definition io_lseek :: "('w \<Rightarrow> int sysret \<times> 'w) \<Rightarrow> 'w \<Rightarrow> (int sysret \<times> 'w) option" where
  "io_lseek = io_again"

definition io_fstat :: "('w \<Rightarrow> 'st sysret \<times> 'w) \<Rightarrow> 'w \<Rightarrow> ('st sysret \<times> 'w) option" where
  "io_fstat = io_again"

definition io_closedir :: "('w \<Rightarrow> unit sysret \<times> 'w) \<Rightarrow> 'w \<Rightarrow> (unit sysret \<times> 'w) option" where
  "io_closedir = io_again"

definition io_mkdir :: "('w \<Rightarrow> unit sysret \<times> 'w) \<Rightarrow> 'w \<Rightarrow> (unit sysret \<times> 'w) option" where
  "io_mkdir = io_again"

definition io_utimes :: "('w \<Rightarrow> unit sysret \<times> 'w) \<Rightarrow> 'w \<Rightarrow> (unit sysret \<times> 'w) option" where
  "io_utimes = io_again"

text \<open>The answer of a restarted call is an answer of the kernel.\<close>

lemma io_again_returns:
  assumes "\<And>w w'. call w = (Inl EINTR, w') \<Longrightarrow> m w' < (m w :: nat)"
  shows "\<exists>r w' w0. io_again call w = Some (r, w') \<and> r \<noteq> Inl EINTR \<and> call w0 = (r, w')"
proof (induction "m w" arbitrary: w rule: less_induct)
  case less
  obtain r w' where c: "call w = (r, w')" by fastforce
  show ?case
  proof (cases "r = Inl EINTR")
    case True
    with c assms less [of w'] show ?thesis by (simp add: io_again.simps [of call w])
  next
    case False
    with c show ?thesis
      by (cases r) (auto simp: io_again.simps [of call w] intro: exI [of _ w])
  qed
qed

section \<open>Descriptors\<close>

text \<open>
  What the kernel gives to the successive reads of a descriptor: chunks of data and failures; the
  end of the list is the end of file.  A read takes at most \<open>n\<close> bytes of the next chunk.
\<close>

datatype rd_event = RdData bytes | RdFail errno

fun sys_read :: "nat \<Rightarrow> rd_event list \<Rightarrow> bytes sysret \<times> rd_event list" where
  "sys_read n [] = (Inr [], [])"
| "sys_read n (RdFail e # evs) = (Inl e, evs)"
| "sys_read n (RdData bs # evs) =
     (if bs = [] then sys_read n evs
      else (Inr (take n bs), if n < length bs then RdData (drop n bs) # evs else evs))"

lemma sys_read_fail_shrinks: "sys_read n evs = (Inl e, evs') \<Longrightarrow> length evs' < length evs"
  by (induction n evs rule: sys_read.induct) (auto split: if_splits)

function io_read :: "nat \<Rightarrow> rd_event list \<Rightarrow> bytes sysret \<times> rd_event list" where
  "io_read n evs =
     (case sys_read n evs of
        (Inr bs, evs') \<Rightarrow> (Inr bs, evs')
      | (Inl e, evs') \<Rightarrow> if e = EINTR then io_read n evs' else (Inl e, evs'))"
  by pat_completeness auto
termination
  by (relation "measure (\<lambda>(n, evs). length evs)") (auto dest: sys_read_fail_shrinks [OF sym])

declare io_read.simps [simp del]

lemma io_read_again: "io_again (sys_read n) evs = Some (io_read n evs)"
proof (induction n evs rule: io_read.induct)
  case (1 n evs)
  then show ?case
    by (auto simp: io_again.simps [of "sys_read n" evs] io_read.simps [of n evs]
        split: prod.splits sum.splits)
qed

text \<open>
  The kernel's answers to successive writes: it takes at most \<open>k\<close> bytes, or fails; after the list
  every write is taken whole.  \<open>wr_out\<close> is what the descriptor has received.
\<close>

datatype wr_event = WrTake nat | WrFail errno

record wr_fd =
  wr_script :: "wr_event list"
  wr_out :: bytes

fun sys_write :: "bytes \<Rightarrow> wr_fd \<Rightarrow> nat sysret \<times> wr_fd" where
  "sys_write bs w =
     (case wr_script w of
        [] \<Rightarrow> (Inr (length bs), w\<lparr>wr_out := wr_out w @ bs\<rparr>)
      | WrTake k # evs \<Rightarrow>
          (Inr (min k (length bs)), w\<lparr>wr_script := evs, wr_out := wr_out w @ take k bs\<rparr>)
      | WrFail e # evs \<Rightarrow> (Inl e, w\<lparr>wr_script := evs\<rparr>))"

function io_write :: "bytes \<Rightarrow> wr_fd \<Rightarrow> nat sysret \<times> wr_fd" where
  "io_write bs w =
     (case sys_write bs w of
        (Inr k, w') \<Rightarrow> (Inr k, w')
      | (Inl e, w') \<Rightarrow> if e = EINTR then io_write bs w' else (Inl e, w'))"
  by pat_completeness auto
termination
  by (relation "measure (\<lambda>(bs, w). length (wr_script w))") (auto split: list.splits wr_event.splits)

declare io_write.simps [simp del]

lemma io_write_script:
  "io_write bs w = (r, w') \<Longrightarrow>
   length (wr_script w') < length (wr_script w) \<or> (r = Inr (length bs) \<and> wr_script w' = [])"
proof (induction bs w rule: io_write.induct)
  case (1 bs w)
  then show ?case
    by (auto simp: io_write.simps [of bs w] split: list.splits wr_event.splits if_splits)
qed

text \<open>
  \<^verbatim>\<open>io_write_buf\<close>: as in the code, every write starts at \<^verbatim>\<open>buf\<close> again, only the count shrinks.
\<close>

function io_write_buf_from :: "bytes \<Rightarrow> nat \<Rightarrow> wr_fd \<Rightarrow> unit sysret \<times> wr_fd" where
  "io_write_buf_from buf nwritten w =
     (case io_write (take (length buf - nwritten) buf) w of
        (Inl e, w') \<Rightarrow> (Inl e, w')
      | (Inr nw, w') \<Rightarrow>
          if nwritten + nw < length buf then io_write_buf_from buf (nwritten + nw) w'
          else (Inr (), w'))"
  by pat_completeness auto
termination
  by (relation "measure (\<lambda>(buf, nwritten, w). length (wr_script w))")
    (auto dest: io_write_script [OF sym])

declare io_write_buf_from.simps [simp del]

definition io_write_buf :: "bytes \<Rightarrow> wr_fd \<Rightarrow> unit sysret \<times> wr_fd" where
  "io_write_buf buf w = io_write_buf_from buf 0 w"

text \<open>The bytes a descriptor still delivers, and descriptors whose only failures are interrupts.\<close>

fun rd_data :: "rd_event list \<Rightarrow> bytes" where
  "rd_data [] = []"
| "rd_data (RdFail e # evs) = rd_data evs"
| "rd_data (RdData bs # evs) = bs @ rd_data evs"

fun only_intr :: "rd_event list \<Rightarrow> bool" where
  "only_intr [] = True"
| "only_intr (RdFail e # evs) = (e = EINTR \<and> only_intr evs)"
| "only_intr (RdData bs # evs) = only_intr evs"

lemma sys_read_data:
  "only_intr evs \<Longrightarrow> 0 < n \<Longrightarrow> sys_read n evs = (r, evs') \<Longrightarrow>
   only_intr evs' \<and>
   (case r of
      Inl e \<Rightarrow> e = EINTR \<and> rd_data evs' = rd_data evs
    | Inr bs \<Rightarrow> rd_data evs = bs @ rd_data evs' \<and> length bs \<le> n \<and> (bs = [] \<longrightarrow> rd_data evs = []))"
proof (induction n evs rule: sys_read.induct)
  case (3 n bs evs)
  then show ?case by (cases "bs = []") (auto split: if_splits sum.splits)
qed auto

lemma io_read_data:
  "only_intr evs \<Longrightarrow> 0 < n \<Longrightarrow>
   \<exists>bs evs'. io_read n evs = (Inr bs, evs') \<and> only_intr evs' \<and> rd_data evs = bs @ rd_data evs' \<and>
     length bs \<le> n \<and> (bs = [] \<longrightarrow> rd_data evs = [])"
proof (induction n evs rule: io_read.induct)
  case (1 n evs)
  obtain r evs1 where s: "sys_read n evs = (r, evs1)" by fastforce
  note d = sys_read_data [OF "1.prems" s]
  show ?case
  proof (cases r)
    case (Inl e)
    with 1 s d show ?thesis by (simp add: io_read.simps [of n evs])
  next
    case (Inr bs)
    with s d show ?thesis by (auto simp: io_read.simps [of n evs])
  qed
qed

section \<open>Whole text files\<close>

text \<open>
  \<^verbatim>\<open>slurp_text_file\<close> into a buffer of \<open>buf_size\<close> bytes: \<open>exists\<close> is the answer of
  \<^verbatim>\<open>io_path_exists\<close> and \<open>fd\<close> that of \<^verbatim>\<open>io_open\<close>; \<open>None\<close> is the return value -1, \<open>Some\<close> the text
  placed before the terminating NUL.
\<close>

function slurp_loop :: "nat \<Rightarrow> bytes \<Rightarrow> rd_event list \<Rightarrow> bytes option" where
  "slurp_loop buf_size got evs =
     (case io_read (buf_size - length got) evs of
        (Inl e, _) \<Rightarrow> None
      | (Inr [], _) \<Rightarrow> Some got
      | (Inr (b # bs), evs') \<Rightarrow>
          if buf_size - length (got @ b # bs) = 0 then None
          else slurp_loop buf_size (got @ b # bs) evs')"
  by pat_completeness auto
termination
  by (relation "measure (\<lambda>(buf_size, got, evs). buf_size - length got)") auto

declare slurp_loop.simps [simp del]

definition slurp_text_file :: "int \<Rightarrow> int sysret \<Rightarrow> nat \<Rightarrow> rd_event list \<Rightarrow> bytes option" where
  "slurp_text_file exists fd buf_size evs =
     (if exists = -1 then None
      else if exists = 0 then None
      else case fd of
        Inl e \<Rightarrow> None
      | Inr _ \<Rightarrow> slurp_loop buf_size [] evs)"

definition burp_text_file :: "bytes \<Rightarrow> int sysret \<Rightarrow> wr_fd \<Rightarrow> unit sysret \<Rightarrow> bool \<times> wr_fd" where
  "burp_text_file buf fd w close =
     (case fd of
        Inl e \<Rightarrow> (False, w)
      | Inr _ \<Rightarrow>
          (case io_write_buf (cstr buf) w of
             (st, w') \<Rightarrow> (st = Inr () \<and> close = Inr (), w')))"

lemma slurp_loop_data:
  assumes "only_intr evs" and "length got < buf_size"
  shows "slurp_loop buf_size got evs =
    (if length got + length (rd_data evs) < buf_size then Some (got @ rd_data evs) else None)"
  using assms
proof (induction buf_size got evs rule: slurp_loop.induct)
  case (1 buf_size got evs)
  obtain bs evs' where r: "io_read (buf_size - length got) evs = (Inr bs, evs')" "only_intr evs'"
    "rd_data evs = bs @ rd_data evs'" "length bs \<le> buf_size - length got"
    "bs = [] \<longrightarrow> rd_data evs = []"
    using io_read_data [OF "1.prems"(1), of "buf_size - length got"] "1.prems"(2) by auto
  show ?case
  proof (cases bs)
    case Nil
    with r "1.prems" show ?thesis by (simp add: slurp_loop.simps [of buf_size got evs])
  next
    case (Cons b bs')
    have step: "slurp_loop buf_size got evs =
        (if buf_size - length (got @ bs) = 0 then None else slurp_loop buf_size (got @ bs) evs')"
      using r(1) Cons by (simp add: slurp_loop.simps [of buf_size got evs])
    show ?thesis
    proof (cases "length (got @ bs) < buf_size")
      case True
      with "1.IH" r Cons have "slurp_loop buf_size (got @ bs) evs' =
        (if length (got @ bs) + length (rd_data evs') < buf_size
         then Some ((got @ bs) @ rd_data evs') else None)"
        by auto
      with step True r(3) show ?thesis by simp
    next
      case False
      with step r(3) show ?thesis by simp
    qed
  qed
qed

section \<open>Messages\<close>

text \<open>
  A message is written with one write: the length byte, then the payload.  \<open>Inl EBADMSG\<close> is the
  error of a partial write.
\<close>

definition io_msg_write :: "bytes \<Rightarrow> ui8 \<Rightarrow> wr_fd \<Rightarrow> unit sysret \<times> wr_fd" where
  "io_msg_write payload count w =
     (if count = 0 then (Inl EINVAL, w)
      else
        let buf = byte_char count # take (unat count) payload;
            nwrite = unat count + 1
        in case io_write buf w of
             (Inr nwritten, w') \<Rightarrow>
               if nwritten = nwrite then (Inr (), w') else (Inl EBADMSG, w')
           | (Inl e, w') \<Rightarrow> (Inl e, w'))"

text \<open>
  The reader's buffer: \<open>im_mem\<close> is the memory around \<^verbatim>\<open>payload\<close>, by offset, and \<open>im_len\<close> the
  field \<^verbatim>\<open>len\<close>, a signed integer; the local pointer \<^verbatim>\<open>p\<close> is always \<^verbatim>\<open>payload + len\<close>.
\<close>

record io_message =
  im_mem :: "int \<Rightarrow> char"
  im_len :: int
  im_in :: "rd_event list"

definition im_payload :: "io_message \<Rightarrow> bytes" where
  "im_payload ip = map (\<lambda>i. im_mem ip (int i)) [0..<nat (im_len ip)]"

fun store_at :: "(int \<Rightarrow> char) \<Rightarrow> int \<Rightarrow> bytes \<Rightarrow> int \<Rightarrow> char" where
  "store_at m i [] = m"
| "store_at m i (b # bs) = store_at (m(i := b)) (i + 1) bs"

text \<open>What is left to read: every read that does not report the end of file shrinks it.\<close>

fun rd_size :: "rd_event list \<Rightarrow> nat" where
  "rd_size [] = 0"
| "rd_size (RdFail e # evs) = Suc (rd_size evs)"
| "rd_size (RdData bs # evs) = Suc (length bs) + rd_size evs"

lemma sys_read_shrinks:
  "sys_read n evs = (r, evs') \<Longrightarrow> r \<noteq> Inr [] \<Longrightarrow> 0 < n \<Longrightarrow> rd_size evs' < rd_size evs"
  by (induction n evs rule: sys_read.induct) (auto split: if_splits)

lemma io_read_shrinks:
  "io_read n evs = (r, evs') \<Longrightarrow> r \<noteq> Inr [] \<Longrightarrow> 0 < n \<Longrightarrow> rd_size evs' < rd_size evs"
proof (induction n evs rule: io_read.induct)
  case (1 n evs)
  obtain r1 evs1 where s: "sys_read n evs = (r1, evs1)" by fastforce
  show ?case
  proof (cases "r1 = Inl EINTR")
    case True
    then have "rd_size evs1 < rd_size evs" using sys_read_shrinks [OF s] "1.prems"(3) by simp
    with 1 s True show ?thesis by (fastforce simp: io_read.simps [of n evs])
  next
    case False
    then have "(r, evs') = (r1, evs1)"
      using "1.prems"(1) s by (cases r1) (auto simp: io_read.simps [of n evs])
    with sys_read_shrinks [OF s] "1.prems" show ?thesis by simp
  qed
qed

lemma io_read_size_le: "io_read n evs = (r, evs') \<Longrightarrow> rd_size evs' \<le> rd_size evs"
proof (induction n evs rule: io_read.induct)
  case (1 n evs)
  have "rd_size (snd (sys_read n evs)) \<le> rd_size evs"
    by (induction n evs rule: sys_read.induct) auto
  with 1 show ?case
    by (auto simp: io_read.simps [of n evs] split: prod.splits sum.splits if_splits)
      (meson le_trans)
qed

text \<open>
  The payload loop of \<^verbatim>\<open>io_msg_read\<close>.  A failed read returns -1, which the test \<^verbatim>\<open>nread < -1\<close>
  lets through: it is added to \<^verbatim>\<open>p\<close> and to \<^verbatim>\<open>len\<close>, and the loop goes on.
\<close>

function msg_payload_loop :: "ui8 \<Rightarrow> io_message \<Rightarrow> int sysret \<times> io_message" where
  "msg_payload_loop len ip =
     (if im_len ip < uint len then
        (case io_read (nat (uint len - im_len ip)) (im_in ip) of
           (Inl e, evs) \<Rightarrow> msg_payload_loop len (ip\<lparr>im_len := im_len ip - 1, im_in := evs\<rparr>)
         | (Inr [], evs) \<Rightarrow> (Inl EBADMSG, ip\<lparr>im_in := evs\<rparr>)
         | (Inr (b # bs), evs) \<Rightarrow>
             msg_payload_loop len
               (ip\<lparr>im_mem := store_at (im_mem ip) (im_len ip) (b # bs),
                   im_len := im_len ip + int (length (b # bs)), im_in := evs\<rparr>))
      else (Inr 1, ip))"
  by pat_completeness auto
termination
  by (relation "measure (\<lambda>(len, ip). rd_size (im_in ip))")
    (auto dest: io_read_shrinks [OF sym])

declare msg_payload_loop.simps [simp del]

text \<open>\<^verbatim>\<open>io_msg_read\<close>: 1 with a message, 0 at the end of file, or an error.\<close>

definition io_msg_read :: "io_message \<Rightarrow> int sysret \<times> io_message" where
  "io_msg_read ip =
     (let ip0 = ip\<lparr>im_len := 0\<rparr> in
      case io_read 1 (im_in ip0) of
        (Inl e, evs) \<Rightarrow> (Inl e, ip0\<lparr>im_in := evs\<rparr>)
      | (Inr [], evs) \<Rightarrow> (Inr 0, ip0\<lparr>im_in := evs\<rparr>)
      | (Inr (len # _), evs) \<Rightarrow>
          if char_byte len = 0 then (Inl ENODATA, ip0\<lparr>im_in := evs\<rparr>)
          else msg_payload_loop (char_byte len) (ip0\<lparr>im_in := evs\<rparr>))"

section \<open>Framing\<close>

lemma store_at_append: "store_at m i (xs @ ys) = store_at (store_at m i xs) (i + int (length xs)) ys"
  by (induction xs arbitrary: m i) (auto simp: algebra_simps)

lemma store_at_below: "j < i \<Longrightarrow> store_at m i xs j = m j"
  by (induction xs arbitrary: m i) auto

lemma store_at_nth: "k < length xs \<Longrightarrow> store_at m i xs (i + int k) = xs ! k"
proof (induction xs arbitrary: m i k)
  case (Cons x xs)
  show ?case
  proof (cases k)
    case (Suc j)
    have "store_at (m(i := x)) (i + 1) xs ((i + 1) + int j) = xs ! j"
      using Cons.prems Suc by (intro Cons.IH) simp
    then show ?thesis by (simp add: Suc add.assoc add.commute [of 1])
  qed (simp add: store_at_below)
qed simp

lemma payload_stored:
  "im_mem ip = store_at m 0 xs \<Longrightarrow> im_len ip = int (length xs) \<Longrightarrow> im_payload ip = xs"
  using store_at_nth [where i = 0 and xs = xs]
  by (auto simp: im_payload_def intro: nth_equalityI)

lemma msg_payload_loop_full:
  assumes "only_intr (im_in ip)" and "0 \<le> im_len ip"
    and "rd_data (im_in ip) = rest @ tail" and "im_len ip + int (length rest) = uint len"
  shows "\<exists>evs. msg_payload_loop len ip =
      (Inr 1, ip\<lparr>im_mem := store_at (im_mem ip) (im_len ip) rest, im_len := uint len, im_in := evs\<rparr>) \<and>
    only_intr evs \<and> rd_data evs = tail"
  using assms
proof (induction "rd_size (im_in ip)" arbitrary: ip rest rule: less_induct)
  case less
  show ?case
  proof (cases rest)
    case Nil
    with less.prems show ?thesis
      by (intro exI [of _ "im_in ip"]) (auto simp: msg_payload_loop.simps [of len ip])
  next
    case (Cons r rs)
    with less.prems have lt: "im_len ip < uint len" by simp
    let ?n = "nat (uint len - im_len ip)"
    obtain bs evs where rd: "io_read ?n (im_in ip) = (Inr bs, evs)" "only_intr evs"
      "rd_data (im_in ip) = bs @ rd_data evs" "length bs \<le> ?n" "bs \<noteq> []"
      using io_read_data [OF less.prems(1), of ?n] lt less.prems(3) Cons by auto
    have n: "?n = length rest" using less.prems(4) by simp
    obtain rest' where rest: "rest = bs @ rest'" "rd_data evs = rest' @ tail"
    proof
      have "take (length bs) rest = bs"
        using rd(3,4) less.prems(3) n by (metis append_eq_append_conv_if append_eq_conv_conj take_all)
      then show "rest = bs @ drop (length bs) rest" by (metis append_take_drop_id)
      then show "rd_data evs = drop (length bs) rest @ tail"
        using rd(3) less.prems(3) by (metis append.assoc same_append_eq)
    qed
    obtain b bs' where bs: "bs = b # bs'" using rd(5) by (cases bs) auto
    let ?ip = "ip\<lparr>im_mem := store_at (im_mem ip) (im_len ip) bs,
                 im_len := im_len ip + int (length bs), im_in := evs\<rparr>"
    have "rd_size evs < rd_size (im_in ip)"
      using io_read_shrinks [OF rd(1)] rd(5) lt by simp
    then obtain evs2 where "msg_payload_loop len ?ip =
        (Inr 1, ?ip\<lparr>im_mem := store_at (im_mem ?ip) (im_len ?ip) rest', im_len := uint len,
          im_in := evs2\<rparr>)" "only_intr evs2" "rd_data evs2 = tail"
      using less.hyps [of ?ip rest'] rest rd(2) less.prems(2,4) by auto
    moreover have "msg_payload_loop len ip = msg_payload_loop len ?ip"
      using lt rd(1) bs by (simp add: msg_payload_loop.simps [of len ip])
    ultimately show ?thesis by (auto simp: rest(1) store_at_append)
  qed
qed

lemma msg_payload_loop_short:
  assumes "only_intr (im_in ip)" and "0 \<le> im_len ip"
    and "im_len ip + int (length (rd_data (im_in ip))) < uint len"
  shows "\<exists>ip'. msg_payload_loop len ip = (Inl EBADMSG, ip')"
  using assms
proof (induction "rd_size (im_in ip)" arbitrary: ip rule: less_induct)
  case less
  from less.prems have lt: "im_len ip < uint len" by simp
  let ?n = "nat (uint len - im_len ip)"
  obtain bs evs where rd: "io_read ?n (im_in ip) = (Inr bs, evs)" "only_intr evs"
    "rd_data (im_in ip) = bs @ rd_data evs"
    using io_read_data [OF less.prems(1), of ?n] lt by auto
  show ?case
  proof (cases bs)
    case Nil
    with rd(1) lt show ?thesis by (simp add: msg_payload_loop.simps [of len ip])
  next
    case (Cons b bs')
    have "rd_size evs < rd_size (im_in ip)" using io_read_shrinks [OF rd(1)] Cons lt by simp
    with less.hyps [of "ip\<lparr>im_mem := store_at (im_mem ip) (im_len ip) bs,
        im_len := im_len ip + int (length bs), im_in := evs\<rparr>"] rd less.prems Cons lt
    show ?thesis by (simp add: msg_payload_loop.simps [of len ip])
  qed
qed

text \<open>The bytes of one message on the wire.\<close>

definition framed :: "bytes \<Rightarrow> bytes" where
  "framed m = byte_char (of_nat (length m)) # m"

definition sendable :: "bytes \<Rightarrow> bool" where
  "sendable m \<longleftrightarrow> m \<noteq> [] \<and> length m \<le> MSG_SIZE"

lemma sendable_len: "sendable m \<Longrightarrow>
    unat (of_nat (length m) :: ui8) = length m \<and> (of_nat (length m) :: ui8) \<noteq> 0"
proof -
  assume "sendable m"
  then have l: "0 < length m" "length m < 256" by (auto simp: sendable_def MSG_SIZE_def)
  then have "unat (of_nat (length m) :: ui8) = length m" by (simp add: unat_of_nat take_bit_eq_mod)
  with l show ?thesis by (metis unat_0 nat_less_le)
qed

lemma io_msg_read_framed:
  assumes "sendable m" and "only_intr (im_in ip)" and "rd_data (im_in ip) = framed m @ tail"
  shows "\<exists>ip'. io_msg_read ip = (Inr 1, ip') \<and> im_payload ip' = m \<and> only_intr (im_in ip') \<and>
    rd_data (im_in ip') = tail"
proof -
  let ?l = "of_nat (length m) :: ui8"
  obtain evs where rd: "io_read 1 (im_in ip) = (Inr [byte_char ?l], evs)" "only_intr evs"
    "rd_data evs = m @ tail"
  proof -
    obtain bs evs where r: "io_read 1 (im_in ip) = (Inr bs, evs)" "only_intr evs"
      "rd_data (im_in ip) = bs @ rd_data evs" "length bs \<le> 1" "bs = [] \<longrightarrow> rd_data (im_in ip) = []"
      using io_read_data [OF assms(2), of 1] by auto
    with assms(3) have "bs \<noteq> []" by (auto simp: framed_def)
    with r(4) obtain b where "bs = [b]" by (cases bs) auto
    with r assms(3) show ?thesis by (intro that) (auto simp: framed_def)
  qed
  let ?ip = "ip\<lparr>im_len := 0, im_in := evs\<rparr>"
  have u: "uint ?l = int (length m)"
    using sendable_len [OF assms(1)] by (metis of_nat_unat)
  obtain evs' where l: "msg_payload_loop ?l ?ip =
      (Inr 1, ?ip\<lparr>im_mem := store_at (im_mem ?ip) 0 m, im_len := uint ?l, im_in := evs'\<rparr>)"
    "only_intr evs'" "rd_data evs' = tail"
    using msg_payload_loop_full [of ?ip m tail ?l] rd u by auto
  moreover have "io_msg_read ip = msg_payload_loop ?l ?ip"
    using rd(1) sendable_len [OF assms(1)] by (simp add: io_msg_read_def)
  ultimately show ?thesis by (auto intro: payload_stored simp: u)
qed

text \<open>
  A reader that takes messages until the status is not 1, as the logger processes do: the
  messages and the last status.
\<close>

lemma msg_payload_loop_size: "rd_size (im_in (snd (msg_payload_loop len ip))) \<le> rd_size (im_in ip)"
proof (induction "rd_size (im_in ip)" arbitrary: ip rule: less_induct)
  case less
  show ?case
  proof (cases "im_len ip < uint len")
    case True
    obtain r evs where r: "io_read (nat (uint len - im_len ip)) (im_in ip) = (r, evs)" by fastforce
    show ?thesis
    proof (cases "r = Inr []")
      case nil: True
      have "rd_size evs \<le> rd_size (im_in ip)" using io_read_size_le [OF r] .
      with r nil True show ?thesis by (simp add: msg_payload_loop.simps [of len ip])
    next
      case False
      then have lt: "rd_size evs < rd_size (im_in ip)" using io_read_shrinks [OF r] True by simp
      show ?thesis
      proof (cases r)
        case (Inl e)
        with r True lt less.hyps [of "ip\<lparr>im_len := im_len ip - 1, im_in := evs\<rparr>"]
        show ?thesis by (simp add: msg_payload_loop.simps [of len ip])
      next
        case (Inr bs)
        with False obtain b bs' where "bs = b # bs'" by (cases bs) auto
        with r Inr True lt less.hyps [of "ip\<lparr>im_mem := store_at (im_mem ip) (im_len ip) bs,
            im_len := im_len ip + int (length bs), im_in := evs\<rparr>"]
        show ?thesis by (simp add: msg_payload_loop.simps [of len ip])
      qed
    qed
  qed (simp add: msg_payload_loop.simps [of len ip])
qed

lemma io_msg_read_shrinks:
  assumes "io_msg_read ip = (Inr 1, ip')"
  shows "rd_size (im_in ip') < rd_size (im_in ip)"
proof -
  obtain r evs where r: "io_read 1 (im_in ip) = (r, evs)" by fastforce
  then obtain l ls where l: "r = Inr (l # ls)" "char_byte l \<noteq> 0"
    using assms by (auto simp: io_msg_read_def Let_def split: sum.splits list.splits if_splits)
  then have "io_msg_read ip = msg_payload_loop (char_byte l) (ip\<lparr>im_len := 0, im_in := evs\<rparr>)"
    using r by (simp add: io_msg_read_def)
  with assms msg_payload_loop_size [of "char_byte l" "ip\<lparr>im_len := 0, im_in := evs\<rparr>"]
    io_read_shrinks [OF r] l show ?thesis by simp
qed

function io_msg_drain :: "io_message \<Rightarrow> bytes list \<times> int sysret" where
  "io_msg_drain ip =
     (case io_msg_read ip of
        (status, ip') \<Rightarrow>
          if status = Inr 1 then
            (case io_msg_drain ip' of (ms, st) \<Rightarrow> (im_payload ip' # ms, st))
          else ([], status))"
  by pat_completeness auto
termination
  by (relation "measure (\<lambda>ip. rd_size (im_in ip))") (auto dest: io_msg_read_shrinks [OF sym])

declare io_msg_drain.simps [simp del]

text \<open>A sequence of messages written to one descriptor, with the status of each write.\<close>

fun send_messages :: "bytes list \<Rightarrow> wr_fd \<Rightarrow> unit sysret list \<times> wr_fd" where
  "send_messages [] w = ([], w)"
| "send_messages (m # ms) w =
     (case io_msg_write m (of_nat (length m)) w of
        (st, w') \<Rightarrow> (case send_messages ms w' of (sts, w'') \<Rightarrow> (st # sts, w'')))"

lemma io_write_intr:
  assumes "\<forall>e \<in> set (wr_script w). e = WrFail EINTR"
  shows "io_write bs w = (Inr (length bs), w\<lparr>wr_script := [], wr_out := wr_out w @ bs\<rparr>)"
proof -
  have "\<forall>e \<in> set evs. e = WrFail EINTR \<Longrightarrow>
      io_write bs \<lparr>wr_script = evs, wr_out = out\<rparr> =
        (Inr (length bs), \<lparr>wr_script = [], wr_out = out @ bs\<rparr>)" for evs out
    by (induction evs) (simp_all add: io_write.simps)
  from this [of "wr_script w" "wr_out w"] assms show ?thesis by (cases w) simp
qed

lemma io_msg_write_framed:
  assumes "sendable m" and "\<forall>e \<in> set (wr_script w). e = WrFail EINTR"
  shows "io_msg_write m (of_nat (length m)) w =
    (Inr (), w\<lparr>wr_script := [], wr_out := wr_out w @ framed m\<rparr>)"
  using sendable_len [OF assms(1)] io_write_intr [OF assms(2)]
  by (simp add: io_msg_write_def framed_def Let_def)

lemma send_messages_framed:
  assumes "\<forall>m \<in> set ms. sendable m" and "\<forall>e \<in> set (wr_script w). e = WrFail EINTR"
  shows "fst (send_messages ms w) = map (\<lambda>_. Inr ()) ms \<and>
    wr_out (snd (send_messages ms w)) = wr_out w @ concat (map framed ms)"
  using assms
proof (induction ms arbitrary: w)
  case (Cons m ms)
  then show ?case
    using Cons.IH [of "w\<lparr>wr_script := [], wr_out := wr_out w @ framed m\<rparr>"]
    by (simp add: io_msg_write_framed case_prod_beta)
qed simp

lemma io_msg_read_eof:
  assumes "only_intr (im_in ip)" and "rd_data (im_in ip) = []"
  shows "\<exists>ip'. io_msg_read ip = (Inr 0, ip')"
proof -
  obtain evs where "io_read 1 (im_in ip) = (Inr [], evs)"
    using io_read_data [OF assms(1), of 1] assms(2) by auto
  then show ?thesis by (simp add: io_msg_read_def Let_def)
qed

lemma io_msg_read_cut:
  assumes "only_intr (im_in ip)" and "sendable m" and "k < length m"
    and "rd_data (im_in ip) = byte_char (of_nat (length m)) # take k m"
  shows "\<exists>ip'. io_msg_read ip = (Inl EBADMSG, ip')"
proof -
  let ?l = "of_nat (length m) :: ui8"
  obtain bs evs where r: "io_read 1 (im_in ip) = (Inr bs, evs)" "only_intr evs"
    "rd_data (im_in ip) = bs @ rd_data evs" "length bs \<le> 1" "bs = [] \<longrightarrow> rd_data (im_in ip) = []"
    using io_read_data [OF assms(1), of 1] by auto
  with assms(4) have "bs \<noteq> []" by auto
  with r(4) obtain b where "bs = [b]" by (cases bs) auto
  with r assms(4) have rd: "io_read 1 (im_in ip) = (Inr [byte_char ?l], evs)" "rd_data evs = take k m"
    by auto
  let ?ip = "ip\<lparr>im_len := 0, im_in := evs\<rparr>"
  have "uint ?l = int (length m)" using sendable_len [OF assms(2)] by (metis of_nat_unat)
  then have "\<exists>ip'. msg_payload_loop ?l ?ip = (Inl EBADMSG, ip')"
    using r(2) rd(2) assms(3) by (intro msg_payload_loop_short) auto
  then show ?thesis
    using rd(1) sendable_len [OF assms(2)] by (simp add: io_msg_read_def Let_def)
qed

lemma io_msg_drain_framed:
  assumes "\<forall>m \<in> set ms. sendable m" and "only_intr (im_in ip)"
    and "rd_data (im_in ip) = concat (map framed ms) @ rest"
    and "rest = [] \<or> (\<exists>m k. sendable m \<and> k < length m \<and> rest = take (Suc k) (framed m))"
  shows "io_msg_drain ip = (ms, if rest = [] then Inr 0 else Inl EBADMSG)"
  using assms
proof (induction ms arbitrary: ip)
  case Nil
  show ?case
  proof (cases "rest = []")
    case True
    with io_msg_read_eof [of ip] Nil show ?thesis by (auto simp: io_msg_drain.simps [of ip])
  next
    case False
    then obtain m k where "sendable m" "k < length m" "rest = byte_char (of_nat (length m)) # take k m"
      using Nil.prems(4) by (auto simp: framed_def)
    with io_msg_read_cut [of ip m k] Nil.prems show ?thesis
      by (auto simp: io_msg_drain.simps [of ip])
  qed
next
  case (Cons m ms)
  obtain ip' where "io_msg_read ip = (Inr 1, ip')" "im_payload ip' = m" "only_intr (im_in ip')"
    "rd_data (im_in ip') = concat (map framed ms) @ rest"
    using io_msg_read_framed [of m ip "concat (map framed ms) @ rest"] Cons.prems by auto
  with Cons show ?case by (simp add: io_msg_drain.simps [of ip])
qed

text \<open>
  C13: messages survive the pipe.  Any messages of 1 to 255 bytes, written with \<^verbatim>\<open>io_msg_write\<close>
  through interrupts, are read back in order by repeated \<^verbatim>\<open>io_msg_read\<close> however the kernel
  fragments the bytes and interrupts the reads; the reader then sees the end of file, or
  \<open>EBADMSG\<close> when the writer was cut inside a further message.
\<close>

theorem io_msg_roundtrip:
  assumes "\<forall>m \<in> set ms. m \<noteq> [] \<and> length m \<le> 255"
    and "\<forall>e \<in> set script. e = WrFail EINTR"
    and "send_messages ms \<lparr>wr_script = script, wr_out = []\<rparr> = (sts, w)"
    and "rest = [] \<or>
      (\<exists>m k. m \<noteq> [] \<and> length m \<le> 255 \<and> k < length m \<and> rest = take (Suc k) (framed m))"
    and "only_intr evs" and "rd_data evs = wr_out w @ rest"
  shows "(\<forall>st \<in> set sts. st = Inr ()) \<and>
    io_msg_drain \<lparr>im_mem = mem, im_len = l, im_in = evs\<rparr> =
      (ms, if rest = [] then Inr 0 else Inl EBADMSG)"
proof -
  have ms: "\<forall>m \<in> set ms. sendable m" using assms(1) by (simp add: sendable_def MSG_SIZE_def)
  note s = send_messages_framed [OF ms, of "\<lparr>wr_script = script, wr_out = []\<rparr>"]
  have "fst (send_messages ms \<lparr>wr_script = script, wr_out = []\<rparr>) = map (\<lambda>_. Inr ()) ms"
    "wr_out w = concat (map framed ms)"
    using s assms(2,3) by auto
  moreover have "io_msg_drain \<lparr>im_mem = mem, im_len = l, im_in = evs\<rparr> =
      (ms, if rest = [] then Inr 0 else Inl EBADMSG)"
  proof (rule io_msg_drain_framed [OF ms])
    show "rest = [] \<or> (\<exists>m k. sendable m \<and> k < length m \<and> rest = take (Suc k) (framed m))"
      using assms(4) unfolding sendable_def MSG_SIZE_def by blast
  qed (use assms(5,6) calculation in simp_all)
  ultimately show ?thesis using assms(3) by auto
qed

theorem io_msg_roundtrip_witness:
  "io_msg_drain \<lparr>im_mem = (\<lambda>_. NUL), im_len = 0,
      im_in = [RdFail EINTR, RdData [CHR 0x02, CHR ''h''], RdFail EINTR, RdData [CHR ''i'', CHR 0x01],
               RdData ''!'', RdData [CHR 0x05]]\<rparr> = ([''hi'', ''!''], Inl EBADMSG)"
proof -
  have f: "framed ''hi'' = [CHR 0x02, CHR ''h'', CHR ''i'']" "framed ''!'' = [CHR 0x01, CHR ''!'']"
    "take (Suc 0) (framed ''12345'') = [CHR 0x05]"
    by (simp_all add: framed_def byte_char_def) (code_simp+)
  obtain sts w where s: "send_messages [''hi'', ''!''] \<lparr>wr_script = [WrFail EINTR], wr_out = []\<rparr> = (sts, w)"
    by fastforce
  have "wr_out w = [CHR 0x02, CHR ''h'', CHR ''i'', CHR 0x01, CHR ''!'']"
    using send_messages_framed [of "[''hi'', ''!'']" "\<lparr>wr_script = [WrFail EINTR], wr_out = []\<rparr>"] s f
    by (simp add: sendable_def MSG_SIZE_def)
  moreover have "\<exists>m k. m \<noteq> [] \<and> length m \<le> 255 \<and> k < length m \<and> [CHR 0x05] = take (Suc k) (framed m)"
    using f(3) by (intro exI [of _ "''12345''"] exI [of _ 0]) simp
  ultimately show ?thesis
    using io_msg_roundtrip [of "[''hi'', ''!'']" "[WrFail EINTR]" sts w "[CHR 0x05]"
        "[RdFail EINTR, RdData [CHR 0x02, CHR ''h''], RdFail EINTR, RdData [CHR ''i'', CHR 0x01],
          RdData ''!'', RdData [CHR 0x05]]" "\<lambda>_. NUL" 0] s
    by simp
qed

section \<open>Restarted calls and whole files\<close>



text \<open>
  \<^verbatim>\<open>burp_text_file\<close> and \<^verbatim>\<open>slurp_text_file\<close>.  A text burped through interrupted but whole writes
  is slurped back exactly when it fits the buffer with its NUL; otherwise the slurp fails and
  nothing is written beyond the buffer.
\<close>

theorem burp_slurp_roundtrip:
  assumes "burp_text_file buf (Inr fd) \<lparr>wr_script = script, wr_out = []\<rparr> (Inr ()) = (ok, w)"
    and "\<forall>e \<in> set script. e = WrFail EINTR"
    and "only_intr evs" and "rd_data evs = wr_out w" and "0 < n"
  shows "ok \<and> slurp_text_file 1 (Inr fd') n evs =
    (if length (cstr buf) < n then Some (cstr buf) else None)"
proof -
  have "io_write_buf (cstr buf) \<lparr>wr_script = script, wr_out = []\<rparr> =
      (Inr (), \<lparr>wr_script = [], wr_out = cstr buf\<rparr>)"
    using assms(2) by (simp add: io_write_buf_def io_write_buf_from.simps io_write_intr)
  with assms(1) have "ok" "wr_out w = cstr buf" by (auto simp: burp_text_file_def)
  with slurp_loop_data [OF assms(3), of "[]" n] assms(4,5)
  show ?thesis by (simp add: slurp_text_file_def)
qed

theorem burp_slurp_roundtrip_witness:
  "slurp_text_file 1 (Inr 4) 10 [RdData ''12'', RdFail EINTR, RdData ''3''] = Some ''123'' \<and>
   slurp_text_file 1 (Inr 4) 3 [RdData ''12'', RdFail EINTR, RdData ''3''] = None"
proof -
  have b: "burp_text_file ''123'' (Inr 4) \<lparr>wr_script = [WrFail EINTR], wr_out = []\<rparr> (Inr ()) =
      (True, \<lparr>wr_script = [], wr_out = ''123''\<rparr>)"
    by (simp add: burp_text_file_def io_write_buf_def io_write_buf_from.simps io_write_intr)
  show ?thesis
    using burp_slurp_roundtrip [OF b, of "[RdData ''12'', RdFail EINTR, RdData ''3'']" 10 4]
      burp_slurp_roundtrip [OF b, of "[RdData ''12'', RdFail EINTR, RdData ''3'']" 3 4]
    by simp
qed

text \<open>
  A short write corrupts \<^verbatim>\<open>io_write_buf\<close>.  When the kernel takes only the first \<open>k\<close> bytes, the
  code writes the rest of the count from the start of the buffer again and still reports success.
\<close>

theorem io_write_buf_short:
  assumes "k < length buf"
  shows "io_write_buf buf \<lparr>wr_script = [WrTake k], wr_out = []\<rparr> =
    (Inr (), \<lparr>wr_script = [], wr_out = take k buf @ take (length buf - k) buf\<rparr>)"
  using assms by (simp add: io_write_buf_def io_write_buf_from.simps io_write.simps)

theorem io_write_buf_short_witness:
  "wr_out (snd (io_write_buf ''12345'' \<lparr>wr_script = [WrTake 3], wr_out = []\<rparr>)) = ''12312''"
  using io_write_buf_short [of 3 "''12345''"] by simp

text \<open>
  A read error inside a payload is not reported: the byte before it is lost and the message is
  returned as read, made of bytes that belong to no such message.
\<close>

lemma io_msg_read_lost_error:
  "(case io_msg_read \<lparr>im_mem = (\<lambda>_. NUL), im_len = 0,
       im_in = [RdData [CHR 0x03, CHR ''a''], RdFail EOTHER, RdData ''bcd'']\<rparr> of
      (st, ip) \<Rightarrow> (st, im_payload ip)) = (Inr 1, ''bcd'')"
  by code_simp

end
