(* ===== verification/Net.thy ===== *)
theory Net
  imports Blobio_Prelude
begin

text \<open>
  \<^verbatim>\<open>bio4d/net.c\<close>: reads, writes and accepts on the network under an interval timer, and the text
  of an internet address.  The peer and the kernel are a list of events; the timer value the code
  passes to \<^verbatim>\<open>setitimer\<close> is a variable of the loops, as it is in the code.
\<close>

section \<open>Timed calls\<close>

text \<open>
  What happens on a descriptor: \<open>NData\<close> bytes that arrive, \<open>NTake k\<close> a peer that takes at most
  \<open>k\<close> bytes, \<open>NConn fd\<close> a connection, \<open>NSignal\<close> a signal other than the alarm, \<open>NFail\<close> an error, and
  \<open>NSilent\<close> a peer that does nothing until the timer fires.
\<close>

datatype net_event =
  NData bytes | NTake nat | NConn int | NSignal | NFail errno | NSilent

text \<open>
  A system call under the timer: \<open>TAlarm\<close> is \<open>EINTR\<close> with \<^verbatim>\<open>alarm_caught\<close> set, \<open>TBlock\<close> a call
  that never returns because the timer is off.
\<close>

datatype 'a timed = TOk 'a | TErr errno | TAlarm | TBlock

datatype 'a net_result = NetOk 'a | NetErr errno | NetTimeout | NetHang

definition silent :: "nat \<Rightarrow> 'a timed" where
  "silent it_value = (if it_value > 0 then TAlarm else TBlock)"

fun timed_read :: "nat \<Rightarrow> nat \<Rightarrow> net_event list \<Rightarrow> bytes timed \<times> net_event list" where
  "timed_read it_value n [] = (TOk [], [])"
| "timed_read it_value n (ev # evs) =
     (case ev of
        NData bs \<Rightarrow>
          if bs = [] then timed_read it_value n evs
          else (TOk (take n bs), if n < length bs then NData (drop n bs) # evs else evs)
      | NSignal \<Rightarrow> (TErr EINTR, evs)
      | NFail e \<Rightarrow> (if e = EINTR then TErr EINTR else TErr e, evs)
      | NSilent \<Rightarrow> (silent it_value, evs)
      | _ \<Rightarrow> timed_read it_value n evs)"

lemma timed_read_err_shrinks: "timed_read t n evs = (TErr e, evs') \<Longrightarrow> length evs' < length evs"
  by (induction evs) (auto split: net_event.splits if_splits simp: silent_def)

text \<open>
  \<^verbatim>\<open>net_read\<close>.  The timer is set at \<^verbatim>\<open>again\<close> from \<^verbatim>\<open>t.it_value\<close>, which the code has zeroed to
  disable it after the call: a retry runs without a timer.
\<close>

function net_read_loop :: "nat \<Rightarrow> nat \<Rightarrow> net_event list \<Rightarrow> bytes net_result \<times> net_event list" where
  "net_read_loop it_value buf_size evs =
     (case timed_read it_value buf_size evs of
        (TOk bs, evs') \<Rightarrow> (NetOk bs, evs')
      | (TErr e, evs') \<Rightarrow> if e \<noteq> EINTR then (NetErr e, evs') else net_read_loop 0 buf_size evs'
      | (TAlarm, evs') \<Rightarrow> (NetTimeout, evs')
      | (TBlock, evs') \<Rightarrow> (NetHang, evs'))"
  by pat_completeness auto
termination
  by (relation "measure (\<lambda>(t, n, evs). length evs)") (auto dest: timed_read_err_shrinks [OF sym])

declare net_read_loop.simps [simp del]

definition net_read :: "nat \<Rightarrow> nat \<Rightarrow> net_event list \<Rightarrow> bytes net_result \<times> net_event list" where
  "net_read buf_size timeout evs = net_read_loop timeout buf_size evs"

fun timed_write :: "nat \<Rightarrow> bytes \<Rightarrow> net_event list \<Rightarrow> nat timed \<times> net_event list" where
  "timed_write it_value b [] = (TOk (length b), [])"
| "timed_write it_value b (ev # evs) =
     (case ev of
        NTake k \<Rightarrow> (TOk (min k (length b)), evs)
      | NSignal \<Rightarrow> (TErr EINTR, evs)
      | NFail e \<Rightarrow> (if e = EINTR then TErr EINTR else TErr e, evs)
      | NSilent \<Rightarrow> (silent it_value, evs)
      | _ \<Rightarrow> timed_write it_value b evs)"

lemma timed_write_shrinks:
  "timed_write t b evs = (r, evs') \<Longrightarrow> length evs' < length evs \<or> (r = TOk (length b) \<and> evs' = [])"
  by (induction evs) (auto split: net_event.splits if_splits simp: silent_def)

text \<open>\<^verbatim>\<open>net_write\<close>: \<open>sent\<close> is what the peer has received.\<close>

function net_write_loop ::
  "nat \<Rightarrow> bytes \<Rightarrow> bytes \<Rightarrow> net_event list \<Rightarrow> unit net_result \<times> bytes \<times> net_event list" where
  "net_write_loop it_value b sent evs =
     (case timed_write it_value b evs of
        (TOk nwrite, evs') \<Rightarrow>
          if nwrite < length b
          then net_write_loop 0 (drop nwrite b) (sent @ take nwrite b) evs'
          else (NetOk (), sent @ take nwrite b, evs')
      | (TErr e, evs') \<Rightarrow>
          if e \<noteq> EINTR then (NetErr e, sent, evs') else net_write_loop 0 b sent evs'
      | (TAlarm, evs') \<Rightarrow> (NetTimeout, sent, evs')
      | (TBlock, evs') \<Rightarrow> (NetHang, sent, evs'))"
  by pat_completeness auto
termination
  by (relation "measure (\<lambda>(t, b, sent, evs). length evs)") (auto dest: timed_write_shrinks [OF sym])

declare net_write_loop.simps [simp del]

definition net_write ::
  "bytes \<Rightarrow> nat \<Rightarrow> bytes \<Rightarrow> net_event list \<Rightarrow> unit net_result \<times> bytes \<times> net_event list" where
  "net_write buf timeout sent evs = net_write_loop timeout buf sent evs"

fun timed_accept :: "nat \<Rightarrow> net_event list \<Rightarrow> int timed \<times> net_event list" where
  "timed_accept it_value [] = (silent it_value, [])"
| "timed_accept it_value (ev # evs) =
     (case ev of
        NConn fd \<Rightarrow> (TOk fd, evs)
      | NSignal \<Rightarrow> (TErr EINTR, evs)
      | NFail e \<Rightarrow> (if e = EINTR then TErr EINTR else TErr e, evs)
      | NSilent \<Rightarrow> (silent it_value, evs)
      | _ \<Rightarrow> timed_accept it_value evs)"

lemma timed_accept_err_shrinks: "timed_accept t evs = (TErr e, evs') \<Longrightarrow> length evs' < length evs"
  by (induction evs) (auto split: net_event.splits if_splits simp: silent_def)

function net_accept_loop :: "nat \<Rightarrow> net_event list \<Rightarrow> int net_result \<times> net_event list" where
  "net_accept_loop it_value evs =
     (case timed_accept it_value evs of
        (TOk fd, evs') \<Rightarrow> (NetOk fd, evs')
      | (TErr e, evs') \<Rightarrow> if e = EINTR then net_accept_loop 0 evs' else (NetErr e, evs')
      | (TAlarm, evs') \<Rightarrow> (NetTimeout, evs')
      | (TBlock, evs') \<Rightarrow> (NetHang, evs'))"
  by pat_completeness auto
termination
  by (relation "measure (\<lambda>(t, evs). length evs)") (auto dest: timed_accept_err_shrinks [OF sym])

declare net_accept_loop.simps [simp del]

definition net_accept :: "nat \<Rightarrow> net_event list \<Rightarrow> int net_result \<times> net_event list" where
  "net_accept timeout evs = net_accept_loop timeout evs"

section \<open>Internet addresses\<close>

text \<open>
  \<^verbatim>\<open>net_32addr2text\<close> writes backwards into one of four static buffers, used in turn.  One round
  of its loop puts the decimal digits of a byte and a dot in front of \<open>cp\<close>.
\<close>

definition byte_text :: "nat \<Rightarrow> bytes" where
  "byte_text byte =
     (let cp = [char_of (byte mod 10 + 48)]; byte = byte div 10 in
      if byte > 0 then
        let cp = char_of (byte mod 10 + 48) # cp; byte = byte div 10 in
        if byte > 0 then char_of (byte + 48) # cp else cp
      else cp)"

fun addr_loop :: "nat \<Rightarrow> ui64 \<Rightarrow> bytes \<Rightarrow> bytes" where
  "addr_loop 0 addr cp = cp"
| "addr_loop (Suc n) addr cp =
     addr_loop n (drop_bit 8 addr) (CHR ''.'' # byte_text (unat (and addr 0xFF)) @ cp)"

record ip_bufs =
  ib_curbuf :: nat
  ib_bufs :: "nat \<Rightarrow> bytes"

definition net_32addr2text :: "ui64 \<Rightarrow> ip_bufs \<Rightarrow> nat \<times> ip_bufs" where
  "net_32addr2text addr ib =
     (let buf = ib_curbuf ib;
          curbuf = (if buf + 1 \<ge> 4 then 0 else buf + 1);
          text = tl (addr_loop 4 addr [])
      in (buf, ib\<lparr>ib_curbuf := curbuf, ib_bufs := (ib_bufs ib)(buf := text)\<rparr>))"

section \<open>What the timed calls promise\<close>

lemma timed_write_ok_le: "timed_write t b evs = (TOk k, evs') \<Longrightarrow> k \<le> length b"
  by (induction evs) (auto split: net_event.splits if_splits simp: silent_def)

lemma net_write_loop_prefix:
  "net_write_loop t b sent evs = (r, sent', evs') \<Longrightarrow>
   \<exists>k. sent' = sent @ take k b \<and> (r = NetOk () \<longrightarrow> sent' = sent @ b)"
proof (induction t b sent evs rule: net_write_loop.induct)
  case (1 t b sent evs)
  obtain c evs1 where c: "timed_write t b evs = (c, evs1)" by fastforce
  show ?case
  proof (cases c)
    case (TOk n)
    with c have n: "n \<le> length b" by (auto dest: timed_write_ok_le)
    show ?thesis
    proof (cases "n < length b")
      case True
      then have "net_write_loop 0 (drop n b) (sent @ take n b) evs1 = (r, sent', evs')"
        using "1.prems" c TOk by (simp add: net_write_loop.simps [of t b])
      with "1.IH"(1) [OF c [symmetric] TOk True] obtain k where
        "sent' = (sent @ take n b) @ take k (drop n b)"
        "r = NetOk () \<longrightarrow> sent' = (sent @ take n b) @ drop n b"
        by blast
      then show ?thesis by (intro exI [of _ "n + k"]) (simp add: take_add)
    next
      case False
      with n "1.prems" c TOk show ?thesis
        by (intro exI [of _ n]) (simp add: net_write_loop.simps [of t b])
    qed
  next
    case (TErr e)
    with 1 c show ?thesis
      by (cases "e = EINTR") (auto simp: net_write_loop.simps [of t b] intro: exI [of _ 0])
  next
    case TAlarm
    with 1 c show ?thesis by (auto simp: net_write_loop.simps [of t b] intro: exI [of _ 0])
  next
    case TBlock
    with 1 c show ?thesis by (auto simp: net_write_loop.simps [of t b] intro: exI [of _ 0])
  qed
qed

text \<open>
  C35: \<^verbatim>\<open>net_write\<close> sends a prefix.  Whatever the peer and the kernel do, what the peer has received
  is what it had and a prefix of the buffer, each byte once and in order, and it is the whole
  buffer whenever the call reports success.
\<close>

theorem net_write_prefix:
  "case net_write buf timeout sent evs of
     (r, sent', evs') \<Rightarrow>
       (\<exists>k. sent' = sent @ take k buf) \<and> (if r = NetOk () then sent' = sent @ buf else True)"
proof -
  obtain r sent' evs' where "net_write_loop timeout buf sent evs = (r, sent', evs')"
    by (metis prod_cases3)
  with net_write_loop_prefix [OF this] show ?thesis by (auto simp: net_write_def)
qed

text \<open>
  The timer covers only the first attempt.  A peer that is silent from the start makes each of
  the three calls time out, but after one unrelated signal, or after a partial write, the call is
  retried with the timer switched off and a silent peer blocks the process forever.
\<close>

theorem net_timer_first_attempt:
  assumes "0 < timeout" and "0 < k" and "k < length buf"
  shows "net_read n timeout (NSilent # evs) = (NetTimeout, evs) \<and>
    net_write buf timeout sent (NSilent # evs) = (NetTimeout, sent, evs) \<and>
    net_accept timeout (NSilent # evs) = (NetTimeout, evs) \<and>
    net_read n timeout (NSignal # NSilent # evs) = (NetHang, evs) \<and>
    net_write buf timeout sent (NTake k # NSilent # evs) = (NetHang, sent @ take k buf, evs) \<and>
    net_accept timeout (NSignal # NSilent # evs) = (NetHang, evs)"
  using assms
  by (simp add: net_read_def net_write_def net_accept_def net_read_loop.simps net_write_loop.simps
      net_accept_loop.simps silent_def)

theorem net_timer_first_attempt_witness:
  "net_write ''blob'' 20 [] [NTake 1, NSilent] = (NetHang, ''b'', [])"
  using net_timer_first_attempt [of 20 1 "''blob''" 0 "[]" "[]"] by simp

text \<open>The decimal digits of one byte.\<close>

lemma byte_text_dec:
  assumes "b < 256"
  shows "byte_text b = dec_nat b"
proof -
  consider "b < 10" | "10 \<le> b \<and> b < 100" | "100 \<le> b" by linarith
  then show ?thesis
  proof cases
    case 1
    then show ?thesis by (simp add: byte_text_def Let_def dec_nat.simps [of b] dec_digit_def add.commute)
  next
    case 2
    then have "0 < b div 10" "b div 10 < 10" by auto
    with 2 show ?thesis
      by (simp add: byte_text_def Let_def dec_nat.simps [of b] dec_nat.simps [of "b div 10"]
          dec_digit_def add.commute)
  next
    case 3
    with assms have "0 < b div 100" "b div 100 < 10" "\<not> b div 10 < 10" by auto
    with 3 assms show ?thesis
      by (simp add: byte_text_def Let_def dec_nat.simps [of b] dec_nat.simps [of "b div 10"]
          dec_nat.simps [of "b div 100"] dec_digit_def add.commute div_mult2_eq [symmetric])
  qed
qed

definition ip_byte :: "ui64 \<Rightarrow> nat \<Rightarrow> nat" where
  "ip_byte addr i = unat (and (drop_bit (8 * i) addr) 0xFF)"

lemma ip_byte_less: "ip_byte addr i < 256"
proof -
  have "and (drop_bit (8 * i) addr) 0xFF = take_bit 8 (drop_bit (8 * i) addr)"
    by (simp add: take_bit_eq_mask mask_eq_exp_minus_1 and.commute)
  then have "ip_byte addr i = take_bit 8 (unat (drop_bit (8 * i) addr))"
    by (simp add: ip_byte_def unsigned_take_bit_eq)
  then show ?thesis by (simp add: take_bit_eq_mod)
qed

lemma ip_byte_shift: "ip_byte (drop_bit 8 addr) i = ip_byte addr (Suc i)"
  by (simp add: ip_byte_def add.commute)

lemma addr_loop_step:
  "addr_loop (Suc n) addr cp =
     addr_loop n (drop_bit 8 addr) (CHR ''.'' # dec_nat (ip_byte addr 0) @ cp)"
  using byte_text_dec [OF ip_byte_less [of addr 0]] by (simp add: ip_byte_def)

lemma addr_loop_4:
  "addr_loop 4 addr [] =
     CHR ''.'' # dec_nat (ip_byte addr 3) @ CHR ''.'' # dec_nat (ip_byte addr 2) @
     CHR ''.'' # dec_nat (ip_byte addr 1) @ CHR ''.'' # dec_nat (ip_byte addr 0)"
proof -
  have four: "(4::nat) = Suc (Suc (Suc (Suc 0)))" by simp
  show ?thesis
    unfolding four addr_loop_step ip_byte_shift
    by (simp only: addr_loop.simps numeral_2_eq_2 numeral_3_eq_3 One_nat_def append.simps append_Nil2
        append_assoc)
qed

text \<open>
  \<^verbatim>\<open>net_32addr2text\<close> writes the dotted decimal form of the low 32 bits, most significant byte
  first, and a text stays intact in its buffer for the three calls that follow.
\<close>

theorem net_32addr2text_correct:
  assumes "ib_curbuf ib < 4"
  shows "case net_32addr2text addr ib of
     (p, ib1) \<Rightarrow>
       ib_bufs ib1 p = dec_nat (ip_byte addr 3) @ CHR ''.'' # dec_nat (ip_byte addr 2) @
         CHR ''.'' # dec_nat (ip_byte addr 1) @ CHR ''.'' # dec_nat (ip_byte addr 0) \<and>
       (let ib2 = snd (net_32addr2text a2 ib1); ib3 = snd (net_32addr2text a3 ib2);
            ib4 = snd (net_32addr2text a4 ib3)
        in ib_bufs ib2 p = ib_bufs ib1 p \<and> ib_bufs ib3 p = ib_bufs ib1 p \<and>
           ib_bufs ib4 p = ib_bufs ib1 p)"
proof -
  have "ib_curbuf ib \<in> {0, 1, 2, 3}" using assms by auto
  then show ?thesis
    by (auto simp: net_32addr2text_def Let_def addr_loop_4)
qed

theorem net_32addr2text_correct_witness:
  "ib_bufs (snd (net_32addr2text 0x7F00002A \<lparr>ib_curbuf = 3, ib_bufs = \<lambda>_. []\<rparr>)) 3 = ''127.0.0.42''"
proof -
  have d: "dec_nat (ip_byte 0x7F00002A 3) = ''127''" "dec_nat (ip_byte 0x7F00002A 2) = ''0''"
    "dec_nat (ip_byte 0x7F00002A 1) = ''0''" "dec_nat (ip_byte 0x7F00002A 0) = ''42''"
    by code_simp+
  have p: "fst (net_32addr2text 0x7F00002A \<lparr>ib_curbuf = 3, ib_bufs = \<lambda>_. []\<rparr>) = 3"
    by (simp add: net_32addr2text_def Let_def)
  show ?thesis
    using net_32addr2text_correct [of "\<lparr>ib_curbuf = 3, ib_bufs = \<lambda>_. []\<rparr>" "0x7F00002A"] d p
    by (auto simp: case_prod_beta)
qed

end
