(* ===== verification/Req.thy ===== *)
theory Req
  imports Net Io
begin

text \<open>
  \<^verbatim>\<open>bio4d/req.c\<close> and \<^verbatim>\<open>struct request\<close> of \<^verbatim>\<open>bio4d/bio4d.h\<close>: the state of the child process that
  serves one request, its reads and writes on the client's socket, the chat history, and the
  replies of the client.
\<close>

section \<open>The request\<close>

text \<open>\<^verbatim>\<open>struct timespec\<close>, and the state of the child.\<close>

text \<open>
  The child's state: the fields of \<^verbatim>\<open>struct request\<close> the code branches on, the process-wide
  \<^verbatim>\<open>request_exit_status\<close>, both directions of the client's socket (\<open>rq_in\<close>, and \<open>rq_peer\<close> with
  what the client has received in \<open>rq_sent\<close>), the pipe to the logger of blob request records, and
  \<open>rq_module\<close>, the state of the digest module and of the file system behind it.
\<close>

record timespec =
  tv_sec :: int
  tv_nsec :: int

record 'm request =
  rq_in :: "net_event list"
  rq_peer :: "net_event list"
  rq_sent :: bytes
  rq_read_timeout :: nat
  rq_write_timeout :: nat
  rq_verb :: bytes
  rq_step :: bytes
  rq_algorithm :: bytes
  rq_digest :: bytes
  rq_scan_buf :: bytes
  rq_chat_history :: bytes
  rq_blob_size :: ui64
  rq_exit_status :: ui8
  rq_start_time :: timespec
  rq_end_time :: timespec
  rq_transport :: bytes
  rq_log :: wr_fd
  rq_module :: 'm

text \<open>
  The child's \<^verbatim>\<open>req\<close> as the master leaves it at the fork: the transport and the start time are set
  by \<^verbatim>\<open>fork_accept\<close>, and the client's events are those of the accepted socket.
\<close>

definition NET_TIMEOUT :: nat where "NET_TIMEOUT = 20"

definition req_init :: "net_event list \<Rightarrow> timespec \<Rightarrow> bytes \<Rightarrow> 'm \<Rightarrow> 'm request" where
  "req_init evs start_time transport m =
     \<lparr>rq_in = evs, rq_peer = [], rq_sent = [], rq_read_timeout = NET_TIMEOUT,
      rq_write_timeout = NET_TIMEOUT, rq_verb = [], rq_step = [], rq_algorithm = [],
      rq_digest = [], rq_scan_buf = [], rq_chat_history = [], rq_blob_size = 0,
      rq_exit_status = 0, rq_start_time = start_time, rq_end_time = start_time,
      rq_transport = transport, rq_log = \<lparr>wr_script = [], wr_out = []\<rparr>, rq_module = m\<rparr>"

definition REQUEST_EXIT_STATUS_SUCCESS :: ui8 where "REQUEST_EXIT_STATUS_SUCCESS = 0"
definition REQUEST_EXIT_STATUS_ERROR :: ui8 where "REQUEST_EXIT_STATUS_ERROR = 1"
definition REQUEST_EXIT_STATUS_TIMEOUT :: ui8 where "REQUEST_EXIT_STATUS_TIMEOUT = 2"
definition REQUEST_EXIT_STATUS_FAULT :: ui8 where "REQUEST_EXIT_STATUS_FAULT = 3"

definition SET_EXIT_ERROR :: "'m request \<Rightarrow> 'm request" where
  "SET_EXIT_ERROR r =
     r\<lparr>rq_exit_status := or (and (rq_exit_status r) 0xFC) REQUEST_EXIT_STATUS_ERROR\<rparr>"

definition SET_EXIT_TIMEOUT :: "'m request \<Rightarrow> 'm request" where
  "SET_EXIT_TIMEOUT r =
     r\<lparr>rq_exit_status := or (and (rq_exit_status r) 0xFC) REQUEST_EXIT_STATUS_TIMEOUT\<rparr>"

text \<open>
  \<^verbatim>\<open>error\<close> and \<^verbatim>\<open>panic\<close> of \<^verbatim>\<open>bio4d/log.c\<close> in a child: an error marks the exit status unless it
  is already marked, a panic marks it as a fault and exits.
\<close>

definition log_error :: "'m request \<Rightarrow> 'm request" where
  "log_error r =
     (if and (rq_exit_status r) 3 = 0
      then r\<lparr>rq_exit_status := or (and (rq_exit_status r) 0xFC) REQUEST_EXIT_STATUS_ERROR\<rparr>
      else r)"

definition child_panic :: "'m request \<Rightarrow> ('a, 'm request) outcome" where
  "child_panic r =
     Exited ((log_error r)\<lparr>rq_exit_status :=
       or (and (rq_exit_status (log_error r)) 0xFC) REQUEST_EXIT_STATUS_FAULT\<rparr>)"

text \<open>
  \<^verbatim>\<open>die\<close> in a child, and \<^verbatim>\<open>die_NO\<close>, which first tells the client with one unchecked, untimed
  write of \<^verbatim>\<open>no\<close>.
\<close>

definition die :: "'m request \<Rightarrow> ('a, 'm request) outcome" where
  "die r =
     (let r1 = log_error r in
      Exited (if and (rq_exit_status r1) 3 = 0
              then r1\<lparr>rq_exit_status := or (and (rq_exit_status r1) 0xFC) 1\<rparr> else r1))"

definition die_NO :: "'m request \<Rightarrow> ('a, 'm request) outcome" where
  "die_NO r =
     (case timed_write 0 (''no'' @ [NL]) (rq_peer r) of
        (TOk n, evs) \<Rightarrow>
          die (r\<lparr>rq_sent := rq_sent r @ take n (''no'' @ [NL]), rq_peer := evs\<rparr>)
      | (TErr e, evs) \<Rightarrow> die (log_error (r\<lparr>rq_peer := evs\<rparr>))
      | (_, evs) \<Rightarrow> Blocked (r\<lparr>rq_peer := evs\<rparr>))"

section \<open>Reading and writing the client\<close>

datatype req_in = RqBytes bytes | RqError | RqTimeout

definition req_read :: "'m request \<Rightarrow> nat \<Rightarrow> (req_in, 'm request) outcome" where
  "req_read r buf_size =
     (case net_read buf_size (rq_read_timeout r) (rq_in r) of
        (NetOk bs, evs) \<Rightarrow> Ret (RqBytes bs) (r\<lparr>rq_in := evs\<rparr>)
      | (NetErr e, evs) \<Rightarrow> Ret RqError (SET_EXIT_ERROR (log_error (r\<lparr>rq_in := evs\<rparr>)))
      | (NetTimeout, evs) \<Rightarrow> Ret RqTimeout (SET_EXIT_TIMEOUT (log_error (r\<lparr>rq_in := evs\<rparr>)))
      | (NetHang, evs) \<Rightarrow> Blocked (r\<lparr>rq_in := evs\<rparr>))"

definition blob_read :: "'m request \<Rightarrow> nat \<Rightarrow> (req_in, 'm request) outcome" where
  "blob_read r buf_size =
     proceed (req_read r buf_size) (\<lambda>nread r.
       case nread of
         RqBytes bs \<Rightarrow>
           Ret nread (if 0 < length bs
                      then r\<lparr>rq_blob_size := rq_blob_size r + of_nat (length bs)\<rparr> else r)
       | _ \<Rightarrow> Ret nread r)"

text \<open>0 when the whole buffer was written, 1 on a timeout, -1 on an error.\<close>

definition req_write :: "'m request \<Rightarrow> bytes \<Rightarrow> (int, 'm request) outcome" where
  "req_write r buf =
     (case net_write buf (rq_write_timeout r) (rq_sent r) (rq_peer r) of
        (res, sent, evs) \<Rightarrow>
          let r1 = r\<lparr>rq_sent := sent, rq_peer := evs\<rparr> in
          case res of
            NetOk _ \<Rightarrow> Ret 0 r1
          | NetErr e \<Rightarrow> Ret (-1) (SET_EXIT_ERROR (log_error r1))
          | NetTimeout \<Rightarrow> Ret 1 (SET_EXIT_TIMEOUT (log_error r1))
          | NetHang \<Rightarrow> Blocked r1)"

definition blob_write :: "'m request \<Rightarrow> bytes \<Rightarrow> (int, 'm request) outcome" where
  "blob_write r buf =
     proceed (req_write r buf) (\<lambda>status r.
       if status \<noteq> 0 then Ret status r
       else Ret 0 (r\<lparr>rq_blob_size := rq_blob_size r + of_nat (length buf)\<rparr>))"

section \<open>The chat history\<close>

definition CHAT_SIZE :: nat where "CHAT_SIZE = 10"

text \<open>
  \<^verbatim>\<open>strncat(dest, src, n)\<close> takes at most \<open>n\<close> characters of \<open>src\<close>.  After the comma the code
  decrements \<open>len\<close>, so the bound of the second call is one too large for each blurb.
\<close>

definition add_chat_history :: "'m request \<Rightarrow> bytes \<Rightarrow> (unit, 'm request) outcome" where
  "add_chat_history r blurb =
     (let len = length (rq_chat_history r) in
      if len = 9 then child_panic r
      else
        let chat = (if len > 0 then rq_chat_history r @ take (CHAT_SIZE - (len + 1)) '',''
                    else rq_chat_history r);
            len' = (if len > 0 then len - 1 else len)
        in Ret () (r\<lparr>rq_chat_history := chat @ take (CHAT_SIZE - (len' + 1)) blurb\<rparr>))"

definition write_ok :: "'m request \<Rightarrow> (int, 'm request) outcome" where
  "write_ok r =
     proceed (req_write r (''ok'' @ [NL])) (\<lambda>status r.
       if status \<noteq> 0 then Ret (-1) (log_error r)
       else proceed (add_chat_history r ''ok'') (\<lambda>_ r. Ret 0 r))"

definition write_no :: "'m request \<Rightarrow> (int, 'm request) outcome" where
  "write_no r =
     proceed (req_write r (''no'' @ [NL])) (\<lambda>status r.
       if status \<noteq> 0 then Ret (-1) (log_error r)
       else proceed (add_chat_history r ''no'') (\<lambda>_ r. Ret 0 r))"

section \<open>The reply of the client\<close>

definition reply_error :: "'m request \<Rightarrow> (bytes option, 'm request) outcome" where
  "reply_error r = Ret None (SET_EXIT_ERROR (log_error r))"

text \<open>
  \<^verbatim>\<open>read_reply\<close>: \<open>junk\<close> is what the stack held in the four bytes of \<^verbatim>\<open>reply\<close> before they were
  read; the code looks at \<^verbatim>\<open>reply[2]\<close> and \<^verbatim>\<open>reply[3]\<close> when only two bytes have arrived.
\<close>

definition reply_at :: "(nat \<Rightarrow> char) \<Rightarrow> bytes \<Rightarrow> nat \<Rightarrow> char" where
  "reply_at junk got i = (if i < length got then got ! i else junk i)"

definition reply_word :: "(nat \<Rightarrow> char) \<Rightarrow> bytes \<Rightarrow> 'm request \<Rightarrow> (bytes option, 'm request) outcome" where
  "reply_word junk got r =
     (let c0 = reply_at junk got 0; c1 = reply_at junk got 1 in
      if c0 = CHR ''o'' \<and> c1 = CHR ''k''
      then proceed (add_chat_history r ''ok'') (\<lambda>_ r. Ret (Some ''ok'') r)
      else if c0 = CHR ''n'' \<and> c1 = CHR ''o''
      then proceed (add_chat_history r ''no'') (\<lambda>_ r. Ret (Some ''no'') r)
      else reply_error r)"

function reply_loop ::
  "(nat \<Rightarrow> char) \<Rightarrow> bytes \<Rightarrow> 'm request \<Rightarrow> (bytes option, 'm request) outcome" where
  "reply_loop junk got r =
     (case req_read r (4 - length got) of
        Blocked r1 \<Rightarrow> Blocked r1
      | Exited r1 \<Rightarrow> Exited r1
      | Ret RqError r1 \<Rightarrow> reply_error r1
      | Ret RqTimeout r1 \<Rightarrow> reply_error r1
      | Ret (RqBytes []) r1 \<Rightarrow> reply_error r1
      | Ret (RqBytes (b # bs)) r1 \<Rightarrow>
          let reply = got @ b # bs; nread = length reply in
          if nread < 2 then reply_loop junk reply r1
          else if nread > 4 then reply_error r1
          else if nread = 3 then
            if reply ! 2 = CR then reply_loop junk reply r1
            else if reply ! 2 \<noteq> NL then reply_error r1
            else reply_word junk reply r1
          else if reply_at junk reply 2 \<noteq> CR \<or> reply_at junk reply 3 = NL then reply_error r1
          else reply_word junk reply r1)"
  by pat_completeness auto
termination
  by (relation "measure (\<lambda>(junk, got, r). 4 - length got)") auto

declare reply_loop.simps [simp del]

definition read_reply :: "(nat \<Rightarrow> char) \<Rightarrow> 'm request \<Rightarrow> (bytes option, 'm request) outcome" where
  "read_reply junk r = reply_loop junk [] r"

section \<open>Hexadecimal\<close>

definition hexchar :: bytes where "hexchar = ''0123456789abcdef''"

text \<open>
  \<^verbatim>\<open>decode_hex\<close> ors the nibbles into the bytes that are there: \<open>None\<close> when it would write past
  the end of them.
\<close>

definition hex_nib :: "char \<Rightarrow> ui8" where
  "hex_nib c =
     (if code (CHR ''0'') \<le> code c \<and> code c \<le> code (CHR ''9'')
      then char_byte c - char_byte (CHR ''0'')
      else char_byte c - char_byte (CHR ''a'') + 10)"

fun decode_hex_loop :: "bytes \<Rightarrow> nat \<Rightarrow> ui8 list \<Rightarrow> ui8 list option" where
  "decode_hex_loop [] i b = Some b"
| "decode_hex_loop (c # h) i b =
     (let nib = (if i mod 2 = 0 then push_bit 4 (hex_nib c) else hex_nib c) in
      if i div 2 < length b
      then decode_hex_loop h (i + 1) (b[i div 2 := or (b ! (i div 2)) nib])
      else None)"

definition decode_hex :: "bytes \<Rightarrow> ui8 list \<Rightarrow> ui8 list option" where
  "decode_hex hex b = decode_hex_loop (cstr hex) 0 b"

section \<open>Chat histories\<close>

text \<open>The histories that occur: up to three answers, each \<^verbatim>\<open>ok\<close> or \<^verbatim>\<open>no\<close>.\<close>

definition chat_of :: "bytes list \<Rightarrow> bytes" where
  "chat_of ws = (case ws of [] \<Rightarrow> [] | w # ws' \<Rightarrow> w @ concat (map (\<lambda>v. CHR '','' # v) ws'))"

definition blurb :: "bytes \<Rightarrow> bool" where
  "blurb w \<longleftrightarrow> w = ''ok'' \<or> w = ''no''"

lemma blurb_length: "blurb w \<Longrightarrow> length w = 2"
  by (auto simp: blurb_def)

lemma chat_of_snoc: "ws \<noteq> [] \<Longrightarrow> chat_of (ws @ [w]) = chat_of ws @ CHR '','' # w"
  by (cases ws) (auto simp: chat_of_def)

lemma chat_of_length: "\<forall>w \<in> set ws. blurb w \<Longrightarrow> length (chat_of ws) = 3 * length ws - 1"
proof (induction ws rule: rev_induct)
  case (snoc w ws)
  show ?case
  proof (cases "ws = []")
    case True
    with snoc.prems show ?thesis by (simp add: chat_of_def blurb_length)
  next
    case False
    then have "0 < length ws" by simp
    with snoc False show ?thesis by (simp add: chat_of_snoc blurb_length)
  qed
qed (simp add: chat_of_def)

lemma add_chat_history_snoc:
  assumes "rq_chat_history r = chat_of ws" and "\<forall>w \<in> set ws. blurb w" and "blurb w"
    and "length ws < 3"
  shows "add_chat_history r w = Ret () (r\<lparr>rq_chat_history := chat_of (ws @ [w])\<rparr>)"
proof -
  have l: "length (chat_of ws) = 3 * length ws - 1" by (rule chat_of_length) (rule assms)
  have w: "length w = 2" using assms(3) by (rule blurb_length)
  show ?thesis
  proof (cases "ws = []")
    case True
    with assms(1) w show ?thesis
      by (simp add: add_chat_history_def chat_of_def Let_def CHAT_SIZE_def)
  next
    case False
    then have "0 < length ws" by simp
    then have "length ws = 1 \<or> length ws = 2" using assms(4) by linarith
    with l w assms(1) False show ?thesis
      by (auto simp: add_chat_history_def Let_def CHAT_SIZE_def chat_of_snoc)
  qed
qed

text \<open>
  The chat history.  Up to three answers are joined with commas in the ten bytes of
  \<^verbatim>\<open>chat_history\<close>, NUL included; a fourth would write eleven characters.
\<close>

theorem chat_history_bounds:
  assumes "rq_chat_history r = chat_of ws" and "\<forall>v \<in> set ws. blurb v" and "blurb w"
    and "length ws \<le> 3"
  shows "\<exists>r'. add_chat_history r w = Ret () r' \<and>
    (if length ws < 3
     then rq_chat_history r' = chat_of (ws @ [w]) \<and> length (rq_chat_history r') < CHAT_SIZE
     else length (rq_chat_history r') = 11)"
proof (cases "length ws < 3")
  case True
  have "length (chat_of (ws @ [w])) = 3 * length (ws @ [w]) - 1"
    using assms(2,3) by (intro chat_of_length) auto
  with True add_chat_history_snoc [OF assms(1,2,3) True] show ?thesis
    by (simp add: CHAT_SIZE_def)
next
  case False
  with assms(4) chat_of_length [OF assms(2)] have "length (chat_of ws) = 8" by simp
  with False assms(1) blurb_length [OF assms(3)] show ?thesis
    by (simp add: add_chat_history_def Let_def CHAT_SIZE_def)
qed

section \<open>Replies\<close>

lemma req_read_data:
  assumes "rq_in r = NData bs # evs" and "bs \<noteq> []" and "length bs \<le> n"
  shows "req_read r n = Ret (RqBytes bs) (r\<lparr>rq_in := evs\<rparr>)"
  using assms by (simp add: req_read_def net_read_def net_read_loop.simps)

text \<open>
  What \<^verbatim>\<open>read_reply\<close> makes of the client's answer.  An answer with a bare newline that
  arrives in one piece, or after its first byte, is returned and appended to the chat; the
  answer with carriage return and newline that the comment promises is an error; and when the
  two letters arrive alone the code decides on bytes it never read.
\<close>

theorem read_reply_cases:
  assumes "blurb w" and "rq_chat_history r = chat_of ws" and "\<forall>v \<in> set ws. blurb v"
    and "length ws < 3" and "w = [c0, c1]"
  shows "read_reply junk (r\<lparr>rq_in := [NData (w @ [NL])]\<rparr>) =
      Ret (Some w) (r\<lparr>rq_in := [], rq_chat_history := chat_of (ws @ [w])\<rparr>) \<and>
    read_reply junk (r\<lparr>rq_in := [NData [c0], NData [c1, NL]]\<rparr>) =
      Ret (Some w) (r\<lparr>rq_in := [], rq_chat_history := chat_of (ws @ [w])\<rparr>) \<and>
    read_reply junk (r\<lparr>rq_in := [NData (w @ [CR, NL])]\<rparr>) = reply_error (r\<lparr>rq_in := []\<rparr>) \<and>
    read_reply junk (r\<lparr>rq_in := [NData w, NData [NL]]\<rparr>) =
      (if junk 2 = CR \<and> junk 3 \<noteq> NL
       then Ret (Some w) (r\<lparr>rq_in := [NData [NL]], rq_chat_history := chat_of (ws @ [w])\<rparr>)
       else reply_error (r\<lparr>rq_in := [NData [NL]]\<rparr>))"
proof -
  have word: "reply_word junk (w @ t) (r\<lparr>rq_in := evs\<rparr>) =
      Ret (Some w) (r\<lparr>rq_in := evs, rq_chat_history := chat_of (ws @ [w])\<rparr>)" for t evs
  proof -
    have "add_chat_history (r\<lparr>rq_in := evs\<rparr>) w =
        Ret () (r\<lparr>rq_in := evs, rq_chat_history := chat_of (ws @ [w])\<rparr>)"
      using add_chat_history_snoc [of "r\<lparr>rq_in := evs\<rparr>" ws w] assms by simp
    with assms(1,5) show ?thesis
      by (auto simp: reply_word_def reply_at_def blurb_def)
  qed
  note defs = read_reply_def reply_loop.simps req_read_data assms(5)
  show ?thesis
    using word [of "[NL]" "[]"] word [of "[]" "[NData [NL]]"]
    by (auto simp: defs reply_at_def)
qed

theorem chat_history_bounds_witness:
  "\<exists>r'. add_chat_history ((req_init [] \<lparr>tv_sec = 0, tv_nsec = 0\<rparr> [] ())
      \<lparr>rq_chat_history := ''ok,ok''\<rparr>) ''no'' = Ret () r' \<and> rq_chat_history r' = ''ok,ok,no''"
  using chat_history_bounds [of "(req_init [] \<lparr>tv_sec = 0, tv_nsec = 0\<rparr> [] ())
      \<lparr>rq_chat_history := ''ok,ok''\<rparr>" "[''ok'', ''ok'']" "''no''"]
  by (auto simp: chat_of_def blurb_def)

theorem read_reply_cases_witness:
  "read_reply (\<lambda>_. NUL) ((req_init [NData (''ok'' @ [CR, NL])] \<lparr>tv_sec = 0, tv_nsec = 0\<rparr> [] ())
      \<lparr>rq_chat_history := ''ok''\<rparr>) =
    reply_error ((req_init [] \<lparr>tv_sec = 0, tv_nsec = 0\<rparr> [] ())\<lparr>rq_chat_history := ''ok''\<rparr>)"
  using read_reply_cases [of "''ok''" "(req_init [] \<lparr>tv_sec = 0, tv_nsec = 0\<rparr> [] ())
      \<lparr>rq_chat_history := ''ok''\<rparr>" "[''ok'']" _ _ "\<lambda>_. NUL"]
  by (simp add: chat_of_def blurb_def req_init_def)

section \<open>Decoding\<close>

definition encode_byte :: "ui8 \<Rightarrow> bytes" where
  "encode_byte b = [hexchar ! unat (drop_bit 4 b), hexchar ! unat (and b 0xF)]"

lemma nib_cases: "i < 16 \<Longrightarrow> i \<in> {0, 1, 2, 3, 4, 5, 6, 7, 8, 9, 10, 11, 12, 13, 14, 15 :: nat}"
  by simp arith

lemma hex_nib_hexchar:
  assumes "i < 16"
  shows "hex_nib (hexchar ! i) = of_nat i \<and> hexchar ! i \<noteq> NUL"
  using nib_cases [OF assms] by (auto simp: hexchar_def hex_nib_def char_byte_def)

lemma nibbles: "or (push_bit 4 (drop_bit 4 (b :: ui8))) (and b 0xF) = b"
proof -
  have "and b 0xF = take_bit 4 b" by (simp add: take_bit_eq_mask mask_eq_exp_minus_1)
  then show ?thesis
    by (simp only:) (rule bit_eqI, auto simp: bit_simps)
qed

lemma nibble_bounds: "unat (drop_bit 4 (b :: ui8)) < 16" "unat (and (b :: ui8) 0xF) < 16"
proof -
  have "unat b < 2 ^ LENGTH(8)" by (rule unsigned_less)
  moreover have "unat (drop_bit 4 b) = unat b div 16"
    using \<open>unat b < 2 ^ LENGTH(8)\<close>
    by (simp add: unsigned_drop_bit_eq) (simp add: drop_bit_eq_div take_bit_nat_eq_self)
  ultimately show "unat (drop_bit 4 b) < 16" by simp
  have "and b 0xF = take_bit 4 b" by (simp add: take_bit_eq_mask mask_eq_exp_minus_1)
  then have "unat (and b 0xF) = take_bit 4 (unat b)" by (simp only: unsigned_take_bit_eq)
  then show "unat (and b 0xF) < 16" by (simp only:) (simp add: take_bit_eq_mod)
qed

lemma encode_byte_no_nul: "NUL \<notin> set (concat (map encode_byte bs))"
  using hex_nib_hexchar [OF nibble_bounds(1)] hex_nib_hexchar [OF nibble_bounds(2)]
  by (induction bs) (simp_all add: encode_byte_def, metis)

lemma hex_nib_byte:
  "hex_nib (hexchar ! unat (drop_bit 4 (b :: ui8))) = drop_bit 4 b"
  "hex_nib (hexchar ! unat (and b 0xF)) = and b 0xF"
  using hex_nib_hexchar [OF nibble_bounds(1) [of b]] hex_nib_hexchar [OF nibble_bounds(2) [of b]]
  by simp_all

lemma decode_hex_loop_encode:
  "decode_hex_loop (concat (map encode_byte bs)) (2 * length acc)
     (acc @ replicate (length bs) 0) = Some (acc @ bs)"
proof (induction bs arbitrary: acc)
  case (Cons b bs)
  have "decode_hex_loop (concat (map encode_byte bs)) (2 * length (acc @ [b]))
     ((acc @ [b]) @ replicate (length bs) 0) = Some ((acc @ [b]) @ bs)"
    by (rule Cons.IH)
  then show ?case
    by (simp add: encode_byte_def [of b] hex_nib_byte nth_append nibbles Let_def)
qed simp

text \<open>
  \<^verbatim>\<open>decode_hex\<close> inverts the hexadecimal form of a digest when its target is zeroed, and
  writes no byte beyond it.
\<close>

theorem decode_hex_encode:
  "decode_hex (concat (map encode_byte bs)) (replicate (length bs) 0) = Some bs"
  using decode_hex_loop_encode [of bs "[]"] encode_byte_no_nul [of bs]
  by (simp add: decode_hex_def)

end
