(* ===== verification/Request_Frame.thy ===== *)
theory Request_Frame
  imports Req
begin

text \<open>
  What the calls of \<^verbatim>\<open>bio4d/req.c\<close> leave alone: the private data of the digest module, the parsed
  request and the pipe to the logger.
\<close>

definition same_call :: "'m request \<Rightarrow> 'm request \<Rightarrow> bool" where
  "same_call r s \<longleftrightarrow>
     rq_module s = rq_module r \<and> rq_verb s = rq_verb r \<and> rq_algorithm s = rq_algorithm r \<and>
     rq_digest s = rq_digest r \<and> rq_scan_buf s = rq_scan_buf r \<and> rq_log s = rq_log r"

lemma same_call_refl [simp]: "same_call r r"
  by (simp add: same_call_def)

lemma same_call_sym: "same_call r s \<Longrightarrow> same_call s r"
  by (simp add: same_call_def)

lemma same_call_trans: "same_call r s \<Longrightarrow> same_call s t \<Longrightarrow> same_call r t"
  by (simp add: same_call_def)

lemma same_call_upd [simp]:
  "same_call r (s\<lparr>rq_exit_status := x\<rparr>) = same_call r s"
  "same_call r (s\<lparr>rq_in := evs\<rparr>) = same_call r s"
  "same_call r (s\<lparr>rq_peer := evs\<rparr>) = same_call r s"
  "same_call r (s\<lparr>rq_sent := bs\<rparr>) = same_call r s"
  "same_call r (s\<lparr>rq_step := w\<rparr>) = same_call r s"
  "same_call r (s\<lparr>rq_blob_size := n\<rparr>) = same_call r s"
  "same_call r (s\<lparr>rq_chat_history := c\<rparr>) = same_call r s"
  by (simp_all add: same_call_def)

lemma same_call_log_error [simp]:
  "same_call r (log_error s) = same_call r s"
  "same_call r (SET_EXIT_ERROR s) = same_call r s"
  "same_call r (SET_EXIT_TIMEOUT s) = same_call r s"
  by (simp_all add: log_error_def SET_EXIT_ERROR_def SET_EXIT_TIMEOUT_def)

lemma log_error_fields [simp]:
  "rq_module (log_error r) = rq_module r" "rq_digest (log_error r) = rq_digest r"
  "rq_verb (log_error r) = rq_verb r" "rq_chat_history (log_error r) = rq_chat_history r"
  "rq_sent (log_error r) = rq_sent r" "rq_in (log_error r) = rq_in r"
  by (simp_all add: log_error_def)

text \<open>The state in which a panicked child exits.\<close>

definition panic_state :: "'m request \<Rightarrow> 'm request" where
  "panic_state r = (log_error r)\<lparr>rq_exit_status :=
     or (and (rq_exit_status (log_error r)) 0xFC) REQUEST_EXIT_STATUS_FAULT\<rparr>"

lemma child_panic_Exited: "child_panic r = Exited (panic_state r)"
  by (simp add: child_panic_def panic_state_def)

lemma after_child_panic [simp]: "after Q E (child_panic r) = E (panic_state r)"
  by (simp add: child_panic_Exited)

lemma panic_state_fields [simp]:
  "rq_module (panic_state r) = rq_module r" "same_call t (panic_state r) = same_call t r"
  "rq_sent (panic_state r) = rq_sent r" "rq_chat_history (panic_state r) = rq_chat_history r"
  by (simp_all add: panic_state_def)

lemma child_panic_not_Ret [simp]: "child_panic r \<noteq> Ret a s" "child_panic r \<noteq> Blocked s"
  by (simp_all add: child_panic_def)

lemma frame_req_read: "after (\<lambda>_. same_call r) (same_call r) (req_read r n)"
  by (auto simp: req_read_def split: prod.splits net_result.splits)

lemma frame_blob_read: "after (\<lambda>_. same_call r) (same_call r) (blob_read r n)"
  unfolding blob_read_def after_proceed
  by (rule after_mono [OF frame_req_read]) (auto split: req_in.splits)

lemma frame_req_write: "after (\<lambda>_. same_call r) (same_call r) (req_write r bs)"
  by (auto simp: req_write_def Let_def split: prod.splits net_result.splits)

lemma frame_blob_write: "after (\<lambda>_. same_call r) (same_call r) (blob_write r bs)"
  unfolding blob_write_def after_proceed
  by (rule after_mono [OF frame_req_write]) auto

lemma frame_add_chat: "after (\<lambda>_. same_call r) (same_call r) (add_chat_history r w)"
  by (simp add: add_chat_history_def Let_def)

lemma frame_answer:
  assumes "same_call t r"
  shows "after (\<lambda>_. same_call t) (same_call t) (write_ok r)"
    and "after (\<lambda>_. same_call t) (same_call t) (write_no r)"
  unfolding write_ok_def write_no_def after_proceed
  by (rule after_mono [OF frame_req_write],
      auto intro!: after_mono [OF frame_add_chat] intro: same_call_trans assms)+

section \<open>What the client has received\<close>

text \<open>\<open>s\<close> has sent a prefix of \<open>bs\<close> more than \<open>r\<close>.\<close>

definition sent_prefix :: "bytes \<Rightarrow> 'm request \<Rightarrow> 'm request \<Rightarrow> bool" where
  "sent_prefix bs r s \<longleftrightarrow> (\<exists>k. rq_sent s = rq_sent r @ take k bs)"

lemma sent_prefix_log [simp]:
  "sent_prefix bs r (log_error s) = sent_prefix bs r s"
  "sent_prefix bs r (panic_state s) = sent_prefix bs r s"
  "sent_prefix bs r (SET_EXIT_ERROR s) = sent_prefix bs r s"
  "sent_prefix bs r (SET_EXIT_TIMEOUT s) = sent_prefix bs r s"
  "sent_prefix bs r (s\<lparr>rq_blob_size := n\<rparr>) = sent_prefix bs r s"
  "sent_prefix bs r (s\<lparr>rq_module := m\<rparr>) = sent_prefix bs r s"
  by (simp_all add: sent_prefix_def SET_EXIT_ERROR_def SET_EXIT_TIMEOUT_def)

lemma sent_prefix_refl: "rq_sent s = rq_sent r \<Longrightarrow> sent_prefix bs r s"
  unfolding sent_prefix_def by (intro exI [of _ 0]) simp

lemma sent_prefix_self [simp]: "sent_prefix bs r r"
  by (simp add: sent_prefix_refl)

lemma sent_prefix_append:
  "rq_sent s = rq_sent r @ as \<Longrightarrow> sent_prefix bs s t \<Longrightarrow> sent_prefix (as @ bs) r t"
  unfolding sent_prefix_def
proof (elim exE)
  fix k assume "rq_sent s = rq_sent r @ as" and "rq_sent t = rq_sent s @ take k bs"
  then show "\<exists>k. rq_sent t = rq_sent r @ take k (as @ bs)"
    by (intro exI [of _ "length as + k"]) simp
qed

lemma sent_prefix_more: "sent_prefix as r s \<Longrightarrow> sent_prefix (as @ bs) r s"
  unfolding sent_prefix_def
proof (elim exE)
  fix k assume k: "rq_sent s = rq_sent r @ take k as"
  show "\<exists>k. rq_sent s = rq_sent r @ take k (as @ bs)"
    by (rule exI [of _ "min k (length as)"]) (simp add: k min_def)
qed

lemma sent_req_write:
  "after (\<lambda>st s. same_call r s \<and> sent_prefix bs r s \<and> (st = 0 \<longrightarrow> rq_sent s = rq_sent r @ bs))
    (\<lambda>s. same_call r s \<and> sent_prefix bs r s) (req_write r bs)"
proof -
  obtain res sent evs where w: "net_write bs (rq_write_timeout r) (rq_sent r) (rq_peer r) = (res, sent, evs)"
    by (metis prod_cases3)
  from net_write_loop_prefix [OF w [unfolded net_write_def]] obtain k where
    k: "sent = rq_sent r @ take k bs" "res = NetOk () \<longrightarrow> sent = rq_sent r @ bs" by blast
  then have "\<exists>k. sent = rq_sent r @ take k bs" by blast
  with w k show ?thesis
    by (auto simp: req_write_def Let_def sent_prefix_def SET_EXIT_ERROR_def SET_EXIT_TIMEOUT_def
        split: net_result.splits)
qed

lemma sent_blob_write:
  "after (\<lambda>st s. same_call r s \<and> sent_prefix bs r s \<and> (st = 0 \<longrightarrow> rq_sent s = rq_sent r @ bs))
    (\<lambda>s. same_call r s \<and> sent_prefix bs r s) (blob_write r bs)"
  unfolding blob_write_def after_proceed by (rule after_mono [OF sent_req_write]) auto

end
