(* ===== verification/Request_Scan.thy ===== *)
theory Request_Scan
  imports Req
begin

text \<open>
  The lexer of \<^verbatim>\<open>request\<close> in \<^verbatim>\<open>bio4d/bio4d.c\<close>: it reads the client's request in chunks and splits
  it into verb, algorithm and digest in three bounded buffers.
\<close>

section \<open>The lexer\<close>

definition MAX_VERB_SIZE :: nat where "MAX_VERB_SIZE = 5"

datatype scan_state =
  STATE_SCAN_VERB | STATE_SCAN_ALGORITHM | STATE_SCAN_NEW_LINE | STATE_SCAN_DIGEST

text \<open>
  The three buffers up to \<^verbatim>\<open>v_next\<close>, \<^verbatim>\<open>a_next\<close> and \<^verbatim>\<open>d_next\<close>.
\<close>

record scan =
  sc_state :: scan_state
  sc_verb :: bytes
  sc_algorithm :: bytes
  sc_digest :: bytes

definition scan_start :: scan where
  "scan_start = \<lparr>sc_state = STATE_SCAN_VERB, sc_verb = [], sc_algorithm = [], sc_digest = []\<rparr>"

datatype scan_error =
    big_verb | no_alpha_com | big_algorithm | no_num1_algo | no_alnum_algo
  | no_new_line | big_digest | no_print_digest

text \<open>
  One character: go on, hand the request over (\<^verbatim>\<open>STATE_go\<close>), or die.
\<close>

datatype scan_step = ScanOn scan | ScanGo scan | ScanDie scan_error

fun scan_char :: "scan \<Rightarrow> char \<Rightarrow> scan_step" where
  "scan_char s c =
     (case sc_state s of
        STATE_SCAN_VERB \<Rightarrow>
          if c = CHR '' '' then ScanOn (s\<lparr>sc_state := STATE_SCAN_ALGORITHM\<rparr>)
          else if c = NL then ScanGo s
          else if c = CR then ScanOn (s\<lparr>sc_state := STATE_SCAN_NEW_LINE\<rparr>)
          else if c_isalpha c then
            (if length (sc_verb s) = MAX_VERB_SIZE then ScanDie big_verb
             else ScanOn (s\<lparr>sc_verb := sc_verb s @ [c]\<rparr>))
          else ScanDie no_alpha_com
      | STATE_SCAN_ALGORITHM \<Rightarrow>
          if c = CHR '':'' then ScanOn (s\<lparr>sc_state := STATE_SCAN_DIGEST\<rparr>)
          else if c = NL then ScanGo s
          else if c = CR then ScanOn (s\<lparr>sc_state := STATE_SCAN_NEW_LINE\<rparr>)
          else if c_isalnum c then
            (if length (sc_algorithm s) = MAX_ALGORITHM_SIZE then ScanDie big_algorithm
             else if sc_algorithm s = [] \<and> \<not> c_isalpha c then ScanDie no_num1_algo
             else ScanOn (s\<lparr>sc_algorithm := sc_algorithm s @ [c]\<rparr>))
          else ScanDie no_alnum_algo
      | STATE_SCAN_NEW_LINE \<Rightarrow> if c \<noteq> NL then ScanDie no_new_line else ScanGo s
      | STATE_SCAN_DIGEST \<Rightarrow>
          if c = NL then ScanGo s
          else if c = CR then ScanOn (s\<lparr>sc_state := STATE_SCAN_NEW_LINE\<rparr>)
          else if c_isgraph c then
            (if length (sc_digest s) = MAX_DIGEST_SIZE then ScanDie big_digest
             else ScanOn (s\<lparr>sc_digest := sc_digest s @ [c]\<rparr>))
          else ScanDie no_print_digest)"

declare scan_char.simps [simp del]

text \<open>One chunk: the request is handed over with what follows it in the chunk, \<^verbatim>\<open>b\<close> to \<^verbatim>\<open>b_end\<close>.\<close>

datatype scan_result = More scan | Go scan bytes | Dead scan_error

fun scan_chunk :: "scan \<Rightarrow> bytes \<Rightarrow> scan_result" where
  "scan_chunk s [] = More s"
| "scan_chunk s (c # b) =
     (case scan_char s c of
        ScanOn s' \<Rightarrow> scan_chunk s' b
      | ScanGo s' \<Rightarrow> Go s' b
      | ScanDie e \<Rightarrow> Dead e)"

text \<open>A bound on the reads: every read takes bytes or events from the client's socket.\<close>

fun net_size :: "net_event list \<Rightarrow> nat" where
  "net_size [] = 0"
| "net_size (NData bs # evs) = Suc (length bs) + net_size evs"
| "net_size (_ # evs) = Suc (net_size evs)"

lemma timed_read_size:
  "timed_read t n evs = (r, evs') \<Longrightarrow> r \<noteq> TOk [] \<Longrightarrow> 0 < n \<Longrightarrow> net_size evs' < net_size evs"
proof (induction evs)
  case (Cons ev evs)
  then show ?case
    by (cases ev) (auto simp: silent_def split: if_splits)
qed auto

lemma net_read_loop_size:
  "net_read_loop t n evs = (r, evs') \<Longrightarrow> r \<noteq> NetOk [] \<Longrightarrow> 0 < n \<Longrightarrow> net_size evs' < net_size evs"
proof (induction t n evs rule: net_read_loop.induct)
  case (1 t n evs)
  obtain c evs1 where c: "timed_read t n evs = (c, evs1)" by fastforce
  note simps = net_read_loop.simps [of t n evs]
  show ?case
  proof (cases c)
    case (TErr e)
    have "net_size evs1 < net_size evs" using timed_read_size [OF c] TErr "1.prems"(3) by simp
    with 1 c TErr show ?thesis by (cases "e = EINTR") (fastforce simp: simps)+
  qed (use 1 c timed_read_size [OF c] in \<open>auto simp: simps\<close>)
qed

lemma req_read_size:
  "req_read r n = Ret (RqBytes bs) r' \<Longrightarrow> bs \<noteq> [] \<Longrightarrow> 0 < n \<Longrightarrow>
   net_size (rq_in r') < net_size (rq_in r)"
  by (auto simp: req_read_def net_read_def dest: net_read_loop_size
      split: prod.splits net_result.splits)

lemma req_read_chunk:
  "req_read r MSG_SIZE = Ret (RqBytes (b # bs)) r' \<Longrightarrow> net_size (rq_in r') < net_size (rq_in r)"
  by (drule req_read_size) (simp_all add: MSG_SIZE_def)

text \<open>
  The outer loop of \<^verbatim>\<open>request\<close>, with \<open>go\<close> for the call of \<^verbatim>\<open>bio4d()\<close>.  The value is \<open>True\<close> when
  the state is \<^verbatim>\<open>STATE_HALT\<close> at the end of the loop and \<open>False\<close> when the client closed before.
\<close>

function request_loop ::
  "(scan \<Rightarrow> bytes \<Rightarrow> 'm request \<Rightarrow> (unit, 'm request) outcome) \<Rightarrow> scan \<Rightarrow> 'm request \<Rightarrow>
   (bool, 'm request) outcome" where
  "request_loop go s r =
     (case req_read r MSG_SIZE of
        Blocked r1 \<Rightarrow> Blocked r1
      | Exited r1 \<Rightarrow> Exited r1
      | Ret RqError r1 \<Rightarrow> die_NO r1
      | Ret RqTimeout r1 \<Rightarrow> die_NO r1
      | Ret (RqBytes []) r1 \<Rightarrow>
          if sc_state s = STATE_SCAN_VERB \<and> sc_verb s = [] then die_NO r1 else Ret False r1
      | Ret (RqBytes (b # bs)) r1 \<Rightarrow>
          (case scan_chunk s (b # bs) of
             More s' \<Rightarrow> request_loop go s' r1
           | Go s' scan_buf \<Rightarrow> proceed (go s' scan_buf r1) (\<lambda>_ r2. Ret True r2)
           | Dead e \<Rightarrow> if e = no_new_line then die r1 else die_NO r1))"
  by pat_completeness auto
termination
  by (relation "measure (\<lambda>(go, s, r). net_size (rq_in r))")
    (auto dest: req_read_chunk)

declare request_loop.simps [simp del]

section \<open>Chunks do not matter\<close>

lemma scan_chunk_append:
  "scan_chunk s (p @ q) =
     (case scan_chunk s p of
        More s' \<Rightarrow> scan_chunk s' q
      | Go s' b \<Rightarrow> Go s' (b @ q)
      | Dead e \<Rightarrow> Dead e)"
  by (induction p arbitrary: s) (auto split: scan_step.splits)

lemma scan_chunk_rest: "scan_chunk s p = Go s' rest \<Longrightarrow> length rest < length p"
proof (induction s p rule: scan_chunk.induct)
  case (2 s c b)
  then show ?case by (cases "scan_char s c") (auto simp: less_SucI)
qed simp

section \<open>The language of requests\<close>

text \<open>The buffers never overflow, and hold what the lexer let in.\<close>

definition scan_ok :: "scan \<Rightarrow> bool" where
  "scan_ok s \<longleftrightarrow>
     length (sc_verb s) \<le> MAX_VERB_SIZE \<and> (\<forall>c \<in> set (sc_verb s). c_isalpha c) \<and>
     length (sc_algorithm s) \<le> MAX_ALGORITHM_SIZE \<and> (\<forall>c \<in> set (sc_algorithm s). c_isalnum c) \<and>
     (sc_algorithm s \<noteq> [] \<longrightarrow> c_isalpha (hd (sc_algorithm s))) \<and>
     length (sc_digest s) \<le> MAX_DIGEST_SIZE \<and> (\<forall>c \<in> set (sc_digest s). c_isgraph c)"

text \<open>The lines that denote the three buffers: the verb alone, with an algorithm, with a udig.\<close>

definition request_line :: "scan \<Rightarrow> bytes \<Rightarrow> bool" where
  "request_line s line \<longleftrightarrow>
     line = sc_verb s \<and> sc_algorithm s = [] \<and> sc_digest s = [] \<or>
     line = sc_verb s @ CHR '' '' # sc_algorithm s \<and> sc_digest s = [] \<or>
     line = sc_verb s @ CHR '' '' # sc_algorithm s @ CHR '':'' # sc_digest s"

definition scanned :: "bytes \<Rightarrow> scan \<Rightarrow> bool" where
  "scanned p s \<longleftrightarrow>
     (case sc_state s of
        STATE_SCAN_VERB \<Rightarrow> p = sc_verb s \<and> sc_algorithm s = [] \<and> sc_digest s = []
      | STATE_SCAN_ALGORITHM \<Rightarrow> p = sc_verb s @ CHR '' '' # sc_algorithm s \<and> sc_digest s = []
      | STATE_SCAN_DIGEST \<Rightarrow> p = sc_verb s @ CHR '' '' # sc_algorithm s @ CHR '':'' # sc_digest s
      | STATE_SCAN_NEW_LINE \<Rightarrow> (\<exists>line. p = line @ [CR] \<and> request_line s line))"

lemma scan_char_ok: "scan_char s c = ScanOn s' \<Longrightarrow> scan_ok s \<Longrightarrow> scan_ok s'"
  by (cases "sc_state s")
    (auto simp: scan_char.simps scan_ok_def hd_append split: if_splits)

lemma scan_char_scanned: "scan_char s c = ScanOn s' \<Longrightarrow> scanned p s \<Longrightarrow> scanned (p @ [c]) s'"
  by (cases "sc_state s")
    (auto simp: scan_char.simps scanned_def request_line_def split: if_splits)

lemma scan_char_go:
  assumes "scan_char s c = ScanGo s'" and "scanned p s"
  shows "s' = s \<and> (\<exists>line eol. p @ [c] = line @ eol \<and> eol \<in> {[NL], [CR, NL]} \<and> request_line s line)"
proof (cases "sc_state s = STATE_SCAN_NEW_LINE")
  case True
  then obtain line where "p = line @ [CR]" "request_line s line" "c = NL" "s' = s"
    using assms by (auto simp: scan_char.simps scanned_def split: if_splits)
  then show ?thesis by auto
next
  case False
  then have "c = NL" "s' = s" "request_line s p"
    using assms by (auto simp: scan_char.simps scanned_def request_line_def
        split: scan_state.splits if_splits)
  then show ?thesis by auto
qed

lemma scan_chunk_sound:
  "scan_chunk s inp = Go s' rest \<Longrightarrow> scanned p s \<Longrightarrow> scan_ok s \<Longrightarrow>
   scan_ok s' \<and> (\<exists>line eol. p @ inp = line @ eol @ rest \<and> eol \<in> {[NL], [CR, NL]} \<and>
     request_line s' line)"
proof (induction s inp arbitrary: p rule: scan_chunk.induct)
  case (2 s c b)
  show ?case
  proof (cases "scan_char s c")
    case (ScanOn s1)
    with scan_char_ok [OF ScanOn] scan_char_scanned [OF ScanOn, of p]
      "2.IH" [OF ScanOn, of "p @ [c]"] "2.prems"
    show ?thesis by simp
  next
    case (ScanGo s1)
    then have g: "s1 = s'" "b = rest" using "2.prems"(1) by auto
    with scan_char_go [OF ScanGo "2.prems"(2)] obtain line eol where
      "p @ [c] = line @ eol" "eol \<in> {[NL], [CR, NL]}" "request_line s' line" "s' = s" by blast
    moreover from this(1) have "p @ c # b = line @ eol @ rest"
      using g by (metis append.assoc append_Cons append_Nil)
    ultimately show ?thesis using "2.prems"(3) by blast
  qed (use 2 in simp)
qed simp

lemma scan_verb_chars:
  assumes "sc_state s = STATE_SCAN_VERB" and "\<forall>c \<in> set v. c_isalpha c"
    and "length (sc_verb s @ v) \<le> MAX_VERB_SIZE"
  shows "scan_chunk s (v @ t) = scan_chunk (s\<lparr>sc_verb := sc_verb s @ v\<rparr>) t"
  using assms
proof (induction v arbitrary: s)
  case (Cons c v)
  then have "c_isalnum c" by (simp add: c_isalpha_alnum)
  with Cons c_isalnum_not_punct [of c] show ?case by (simp add: scan_char.simps)
qed simp

lemma scan_algorithm_chars:
  assumes "sc_state s = STATE_SCAN_ALGORITHM" and "\<forall>c \<in> set a. c_isalnum c"
    and "length (sc_algorithm s @ a) \<le> MAX_ALGORITHM_SIZE"
    and "sc_algorithm s = [] \<longrightarrow> a \<noteq> [] \<longrightarrow> c_isalpha (hd a)"
  shows "scan_chunk s (a @ t) = scan_chunk (s\<lparr>sc_algorithm := sc_algorithm s @ a\<rparr>) t"
  using assms
proof (induction a arbitrary: s)
  case (Cons c a)
  with c_isalnum_not_punct [of c] show ?case by (auto simp: scan_char.simps)
qed simp

lemma scan_digest_chars:
  assumes "sc_state s = STATE_SCAN_DIGEST" and "\<forall>c \<in> set d. c_isgraph c"
    and "length (sc_digest s @ d) \<le> MAX_DIGEST_SIZE"
  shows "scan_chunk s (d @ t) = scan_chunk (s\<lparr>sc_digest := sc_digest s @ d\<rparr>) t"
  using assms
proof (induction d arbitrary: s)
  case (Cons c d)
  with c_isgraph_not_blank [of c] show ?case by (simp add: scan_char.simps)
qed simp

lemma scan_eol:
  assumes "eol \<in> {[NL], [CR, NL]}" and "sc_state s \<noteq> STATE_SCAN_NEW_LINE"
  shows "\<exists>st. scan_chunk s (eol @ rest) = Go (s\<lparr>sc_state := st\<rparr>) rest"
  using assms by (cases "sc_state s") (auto simp: scan_char.simps intro: exI [of _ "sc_state s"])

lemma scan_complete:
  assumes "request_line s line" and "scan_ok s" and "eol \<in> {[NL], [CR, NL]}"
  shows "\<exists>st. scan_chunk scan_start (line @ eol @ rest) = Go (s\<lparr>sc_state := st\<rparr>) rest"
proof -
  note v = scan_verb_chars [of scan_start "sc_verb s"]
  note a = scan_algorithm_chars [of "\<lparr>sc_state = STATE_SCAN_ALGORITHM, sc_verb = sc_verb s,
      sc_algorithm = [], sc_digest = []\<rparr>" "sc_algorithm s"]
  note d = scan_digest_chars [of "\<lparr>sc_state = STATE_SCAN_DIGEST, sc_verb = sc_verb s,
      sc_algorithm = sc_algorithm s, sc_digest = []\<rparr>" "sc_digest s"]
  have ok: "\<forall>c \<in> set (sc_verb s). c_isalpha c" "length (sc_verb s) \<le> MAX_VERB_SIZE"
    "\<forall>c \<in> set (sc_algorithm s). c_isalnum c" "length (sc_algorithm s) \<le> MAX_ALGORITHM_SIZE"
    "sc_algorithm s \<noteq> [] \<longrightarrow> c_isalpha (hd (sc_algorithm s))"
    "\<forall>c \<in> set (sc_digest s). c_isgraph c" "length (sc_digest s) \<le> MAX_DIGEST_SIZE"
    using assms(2) by (simp_all add: scan_ok_def)
  consider "line = sc_verb s" "sc_algorithm s = []" "sc_digest s = []"
    | "line = sc_verb s @ CHR '' '' # sc_algorithm s" "sc_digest s = []"
    | "line = sc_verb s @ CHR '' '' # sc_algorithm s @ CHR '':'' # sc_digest s"
    using assms(1) by (auto simp: request_line_def)
  then show ?thesis
  proof cases
    case 1
    with v ok scan_eol [OF assms(3), of "scan_start\<lparr>sc_verb := sc_verb s\<rparr>" rest]
    show ?thesis by (cases s) (auto simp: scan_start_def)
  next
    case 2
    with v a ok scan_eol [OF assms(3), of "\<lparr>sc_state = STATE_SCAN_ALGORITHM, sc_verb = sc_verb s,
      sc_algorithm = sc_algorithm s, sc_digest = []\<rparr>" rest]
    show ?thesis by (cases s) (auto simp: scan_start_def scan_char.simps)
  next
    case 3
    with v a d ok scan_eol [OF assms(3), of "\<lparr>sc_state = STATE_SCAN_DIGEST, sc_verb = sc_verb s,
      sc_algorithm = sc_algorithm s, sc_digest = sc_digest s\<rparr>" rest]
    show ?thesis by (cases s) (auto simp: scan_start_def scan_char.simps)
  qed
qed


section \<open>Fragmentation\<close>

text \<open>A client that sends its bytes in any pieces, with signals in between.\<close>

fun net_data :: "net_event list \<Rightarrow> bytes" where
  "net_data [] = []"
| "net_data (NData bs # evs) = bs @ net_data evs"
| "net_data (_ # evs) = net_data evs"

definition quiet :: "net_event list \<Rightarrow> bool" where
  "quiet evs \<longleftrightarrow> (\<forall>ev \<in> set evs. ev = NSignal \<or> (\<exists>bs. ev = NData bs))"

lemma quiet_simps [simp]:
  "quiet []" "quiet (NData bs # evs) = quiet evs" "quiet (NSignal # evs) = quiet evs"
  "\<not> quiet (NTake k # evs)" "\<not> quiet (NConn fd # evs)" "\<not> quiet (NFail e # evs)"
  "\<not> quiet (NSilent # evs)"
  by (auto simp: quiet_def)

lemma timed_read_quiet:
  "quiet evs \<Longrightarrow> 0 < n \<Longrightarrow> timed_read t n evs = (c, evs') \<Longrightarrow>
   quiet evs' \<and> (c = TErr EINTR \<and> net_data evs' = net_data evs \<or>
     (\<exists>bs. c = TOk bs \<and> net_data evs = bs @ net_data evs' \<and> length bs \<le> n \<and>
       (bs = [] \<longrightarrow> net_data evs = [])))"
proof (induction evs)
  case (Cons ev evs)
  then show ?case by (cases ev) (auto split: if_splits)
qed simp

lemma net_read_loop_quiet:
  "quiet evs \<Longrightarrow> 0 < n \<Longrightarrow>
   \<exists>bs evs'. net_read_loop t n evs = (NetOk bs, evs') \<and> quiet evs' \<and>
     net_data evs = bs @ net_data evs' \<and> length bs \<le> n \<and> (bs = [] \<longrightarrow> net_data evs = [])"
proof (induction t n evs rule: net_read_loop.induct)
  case (1 t n evs)
  obtain c evs1 where c: "timed_read t n evs = (c, evs1)" by fastforce
  note q = timed_read_quiet [OF "1.prems" c]
  show ?case
  proof (cases c)
    case (TErr e)
    with q have e: "e = EINTR" "quiet evs1" "net_data evs1 = net_data evs" by auto
    with 1 c TErr show ?thesis by (simp add: net_read_loop.simps [of t n evs])
  next
    case (TOk bs)
    with q c show ?thesis by (auto simp: net_read_loop.simps [of t n evs])
  qed (use q in auto)
qed

lemma req_read_quiet:
  assumes "quiet (rq_in r)" and "0 < n"
  shows "\<exists>bs evs. req_read r n = Ret (RqBytes bs) (r\<lparr>rq_in := evs\<rparr>) \<and> quiet evs \<and>
    net_data (rq_in r) = bs @ net_data evs \<and> length bs \<le> n \<and> (bs = [] \<longrightarrow> net_data (rq_in r) = [])"
  using net_read_loop_quiet [OF assms, of "rq_read_timeout r"]
  by (auto simp: req_read_def net_read_def)

lemma request_loop_go:
  assumes "quiet (rq_in r)" and "scan_chunk s (net_data (rq_in r)) = Go s' tail"
  shows "\<exists>scan_buf evs. request_loop go s r =
      proceed (go s' scan_buf (r\<lparr>rq_in := evs\<rparr>)) (\<lambda>_ r. Ret True r) \<and>
    quiet evs \<and> scan_buf @ net_data evs = tail \<and> length scan_buf < MSG_SIZE"
  using assms
proof (induction "net_size (rq_in r)" arbitrary: s r rule: less_induct)
  case less
  obtain bs evs where rd: "req_read r MSG_SIZE = Ret (RqBytes bs) (r\<lparr>rq_in := evs\<rparr>)" "quiet evs"
    "net_data (rq_in r) = bs @ net_data evs" "length bs \<le> MSG_SIZE"
    "bs = [] \<longrightarrow> net_data (rq_in r) = []"
    using req_read_quiet [OF less.prems(1), of MSG_SIZE] by (auto simp: MSG_SIZE_def)
  have "bs \<noteq> []" using rd(5) less.prems(2) by auto
  then obtain b bs' where bs: "bs = b # bs'" by (cases bs) auto
  have sc: "scan_chunk s (bs @ net_data evs) = Go s' tail" using less.prems(2) rd(3) by simp
  show ?case
  proof (cases "scan_chunk s bs")
    case (More s1)
    have "net_size evs < net_size (rq_in r)" using req_read_chunk [of r b bs'] rd(1) bs by auto
    moreover have "scan_chunk s1 (net_data evs) = Go s' tail"
      using More sc scan_chunk_append [of s bs "net_data evs"] by simp
    moreover have "request_loop go s r = request_loop go s1 (r\<lparr>rq_in := evs\<rparr>)"
      using More rd(1) bs by (simp add: request_loop.simps [of go s r])
    ultimately show ?thesis using less.hyps [of "r\<lparr>rq_in := evs\<rparr>" s1] rd(2) by simp
  next
    case (Go s1 rest)
    then have "length rest < length bs" by (rule scan_chunk_rest)
    moreover have "s1 = s' \<and> rest @ net_data evs = tail"
      using Go sc scan_chunk_append [of s bs "net_data evs"] by simp
    moreover have "request_loop go s r =
        proceed (go s1 rest (r\<lparr>rq_in := evs\<rparr>)) (\<lambda>_ r. Ret True r)"
      using Go rd(1) bs by (simp add: request_loop.simps [of go s r])
    ultimately show ?thesis
      using rd(2,4) by (intro exI [of _ rest] exI [of _ evs]) auto
  next
    case (Dead e)
    with sc scan_chunk_append [of s bs "net_data evs"] show ?thesis by simp
  qed
qed

text \<open>
  C19: the child hands the request to \<^verbatim>\<open>bio4d()\<close> whatever the fragmentation.  When the client sends
  a request line followed by the bytes of a blob, cut into any pieces and with any signals
  between them, the verb, the algorithm and the digest are those of the line, and the bytes
  scanned ahead followed by those still to be read are exactly the bytes of the blob.
\<close>

theorem request_delivers:
  assumes "quiet (rq_in r)" and "net_data (rq_in r) = line @ eol @ blob"
    and "eol = [NL] \<or> eol = [CR, NL]" and "scan_ok s" and "request_line s line"
  shows "\<exists>st scan_buf evs. request_loop go scan_start r =
      proceed (go (s\<lparr>sc_state := st\<rparr>) scan_buf (r\<lparr>rq_in := evs\<rparr>)) (\<lambda>_ r. Ret True r) \<and>
    quiet evs \<and> scan_buf @ net_data evs = blob \<and> length scan_buf < MSG_SIZE"
proof -
  obtain st where "scan_chunk scan_start (line @ eol @ blob) = Go (s\<lparr>sc_state := st\<rparr>) blob"
    using scan_complete [OF assms(5,4), of eol blob] assms(3) by auto
  with request_loop_go [OF assms(1), of scan_start _ blob go] assms(2) show ?thesis by fastforce
qed

theorem request_delivers_witness:
  "\<forall>go. \<exists>st scan_buf evs. request_loop go scan_start
      (req_init [NData ''pu'', NSignal, NData ''t sha:ab'', NData [NL, CHR ''x''], NData ''y'']
        \<lparr>tv_sec = 0, tv_nsec = 0\<rparr> [] ()) =
      proceed (go \<lparr>sc_state = st, sc_verb = ''put'', sc_algorithm = ''sha'', sc_digest = ''ab''\<rparr>
        scan_buf (req_init evs \<lparr>tv_sec = 0, tv_nsec = 0\<rparr> [] ())) (\<lambda>_ r. Ret True r) \<and>
    scan_buf @ net_data evs = ''xy''"
proof
  fix go
  show "\<exists>st scan_buf evs. request_loop go scan_start
      (req_init [NData ''pu'', NSignal, NData ''t sha:ab'', NData [NL, CHR ''x''], NData ''y'']
        \<lparr>tv_sec = 0, tv_nsec = 0\<rparr> [] ()) =
      proceed (go \<lparr>sc_state = st, sc_verb = ''put'', sc_algorithm = ''sha'', sc_digest = ''ab''\<rparr>
        scan_buf (req_init evs \<lparr>tv_sec = 0, tv_nsec = 0\<rparr> [] ())) (\<lambda>_ r. Ret True r) \<and>
    scan_buf @ net_data evs = ''xy''"
    using request_delivers [of "req_init [NData ''pu'', NSignal, NData ''t sha:ab'',
          NData [NL, CHR ''x''], NData ''y''] \<lparr>tv_sec = 0, tv_nsec = 0\<rparr> [] ()" "''put sha:ab''"
        "[NL]" "''xy''"
        "\<lparr>sc_state = STATE_SCAN_VERB, sc_verb = ''put'', sc_algorithm = ''sha'', sc_digest = ''ab''\<rparr>" go]
    by (auto simp: scan_ok_def request_line_def MAX_VERB_SIZE_def MAX_ALGORITHM_SIZE_def
        MAX_DIGEST_SIZE_def ctype_defs req_init_def)
qed

end
