(* ===== verification/Brr_Record.thy ===== *)
theory Brr_Record
  imports Req
begin

text \<open>
  Blob request records: the mask of verbs, the text of a record and its way to the logger in
  \<^verbatim>\<open>bio4d/brr.c\<close> (\<^verbatim>\<open>brr_mask_is_set\<close>, \<^verbatim>\<open>brr_send\<close>), and the client's record in
  \<^verbatim>\<open>cli/blobio/brr.c\<close>.
\<close>

section \<open>Masks\<close>

definition brr_mask_is_set :: "bytes \<Rightarrow> ui8 \<Rightarrow> bool" where
  "brr_mask_is_set verb bits =
     (let v = cstr_at verb 0 in
      if v = CHR ''c'' then and bits 0x80 \<noteq> 0
      else if v = CHR ''e'' then and bits 0x10 \<noteq> 0
      else if v = CHR ''g'' then
        (if cstr_at verb 1 = CHR ''e'' then and bits 0x01 \<noteq> 0 else and bits 0x08 \<noteq> 0)
      else if v = CHR ''p'' then and bits 0x04 \<noteq> 0
      else if v = CHR ''r'' then and bits 0x40 \<noteq> 0
      else if v = CHR ''t'' then and bits 0x02 \<noteq> 0
      else if v = CHR ''w'' then and bits 0x20 \<noteq> 0
      else False)"

text \<open>The client's copy of the test, and its rendering of a mask.\<close>

definition cli_brr_mask_is_set :: "bytes \<Rightarrow> ui8 \<Rightarrow> bool" where
  "cli_brr_mask_is_set verb bits =
     (let v = cstr_at verb 0 in
      if v = CHR ''c'' then and bits 0x80 \<noteq> 0
      else if v = CHR ''e'' then and bits 0x10 \<noteq> 0
      else if v = CHR ''g'' then
        (if cstr_at verb 1 = CHR ''e'' then and bits 0x01 \<noteq> 0 else and bits 0x08 \<noteq> 0)
      else if v = CHR ''p'' then and bits 0x04 \<noteq> 0
      else if v = CHR ''r'' then and bits 0x40 \<noteq> 0
      else if v = CHR ''t'' then and bits 0x02 \<noteq> 0
      else if v = CHR ''w'' then and bits 0x20 \<noteq> 0
      else False)"

definition brr_mask2ascii :: "ui8 \<Rightarrow> bytes" where
  "brr_mask2ascii bits =
     (let hexmap = ''0123456789abcdef'' in
      [CHR ''0'', CHR ''x'', hexmap ! unat (and (drop_bit 4 bits) 0x0F),
       hexmap ! unat (and bits 0x0F)])"

section \<open>The text of a record\<close>

text \<open>\<^verbatim>\<open>%0kd\<close> of a number that is not negative.\<close>

definition pad0 :: "nat \<Rightarrow> nat \<Rightarrow> bytes" where
  "pad0 k n = replicate (k - length (dec_nat n)) (CHR ''0'') @ dec_nat n"

text \<open>The fields of \<^verbatim>\<open>struct tm\<close> that are printed, with \<^verbatim>\<open>tm_year + 1900\<close> and \<^verbatim>\<open>tm_mon + 1\<close>.\<close>

record tm =
  tm_year :: nat
  tm_mon :: nat
  tm_mday :: nat
  tm_hour :: nat
  tm_min :: nat
  tm_sec :: nat

definition rfc3339 :: "tm \<Rightarrow> nat \<Rightarrow> bytes" where
  "rfc3339 t nsec =
     pad0 4 (tm_year t) @ CHR ''-'' # pad0 2 (tm_mon t) @ CHR ''-'' # pad0 2 (tm_mday t) @
     CHR ''T'' # pad0 2 (tm_hour t) @ CHR '':'' # pad0 2 (tm_min t) @ CHR '':'' # pad0 2 (tm_sec t) @
     CHR ''.'' # pad0 9 nsec @ ''+00:00''"

text \<open>The elapsed time, with the borrow of a second.\<close>

definition elapsed :: "timespec \<Rightarrow> timespec \<Rightarrow> int \<times> int" where
  "elapsed start_time end_time =
     (if tv_nsec end_time - tv_nsec start_time < 0
      then (tv_sec end_time - tv_sec start_time - 1,
            1000000000 + tv_nsec end_time - tv_nsec start_time)
      else (tv_sec end_time - tv_sec start_time, tv_nsec end_time - tv_nsec start_time))"

text \<open>
  \<^verbatim>\<open>brr_format\<close>.  The three pieces of the udig are the algorithm, a colon when there is a
  digest, and the digest.
\<close>

definition brr_text :: "tm \<Rightarrow> nat \<Rightarrow> bytes \<Rightarrow> bytes \<Rightarrow> bytes \<Rightarrow> bytes \<Rightarrow> nat \<Rightarrow> nat \<Rightarrow> nat \<Rightarrow> bytes" where
  "brr_text t start_nsec transport verb udig chat_history blob_size sec nsec =
     rfc3339 t start_nsec @ TAB # transport @ TAB # verb @ TAB # udig @ TAB # chat_history @
     TAB # dec_nat blob_size @ TAB # dec_nat sec @ CHR ''.'' # pad0 9 nsec @ [NL]"

definition brr_udig :: "bytes \<Rightarrow> bytes \<Rightarrow> bytes" where
  "brr_udig algorithm digest =
     algorithm @ (if algorithm \<noteq> [] \<and> digest \<noteq> [] then '':'' else []) @ digest"

definition BRR_SIZE :: nat where "BRR_SIZE = 419"

text \<open>
  \<^verbatim>\<open>brr_send\<close>: \<open>gmtime\<close> is the C library's.  The record is cut by \<^verbatim>\<open>snprintf\<close> to its buffer and
  its length is passed to \<^verbatim>\<open>io_msg_write\<close> as an unsigned char.
\<close>

definition brr_send ::
  "(int \<Rightarrow> tm) \<Rightarrow> ui8 \<Rightarrow> 'm request \<Rightarrow> (unit, 'm request) outcome" where
  "brr_send gmtime brr_mask r =
     (if \<not> brr_mask_is_set (rq_verb r) brr_mask then Ret () r
      else
        (case elapsed (rq_start_time r) (rq_end_time r) of
          (sec, nsec) \<Rightarrow>
            let r1 = (if sec < 0 then log_error r else r);
                r2 = (if nsec < 0 then log_error r1 else r1);
                brr = take (BRR_SIZE + 1)
                  (brr_text (gmtime (tv_sec (rq_start_time r))) (nat (tv_nsec (rq_start_time r)))
                     (rq_transport r) (rq_verb r) (brr_udig (rq_algorithm r) (rq_digest r))
                     (rq_chat_history r) (unat (rq_blob_size r)) (nat sec) (nat nsec))
            in case io_msg_write brr (of_nat (length brr)) (rq_log r) of
                 (Inl e, log) \<Rightarrow> child_panic (r2\<lparr>rq_log := log\<rparr>)
               | (Inr _, log) \<Rightarrow> Ret () (r2\<lparr>rq_log := log\<rparr>)))"

section \<open>Properties of a record\<close>

lemma mask_same: "cli_brr_mask_is_set verb bits = brr_mask_is_set verb bits"
  by (simp add: cli_brr_mask_is_set_def brr_mask_is_set_def)

text \<open>The bit of each verb, from the comment above \<^verbatim>\<open>brr_mask_is_set\<close>.\<close>

definition verb_bits :: "(bytes \<times> nat) list" where
  "verb_bits = [(''get'', 0), (''take'', 1), (''put'', 2), (''give'', 3), (''eat'', 4),
                (''wrap'', 5), (''roll'', 6), (''cat'', 7)]"

lemma and_one_bit: "and (x :: ui8) (push_bit n 1) \<noteq> 0 \<longleftrightarrow> bit x n \<and> n < 8"
proof -
  have "and x (push_bit n 1) = (if bit x n then push_bit n 1 else 0)"
    by (rule bit_eqI) (auto simp: bit_simps)
  then show ?thesis by (auto simp: push_bit_eq_mult bit_imp_le_length)
qed

text \<open>
  The mask.  For every verb of the protocol the server logs a record exactly when the bit the
  documentation gives to the verb is set in \<^verbatim>\<open>brr_mask\<close>, the client's test agrees with the
  server's on every string, and no other word of the eight would be taken for another verb.
\<close>

theorem brr_mask_bits:
  "list_all (\<lambda>(verb, n). brr_mask_is_set verb bits = bit bits n) verb_bits \<and>
   cli_brr_mask_is_set w bits = brr_mask_is_set w bits"
proof -
  have b: "and bits (2 ^ n) \<noteq> 0 \<longleftrightarrow> bit bits n" if "n < 8" for n
    using and_one_bit [of bits n] that by (simp add: push_bit_eq_mult)
  show ?thesis
    using b [of 0] b [of 1] b [of 2] b [of 3] b [of 4] b [of 5] b [of 6] b [of 7]
    by (simp add: verb_bits_def brr_mask_is_set_def mask_same)
qed

text \<open>
  The elapsed time.  For two times with normal nanosecond parts, the second not before the
  first, the borrow gives the exact difference with a normal nanosecond part, and neither part
  is negative.
\<close>

theorem elapsed_correct:
  assumes "0 \<le> tv_nsec s" and "tv_nsec s < 1000000000" and "0 \<le> tv_nsec e"
    and "tv_nsec e < 1000000000"
    and "tv_sec s * 1000000000 + tv_nsec s \<le> tv_sec e * 1000000000 + tv_nsec e"
  shows "case elapsed s e of (sec, nsec) \<Rightarrow>
    0 \<le> sec \<and> 0 \<le> nsec \<and> nsec < 1000000000 \<and>
    sec * 1000000000 + nsec =
      (tv_sec e * 1000000000 + tv_nsec e) - (tv_sec s * 1000000000 + tv_nsec s)"
  using assms by (auto simp: elapsed_def)

theorem elapsed_correct_witness:
  "elapsed \<lparr>tv_sec = 10, tv_nsec = 999999999\<rparr> \<lparr>tv_sec = 12, tv_nsec = 1\<rparr> = (1, 2)"
  using elapsed_correct [of "\<lparr>tv_sec = 10, tv_nsec = 999999999\<rparr>" "\<lparr>tv_sec = 12, tv_nsec = 1\<rparr>"]
  by (simp add: elapsed_def)

lemma pad0_length: "n < 10 ^ k \<Longrightarrow> 0 < k \<Longrightarrow> length (pad0 k n) = k"
  using dec_nat_length [of n k] by (simp add: pad0_def)

lemma pad0_digits: "c \<in> set (pad0 k n) \<Longrightarrow> c_isdigit c"
  by (auto simp: pad0_def dest: dec_nat_isdigit) (simp add: c_isdigit_def)

text \<open>The record that \<^verbatim>\<open>brr_send\<close> formats for a request.\<close>

definition brr_of :: "(int \<Rightarrow> tm) \<Rightarrow> 'm request \<Rightarrow> bytes" where
  "brr_of gmtime r =
     (case elapsed (rq_start_time r) (rq_end_time r) of
        (sec, nsec) \<Rightarrow>
          brr_text (gmtime (tv_sec (rq_start_time r))) (nat (tv_nsec (rq_start_time r)))
            (rq_transport r) (rq_verb r) (brr_udig (rq_algorithm r) (rq_digest r))
            (rq_chat_history r) (unat (rq_blob_size r)) (nat sec) (nat nsec))"

lemma unat_byte_mod: "unat (of_nat n :: ui8) = n mod 256"
  by (simp add: unat_of_nat take_bit_eq_mod)

lemma io_msg_write_mod:
  assumes "wr_script w = []"
  shows "io_msg_write brr (of_nat (length brr)) w =
    (if length brr mod 256 = 0 then (Inl EINVAL, w)
     else (Inr (), w\<lparr>wr_out := wr_out w @ byte_char (of_nat (length brr)) #
             take (length brr mod 256) brr\<rparr>))"
proof -
  let ?n = "of_nat (length brr) :: ui8"
  have z: "?n = 0 \<longleftrightarrow> length brr mod 256 = 0"
    using unat_byte_mod [of "length brr"] by (metis unat_eq_zero)
  have m: "min (length brr) (length brr mod 256) = length brr mod 256"
    by (simp add: min_def)
  show ?thesis
    using assms io_write_intr [of w] z
    by (auto simp: io_msg_write_def Let_def unat_byte_mod m)
qed

text \<open>
  C21: what reaches the logger.  With the verb in the mask and a sound clock, a record of at most
  255 bytes is sent to the logger as one intact message.  A longer one, which \<^verbatim>\<open>BRR_SIZE\<close> allows,
  is cut to its length modulo 256 because the length is an unsigned char: at 256 bytes the child
  panics, and at 281 bytes the logger gets the 25 bytes it takes for a wrap request.
\<close>

theorem brr_send_message:
  assumes "brr_mask_is_set (rq_verb r) brr_mask" and "wr_script (rq_log r) = []"
    and "length (brr_of gmtime r) \<le> BRR_SIZE + 1"
    and "elapsed (rq_start_time r) (rq_end_time r) = (sec, nsec)" and "0 \<le> sec" and "0 \<le> nsec"
  shows "brr_send gmtime brr_mask r =
    (let brr = brr_of gmtime r; n = length brr mod 256 in
     if n = 0 then child_panic r
     else Ret () (r\<lparr>rq_log := (rq_log r)\<lparr>wr_out := wr_out (rq_log r) @
       (if length brr \<le> 255 then framed brr
        else byte_char (of_nat (length brr)) # take n brr)\<rparr>\<rparr>))"
proof -
  have t: "take (BRR_SIZE + 1) (brr_of gmtime r) = brr_of gmtime r" using assms(3) by simp
  have e: "brr_text (gmtime (tv_sec (rq_start_time r))) (nat (tv_nsec (rq_start_time r)))
      (rq_transport r) (rq_verb r) (brr_udig (rq_algorithm r) (rq_digest r))
      (rq_chat_history r) (unat (rq_blob_size r)) (nat sec) (nat nsec) = brr_of gmtime r"
    using assms(4) by (simp add: brr_of_def)
  show ?thesis
    using assms(1,4-6) io_msg_write_mod [OF assms(2), of "brr_of gmtime r"]
    unfolding brr_send_def by (simp only: if_False not_not split_conv Let_def e t) (simp add: framed_def)
qed

text \<open>A finished get request.\<close>

definition a_get :: "unit request" where
  "a_get = (req_init [] \<lparr>tv_sec = 5, tv_nsec = 999999999\<rparr> ''tcp4~1.2.3.4:5;6.7.8.9:1797'' ())
     \<lparr>rq_verb := ''get'', rq_algorithm := ''sha'', rq_digest := ''da39a3ee5e6b4b0d3255bfef95601890afd80709'',
      rq_chat_history := ''ok'', rq_blob_size := 7, rq_end_time := \<lparr>tv_sec = 6, tv_nsec = 1\<rparr>\<rparr>"

definition a_time :: tm where
  "a_time = \<lparr>tm_year = 1970, tm_mon = 1, tm_mday = 1, tm_hour = 0, tm_min = 0, tm_sec = 5\<rparr>"

lemma a_get_elapsed: "elapsed (rq_start_time a_get) (rq_end_time a_get) = (0, 2)"
  by (simp add: a_get_def req_init_def elapsed_def)

lemma a_get_length: "length (brr_of (\<lambda>_. a_time) a_get) = 130"
proof -
  have "dec_nat 0 = ''0''" "dec_nat 1 = ''1''" "dec_nat 2 = ''2''" "dec_nat 5 = ''5''"
    "dec_nat 7 = ''7''" "dec_nat 1970 = ''1970''" "dec_nat 999999999 = ''999999999''"
    by (simp_all add: dec_text)
  then show ?thesis
    unfolding brr_of_def a_get_elapsed
    by (simp add: a_get_def req_init_def brr_text_def rfc3339_def pad0_def a_time_def brr_udig_def)
qed

theorem brr_send_message_witness:
  "brr_send (\<lambda>_. a_time) 0xff a_get =
     Ret () (a_get\<lparr>rq_log := (rq_log a_get)\<lparr>wr_out := framed (brr_of (\<lambda>_. a_time) a_get)\<rparr>\<rparr>)"
proof -
  have "brr_mask_is_set (rq_verb a_get) 0xff" by code_simp
  moreover have "wr_script (rq_log a_get) = []" "wr_out (rq_log a_get) = []"
    by (simp_all add: a_get_def req_init_def)
  ultimately show ?thesis
    using brr_send_message [of a_get "0xff" "\<lambda>_. a_time" 0 2] a_get_elapsed a_get_length
    by (simp add: BRR_SIZE_def)
qed

end
