(* ===== verification/Verbs.thy ===== *)
theory Verbs
  imports Request_Scan Brr_Record
begin

text \<open>
  The verbs of the protocol in \<^verbatim>\<open>bio4d/bio4d.c\<close>: the handlers that drive the callbacks of a digest
  module (\<^verbatim>\<open>cat\<close>, \<^verbatim>\<open>get\<close>, \<^verbatim>\<open>eat\<close>, \<^verbatim>\<open>put\<close>, \<^verbatim>\<open>take\<close>, \<^verbatim>\<open>give\<close>), the dispatch \<^verbatim>\<open>bio4d()\<close>, the
  module list of \<^verbatim>\<open>bio4d/module.c\<close>, and the end of \<^verbatim>\<open>request\<close>, which encodes the chat history in
  the exit status.
\<close>

section \<open>Digest modules\<close>

text \<open>
  \<^verbatim>\<open>struct digest_module\<close>.  A callback gets the request and returns its status with the new
  state.  \<^verbatim>\<open>is_digest\<close> is 0, 1 or 2 for an invalid, valid, or valid and empty digest.  \<^verbatim>\<open>copy\<close> gets
  the place of the local stream it writes to, and \<^verbatim>\<open>digest\<close> the bytes of the local stream it reads;
  its value is the text of the digest, \<open>None\<close> for an error.
\<close>

type_synonym 'm callback = "'m request \<Rightarrow> (int, 'm request) outcome"

record 'm digest_module =
  dm_name :: bytes
  dm_open :: "'m callback"
  dm_get_request :: "'m callback"
  dm_get_bytes :: "'m callback"
  dm_take_request :: "'m callback"
  dm_take_bytes :: "'m callback"
  dm_take_reply :: "bytes \<Rightarrow> 'm callback"
  dm_copy :: "bytes \<Rightarrow> 'm callback"
  dm_put_request :: "'m callback"
  dm_put_bytes :: "'m callback"
  dm_give_request :: "'m callback"
  dm_give_bytes :: "'m callback"
  dm_give_reply :: "bytes \<Rightarrow> 'm callback"
  dm_eat :: "'m callback"
  dm_digest :: "bytes \<Rightarrow> 'm request \<Rightarrow> (bytes option, 'm request) outcome"
  dm_is_digest :: "bytes \<Rightarrow> nat"
  dm_close :: "int \<Rightarrow> 'm callback"

text \<open>\<^verbatim>\<open>module_get\<close>, and the check of \<^verbatim>\<open>module_boot\<close> that the names are in strict order.\<close>

fun module_get :: "'m digest_module list \<Rightarrow> bytes \<Rightarrow> 'm digest_module option" where
  "module_get [] name = None"
| "module_get (m # ms) name = (if name = dm_name m then Some m else module_get ms name)"

fun c_strcmp_less :: "bytes \<Rightarrow> bytes \<Rightarrow> bool" where
  "c_strcmp_less s [] = False"
| "c_strcmp_less [] (d # t) = True"
| "c_strcmp_less (c # s) (d # t) = (code c < code d \<or> c = d \<and> c_strcmp_less s t)"

fun modules_in_order :: "'m digest_module list \<Rightarrow> bool" where
  "modules_in_order (m1 # m2 # ms) =
     (c_strcmp_less (dm_name m1) (dm_name m2) \<and> modules_in_order (m2 # ms))"
| "modules_in_order ms = True"

text \<open>
  What the handlers use of the server: the modules, the \<^verbatim>\<open>--wrap-algorithm\<close>, the file system's
  answer to \<^verbatim>\<open>io_path_exists\<close>, the stack under \<^verbatim>\<open>read_reply\<close>, and the handlers of \<^verbatim>\<open>wrap\<close> and
  \<^verbatim>\<open>roll\<close>.
\<close>

record 'm server =
  sv_modules :: "'m digest_module list"
  sv_wrap_algorithm :: bytes
  sv_path_exists :: "bytes \<Rightarrow> 'm \<Rightarrow> int"
  sv_stack :: "nat \<Rightarrow> char"
  sv_wrap :: "'m digest_module \<Rightarrow> 'm callback"
  sv_roll :: "'m digest_module \<Rightarrow> 'm callback"

section \<open>The handlers\<close>

definition REQUEST_EXIT_STATUS_CAT :: ui8 where "REQUEST_EXIT_STATUS_CAT = 0"
definition REQUEST_EXIT_STATUS_GET :: ui8 where "REQUEST_EXIT_STATUS_GET = 1"
definition REQUEST_EXIT_STATUS_PUT :: ui8 where "REQUEST_EXIT_STATUS_PUT = 2"
definition REQUEST_EXIT_STATUS_GIVE :: ui8 where "REQUEST_EXIT_STATUS_GIVE = 3"
definition REQUEST_EXIT_STATUS_TAKE :: ui8 where "REQUEST_EXIT_STATUS_TAKE = 4"
definition REQUEST_EXIT_STATUS_EAT :: ui8 where "REQUEST_EXIT_STATUS_EAT = 5"
definition REQUEST_EXIT_STATUS_WRAP :: ui8 where "REQUEST_EXIT_STATUS_WRAP = 6"
definition REQUEST_EXIT_STATUS_ROLL :: ui8 where "REQUEST_EXIT_STATUS_ROLL = 7"

lemmas verb_codes =
  REQUEST_EXIT_STATUS_CAT_def REQUEST_EXIT_STATUS_GET_def REQUEST_EXIT_STATUS_PUT_def
  REQUEST_EXIT_STATUS_GIVE_def REQUEST_EXIT_STATUS_TAKE_def REQUEST_EXIT_STATUS_EAT_def
  REQUEST_EXIT_STATUS_WRAP_def REQUEST_EXIT_STATUS_ROLL_def

definition set_verb :: "ui8 \<Rightarrow> 'm request \<Rightarrow> 'm request" where
  "set_verb verb r = r\<lparr>rq_exit_status := or (and (rq_exit_status r) 0x1C) (push_bit 2 verb)\<rparr>"

definition cat :: "'m server \<Rightarrow> 'm digest_module \<Rightarrow> 'm callback" where
  "cat sv mp r = write_no ((set_verb REQUEST_EXIT_STATUS_CAT r)\<lparr>rq_step := ''cat''\<rparr>)"

definition get :: "'m server \<Rightarrow> 'm digest_module \<Rightarrow> 'm callback" where
  "get sv mp r =
     (let r = (set_verb REQUEST_EXIT_STATUS_GET r)\<lparr>rq_step := ''request''\<rparr> in
      if dm_is_digest mp (rq_digest r) = 2 then
        proceed (write_ok r) (\<lambda>status r. Ret (if status \<noteq> 0 then -1 else 0) r)
      else
        proceed (dm_get_request mp r) (\<lambda>status r.
          if status \<noteq> 0 then write_no r
          else proceed (write_ok r) (\<lambda>status r.
            if status \<noteq> 0 then Ret (-1) r
            else dm_get_bytes mp (r\<lparr>rq_step := ''bytes''\<rparr>))))"

definition eat :: "'m server \<Rightarrow> 'm digest_module \<Rightarrow> 'm callback" where
  "eat sv mp r =
     proceed (dm_eat mp (set_verb REQUEST_EXIT_STATUS_EAT r)) (\<lambda>status r.
       if status \<noteq> 0 then write_no r else write_ok r)"

definition put :: "'m server \<Rightarrow> 'm digest_module \<Rightarrow> 'm callback" where
  "put sv mp r =
     (let r = (set_verb REQUEST_EXIT_STATUS_PUT r)\<lparr>rq_step := ''request''\<rparr> in
      proceed (dm_put_request mp r) (\<lambda>status r.
        if status \<noteq> 0 then write_no r
        else proceed (write_ok r) (\<lambda>status r.
          if status \<noteq> 0 then Ret (-1) r
          else proceed (dm_put_bytes mp (r\<lparr>rq_step := ''bytes''\<rparr>)) (\<lambda>status r.
            if status \<noteq> 0 then write_no r else write_ok r))))"

definition wrap_path :: "'m request \<Rightarrow> bytes" where
  "wrap_path r =
     take 255 (''spool/wrap/'' @ rq_algorithm r @ CHR '':'' # rq_digest r @ ''.brr'')"

definition take_verb :: "'m server \<Rightarrow> 'm digest_module \<Rightarrow> 'm callback" where
  "take_verb sv mp r =
     (let r = (set_verb REQUEST_EXIT_STATUS_TAKE r)\<lparr>rq_step := ''is_wrap''\<rparr>;
          status = sv_path_exists sv (wrap_path r) (rq_module r)
      in
      if status < 0 then child_panic r
      else if status = 1 then write_no (log_error (log_error r))
      else
        proceed (dm_take_request mp (r\<lparr>rq_step := ''request''\<rparr>)) (\<lambda>status r.
          if status \<noteq> 0 then write_no r
          else proceed (write_ok r) (\<lambda>status r.
            if status \<noteq> 0 then Ret (-1) r
            else proceed (dm_take_bytes mp (r\<lparr>rq_step := ''bytes''\<rparr>)) (\<lambda>status r.
              if status \<noteq> 0 then Ret (-1) r
              else proceed (read_reply (sv_stack sv) (r\<lparr>rq_step := ''read_reply''\<rparr>)) (\<lambda>reply r.
                case reply of
                  None \<Rightarrow> Ret (-1) r
                | Some reply \<Rightarrow>
                    if hd reply = CHR ''n'' then Ret 0 r
                    else proceed (dm_take_reply mp reply (r\<lparr>rq_step := ''reply''\<rparr>)) (\<lambda>status r.
                      if status \<noteq> 0 then write_no r else write_ok r))))))"

definition give :: "'m server \<Rightarrow> 'm digest_module \<Rightarrow> 'm callback" where
  "give sv mp r =
     (let r = (set_verb REQUEST_EXIT_STATUS_GIVE r)\<lparr>rq_step := ''request''\<rparr> in
      proceed (dm_give_request mp r) (\<lambda>status r.
        if status \<noteq> 0 then write_no r
        else proceed (write_ok r) (\<lambda>status r.
          if status \<noteq> 0 then Ret (-1) r
          else proceed (dm_give_bytes mp (r\<lparr>rq_step := ''bytes''\<rparr>)) (\<lambda>status r.
            if status \<noteq> 0 then write_no r
            else proceed (write_ok r) (\<lambda>status r.
              if status \<noteq> 0 then Ret (-1) r
              else proceed (read_reply (sv_stack sv) (r\<lparr>rq_step := ''read_reply''\<rparr>)) (\<lambda>reply r.
                case reply of
                  None \<Rightarrow> Ret (-1) r
                | Some reply \<Rightarrow> dm_give_reply mp reply (r\<lparr>rq_step := ''reply''\<rparr>)))))))"

section \<open>Dispatch\<close>

definition verb_callback ::
  "'m server \<Rightarrow> bytes \<Rightarrow> ('m digest_module \<Rightarrow> 'm callback) option" where
  "verb_callback sv verb =
     (if verb = ''get'' then Some (get sv)
      else if verb = ''put'' then Some (put sv)
      else if verb = ''take'' then Some (take_verb sv)
      else if verb = ''give'' then Some (give sv)
      else if verb = ''eat'' then Some (eat sv)
      else if verb = ''wrap'' then Some (sv_wrap sv)
      else if verb = ''roll'' then Some (sv_roll sv)
      else if verb = ''cat'' then Some (cat sv)
      else None)"

definition bio4d_close ::
  "'m digest_module \<Rightarrow> int \<Rightarrow> 'm request \<Rightarrow> (unit, 'm request) outcome" where
  "bio4d_close mp status r =
     proceed (dm_close mp status r) (\<lambda>st r. Ret () (if st < 0 then log_error r else r))"

text \<open>
  \<^verbatim>\<open>bio4d()\<close>: a call without a module for the algorithm is a panic.  When the algorithm is empty
  and the digest is not, the code would call through a null pointer; the checks before exclude it.
\<close>

definition bio4d :: "'m server \<Rightarrow> scan \<Rightarrow> bytes \<Rightarrow> 'm request \<Rightarrow> (unit, 'm request) outcome" where
  "bio4d sv s scan_buf r =
     (let verb = sc_verb s; digest = sc_digest s; r = r\<lparr>rq_verb := verb, rq_step := []\<rparr> in
      if verb = ''wrap'' \<and> sc_algorithm s \<noteq> [] then die_NO r
      else if verb \<noteq> ''wrap'' \<and> (sc_algorithm s = [] \<or> digest = []) then die_NO r
      else
        let algorithm = (if verb = ''wrap'' then sv_wrap_algorithm sv else sc_algorithm s);
            r = r\<lparr>rq_algorithm := algorithm, rq_blob_size := of_nat (length scan_buf),
                  rq_digest := digest\<rparr>
        in case module_get (sv_modules sv) algorithm of
             None \<Rightarrow> child_panic r
           | Some mp \<Rightarrow>
               if digest \<noteq> [] \<and> dm_is_digest mp digest = 0 then die_NO r
               else case verb_callback sv verb of
                 None \<Rightarrow> die_NO r
               | Some callback \<Rightarrow>
                   proceed (dm_open mp r) (\<lambda>status r.
                     if status \<noteq> 0 then
                       proceed (dm_close mp status r) (\<lambda>st r.
                         die_NO (if st \<noteq> 0 then log_error r else r))
                     else
                       proceed (callback mp (r\<lparr>rq_scan_buf := scan_buf\<rparr>)) (\<lambda>status r.
                         bio4d_close mp status r)))"

end
