(* ===== verification/Exit_Status.thy ===== *)
theory Exit_Status
  imports Verbs
begin

text \<open>
  The end of \<^verbatim>\<open>request\<close> in \<^verbatim>\<open>bio4d/bio4d.c\<close>, where the child encodes its chat history in the exit
  status, sends its blob request record and leaves, and the master's side: \<^verbatim>\<open>reap_request\<close> and
  \<^verbatim>\<open>bump_no\<close>, which decode the exit status into counters, and the samples of \<^verbatim>\<open>gyr_rrd\<close>.
\<close>

section \<open>The child leaves\<close>

definition REQUEST_EXIT_STATUS_CHAT_OK :: ui8 where "REQUEST_EXIT_STATUS_CHAT_OK = 0"
definition REQUEST_EXIT_STATUS_CHAT_NO :: ui8 where "REQUEST_EXIT_STATUS_CHAT_NO = 1"
definition REQUEST_EXIT_STATUS_CHAT_NO2 :: ui8 where "REQUEST_EXIT_STATUS_CHAT_NO2 = 2"
definition REQUEST_EXIT_STATUS_CHAT_NO3 :: ui8 where "REQUEST_EXIT_STATUS_CHAT_NO3 = 3"

lemmas chat_codes =
  REQUEST_EXIT_STATUS_CHAT_OK_def REQUEST_EXIT_STATUS_CHAT_NO_def
  REQUEST_EXIT_STATUS_CHAT_NO2_def REQUEST_EXIT_STATUS_CHAT_NO3_def

definition set_chat :: "ui8 \<Rightarrow> 'm request \<Rightarrow> 'm request" where
  "set_chat chat r = r\<lparr>rq_exit_status := or (and (rq_exit_status r) 0x9F) (push_bit 5 chat)\<rparr>"

text \<open>The switch on the length of the chat history; the index of the last case is the code's.\<close>

definition encode_chat :: "'m request \<Rightarrow> (unit, 'm request) outcome" where
  "encode_chat r =
     (let ch = rq_chat_history r; len = length ch in
      if len = 0 then child_panic r
      else if len = 2 then
        Ret () (if ch ! 0 = CHR ''n'' then set_chat REQUEST_EXIT_STATUS_CHAT_NO r else r)
      else if len = 5 then
        Ret () (if ch ! 3 = CHR ''n'' then set_chat REQUEST_EXIT_STATUS_CHAT_NO2 r else r)
      else if len = 8 then
        Ret () (if ch ! 5 = CHR ''n'' then set_chat REQUEST_EXIT_STATUS_CHAT_NO3 r else r)
      else child_panic r)"

text \<open>
  The whole child: \<open>end_time\<close> is the answer of \<^verbatim>\<open>clock_gettime\<close>.  Every path ends in \<^verbatim>\<open>leave\<close>.
\<close>

definition request_child ::
  "'m server \<Rightarrow> (int \<Rightarrow> tm) \<Rightarrow> ui8 \<Rightarrow> timespec \<Rightarrow> 'm request \<Rightarrow> (unit, 'm request) outcome" where
  "request_child sv gmtime brr_mask end_time r =
     proceed (request_loop (bio4d sv) scan_start r) (\<lambda>halted r.
       if halted then
         proceed (encode_chat r) (\<lambda>_ r.
           proceed (brr_send gmtime brr_mask (r\<lparr>rq_end_time := end_time\<rparr>)) (\<lambda>_ r. Exited r))
       else Exited (log_error r))"

section \<open>The counters of the master\<close>

text \<open>The static counters of \<^verbatim>\<open>bio4d.c\<close>, by name.\<close>

datatype counter =
  accept_count | exit_count
| success_count | error_count | timeout_count | signal_count | fault_count
| ok_count | no_count | no2_count | no3_count
| cat_count | get_count | put_count | give_count | take_count | eat_count | wrap_count | roll_count
| cat_no_count | eat_no_count | get_no_count | put_no_count | put_no2_count
| wrap_no_count | roll_no_count
| take_no_count | take_no2_count | take_no3_count
| give_no_count | give_no2_count | give_no3_count

type_synonym stats = "counter \<Rightarrow> ui64"

definition bump :: "counter \<Rightarrow> stats \<Rightarrow> stats" where
  "bump c st = st(c := st c + 1)"

text \<open>\<^verbatim>\<open>bump_no\<close>: a null pointer is \<open>None\<close>, and \<open>None\<close> as a result is the panic of the master.\<close>

definition bump_no ::
  "ui8 \<Rightarrow> counter option \<Rightarrow> counter option \<Rightarrow> counter option \<Rightarrow> stats \<Rightarrow> stats option" where
  "bump_no exit_status v_no v_no2 v_no3 st =
     (if and exit_status 3 \<noteq> 0 then Some st
      else
        let chat = drop_bit 5 (and exit_status 0x60) in
        if chat = REQUEST_EXIT_STATUS_CHAT_OK then Some (bump ok_count st)
        else if chat = REQUEST_EXIT_STATUS_CHAT_NO then
          (case v_no of None \<Rightarrow> None | Some v \<Rightarrow> Some (bump v (bump no_count st)))
        else if chat = REQUEST_EXIT_STATUS_CHAT_NO2 then
          (case v_no2 of None \<Rightarrow> None | Some v \<Rightarrow> Some (bump v (bump no2_count st)))
        else
          (case v_no3 of None \<Rightarrow> None | Some v \<Rightarrow> Some (bump v (bump no3_count st))))"

definition reap_class :: "ui8 \<Rightarrow> counter" where
  "reap_class s8 =
     (if and s8 3 = REQUEST_EXIT_STATUS_SUCCESS then success_count
      else if and s8 3 = REQUEST_EXIT_STATUS_ERROR then error_count
      else if and s8 3 = REQUEST_EXIT_STATUS_TIMEOUT then timeout_count
      else fault_count)"

text \<open>The cases of the switch on the verb: its counter and the three references for \<^verbatim>\<open>bump_no\<close>.\<close>

definition verb_case :: "ui8 \<Rightarrow> counter \<times> counter option \<times> counter option \<times> counter option" where
  "verb_case verb =
     (if verb = REQUEST_EXIT_STATUS_CAT then (cat_count, Some cat_no_count, None, None)
      else if verb = REQUEST_EXIT_STATUS_GET then (get_count, Some get_no_count, None, None)
      else if verb = REQUEST_EXIT_STATUS_PUT then
        (put_count, Some put_no_count, Some put_no2_count, None)
      else if verb = REQUEST_EXIT_STATUS_GIVE then
        (give_count, Some give_no_count, Some give_no2_count, Some give_no3_count)
      else if verb = REQUEST_EXIT_STATUS_TAKE then
        (take_count, Some take_no_count, Some take_no2_count, Some take_no3_count)
      else if verb = REQUEST_EXIT_STATUS_EAT then (eat_count, Some eat_no_count, None, None)
      else if verb = REQUEST_EXIT_STATUS_WRAP then (wrap_count, Some wrap_no_count, None, None)
      else (roll_count, Some roll_no_count, None, None))"

definition reap_verb :: "ui8 \<Rightarrow> stats \<Rightarrow> stats option" where
  "reap_verb s8 st =
     (case verb_case (drop_bit 2 (and s8 0x1C)) of
        (verb_count, v_no, v_no2, v_no3) \<Rightarrow> bump_no s8 v_no v_no2 v_no3 (bump verb_count st))"

text \<open>
  What \<^verbatim>\<open>waitpid\<close> reports of a child: the signals that only warn, \<open>SIGKILL\<close>, any other signal,
  which is a panic, or an exit status.
\<close>

datatype wait_status = SigWarned | SigKilled | SigOther | ExitedWith ui8

datatype corpse = Logger | Brr_Logger | Arborist | Child wait_status

text \<open>The answers of \<^verbatim>\<open>waitpid(-1, \<dots>, WNOHANG)\<close>; after the list there is no corpse.\<close>

datatype wait_event = WCorpse corpse | WFail errno

definition reap_child :: "wait_status \<Rightarrow> stats \<Rightarrow> stats option" where
  "reap_child ws st =
     (let st = bump exit_count st in
      case ws of
        SigWarned \<Rightarrow> Some (bump signal_count st)
      | SigKilled \<Rightarrow> Some (bump signal_count st)
      | SigOther \<Rightarrow> None
      | ExitedWith s8 \<Rightarrow> reap_verb s8 (bump (reap_class s8) st))"

fun reap_request :: "bool \<Rightarrow> wait_event list \<Rightarrow> stats \<Rightarrow> stats option" where
  "reap_request leaving [] st = Some st"
| "reap_request leaving (WFail e # evs) st =
     (if e = EINTR then reap_request leaving evs st else None)"
| "reap_request leaving (WCorpse (Child ws) # evs) st =
     (case reap_child ws st of None \<Rightarrow> None | Some st' \<Rightarrow> reap_request leaving evs st')"
| "reap_request leaving (WCorpse _ # evs) st =
     (if leaving then reap_request leaving evs st else None)"

section \<open>Accounting\<close>

definition total :: "counter list \<Rightarrow> stats \<Rightarrow> ui64" where
  "total cs st = sum_list (map st cs)"

definition class_counters :: "counter list" where
  "class_counters = [success_count, error_count, timeout_count, fault_count]"

definition verb_counters :: "counter list" where
  "verb_counters = [cat_count, get_count, put_count, give_count, take_count, eat_count,
     wrap_count, roll_count]"

definition chat_counters :: "counter list" where
  "chat_counters = [ok_count, no_count, no2_count, no3_count]"

definition refused_counters :: "counter list" where
  "refused_counters = [no_count, no2_count, no3_count]"

definition no_counters :: "counter list" where
  "no_counters = [cat_no_count, eat_no_count, get_no_count, put_no_count, put_no2_count,
     wrap_no_count, roll_no_count, take_no_count, take_no2_count, take_no3_count,
     give_no_count, give_no2_count, give_no3_count]"

lemmas counter_lists =
  class_counters_def verb_counters_def chat_counters_def refused_counters_def no_counters_def

lemma total_bump:
  "distinct cs \<Longrightarrow> total cs (bump c st) = total cs st + (if c \<in> set cs then 1 else 0)"
  by (induction cs) (auto simp: total_def bump_def)

lemma total_bumps [simp]:
  "total class_counters (bump c st) = total class_counters st + (if c \<in> set class_counters then 1 else 0)"
  "total verb_counters (bump c st) = total verb_counters st + (if c \<in> set verb_counters then 1 else 0)"
  "total chat_counters (bump c st) = total chat_counters st + (if c \<in> set chat_counters then 1 else 0)"
  "total refused_counters (bump c st) =
     total refused_counters st + (if c \<in> set refused_counters then 1 else 0)"
  "total no_counters (bump c st) = total no_counters st + (if c \<in> set no_counters then 1 else 0)"
  by (rule total_bump; simp add: counter_lists)+

lemma bump_apply: "bump c st d = st d + (if d = c then 1 else 0)"
  by (simp add: bump_def)

text \<open>
  What the master knows after any sequence of corpses: every process it waited for is counted
  once by signal or exit class, every normal exit once by verb, every successful one once by
  chat, and every refusal once by its verb.
\<close>

definition accounted :: "stats \<Rightarrow> bool" where
  "accounted st \<longleftrightarrow>
     st exit_count = st signal_count + total class_counters st \<and>
     total verb_counters st = total class_counters st \<and>
     total chat_counters st = st success_count \<and>
     total no_counters st = total refused_counters st"

lemma verb_case_counters:
  "verb_case v = (vc, v1, v2, v3) \<Longrightarrow>
   vc \<in> set verb_counters \<and> set_option v1 \<union> set_option v2 \<union> set_option v3 \<subseteq> set no_counters"
  by (auto simp: verb_case_def verb_counters_def no_counters_def split: if_splits)

lemma bump_no_effect:
  assumes "bump_no s8 v v2 v3 st = Some st'"
    and "set_option v \<union> set_option v2 \<union> set_option v3 \<subseteq> set no_counters"
  shows "st' = st \<and> and s8 3 \<noteq> 0 \<or> st' = bump ok_count st \<and> and s8 3 = 0 \<or>
    (\<exists>c d. st' = bump c (bump d st) \<and> and s8 3 = 0 \<and> c \<in> set no_counters \<and>
      d \<in> set refused_counters)"
proof (cases "and s8 3 = 0")
  case True
  then have "st' = bump ok_count st \<or>
      (\<exists>c d. (v = Some c \<or> v2 = Some c \<or> v3 = Some c) \<and> st' = bump c (bump d st) \<and>
        d \<in> set refused_counters)"
    using assms(1) by (auto simp: bump_no_def Let_def refused_counters_def
        split: if_splits option.splits)
  with True assms(2) show ?thesis by auto
next
  case False
  with assms(1) show ?thesis by (simp add: bump_no_def)
qed

lemma no_counters_apart:
  assumes "c \<in> set no_counters"
  shows "c \<noteq> exit_count" "c \<noteq> signal_count" "c \<noteq> success_count" "c \<notin> set class_counters"
    "c \<notin> set verb_counters" "c \<notin> set chat_counters" "c \<notin> set refused_counters"
  using assms by (auto simp: counter_lists)

lemma refused_counters_apart:
  assumes "c \<in> set refused_counters"
  shows "c \<noteq> exit_count" "c \<noteq> signal_count" "c \<noteq> success_count" "c \<notin> set class_counters"
    "c \<notin> set verb_counters" "c \<in> set chat_counters" "c \<notin> set no_counters"
  using assms by (auto simp: counter_lists)

lemma verb_counters_apart:
  assumes "c \<in> set verb_counters"
  shows "c \<noteq> exit_count" "c \<noteq> signal_count" "c \<noteq> success_count" "c \<notin> set class_counters"
    "c \<notin> set no_counters" "c \<notin> set chat_counters" "c \<notin> set refused_counters"
  using assms by (auto simp: counter_lists)

text \<open>The totals after one exit: the verb is counted, and the chat of a success.\<close>

lemma reap_verb_effect:
  assumes "reap_verb s8 st = Some st'"
  shows "st' exit_count = st exit_count \<and> st' signal_count = st signal_count \<and>
    total class_counters st' = total class_counters st \<and>
    st' success_count = st success_count \<and>
    total verb_counters st' = total verb_counters st + 1 \<and>
    total chat_counters st' = total chat_counters st + (if and s8 3 = 0 then 1 else 0) \<and>
    total no_counters st' - total refused_counters st' =
      total no_counters st - total refused_counters st"
proof -
  obtain vc v v2 v3 where v: "verb_case (drop_bit 2 (and s8 0x1C)) = (vc, v, v2, v3)"
    by (metis prod_cases4)
  note vc = verb_case_counters [OF v]
  have b: "bump_no s8 v v2 v3 (bump vc st) = Some st'" using assms v by (simp add: reap_verb_def)
  consider "st' = bump vc st" "and s8 3 \<noteq> 0" | "st' = bump ok_count (bump vc st)" "and s8 3 = 0"
    | c d where "st' = bump c (bump d (bump vc st))" "and s8 3 = 0" "c \<in> set no_counters"
      "d \<in> set refused_counters"
    using bump_no_effect [OF b] vc by blast
  then show ?thesis
  proof cases
    case 1
    with vc verb_counters_apart [of vc] show ?thesis by (simp add: bump_apply)
  next
    case 2
    have "ok_count \<in> set chat_counters" "ok_count \<notin> set class_counters"
      "ok_count \<notin> set verb_counters" "ok_count \<notin> set no_counters" "ok_count \<notin> set refused_counters"
      by (simp_all add: counter_lists)
    with 2 vc verb_counters_apart [of vc] show ?thesis by (simp add: bump_apply)
  next
    case 3
    with vc verb_counters_apart [of vc] no_counters_apart [of c] refused_counters_apart [of d]
    show ?thesis by (simp add: bump_apply)
  qed
qed

lemma reap_class_counter:
  "reap_class s8 \<in> set class_counters \<and> (reap_class s8 = success_count \<longleftrightarrow> and s8 3 = 0)"
  by (simp add: reap_class_def class_counters_def REQUEST_EXIT_STATUS_SUCCESS_def)

lemma class_counters_apart:
  assumes "c \<in> set class_counters"
  shows "c \<noteq> exit_count" "c \<noteq> signal_count" "c \<notin> set verb_counters" "c \<notin> set chat_counters"
    "c \<notin> set no_counters" "c \<notin> set refused_counters"
  using assms by (auto simp: counter_lists)

lemma signal_exit_apart:
  "exit_count \<notin> set class_counters" "exit_count \<notin> set verb_counters"
  "exit_count \<notin> set chat_counters" "exit_count \<notin> set no_counters" "exit_count \<notin> set refused_counters"
  "signal_count \<notin> set class_counters" "signal_count \<notin> set verb_counters"
  "signal_count \<notin> set chat_counters" "signal_count \<notin> set no_counters"
  "signal_count \<notin> set refused_counters"
  by (simp_all add: counter_lists)

lemma reap_child_accounted:
  assumes "reap_child ws st = Some st'" and "accounted st"
  shows "accounted st'"
proof (cases ws)
  case (ExitedWith s8)
  let ?st = "bump (reap_class s8) (bump exit_count st)"
  have "reap_verb s8 ?st = Some st'" using assms(1) ExitedWith by (simp add: reap_child_def)
  from reap_verb_effect [OF this] assms(2) reap_class_counter [of s8]
    class_counters_apart [of "reap_class s8"]
  show ?thesis by (auto simp: accounted_def bump_apply signal_exit_apart)
qed (use assms in \<open>auto simp: reap_child_def accounted_def bump_apply signal_exit_apart\<close>)

text \<open>
  C22: the books balance.  Whatever corpses \<^verbatim>\<open>waitpid\<close> delivers, as long as the master does not
  panic, every child reaped is counted exactly once as signalled, successful, in error, timed
  out or faulted; every normal exit exactly once by verb; every success exactly once by its
  chat; and the refusals by verb add up to the refusals by chat.
\<close>

theorem reap_request_accounted:
  assumes "reap_request leaving evs st = Some st'" and "accounted st"
  shows "accounted st'"
  using assms
proof (induction leaving evs st rule: reap_request.induct)
  case (3 leaving ws evs st)
  then show ?case by (auto dest: reap_child_accounted split: option.splits)
qed (auto split: if_splits)

theorem reap_request_accounted_witness:
  "\<exists>st. reap_request False [WCorpse (Child (ExitedWith 0x48)), WFail EINTR,
      WCorpse (Child SigKilled)] (\<lambda>_. 0) = Some st \<and> accounted st \<and> st put_no2_count = 1"
proof -
  obtain st where st: "reap_request False [WCorpse (Child (ExitedWith 0x48)), WFail EINTR,
      WCorpse (Child SigKilled)] (\<lambda>_. 0) = Some st" "st put_no2_count = 1"
    by (simp add: reap_child_def reap_verb_def verb_case_def verb_codes chat_codes bump_no_def
        bump_apply Let_def reap_class_def REQUEST_EXIT_STATUS_SUCCESS_def)
  have "accounted (\<lambda>_. 0)" by (simp add: accounted_def total_def counter_lists)
  from reap_request_accounted [OF st(1) this] st show ?thesis by blast
qed

end
