(* ===== verification/Fs_World.thy ===== *)
theory Fs_World
  imports Req
begin

text \<open>
  The file system under a server: a finite list of named nodes, the system calls the code makes
  on it with the errors it distinguishes, and the arborist process of \<^verbatim>\<open>bio4d/arbor.c\<close>, which
  renames blobs into place, creating directories, and trims empty directories.
\<close>

section \<open>Nodes and calls\<close>

datatype node = File bytes | Dir | Link

text \<open>
  \<open>fs_faults\<close> is the list of the failures the kernel injects: one entry per system call, none
  after the list.  \<open>fs_dev\<close> is the device of a path.
\<close>

record fs =
  fs_nodes :: "(bytes \<times> node) list"
  fs_faults :: "errno option list"
  fs_dev :: "bytes \<Rightarrow> nat"

fun del_node :: "bytes \<Rightarrow> (bytes \<times> node) list \<Rightarrow> (bytes \<times> node) list" where
  "del_node p [] = []"
| "del_node p ((q, n) # ns) = (if p = q then del_node p ns else (q, n) # del_node p ns)"

definition set_node :: "bytes \<Rightarrow> node \<Rightarrow> (bytes \<times> node) list \<Rightarrow> (bytes \<times> node) list" where
  "set_node p n ns = (p, n) # del_node p ns"

lemma map_of_del [simp]: "map_of (del_node p ns) q = (if q = p then None else map_of ns q)"
  by (induction p ns rule: del_node.induct) auto

lemma map_of_set [simp]: "map_of (set_node p n ns) q = (if q = p then Some n else map_of ns q)"
  by (auto simp: set_node_def)

text \<open>
  A restarted call: interrupts are retried, the next entry of the list decides whether the call
  fails.
\<close>

fun next_fault :: "errno option list \<Rightarrow> errno option \<times> errno option list" where
  "next_fault [] = (None, [])"
| "next_fault (None # fs) = (None, fs)"
| "next_fault (Some e # fs) = (if e = EINTR then next_fault fs else (Some e, fs))"

definition fs_call :: "('s fs_scheme \<Rightarrow> 'a sysret \<times> 's fs_scheme) \<Rightarrow> 's fs_scheme \<Rightarrow> 'a sysret \<times> 's fs_scheme" where
  "fs_call call w =
     (case next_fault (fs_faults w) of
        (Some e, fs) \<Rightarrow> (Inl e, w\<lparr>fs_faults := fs\<rparr>)
      | (None, fs) \<Rightarrow> call (w\<lparr>fs_faults := fs\<rparr>))"

text \<open>A call that changes no node of the model: \<^verbatim>\<open>chmod\<close>, \<^verbatim>\<open>close\<close>, a fifo.\<close>

definition fs_touch :: "'s fs_scheme \<Rightarrow> unit sysret \<times> 's fs_scheme" where
  "fs_touch = fs_call (\<lambda>w. (Inr (), w))"

text \<open>The text before the last slash, \<open>None\<close> when there is no slash.\<close>

definition dir_of :: "bytes \<Rightarrow> bytes option" where
  "dir_of p =
     (if CHR ''/'' \<in> set p
      then Some (rev (tl (dropWhile (\<lambda>c. c \<noteq> CHR ''/'') (rev p)))) else None)"

definition parent_there :: "bytes \<Rightarrow> (bytes \<times> node) list \<Rightarrow> bool" where
  "parent_there p ns =
     (case dir_of p of
        None \<Rightarrow> True
      | Some d \<Rightarrow> map_of ns d = Some Dir \<or> map_of ns d = Some Link)"

definition io_fs_mkdir :: "bytes \<Rightarrow> 's fs_scheme \<Rightarrow> unit sysret \<times> 's fs_scheme" where
  "io_fs_mkdir p = fs_call (\<lambda>w.
     if p = [] then (Inl ENOENT, w)
     else if map_of (fs_nodes w) p \<noteq> None then (Inl EEXIST, w)
     else if \<not> parent_there p (fs_nodes w) then (Inl ENOENT, w)
     else (Inr (), w\<lparr>fs_nodes := set_node p Dir (fs_nodes w)\<rparr>))"

definition io_fs_rename :: "bytes \<Rightarrow> bytes \<Rightarrow> 's fs_scheme \<Rightarrow> unit sysret \<times> 's fs_scheme" where
  "io_fs_rename p q = fs_call (\<lambda>w.
     case map_of (fs_nodes w) p of
       None \<Rightarrow> (Inl ENOENT, w)
     | Some n \<Rightarrow>
         if \<not> parent_there q (fs_nodes w) then (Inl ENOENT, w)
         else if fs_dev w p \<noteq> fs_dev w q then (Inl EXDEV, w)
         else if map_of (fs_nodes w) q = Some Dir then (Inl EEXIST, w)
         else if p = q then (Inr (), w)
         else (Inr (), w\<lparr>fs_nodes := set_node q n (del_node p (fs_nodes w))\<rparr>))"

definition io_fs_unlink :: "bytes \<Rightarrow> 's fs_scheme \<Rightarrow> unit sysret \<times> 's fs_scheme" where
  "io_fs_unlink p w =
     (case fs_call (\<lambda>w.
        case map_of (fs_nodes w) p of
          None \<Rightarrow> (Inl ENOENT, w)
        | Some Dir \<Rightarrow> (Inl EOTHER, w)
        | Some _ \<Rightarrow> (Inr (), w\<lparr>fs_nodes := del_node p (fs_nodes w)\<rparr>)) w of
        (Inl e, w') \<Rightarrow> if e = ENOENT then (Inr (), w') else (Inl e, w')
      | (Inr u, w') \<Rightarrow> (Inr u, w'))"

definition dir_empty :: "bytes \<Rightarrow> (bytes \<times> node) list \<Rightarrow> bool" where
  "dir_empty d ns = (\<not> list_ex (\<lambda>(p, n). dir_of p = Some d) ns)"

definition io_fs_rmdir :: "bytes \<Rightarrow> 's fs_scheme \<Rightarrow> unit sysret \<times> 's fs_scheme" where
  "io_fs_rmdir d = fs_call (\<lambda>w.
     if map_of (fs_nodes w) d = None then (Inl ENOENT, w)
     else if map_of (fs_nodes w) d \<noteq> Some Dir then (Inl ENOTDIR, w)
     else if \<not> dir_empty d (fs_nodes w) then (Inl ENOTEMPTY, w)
     else (Inr (), w\<lparr>fs_nodes := del_node d (fs_nodes w)\<rparr>))"

definition io_fs_lstat :: "bytes \<Rightarrow> 's fs_scheme \<Rightarrow> node sysret \<times> 's fs_scheme" where
  "io_fs_lstat p = fs_call (\<lambda>w.
     case map_of (fs_nodes w) p of None \<Rightarrow> (Inl ENOENT, w) | Some n \<Rightarrow> (Inr n, w))"

text \<open>Opening for reading gives the contents; a directory opens but does not read.\<close>

definition io_fs_open :: "bytes \<Rightarrow> 's fs_scheme \<Rightarrow> bytes sysret \<times> 's fs_scheme" where
  "io_fs_open p = fs_call (\<lambda>w.
     case map_of (fs_nodes w) p of
       None \<Rightarrow> (Inl ENOENT, w)
     | Some (File bs) \<Rightarrow> (Inr bs, w)
     | Some _ \<Rightarrow> (Inl EOTHER, w))"

definition io_fs_create :: "bytes \<Rightarrow> 's fs_scheme \<Rightarrow> unit sysret \<times> 's fs_scheme" where
  "io_fs_create p = fs_call (\<lambda>w.
     if map_of (fs_nodes w) p \<noteq> None then (Inl EEXIST, w)
     else if \<not> parent_there p (fs_nodes w) then (Inl ENOENT, w)
     else (Inr (), w\<lparr>fs_nodes := set_node p (File []) (fs_nodes w)\<rparr>))"

definition io_fs_append :: "bytes \<Rightarrow> bytes \<Rightarrow> 's fs_scheme \<Rightarrow> unit sysret \<times> 's fs_scheme" where
  "io_fs_append p bs = fs_call (\<lambda>w.
     case map_of (fs_nodes w) p of
       Some (File old) \<Rightarrow> (Inr (), w\<lparr>fs_nodes := set_node p (File (old @ bs)) (fs_nodes w)\<rparr>)
     | _ \<Rightarrow> (Inl EOTHER, w))"

section \<open>The arborist\<close>

text \<open>\<^verbatim>\<open>make_path\<close>: \<open>True\<close> is the return value 1, an error.\<close>

definition arbor_make_path :: "bytes \<Rightarrow> 's fs_scheme \<Rightarrow> bool \<times> 's fs_scheme" where
  "arbor_make_path path w =
     (case io_fs_mkdir path w of
        (Inl e, w') \<Rightarrow> (e \<noteq> EEXIST, w')
      | (Inr _, w') \<Rightarrow> (False, w'))"

text \<open>The texts before each slash of the target, left to right.\<close>

fun slash_prefixes :: "bytes \<Rightarrow> bytes \<Rightarrow> bytes list" where
  "slash_prefixes done [] = []"
| "slash_prefixes done (c # p) =
     (if c = CHR ''/'' then done # slash_prefixes (done @ [c]) p else slash_prefixes (done @ [c]) p)"

fun make_dirs :: "bytes list \<Rightarrow> 's fs_scheme \<Rightarrow> bool \<times> 's fs_scheme" where
  "make_dirs [] w = (False, w)"
| "make_dirs (d # ds) w =
     (case arbor_make_path d w of (failed, w') \<Rightarrow> if failed then (True, w') else make_dirs ds w')"

text \<open>
  \<^verbatim>\<open>rename_blob\<close>: the reply payload, \<open>True\<close> for 1, on which the arborist panics after replying.
\<close>

definition rename_blob :: "bytes \<Rightarrow> bytes \<Rightarrow> 's fs_scheme \<Rightarrow> bool \<times> 's fs_scheme" where
  "rename_blob src_path tgt_path w =
     (case make_dirs (slash_prefixes [] tgt_path) w of
        (failed, w1) \<Rightarrow>
          if failed then (True, w1)
          else case io_fs_rename src_path tgt_path w1 of
            (Inl e, w2) \<Rightarrow> (True, w2)
          | (Inr _, w2) \<Rightarrow> (case fs_touch w2 of (st, w3) \<Rightarrow> (st \<noteq> Inr (), w3)))"

text \<open>
  \<^verbatim>\<open>_move\<close>: a rename on the same device, otherwise a copy (open, truncate, read and write in
  pieces, close) and an unlink of the source.  \<open>True\<close> is the return value -1.
\<close>

definition io_fs_trunc :: "bytes \<Rightarrow> 's fs_scheme \<Rightarrow> unit sysret \<times> 's fs_scheme" where
  "io_fs_trunc p = fs_call (\<lambda>w.
     if map_of (fs_nodes w) p = Some Dir \<or> \<not> parent_there p (fs_nodes w) then (Inl EOTHER, w)
     else (Inr (), w\<lparr>fs_nodes := set_node p (File []) (fs_nodes w)\<rparr>))"

function copy_pieces :: "bytes \<Rightarrow> bytes \<Rightarrow> 's fs_scheme \<Rightarrow> bool \<times> 's fs_scheme" where
  "copy_pieces tgt_path src w =
     (case fs_touch w of
        (Inl e, w1) \<Rightarrow> (True, w1)
      | (Inr _, w1) \<Rightarrow>
          if src = [] then (False, w1)
          else case io_fs_append tgt_path (take MSG_SIZE src) w1 of
            (Inl e, w2) \<Rightarrow> (True, w2)
          | (Inr _, w2) \<Rightarrow> copy_pieces tgt_path (drop MSG_SIZE src) w2)"
  by pat_completeness auto
termination
  by (relation "measure (\<lambda>(tgt, src, w). length src)") (auto simp: MSG_SIZE_def)

declare copy_pieces.simps [simp del]

definition move_file :: "bytes \<Rightarrow> bytes \<Rightarrow> 's fs_scheme \<Rightarrow> bool \<times> 's fs_scheme" where
  "move_file src_path tgt_path w =
     (case io_fs_lstat src_path w of
        (Inr (File src), w1) \<Rightarrow>
          (case dir_of (take (MSG_SIZE - 1) tgt_path) of
             None \<Rightarrow> (True, w1)
           | Some d \<Rightarrow>
               (case io_fs_lstat d w1 of
                  (Inr Dir, w2) \<Rightarrow>
                    if fs_dev w2 src_path = fs_dev w2 d then
                      (case io_fs_rename src_path tgt_path w2 of (st, w3) \<Rightarrow> (st \<noteq> Inr (), w3))
                    else
                      (case io_fs_open src_path w2 of
                         (Inl e, w3) \<Rightarrow> (True, w3)
                       | (Inr bs, w3) \<Rightarrow>
                           (case io_fs_trunc tgt_path w3 of
                              (Inl e, w4) \<Rightarrow> (True, snd (fs_touch w4))
                            | (Inr _, w4) \<Rightarrow>
                                (case copy_pieces tgt_path bs w4 of (failed, w5) \<Rightarrow>
                                 (case fs_touch w5 of (c1, w6) \<Rightarrow>
                                  (case fs_touch w6 of (c2, w7) \<Rightarrow>
                                     if failed \<or> c1 \<noteq> Inr () \<or> c2 \<noteq> Inr () then (True, w7)
                                     else (case io_fs_unlink src_path w7 of
                                             (st, w8) \<Rightarrow> (st \<noteq> Inr (), w8)))))))
                | (_, w2) \<Rightarrow> (True, w2)))
      | (_, w1) \<Rightarrow> (True, w1))"

definition move_blob :: "bytes \<Rightarrow> bytes \<Rightarrow> 's fs_scheme \<Rightarrow> bool \<times> 's fs_scheme" where
  "move_blob src_path tgt_path w =
     (case make_dirs (slash_prefixes [] tgt_path) w of
        (failed, w1) \<Rightarrow>
          if failed then (True, w1)
          else case move_file src_path tgt_path w1 of
            (failed, w2) \<Rightarrow>
              if failed then (True, w2)
              else (case fs_touch w2 of (st, w3) \<Rightarrow> (st \<noteq> Inr (), w3)))"

text \<open>\<^verbatim>\<open>trim_blob_dir\<close>: the number of directories removed, \<open>None\<close> on a panic.\<close>

lemma dir_of_shorter: "dir_of p = Some d \<Longrightarrow> length d < length p"
proof -
  assume d: "dir_of p = Some d"
  let ?r = "dropWhile (\<lambda>c. c \<noteq> CHR ''/'') (rev p)"
  have "length ?r \<le> length p" by (metis length_dropWhile_le length_rev)
  moreover have "CHR ''/'' \<in> set (rev p)" "d = rev (tl ?r)"
    using d by (auto simp: dir_of_def split: if_splits)
  moreover have "?r \<noteq> []" using \<open>CHR ''/'' \<in> set (rev p)\<close> by (auto simp: dropWhile_eq_Nil_conv)
  ultimately show ?thesis by (cases ?r) auto
qed

function trim_loop :: "nat \<Rightarrow> bytes \<Rightarrow> 's fs_scheme \<Rightarrow> nat option \<times> 's fs_scheme" where
  "trim_loop count dir_path w =
     (case io_fs_rmdir dir_path w of
        (st, w1) \<Rightarrow>
          if st = Inl ENOTEMPTY then (Some count, w1)
          else if st \<noteq> Inr () \<and> st \<noteq> Inl ENOENT then (None, w1)
          else
            let count' = (if st = Inr () then count + 1 else count) in
            case dir_of dir_path of
              None \<Rightarrow> (Some count', w1)
            | Some d \<Rightarrow>
                (case io_fs_lstat d w1 of
                   (Inl e, w2) \<Rightarrow> (None, w2)
                 | (Inr Link, w2) \<Rightarrow> (Some count', w2)
                 | (Inr _, w2) \<Rightarrow> trim_loop count' d w2))"
  by pat_completeness auto
termination
  by (relation "measure (\<lambda>(count, d, w). length d)") (auto dest: dir_of_shorter)

declare trim_loop.simps [simp del]

definition trim_blob_dir :: "bytes \<Rightarrow> 's fs_scheme \<Rightarrow> nat option \<times> 's fs_scheme" where
  "trim_blob_dir dir_path w = trim_loop 0 dir_path w"

section \<open>Messages to the arborist\<close>

text \<open>
  \<^verbatim>\<open>R\<close> or \<^verbatim>\<open>M\<close>, then the reply fifo, the temporary path and the target path, each with its NUL;
  \<^verbatim>\<open>T\<close>, then the directory with its NUL, cut by \<^verbatim>\<open>snprintf\<close>.
\<close>

definition arbor_message :: "char \<Rightarrow> bytes \<Rightarrow> bytes \<Rightarrow> bytes \<Rightarrow> bytes option" where
  "arbor_message c reply_path tmp_path tgt_path =
     (let rlen = length reply_path + 1; tlen = length tmp_path + 1; nlen = length tgt_path + 1;
          len = 1 + rlen + tlen + nlen
      in if len > MSG_SIZE then None
         else Some (c # reply_path @ NUL # tmp_path @ NUL # tgt_path @ [NUL]))"

definition trim_message :: "bytes \<Rightarrow> bytes" where
  "trim_message dir_path = take (MSG_SIZE - 1) (CHR ''T'' # dir_path) @ [NUL]"

datatype arbor_request = Rename bytes bytes bytes | Move bytes bytes bytes | Trim bytes

definition arbor_parse :: "bytes \<Rightarrow> arbor_request" where
  "arbor_parse payload =
     (let c = payload ! 0 in
      if c = CHR ''T'' then Trim (cstr (tl payload))
      else
        let reply_path = cstr (tl payload);
            tmp_path = cstr (drop (length reply_path + 2) payload);
            tgt_path = cstr (drop (length reply_path + length tmp_path + 3) payload)
        in if c = CHR ''R'' then Rename reply_path tmp_path tgt_path
           else Move reply_path tmp_path tgt_path)"

text \<open>
  One request served.  A rename or a move opens the reply fifo, writes the payload to it and
  closes it; the result is the payload that the child can read, if any, and whether the arborist
  panics afterwards.
\<close>

definition arbor_reply ::
  "('s fs_scheme \<Rightarrow> bool \<times> 's fs_scheme) \<Rightarrow> 's fs_scheme \<Rightarrow> (bool option \<times> bool) \<times> 's fs_scheme" where
  "arbor_reply work w =
     (case fs_touch w of
        (Inl e, w1) \<Rightarrow> ((None, True), w1)
      | (Inr _, w1) \<Rightarrow>
          (case work w1 of (failed, w2) \<Rightarrow>
           (case fs_touch w2 of
              (Inl e, w3) \<Rightarrow> ((None, True), w3)
            | (Inr _, w3) \<Rightarrow>
                (case fs_touch w3 of (st, w4) \<Rightarrow> ((Some failed, failed \<or> st \<noteq> Inr ()), w4)))))"

definition arborist_serve ::
  "arbor_request \<Rightarrow> 's fs_scheme \<Rightarrow> (bool option \<times> bool) \<times> 's fs_scheme" where
  "arborist_serve req w =
     (case req of
        Trim d \<Rightarrow> (case trim_blob_dir d w of (c, w') \<Rightarrow> ((None, c = None), w'))
      | Rename reply src tgt \<Rightarrow> arbor_reply (rename_blob src tgt) w
      | Move reply src tgt \<Rightarrow> arbor_reply (move_blob src tgt) w)"

text \<open>
  The child's side, \<^verbatim>\<open>arbor_rename\<close> and \<^verbatim>\<open>arbor_move\<close>: make the fifo, send the message, open the
  fifo, read the reply, close and unlink.  The payload of the reply is not looked at.  Without a
  reply the child hangs in its \<^verbatim>\<open>open\<close> or \<^verbatim>\<open>read\<close>.
\<close>

datatype arbor_result = ArborDone | ArborPanic | ArborHang

definition arbor_send ::
  "char \<Rightarrow> bytes \<Rightarrow> bytes \<Rightarrow> bytes \<Rightarrow> 's fs_scheme \<Rightarrow> arbor_result \<times> 's fs_scheme" where
  "arbor_send c reply_path tmp_path tgt_path w =
     (case arbor_message c reply_path tmp_path tgt_path of
        None \<Rightarrow> (ArborPanic, w)
      | Some msg \<Rightarrow>
          (case fs_touch w of
             (Inl e, w1) \<Rightarrow> (ArborPanic, w1)
           | (Inr _, w1) \<Rightarrow>
               (case fs_touch w1 of
                  (Inl e, w2) \<Rightarrow> (ArborPanic, snd (fs_touch w2))
                | (Inr _, w2) \<Rightarrow>
                    (case fs_touch w2 of
                       (Inl e, w3) \<Rightarrow> (ArborPanic, snd (fs_touch w3))
                     | (Inr _, w3) \<Rightarrow>
                         (case arborist_serve (arbor_parse msg) w3 of
                            ((None, _), w4) \<Rightarrow> (ArborHang, w4)
                          | ((Some payload, _), w4) \<Rightarrow>
                              (case fs_touch w4 of (rd, w5) \<Rightarrow>
                                 (if rd = Inr () then ArborDone else ArborPanic,
                                  snd (fs_touch (snd (fs_touch w5))))))))))"

text \<open>\<^verbatim>\<open>run/arborist-%u.fifo\<close> of the child's process id.\<close>

definition arbor_fifo :: "nat \<Rightarrow> bytes" where
  "arbor_fifo pid = take 31 (''run/arborist-'' @ dec_nat pid @ ''.fifo'')"

definition arbor_rename :: "nat \<Rightarrow> bytes \<Rightarrow> bytes \<Rightarrow> 's fs_scheme \<Rightarrow> arbor_result \<times> 's fs_scheme" where
  "arbor_rename pid tmp_path tgt_path = arbor_send (CHR ''R'') (arbor_fifo pid) tmp_path tgt_path"

definition arbor_move :: "nat \<Rightarrow> bytes \<Rightarrow> bytes \<Rightarrow> 's fs_scheme \<Rightarrow> arbor_result \<times> 's fs_scheme" where
  "arbor_move pid tmp_path tgt_path = arbor_send (CHR ''M'') (arbor_fifo pid) tmp_path tgt_path"

definition arbor_trim :: "bytes \<Rightarrow> 's fs_scheme \<Rightarrow> arbor_result \<times> 's fs_scheme" where
  "arbor_trim dir_path w =
     (case fs_touch w of
        (Inl e, w1) \<Rightarrow> (ArborPanic, w1)
      | (Inr _, w1) \<Rightarrow> (ArborDone, snd (arborist_serve (arbor_parse (trim_message dir_path)) w1)))"

text \<open>
  The arborist decodes what the children encode.  A rename or move message that fits 255
  bytes is parsed back into its three paths, a longer one is refused by the sender, and a trim
  message into its directory when that is at most 253 characters.
\<close>

theorem arbor_message_roundtrip:
  assumes "NUL \<notin> set reply" and "NUL \<notin> set tmp" and "NUL \<notin> set tgt"
  shows "map_option arbor_parse (arbor_message (CHR ''R'') reply tmp tgt) =
      (if length reply + length tmp + length tgt \<le> 251 then Some (Rename reply tmp tgt) else None) \<and>
    map_option arbor_parse (arbor_message (CHR ''M'') reply tmp tgt) =
      (if length reply + length tmp + length tgt \<le> 251 then Some (Move reply tmp tgt) else None) \<and>
    arbor_parse (trim_message tgt) = Trim (take 253 tgt)"
proof -
  have "NUL \<notin> set (take 253 tgt)" using assms(3) by (meson in_set_takeD)
  moreover have "drop (length reply + length tmp + 3) (c # reply @ NUL # tmp @ NUL # t) = t" for c t
    by (induction reply) (simp_all add: numeral_3_eq_3)
  ultimately show ?thesis
    using assms
    by (auto simp: arbor_message_def arbor_parse_def Let_def MSG_SIZE_def trim_message_def)
qed

theorem arbor_message_roundtrip_witness:
  "map_option arbor_parse (arbor_message (CHR ''R'') ''run/arborist-7.fifo'' ''tmp/put-7'' ''data/x'') =
     Some (Rename ''run/arborist-7.fifo'' ''tmp/put-7'' ''data/x'')"
  using arbor_message_roundtrip [of "''run/arborist-7.fifo''" "''tmp/put-7''" "''data/x''"] by simp

section \<open>What the arborist keeps\<close>

lemma fs_call_nodes:
  assumes "fs_call call w = (r, w')"
  obtains "fs_nodes w' = fs_nodes w" "\<exists>e. r = Inl e"
  | fs where "call (w\<lparr>fs_faults := fs\<rparr>) = (r, w')"
  using assms by (auto simp: fs_call_def split: prod.splits option.splits)

lemma fs_touch_nodes: "fs_touch w = (r, w') \<Longrightarrow> fs_nodes w' = fs_nodes w"
  by (auto simp: fs_touch_def fs_call_def split: prod.splits option.splits)

text \<open>\<open>w'\<close> has the files of \<open>w\<close>, and only more directories.\<close>

definition only_dirs_added :: "'s fs_scheme \<Rightarrow> 's fs_scheme \<Rightarrow> bool" where
  "only_dirs_added w w' \<longleftrightarrow>
     (\<forall>p. map_of (fs_nodes w') p = map_of (fs_nodes w) p \<or>
          map_of (fs_nodes w) p = None \<and> map_of (fs_nodes w') p = Some Dir)"

lemma only_dirs_refl [intro]: "only_dirs_added w w"
  by (simp add: only_dirs_added_def)

lemma only_dirs_trans: "only_dirs_added w w1 \<Longrightarrow> only_dirs_added w1 w2 \<Longrightarrow> only_dirs_added w w2"
  unfolding only_dirs_added_def by (metis option.distinct(1))

lemma mkdir_only_dirs: "io_fs_mkdir p w = (r, w') \<Longrightarrow> only_dirs_added w w'"
  by (auto simp: io_fs_mkdir_def fs_call_def only_dirs_added_def
      split: prod.splits option.splits if_splits)

lemma make_dirs_only_dirs: "make_dirs ds w = (failed, w') \<Longrightarrow> only_dirs_added w w'"
proof (induction ds w rule: make_dirs.induct)
  case (2 d ds w)
  obtain f w1 where m: "arbor_make_path d w = (f, w1)" by fastforce
  then have "only_dirs_added w w1"
    by (auto simp: arbor_make_path_def dest: mkdir_only_dirs split: prod.splits sum.splits)
  with 2 m show ?case by (auto split: if_splits intro: only_dirs_trans)
qed auto

lemma rename_nodes:
  assumes "io_fs_rename p q w = (r, w')"
  shows "(\<exists>e. r = Inl e) \<and> fs_nodes w' = fs_nodes w \<or>
    (r = Inr () \<and> (\<exists>n. map_of (fs_nodes w) p = Some n \<and>
       (\<forall>x. map_of (fs_nodes w') x =
          (if x = q then Some n else if x = p then None else map_of (fs_nodes w) x))))"
  using assms
  by (auto simp: io_fs_rename_def fs_call_def split: prod.splits option.splits if_splits)

text \<open>\<open>files_within P w w'\<close>: the files of \<open>w'\<close> at the paths of \<open>P\<close> are files of \<open>w\<close>.\<close>

definition files_within :: "(bytes \<Rightarrow> bool) \<Rightarrow> 's fs_scheme \<Rightarrow> 't fs_scheme \<Rightarrow> bool" where
  "files_within P w w' \<longleftrightarrow>
     (\<forall>p bs. P p \<longrightarrow> map_of (fs_nodes w') p = Some (File bs) \<longrightarrow> map_of (fs_nodes w) p = Some (File bs))"

lemma files_within_same: "fs_nodes w' = fs_nodes w \<Longrightarrow> files_within P w w'"
  by (simp add: files_within_def)

lemma files_within_trans: "files_within P w w1 \<Longrightarrow> files_within P w1 w2 \<Longrightarrow> files_within P w w2"
  by (auto simp: files_within_def)

lemma files_within_dirs: "only_dirs_added w w' \<Longrightarrow> files_within P w w'"
  unfolding files_within_def only_dirs_added_def
  by (metis node.distinct(1) option.distinct(1) option.inject)

lemma rename_blob_files:
  assumes "rename_blob src tgt w = (failed, w')"
  shows "files_within (\<lambda>p. p \<noteq> tgt) w w'"
    and "map_of (fs_nodes w') tgt = Some (File bs) \<Longrightarrow>
      map_of (fs_nodes w) tgt = Some (File bs) \<or> map_of (fs_nodes w) src = Some (File bs)"
proof -
  obtain f w1 where m: "make_dirs (slash_prefixes [] tgt) w = (f, w1)" by fastforce
  note d = files_within_dirs [OF make_dirs_only_dirs [OF m]]
  obtain r w2 where r: "io_fs_rename src tgt w1 = (r, w2)" by fastforce
  obtain st w3 where t: "fs_touch w2 = (st, w3)" by fastforce
  have w': "w' = w1 \<or> fs_nodes w' = fs_nodes w2"
    using assms m r t fs_touch_nodes [OF t]
    by (auto simp: rename_blob_def split: if_splits sum.splits)
  have 2: "map_of (fs_nodes w2) p = Some (File bs) \<Longrightarrow>
      map_of (fs_nodes w1) p = Some (File bs) \<or> p = tgt \<and> map_of (fs_nodes w1) src = Some (File bs)"
    for p bs using rename_nodes [OF r] by (cases "p = tgt"; cases "p = src") auto
  have 1: "map_of (fs_nodes w1) p = Some (File bs) \<Longrightarrow> map_of (fs_nodes w) p = Some (File bs)" for p bs
    using d [of "\<lambda>_. True"] by (simp add: files_within_def)
  have 3: "map_of (fs_nodes w') p = Some (File bs) \<Longrightarrow>
      map_of (fs_nodes w) p = Some (File bs) \<or> p = tgt \<and> map_of (fs_nodes w) src = Some (File bs)"
    for p bs using w' 1 2 by metis
  show "files_within (\<lambda>p. p \<noteq> tgt) w w'" using 3 by (auto simp: files_within_def)
  show "map_of (fs_nodes w') tgt = Some (File bs) \<Longrightarrow>
      map_of (fs_nodes w) tgt = Some (File bs) \<or> map_of (fs_nodes w) src = Some (File bs)"
    using 3 by blast
qed

text \<open>
  C34: renaming a blob into place.  When \<^verbatim>\<open>rename_blob\<close> replies success, the target is the file
  that was at the source, the source is gone, and nothing else changed but directories that were
  added; when it replies failure, every file but the source and the target is untouched, and the
  blob is still whole at one of the two.
\<close>

theorem rename_blob_correct:
  assumes "rename_blob src tgt w = (failed, w')" and "map_of (fs_nodes w) src = Some (File blob)"
    and "src \<noteq> tgt"
  shows "(if failed
      then map_of (fs_nodes w') src = Some (File blob) \<or> map_of (fs_nodes w') tgt = Some (File blob)
      else map_of (fs_nodes w') tgt = Some (File blob) \<and> map_of (fs_nodes w') src = None) \<and>
    (\<forall>p bs. p \<noteq> src \<and> p \<noteq> tgt \<longrightarrow>
       (map_of (fs_nodes w') p = Some (File bs) \<longleftrightarrow> map_of (fs_nodes w) p = Some (File bs)))"
proof -
  obtain f w1 where m: "make_dirs (slash_prefixes [] tgt) w = (f, w1)" by fastforce
  from make_dirs_only_dirs [OF m] have d: "only_dirs_added w w1" .
  have src1: "map_of (fs_nodes w1) src = Some (File blob)"
    using d assms(2) unfolding only_dirs_added_def by (metis option.distinct(1))
  have files1: "map_of (fs_nodes w1) p = Some (File bs) \<longleftrightarrow> map_of (fs_nodes w) p = Some (File bs)"
    for p bs
    using d unfolding only_dirs_added_def by (metis node.distinct(1) option.distinct(1) option.inject)
  show ?thesis
  proof (cases f)
    case True
    with assms(1) m src1 files1 show ?thesis by (auto simp: rename_blob_def)
  next
    case False
    obtain r w2 where r: "io_fs_rename src tgt w1 = (r, w2)" by fastforce
    show ?thesis
    proof (cases r)
      case (Inl e)
      with assms(1) m False r rename_nodes [OF r] src1 files1 show ?thesis
        by (auto simp: rename_blob_def)
    next
      case (Inr u)
      have n: "\<forall>x. map_of (fs_nodes w2) x =
          (if x = tgt then Some (File blob) else if x = src then None else map_of (fs_nodes w1) x)"
        using rename_nodes [OF r] Inr src1 by auto
      obtain st w3 where t: "fs_touch w2 = (st, w3)" by fastforce
      from fs_touch_nodes [OF t] n have "\<forall>x. map_of (fs_nodes w3) x =
          (if x = tgt then Some (File blob) else if x = src then None else map_of (fs_nodes w1) x)"
        by simp
      with assms(1,3) m False r Inr t files1 show ?thesis by (auto simp: rename_blob_def)
    qed
  qed
qed

theorem rename_blob_correct_witness:
  "rename_blob ''tmp/a'' ''d/x'' \<lparr>fs_nodes = [(''tmp'', Dir), (''tmp/a'', File ''blob'')],
      fs_faults = [Some EINTR], fs_dev = (\<lambda>_. 0)\<rparr> =
    (False, \<lparr>fs_nodes = [(''d/x'', File ''blob''), (''d'', Dir), (''tmp'', Dir)], fs_faults = [],
      fs_dev = (\<lambda>_. 0)\<rparr>) \<and>
   map_of [(''d/x'', File ''blob''), (''d'', Dir), (''tmp'', Dir)] ''d/x'' = Some (File ''blob'')"
proof -
  let ?w = "\<lparr>fs_nodes = [(''tmp'', Dir), (''tmp/a'', File ''blob'')],
      fs_faults = [Some EINTR], fs_dev = (\<lambda>_. 0)\<rparr>"
  let ?w' = "\<lparr>fs_nodes = [(''d/x'', File ''blob''), (''d'', Dir), (''tmp'', Dir)], fs_faults = [],
      fs_dev = (\<lambda>_. 0)\<rparr>"
  have r: "rename_blob ''tmp/a'' ''d/x'' ?w = (False, ?w')"
    by (simp add: rename_blob_def arbor_make_path_def io_fs_mkdir_def io_fs_rename_def fs_call_def
        fs_touch_def parent_there_def dir_of_def set_node_def)
  with rename_blob_correct [OF r] show ?thesis by simp
qed

text \<open>Every node stands in a directory (or behind a link to one).\<close>

definition tree_ok :: "'s fs_scheme \<Rightarrow> bool" where
  "tree_ok w \<longleftrightarrow> (\<forall>p. map_of (fs_nodes w) p \<noteq> None \<longrightarrow> parent_there p (fs_nodes w))"

text \<open>\<open>w'\<close> is \<open>w\<close> without some directories.\<close>

definition only_dirs_removed :: "'s fs_scheme \<Rightarrow> 's fs_scheme \<Rightarrow> bool" where
  "only_dirs_removed w w' \<longleftrightarrow>
     (\<forall>p. map_of (fs_nodes w') p = map_of (fs_nodes w) p \<or>
          map_of (fs_nodes w) p = Some Dir \<and> map_of (fs_nodes w') p = None)"

lemma only_dirs_removed_trans:
  "only_dirs_removed w w1 \<Longrightarrow> only_dirs_removed w1 w2 \<Longrightarrow> only_dirs_removed w w2"
  unfolding only_dirs_removed_def by (metis option.distinct(1))

lemma dir_empty_children: "dir_empty d ns \<Longrightarrow> map_of ns p = Some n \<Longrightarrow> dir_of p \<noteq> Some d"
  by (auto simp: dir_empty_def list_ex_iff dest: map_of_SomeD)

lemma rmdir_nodes:
  assumes "io_fs_rmdir d w = (r, w')"
  shows "fs_nodes w' = fs_nodes w \<and> r \<noteq> Inr () \<or>
    r = Inr () \<and> map_of (fs_nodes w) d = Some Dir \<and> dir_empty d (fs_nodes w) \<and>
    fs_nodes w' = del_node d (fs_nodes w)"
  using assms
  by (auto simp: io_fs_rmdir_def fs_call_def split: prod.splits option.splits if_splits)

lemma rmdir_keeps:
  assumes "io_fs_rmdir d w = (r, w')"
  shows "only_dirs_removed w w' \<and> (tree_ok w \<longrightarrow> tree_ok w')"
proof (cases "fs_nodes w' = fs_nodes w")
  case True
  then show ?thesis by (simp add: only_dirs_removed_def tree_ok_def)
next
  case False
  with rmdir_nodes [OF assms] have d: "map_of (fs_nodes w) d = Some Dir" "dir_empty d (fs_nodes w)"
    "fs_nodes w' = del_node d (fs_nodes w)" by auto
  have "parent_there p (fs_nodes w')" if "tree_ok w" "map_of (fs_nodes w') p \<noteq> None" for p
  proof -
    from that(2) d(3) obtain n where "map_of (fs_nodes w) p = Some n" by (auto split: if_splits)
    with that(1) dir_empty_children [OF d(2)] d(3) show ?thesis
      unfolding tree_ok_def parent_there_def by (fastforce split: option.splits)
  qed
  with d show ?thesis by (auto simp: only_dirs_removed_def tree_ok_def)
qed

lemma lstat_nodes: "io_fs_lstat p w = (r, w') \<Longrightarrow> fs_nodes w' = fs_nodes w"
  by (auto simp: io_fs_lstat_def fs_call_def split: prod.splits option.splits)

lemma trim_loop_keeps:
  "trim_loop count d w = (r, w') \<Longrightarrow>
   only_dirs_removed w w' \<and> (tree_ok w \<longrightarrow> tree_ok w')"
proof (induction "length d" arbitrary: count d w rule: less_induct)
  case less
  obtain st w1 where rm: "io_fs_rmdir d w = (st, w1)" by fastforce
  note k = rmdir_keeps [OF rm]
  consider "w' = w1"
    | c p st2 w2 where "dir_of d = Some p" "io_fs_lstat p w1 = (st2, w2)"
      "w' = w2 \<or> trim_loop c p w2 = (r, w')"
    using less.prems rm
    by (auto simp: trim_loop.simps [of count d w] Let_def
        split: if_splits option.splits prod.splits sum.splits node.splits)
  then show ?case
  proof cases
    case 1
    with k show ?thesis by simp
  next
    case (2 c p st2 w2)
    have n: "fs_nodes w2 = fs_nodes w1" using lstat_nodes [OF 2(2)] .
    then have k2: "only_dirs_removed w w2 \<and> (tree_ok w \<longrightarrow> tree_ok w2)"
      using k by (simp add: only_dirs_removed_def tree_ok_def)
    from 2(3) show ?thesis
    proof
      assume "trim_loop c p w2 = (r, w')"
      from less.hyps [OF dir_of_shorter [OF 2(1)] this] k2 show ?thesis
        by (blast intro: only_dirs_removed_trans)
    qed (use k2 in simp)
  qed
qed


lemma trim_blob_dir_files: "files_within P w (snd (trim_blob_dir d w))"
proof -
  obtain r w' where t: "trim_loop 0 d w = (r, w')" by fastforce
  then have "map_of (fs_nodes w') p = map_of (fs_nodes w) p \<or>
      map_of (fs_nodes w) p = Some Dir \<and> map_of (fs_nodes w') p = None" for p
    using trim_loop_keeps by (fastforce simp: only_dirs_removed_def)
  then have "files_within P w w'"
    unfolding files_within_def by (metis option.distinct(1))
  with t show ?thesis by (simp add: trim_blob_dir_def)
qed

lemma arbor_parse_message:
  assumes "NUL \<notin> set reply" and "NUL \<notin> set tmp" and "NUL \<notin> set tgt"
    and "arbor_message c reply tmp tgt = Some msg" and "c \<noteq> CHR ''T''"
  shows "arbor_parse msg = (if c = CHR ''R'' then Rename reply tmp tgt else Move reply tmp tgt)"
proof -
  have "drop (length reply + length tmp + 3) (c # reply @ NUL # tmp @ NUL # t) = t" for c t
    by (induction reply) (simp_all add: numeral_3_eq_3)
  then show ?thesis
    using assms by (auto simp: arbor_message_def arbor_parse_def Let_def split: if_splits)
qed

lemma fifo_no_nul: "NUL \<notin> set (arbor_fifo pid)"
proof
  assume "NUL \<in> set (arbor_fifo pid)"
  then have "NUL \<in> set (''run/arborist-'' @ dec_nat pid @ ''.fifo'')"
    unfolding arbor_fifo_def by (rule in_set_takeD)
  then have "c_isdigit NUL" using dec_nat_isdigit by auto
  then show False by (simp add: c_isdigit_def)
qed

section \<open>What a call can change\<close>

text \<open>\<open>w'\<close> differs from \<open>w\<close> in nodes and pending faults only.\<close>

definition fs_only :: "'s fs_scheme \<Rightarrow> 's fs_scheme \<Rightarrow> bool" where
  "fs_only w w' \<longleftrightarrow> w' = w\<lparr>fs_faults := fs_faults w', fs_nodes := fs_nodes w'\<rparr>"

lemma fs_only_refl [simp]: "fs_only w w"
  by (simp add: fs_only_def)

lemma fs_only_trans:
  assumes "fs_only w w1" and "fs_only w1 w2"
  shows "fs_only w w2"
proof -
  have "w2 = w\<lparr>fs_faults := fs_faults w1, fs_nodes := fs_nodes w1\<rparr>\<lparr>fs_faults := fs_faults w2, fs_nodes := fs_nodes w2\<rparr>"
    using assms unfolding fs_only_def by metis
  then show ?thesis by (simp add: fs_only_def)
qed

lemma fs_only_upd: "fs_only w (w\<lparr>fs_nodes := n\<rparr>)" "fs_only w (w\<lparr>fs_faults := f\<rparr>)"
  by (simp_all add: fs_only_def)

lemma fs_only_dev: "fs_only w w' \<Longrightarrow> fs_dev w' = fs_dev w"
  unfolding fs_only_def by (metis fs.select_convs(3) fs.update_convs(1,2) fs.surjective)

lemma fs_only_call:
  assumes "fs_call call w = (r, w')" and "\<And>v. fs_only v (snd (call v))"
  shows "fs_only w w'"
proof -
  obtain e f where n: "next_fault (fs_faults w) = (e, f)" by fastforce
  show ?thesis
  proof (cases e)
    case None
    then have "w' = snd (call (w\<lparr>fs_faults := f\<rparr>))" using assms(1) n by (simp add: fs_call_def)
    then show ?thesis using fs_only_trans [OF fs_only_upd(2) assms(2)] by metis
  next
    case (Some x)
    then show ?thesis using assms(1) n fs_only_upd by (auto simp: fs_call_def)
  qed
qed

lemma fs_only_touch: "fs_touch w = (r, w') \<Longrightarrow> fs_only w w'"
  unfolding fs_touch_def by (erule fs_only_call) simp

lemma fs_only_mkdir: "io_fs_mkdir p w = (r, w') \<Longrightarrow> fs_only w w'"
  unfolding io_fs_mkdir_def by (erule fs_only_call) (simp add: fs_only_upd)

lemma fs_only_rename: "io_fs_rename p q w = (r, w') \<Longrightarrow> fs_only w w'"
  unfolding io_fs_rename_def by (erule fs_only_call) (simp add: fs_only_upd split: option.split)

lemma fs_only_unlink: "io_fs_unlink p w = (r, w') \<Longrightarrow> fs_only w w'"
  unfolding io_fs_unlink_def
  by (auto split: prod.splits sum.splits if_splits elim!: fs_only_call
      simp: fs_only_upd split: option.split node.split)

lemma fs_only_lstat: "io_fs_lstat p w = (r, w') \<Longrightarrow> fs_only w w'"
  unfolding io_fs_lstat_def by (erule fs_only_call) (simp split: option.split)

lemma fs_only_open: "io_fs_open p w = (r, w') \<Longrightarrow> fs_only w w'"
  unfolding io_fs_open_def by (erule fs_only_call) (simp split: option.split node.split)

lemma fs_only_create: "io_fs_create p w = (r, w') \<Longrightarrow> fs_only w w'"
  unfolding io_fs_create_def by (erule fs_only_call) (simp add: fs_only_upd)

lemma fs_only_append: "io_fs_append p bs w = (r, w') \<Longrightarrow> fs_only w w'"
  unfolding io_fs_append_def by (erule fs_only_call) (simp add: fs_only_upd split: option.split node.split)

lemma fs_only_make_dirs: "make_dirs ds w = (failed, w') \<Longrightarrow> fs_only w w'"
proof (induction ds w rule: make_dirs.induct)
  case (2 d ds w)
  obtain f w1 where m: "arbor_make_path d w = (f, w1)" by fastforce
  then have "fs_only w w1"
    by (auto simp: arbor_make_path_def dest: fs_only_mkdir split: prod.splits sum.splits)
  with 2 m show ?case by (auto split: if_splits intro: fs_only_trans)
qed auto

section \<open>Moving on one device\<close>

text \<open>
  \<open>w'\<close> comes from \<open>w\<close> by placing, at most, the file \<open>src\<close> at \<open>tgt\<close>.
\<close>

definition placed :: "bytes \<Rightarrow> bytes \<Rightarrow> 's fs_scheme \<Rightarrow> 't fs_scheme \<Rightarrow> bool" where
  "placed src tgt w w' \<longleftrightarrow> files_within (\<lambda>p. p \<noteq> tgt) w w' \<and>
     (\<forall>bs. map_of (fs_nodes w') tgt = Some (File bs) \<longrightarrow>
        map_of (fs_nodes w) tgt = Some (File bs) \<or> map_of (fs_nodes w) src = Some (File bs))"

lemma placed_cong:
  "placed src tgt w w' \<Longrightarrow> fs_nodes v = fs_nodes w \<Longrightarrow> fs_nodes v' = fs_nodes w' \<Longrightarrow> placed src tgt v v'"
  by (simp add: placed_def files_within_def)

lemma placed_same: "fs_nodes w' = fs_nodes w \<Longrightarrow> placed src tgt w w'"
  by (simp add: placed_def files_within_def)

lemma placed_rename: "io_fs_rename src tgt w = (r, w') \<Longrightarrow> placed src tgt w w'"
  by (drule rename_nodes) (auto simp: placed_def files_within_def split: if_splits)

lemma placed_after_dirs:
  assumes "only_dirs_added w w1" and "placed src tgt w1 w2"
  shows "placed src tgt w w2"
proof -
  have 1: "map_of (fs_nodes w1) p = Some (File bs) \<Longrightarrow> map_of (fs_nodes w) p = Some (File bs)" for p bs
    using files_within_dirs [OF assms(1), of "\<lambda>_. True"] by (simp add: files_within_def)
  show ?thesis using assms(2) 1 unfolding placed_def files_within_def by blast
qed

definition one_device :: "'s fs_scheme \<Rightarrow> bool" where
  "one_device w \<longleftrightarrow> (\<forall>p q. fs_dev w p = fs_dev w q)"

lemma one_device_only: "fs_only w w' \<Longrightarrow> one_device w \<Longrightarrow> one_device w'"
  by (simp add: one_device_def fs_only_dev)

lemma placed_move_file:
  assumes "move_file src tgt w = (failed, w')" and "one_device w"
  shows "placed src tgt w w'"
proof -
  obtain x w1 where 1: "io_fs_lstat src w = (x, w1)" by fastforce
  note n1 = lstat_nodes [OF 1]
  show ?thesis
  proof (cases "\<exists>bs. x = Inr (File bs)")
    case False
    then have "w' = w1"
      using assms(1) 1 by (cases x) (auto simp: move_file_def split: node.splits)
    with n1 show ?thesis by (simp add: placed_same)
  next
    case True
    then obtain bs where x: "x = Inr (File bs)" by blast
    show ?thesis
    proof (cases "dir_of (take (MSG_SIZE - 1) tgt)")
      case None
      with assms(1) 1 x n1 show ?thesis by (simp add: move_file_def placed_same)
    next
      case (Some d)
      obtain y w2 where 2: "io_fs_lstat d w1 = (y, w2)" by fastforce
      have n2: "fs_nodes w2 = fs_nodes w" using lstat_nodes [OF 2] n1 by simp
      have "one_device w2"
        using one_device_only [OF fs_only_lstat [OF 2] one_device_only [OF fs_only_lstat [OF 1] assms(2)]] .
      then have dev: "fs_dev w2 src = fs_dev w2 d" by (simp add: one_device_def)
      obtain st w3 where 3: "io_fs_rename src tgt w2 = (st, w3)" by fastforce
      have "w' = w2 \<or> w' = w3"
        using assms(1) 1 x Some 2 3 dev by (auto simp: move_file_def split: sum.splits node.splits)
      moreover have "placed src tgt w w3" by (rule placed_cong [OF placed_rename [OF 3]]) (simp_all add: n2)
      ultimately show ?thesis using n2 by (auto simp: placed_same)
    qed
  qed
qed

lemma placed_move_blob:
  assumes "move_blob src tgt w = (failed, w')" and "one_device w"
  shows "placed src tgt w w'"
proof -
  obtain f w1 where m: "make_dirs (slash_prefixes [] tgt) w = (f, w1)" by fastforce
  note d = make_dirs_only_dirs [OF m]
  have dev: "one_device w1" using one_device_only [OF fs_only_make_dirs [OF m] assms(2)] .
  obtain g w2 where 2: "move_file src tgt w1 = (g, w2)" by fastforce
  obtain st w3 where 3: "fs_touch w2 = (st, w3)" by fastforce
  have "w' = w1 \<or> fs_nodes w' = fs_nodes w2"
    using assms(1) m 2 3 fs_touch_nodes [OF 3] by (auto simp: move_blob_def split: if_splits)
  moreover have "placed src tgt w w1" by (rule placed_after_dirs [OF d placed_same [OF refl]])
  moreover have "placed src tgt w w2" by (rule placed_after_dirs [OF d placed_move_file [OF 2 dev]])
  ultimately show ?thesis by (auto intro: placed_cong)
qed

lemma arbor_reply_placed:
  assumes "arbor_reply work w = (res, w')"
    and "\<And>v f v'. work v = (f, v') \<Longrightarrow> fs_only w v \<Longrightarrow> fs_nodes v = fs_nodes w \<Longrightarrow> placed src tgt v v'"
  shows "placed src tgt w w'"
proof -
  obtain st w1 where 1: "fs_touch w = (st, w1)" by fastforce
  obtain f w2 where 2: "work w1 = (f, w2)" by fastforce
  obtain st3 w3 where 3: "fs_touch w2 = (st3, w3)" by fastforce
  obtain st4 w4 where 4: "fs_touch w3 = (st4, w4)" by fastforce
  note n = fs_touch_nodes [OF 1] fs_touch_nodes [OF 3] fs_touch_nodes [OF 4]
  have "w' = w1 \<or> w' = w3 \<or> w' = w4"
    using assms(1) 1 2 3 4 by (auto simp: arbor_reply_def split: sum.splits)
  moreover have "placed src tgt w1 w2" using assms(2) [OF 2 fs_only_touch [OF 1]] n by simp
  ultimately show ?thesis using n placed_same by (auto intro: placed_cong)
qed

text \<open>A rename or a move asked for by a child.\<close>

lemma arbor_send_only:
  fixes w w' :: "'a fs_scheme"
  assumes "arbor_send c reply src tgt w = (res, w')"
  shows "fs_nodes w' = fs_nodes w \<or>
    (\<exists>msg ans. \<exists>w3 w4 :: 'a fs_scheme. arbor_message c reply src tgt = Some msg \<and>
       fs_nodes w3 = fs_nodes w \<and> fs_only w w3 \<and>
       arborist_serve (arbor_parse msg) w3 = (ans, w4) \<and> fs_nodes w' = fs_nodes w4)"
proof (cases "arbor_message c reply src tgt")
  case (Some msg)
  obtain s1 w1 where 1: "fs_touch w = (s1, w1)" by fastforce
  obtain s2 w2 where 2: "fs_touch w1 = (s2, w2)" by fastforce
  obtain s3 w3 where 3: "fs_touch w2 = (s3, w3)" by fastforce
  obtain ans1 ans2 w4 where 4: "arborist_serve (arbor_parse msg) w3 = ((ans1, ans2), w4)"
    by (metis prod.exhaust)
  obtain s5 w5 where 5: "fs_touch w4 = (s5, w5)" by fastforce
  have n: "fs_nodes (snd (fs_touch v)) = fs_nodes v" for v :: "'a fs_scheme"
    using fs_touch_nodes by (metis prod.collapse)
  have o: "fs_only w w3"
    using fs_only_trans [OF fs_only_trans [OF fs_only_touch [OF 1] fs_only_touch [OF 2]] fs_only_touch [OF 3]] .
  have "fs_nodes w3 = fs_nodes w" using n [of w] n [of w1] n [of w2] 1 2 3 by simp
  moreover have "fs_nodes w' = fs_nodes w \<or> fs_nodes w' = fs_nodes w4"
    using assms Some 1 2 3 4 5 n [of w] n [of w1] n [of w2] n [of w3] n [of w4] n [of w5]
      n [of "snd (fs_touch w5)"]
    by (auto simp: arbor_send_def split: sum.splits option.splits)
  ultimately show ?thesis using Some 4 o by blast
qed (use assms in \<open>simp add: arbor_send_def\<close>)

lemma placed_arbor_send:
  fixes w w' :: "'a fs_scheme"
  assumes "arbor_send c (arbor_fifo pid) src tgt w = (res, w')" and "NUL \<notin> set src"
    and "NUL \<notin> set tgt" and "c \<noteq> CHR ''T''"
    and "\<And>v f v'. (if c = CHR ''R'' then rename_blob src tgt v else move_blob src tgt v) = (f, v') \<Longrightarrow>
      fs_only w v \<Longrightarrow> placed src tgt v v'"
  shows "placed src tgt w w'"
proof -
  from arbor_send_only [OF assms(1)]
  consider "fs_nodes w' = fs_nodes w"
    | msg ans and w3 w4 :: "'a fs_scheme" where "arbor_message c (arbor_fifo pid) src tgt = Some msg"
        "fs_nodes w3 = fs_nodes w" "fs_only w w3" "arborist_serve (arbor_parse msg) w3 = (ans, w4)"
        "fs_nodes w' = fs_nodes w4" by blast
  then show ?thesis
  proof cases
    case 2
    define work where "work = (\<lambda>v :: 'a fs_scheme. if c = CHR ''R'' then rename_blob src tgt v else move_blob src tgt v)"
    have serve: "arbor_reply work w3 = (ans, w4)"
      using 2(4) arbor_parse_message [OF fifo_no_nul assms(2,3) 2(1) assms(4)]
      by (auto simp: arborist_serve_def work_def split: if_splits)
    have "placed src tgt w3 w4"
      by (rule arbor_reply_placed [OF serve])
        (use assms(5) fs_only_trans [OF 2(3)] in \<open>auto simp: work_def\<close>)
    with 2(2,5) show ?thesis by (auto intro: placed_cong)
  qed (simp add: placed_same)
qed

lemma placed_rename_blob: "rename_blob src tgt w = (f, w') \<Longrightarrow> placed src tgt w w'"
  unfolding placed_def using rename_blob_files [of src tgt w f w'] by blast

lemma placed_arbor_rename:
  assumes "arbor_rename pid src tgt w = (res, w')" and "NUL \<notin> set src" and "NUL \<notin> set tgt"
  shows "placed src tgt w w'"
  by (rule placed_arbor_send [OF assms(1) [unfolded arbor_rename_def] assms(2,3)])
    (simp_all add: placed_rename_blob)

lemma placed_arbor_move:
  assumes "arbor_move pid src tgt w = (res, w')" and "NUL \<notin> set src" and "NUL \<notin> set tgt"
    and "one_device w"
  shows "placed src tgt w w'"
  by (rule placed_arbor_send [OF assms(1) [unfolded arbor_move_def] assms(2,3)])
    (simp_all add: placed_move_blob one_device_only [OF _ assms(4)])

end
