(* ===== verification/Fs_Frame.thy ===== *)
theory Fs_Frame
  imports Fs_World
begin

text \<open>
  The requests to the arborist change nodes and pending faults of the file system and nothing
  else of a state that extends it.
\<close>

lemma fs_only_rmdir: "io_fs_rmdir d w = (r, w') \<Longrightarrow> fs_only w w'"
  unfolding io_fs_rmdir_def by (erule fs_only_call) (simp add: fs_only_upd)

lemma fs_only_trunc: "io_fs_trunc p w = (r, w') \<Longrightarrow> fs_only w w'"
  unfolding io_fs_trunc_def by (erule fs_only_call) (simp add: fs_only_upd)

lemma fs_only_snd_touch: "fs_only w (snd (fs_touch w))"
  using fs_only_touch by (metis prod.collapse)

lemmas fs_only_calls =
  fs_only_touch fs_only_mkdir fs_only_rename fs_only_unlink fs_only_lstat fs_only_open fs_only_create
  fs_only_append fs_only_make_dirs fs_only_rmdir fs_only_trunc

lemma fs_only_rename_blob: "rename_blob src tgt w = (f, w') \<Longrightarrow> fs_only w w'"
  unfolding rename_blob_def
  by (auto split: prod.splits sum.splits if_splits dest!: fs_only_calls intro: fs_only_trans)

lemma fs_only_copy: "copy_pieces tgt src w = (f, w') \<Longrightarrow> fs_only w w'"
proof (induction tgt src w rule: copy_pieces.induct)
  case (1 tgt src w)
  obtain x w1 where t: "fs_touch w = (x, w1)" by fastforce
  obtain y w2 where a: "io_fs_append tgt (take MSG_SIZE src) w1 = (y, w2)" by fastforce
  note o = fs_only_touch [OF t] fs_only_trans [OF fs_only_touch [OF t] fs_only_append [OF a]]
  from "1.prems" t a consider "w' = w1" | "w' = w2"
    | "x = Inr ()" "src \<noteq> []" "y = Inr ()" "copy_pieces tgt (drop MSG_SIZE src) w2 = (f, w')"
    by (subst (asm) copy_pieces.simps [of tgt src w]) (auto split: sum.splits if_splits)
  then show ?case
    by cases (use o "1.IH" [OF t [symmetric] _ _ a [symmetric]] in \<open>auto intro: fs_only_trans\<close>)
qed

lemma fs_only_move_copy:
  assumes "copy_pieces tgt bs w = (failed, w5)" and "fs_touch w5 = (c1, w6)" and "fs_touch w6 = (c2, w7)"
    and "w' = w7 \<or> io_fs_unlink src w7 = (st, w')"
  shows "fs_only w w'"
proof -
  have "fs_only w w7"
    using fs_only_trans [OF fs_only_trans [OF fs_only_copy [OF assms(1)] fs_only_touch [OF assms(2)]]
        fs_only_touch [OF assms(3)]] .
  with assms(4) show ?thesis by (auto dest: fs_only_unlink intro: fs_only_trans)
qed

lemma fs_only_move_file:
  assumes "move_file src tgt w = (f, w')"
  shows "fs_only w w'"
proof -
  obtain x w1 where 1: "io_fs_lstat src w = (x, w1)" by fastforce
  obtain d where d: "d = the (dir_of (take (MSG_SIZE - 1) tgt))" by simp
  obtain y w2 where 2: "io_fs_lstat d w1 = (y, w2)" by fastforce
  obtain z w3 where 3: "io_fs_rename src tgt w2 = (z, w3)" by fastforce
  obtain z' w3' where op: "io_fs_open src w2 = (z', w3')" by fastforce
  obtain u w4 where 4: "io_fs_trunc tgt w3' = (u, w4)" by fastforce
  obtain bs where bs: "bs = (case z' of Inl e \<Rightarrow> [] | Inr bs \<Rightarrow> bs)" by simp
  obtain failed w5 where 5: "copy_pieces tgt bs w4 = (failed, w5)" by fastforce
  obtain c1 w6 where 6: "fs_touch w5 = (c1, w6)" by fastforce
  obtain c2 w7 where 7: "fs_touch w6 = (c2, w7)" by fastforce
  obtain st w8 where 8: "io_fs_unlink src w7 = (st, w8)" by fastforce
  have o2: "fs_only w w2" using fs_only_trans [OF fs_only_lstat [OF 1] fs_only_lstat [OF 2]] .
  have o4: "fs_only w w4"
    using fs_only_trans [OF fs_only_trans [OF o2 fs_only_open [OF op]] fs_only_trunc [OF 4]] .
  have o8: "fs_only w w7" "fs_only w w8"
    using fs_only_trans [OF o4 fs_only_move_copy [OF 5 6 7]] 8 by auto
  have "w' \<in> {w1, w2, w3, w3', snd (fs_touch w4), w7, w8}"
    using assms 1 2 3 op 4 5 6 7 8
    by (auto simp: move_file_def d bs split: sum.splits node.splits option.splits if_splits)
  moreover have "fs_only w w3" "fs_only w w3'" "fs_only w w1" "fs_only w (snd (fs_touch w4))"
    using o2 o4 3 op 1 fs_only_snd_touch by (auto dest: fs_only_calls intro: fs_only_trans)
  ultimately show ?thesis using o2 o8 by auto
qed

lemma fs_only_move_blob: "move_blob src tgt w = (f, w') \<Longrightarrow> fs_only w w'"
  unfolding move_blob_def
  by (auto split: prod.splits sum.splits if_splits dest!: fs_only_calls fs_only_move_file intro: fs_only_trans)

lemma fs_only_trim: "trim_loop count d w = (r, w') \<Longrightarrow> fs_only w w'"
proof (induction count d w rule: trim_loop.induct)
  case (1 count d w)
  obtain x w1 where t: "io_fs_rmdir d w = (x, w1)" by fastforce
  show ?case
  proof (cases "dir_of d")
    case None
    with "1.prems" t fs_only_rmdir [OF t] show ?thesis
      by (subst (asm) trim_loop.simps) (auto simp: Let_def split: if_splits)
  next
    case (Some e)
    obtain y w2 where l: "io_fs_lstat e w1 = (y, w2)" by fastforce
    have o: "fs_only w w2" using fs_only_trans [OF fs_only_rmdir [OF t] fs_only_lstat [OF l]] .
    have ih: "trim_loop c e w2 = (r, w') \<Longrightarrow> c = (if x = Inr () then count + 1 else count) \<Longrightarrow>
        x = Inr () \<or> x = Inl ENOENT \<Longrightarrow> y = Inr n \<Longrightarrow> n \<noteq> Link \<Longrightarrow> fs_only w w'" for c n
      using "1.IH" [OF t [symmetric]] Some l o by (cases n) (auto intro: fs_only_trans)
    from "1.prems" t Some l fs_only_rmdir [OF t] o ih show ?thesis
      by (subst (asm) trim_loop.simps) (auto simp: Let_def split: if_splits sum.splits node.splits)
  qed
qed

lemma fs_only_reply:
  assumes "arbor_reply work w = (res, w')" and "\<And>v f v'. work v = (f, v') \<Longrightarrow> fs_only v v'"
  shows "fs_only w w'"
proof -
  obtain st w1 where 1: "fs_touch w = (st, w1)" by fastforce
  obtain f w2 where 2: "work w1 = (f, w2)" by fastforce
  obtain st3 w3 where 3: "fs_touch w2 = (st3, w3)" by fastforce
  obtain st4 w4 where 4: "fs_touch w3 = (st4, w4)" by fastforce
  have "w' = w1 \<or> w' = w3 \<or> w' = w4"
    using assms(1) 1 2 3 4 by (auto simp: arbor_reply_def split: sum.splits)
  then show ?thesis
    using fs_only_touch [OF 1] assms(2) [OF 2] fs_only_touch [OF 3] fs_only_touch [OF 4]
    by (meson fs_only_trans)
qed

lemma fs_only_serve: "arborist_serve req w = (res, w') \<Longrightarrow> fs_only w w'"
  by (auto simp: arborist_serve_def trim_blob_dir_def split: arbor_request.splits prod.splits
      dest: fs_only_trim fs_only_reply [OF _ fs_only_rename_blob] fs_only_reply [OF _ fs_only_move_blob])

lemma fs_only_send:
  assumes "arbor_send c reply src tgt w = (res, w')"
  shows "fs_only w w'"
proof (cases "arbor_message c reply src tgt")
  case (Some msg)
  obtain s1 w1 where 1: "fs_touch w = (s1, w1)" by fastforce
  obtain s2 w2 where 2: "fs_touch w1 = (s2, w2)" by fastforce
  obtain s3 w3 where 3: "fs_touch w2 = (s3, w3)" by fastforce
  obtain ans1 ans2 w4 where 4: "arborist_serve (arbor_parse msg) w3 = ((ans1, ans2), w4)"
    by (metis prod.exhaust)
  obtain s5 w5 where 5: "fs_touch w4 = (s5, w5)" by fastforce
  have o: "fs_only w w1" "fs_only w w2" "fs_only w w3" "fs_only w w4" "fs_only w w5"
    using fs_only_touch [OF 1] fs_only_touch [OF 2] fs_only_touch [OF 3] fs_only_serve [OF 4]
      fs_only_touch [OF 5] by (meson fs_only_trans)+
  have "w' \<in> {w1, snd (fs_touch w2), snd (fs_touch w3), w4, snd (fs_touch (snd (fs_touch w5)))}"
    using assms Some 1 2 3 4 5 by (auto simp: arbor_send_def split: sum.splits option.splits)
  with o show ?thesis using fs_only_snd_touch by (auto intro: fs_only_trans)
qed (use assms in \<open>simp add: arbor_send_def\<close>)

end
