(* ===== verification/Tmp_Map.thy ===== *)
theory Tmp_Map
  imports Blobio_Prelude
begin

text \<open>
  \<^verbatim>\<open>bio4d/tmp.c\<close>: the map from an algorithm and a digest prefix to a temporary directory, read from
  the environment variable \<^verbatim>\<open>BLOBIO_TMPDIR_MAP\<close>, and its lookup.
\<close>

section \<open>The map\<close>

record tmp_map_entry =
  digest_algorithm :: bytes
  digest_prefix :: bytes
  tmp_path :: bytes

text \<open>The pieces between the tabs, which \<^verbatim>\<open>make_map\<close> turns into NUL-terminated strings.\<close>

fun split_tabs :: "bytes \<Rightarrow> bytes list" where
  "split_tabs [] = [[]]"
| "split_tabs (c # s) =
     (if c = TAB then [] # split_tabs s
      else (case split_tabs s of p # ps \<Rightarrow> (c # p) # ps | [] \<Rightarrow> [[c]]))"

text \<open>
  One entry of the verification pass, \<open>None\<close> on a panic: a colon within the piece after at most
  eight characters, a known algorithm, and a prefix of 1 to 128 graphic characters.
\<close>

definition check_entry :: "(bytes \<Rightarrow> bool) \<Rightarrow> bytes \<Rightarrow> (bytes \<times> bytes) option" where
  "check_entry known p =
     (if CHR '':'' \<notin> set p then None
      else
        let algorithm = takeWhile (\<lambda>c. c \<noteq> CHR '':'') p;
            prefix = tl (dropWhile (\<lambda>c. c \<noteq> CHR '':'') p)
        in if length algorithm > 8 then None
           else if \<not> known algorithm then None
           else if length prefix = 0 then None
           else if length prefix > 128 then None
           else if \<not> list_all c_isgraph prefix then None
           else Some (algorithm, prefix))"

text \<open>
  The two passes over the entries.  \<open>stale i\<close> is the length of the string that \<^verbatim>\<open>malloc\<close> left in the
  path of entry \<open>i\<close>: the code checks it, not the path it is about to copy.
\<close>

fun check_entries :: "(bytes \<Rightarrow> bool) \<Rightarrow> bytes list \<Rightarrow> (bytes \<times> bytes \<times> bytes) list option" where
  "check_entries known [] = Some []"
| "check_entries known [p] = None"
| "check_entries known (p # path # ps) =
     (case check_entry known p of
        None \<Rightarrow> None
      | Some (algorithm, prefix) \<Rightarrow>
          map_option (\<lambda>es. (algorithm, prefix, path) # es) (check_entries known ps))"

fun build_map :: "(nat \<Rightarrow> nat) \<Rightarrow> nat \<Rightarrow> (bytes \<times> bytes \<times> bytes) list \<Rightarrow> tmp_map_entry list option" where
  "build_map stale i [] = Some []"
| "build_map stale i ((algorithm, prefix, path) # es) =
     (if stale i > 96 then None
      else map_option
        (\<lambda>m. \<lparr>digest_algorithm = algorithm, digest_prefix = prefix, tmp_path = path\<rparr> # m)
        (build_map stale (i + 1) es))"

text \<open>\<^verbatim>\<open>make_map\<close>: \<open>None\<close> is a panic, \<open>Some None\<close> the map that is not defined.\<close>

definition make_map ::
  "(bytes \<Rightarrow> bool) \<Rightarrow> (nat \<Rightarrow> nat) \<Rightarrow> bytes option \<Rightarrow> tmp_map_entry list option option" where
  "make_map known stale env =
     (case env of
        None \<Rightarrow> Some None
      | Some s \<Rightarrow>
          if length s \<ge> 4096 then None
          else
            let tab_count = length (filter (\<lambda>c. c = TAB) s) in
            if tab_count = 0 then None
            else if tab_count mod 2 = 0 then None
            else case check_entries known (split_tabs s) of
              None \<Rightarrow> None
            | Some es \<Rightarrow>
                (case build_map stale 0 es of
                   None \<Rightarrow> None
                 | Some m \<Rightarrow> if length m \<noteq> (tab_count + 1) div 2 then None else Some (Some m)))"

text \<open>\<^verbatim>\<open>tmp_cmp\<close>: \<^verbatim>\<open>strncmp\<close> of the digest with the prefix over the prefix's length.\<close>

definition tmp_cmp :: "tmp_map_entry \<Rightarrow> bytes \<Rightarrow> bytes \<Rightarrow> bool" where
  "tmp_cmp tm algorithm prefix \<longleftrightarrow>
     algorithm = digest_algorithm tm \<and>
     take (length (digest_prefix tm)) prefix = digest_prefix tm"

text \<open>The map ends at the first entry with an empty algorithm.\<close>

fun tmp_lookup :: "tmp_map_entry list \<Rightarrow> bytes \<Rightarrow> bytes \<Rightarrow> bytes \<Rightarrow> bytes" where
  "tmp_lookup [] default_path algorithm prefix = default_path"
| "tmp_lookup (tm # m) default_path algorithm prefix =
     (if digest_algorithm tm = [] then default_path
      else if tmp_cmp tm algorithm prefix then tmp_path tm
      else tmp_lookup m default_path algorithm prefix)"

definition tmp_get :: "tmp_map_entry list option \<Rightarrow> bytes \<Rightarrow> bytes \<Rightarrow> bytes \<Rightarrow> bytes" where
  "tmp_get tmp_map default_path algorithm prefix =
     (case tmp_map of None \<Rightarrow> default_path | Some m \<Rightarrow> tmp_lookup m default_path algorithm prefix)"

section \<open>Parsing what was printed\<close>

text \<open>The syntax of the variable: entries separated by tabs.\<close>

definition entry_text :: "tmp_map_entry \<Rightarrow> bytes" where
  "entry_text e = digest_algorithm e @ CHR '':'' # digest_prefix e @ TAB # tmp_path e"

fun map_text :: "tmp_map_entry list \<Rightarrow> bytes" where
  "map_text [] = []"
| "map_text [e] = entry_text e"
| "map_text (e # es) = entry_text e @ TAB # map_text es"

definition entry_ok :: "(bytes \<Rightarrow> bool) \<Rightarrow> tmp_map_entry \<Rightarrow> bool" where
  "entry_ok known e \<longleftrightarrow>
     length (digest_algorithm e) \<le> 8 \<and> known (digest_algorithm e) \<and>
     CHR '':'' \<notin> set (digest_algorithm e) \<and> TAB \<notin> set (digest_algorithm e) \<and>
     digest_prefix e \<noteq> [] \<and> length (digest_prefix e) \<le> 128 \<and>
     list_all c_isgraph (digest_prefix e) \<and> TAB \<notin> set (tmp_path e)"

lemma split_tabs_not_Nil [simp]: "split_tabs s \<noteq> []"
  by (cases s) (auto split: list.splits)

lemma split_tabs_piece: "TAB \<notin> set p \<Longrightarrow> split_tabs p = [p]"
  by (induction p) auto

lemma split_tabs_append: "TAB \<notin> set p \<Longrightarrow> split_tabs (p @ TAB # s) = p # split_tabs s"
  by (induction p) auto

lemma split_map_text:
  assumes "es \<noteq> []" and "\<forall>e \<in> set es. entry_ok known e"
  shows "split_tabs (map_text es) =
    concat (map (\<lambda>e. [digest_algorithm e @ CHR '':'' # digest_prefix e, tmp_path e]) es)"
  using assms
proof (induction es rule: map_text.induct)
  case (2 e)
  then have "TAB \<notin> set (digest_algorithm e @ CHR '':'' # digest_prefix e)" "TAB \<notin> set (tmp_path e)"
    by (auto simp: entry_ok_def list_all_iff c_isgraph_def)
  then show ?case
    using split_tabs_append [of "digest_algorithm e @ CHR '':'' # digest_prefix e" "tmp_path e"]
    by (simp add: entry_text_def split_tabs_piece)
next
  case (3 e e2 es)
  then have "TAB \<notin> set (digest_algorithm e @ CHR '':'' # digest_prefix e)" "TAB \<notin> set (tmp_path e)"
    by (auto simp: entry_ok_def list_all_iff c_isgraph_def)
  with 3 show ?case
    using split_tabs_append [of "digest_algorithm e @ CHR '':'' # digest_prefix e"
        "tmp_path e @ TAB # map_text (e2 # es)"]
    by (simp add: entry_text_def split_tabs_append)
qed simp

lemma check_entry_ok:
  assumes "entry_ok known e"
  shows "check_entry known (digest_algorithm e @ CHR '':'' # digest_prefix e) =
    Some (digest_algorithm e, digest_prefix e)"
  using assms by (auto simp: check_entry_def entry_ok_def Let_def takeWhile_append dropWhile_append)

lemma check_entries_ok:
  "\<forall>e \<in> set es. entry_ok known e \<Longrightarrow>
   check_entries known
     (concat (map (\<lambda>e. [digest_algorithm e @ CHR '':'' # digest_prefix e, tmp_path e]) es)) =
   Some (map (\<lambda>e. (digest_algorithm e, digest_prefix e, tmp_path e)) es)"
  by (induction es) (auto simp: check_entry_ok)

lemma build_map_ok:
  "\<forall>i. stale i \<le> 96 \<Longrightarrow>
   build_map stale i (map (\<lambda>e. (digest_algorithm e, digest_prefix e, tmp_path e)) es) = Some es"
  by (induction es arbitrary: i) (auto simp: not_less)

lemma tab_count_split: "length (filter (\<lambda>c. c = TAB) s) + 1 = length (split_tabs s)"
  by (induction s) (auto split: list.splits)

text \<open>
  The temporary directory map.  A map written in the documented syntax is read back entry
  for entry, and the lookup of a digest gives the path of the first entry with its algorithm
  whose prefix starts the digest, or the default path when there is none.
\<close>

theorem tmp_map_roundtrip:
  assumes "es \<noteq> []" and "\<forall>e \<in> set es. entry_ok known e" and "\<forall>i. stale i \<le> 96"
    and "length (map_text es) < 4096" and "\<forall>e \<in> set es. digest_algorithm e \<noteq> []"
  shows "make_map known stale (Some (map_text es)) = Some (Some es) \<and>
    tmp_get (Some es) default_path algorithm digest =
      (case find (\<lambda>e. digest_algorithm e = algorithm \<and>
                   (\<exists>rest. digest = digest_prefix e @ rest)) es of
         None \<Rightarrow> default_path
       | Some e \<Rightarrow> tmp_path e)"
proof
  have len: "length (concat (map (\<lambda>e. [digest_algorithm e @ CHR '':'' # digest_prefix e, tmp_path e]) es))
      = 2 * length es" by (induction es) auto
  have "length (filter (\<lambda>c. c = TAB) (map_text es)) + 1 = 2 * length es"
    unfolding tab_count_split split_map_text [OF assms(1,2)] len ..
  then have t: "length (filter (\<lambda>c. c = TAB) (map_text es)) = 2 * (length es - 1) + 1"
    using assms(1) by (cases es) auto
  show "make_map known stale (Some (map_text es)) = Some (Some es)"
    using assms(1,4) build_map_ok [OF assms(3), of 0 es]
    by (simp add: make_map_def Let_def t split_map_text [OF assms(1,2)] check_entries_ok [OF assms(2)])
  have pre: "take (length p) d = p \<longleftrightarrow> (\<exists>rest. d = p @ rest)" for p d :: bytes
    by (metis append_eq_conv_conj append_take_drop_id)
  have "tmp_lookup es default_path algorithm digest =
      (case find (\<lambda>e. digest_algorithm e = algorithm \<and>
                   (\<exists>rest. digest = digest_prefix e @ rest)) es of
         None \<Rightarrow> default_path
       | Some e \<Rightarrow> tmp_path e)"
    using assms(5) by (induction es) (auto simp: tmp_cmp_def pre)
  then show "tmp_get (Some es) default_path algorithm digest =
      (case find (\<lambda>e. digest_algorithm e = algorithm \<and>
                   (\<exists>rest. digest = digest_prefix e @ rest)) es of
         None \<Rightarrow> default_path
       | Some e \<Rightarrow> tmp_path e)"
    by (simp add: tmp_get_def)
qed

theorem tmp_map_roundtrip_witness:
  "make_map (\<lambda>a. a = ''sha'') (\<lambda>_. 0) (Some (''sha:ab'' @ TAB # ''/x'' @ TAB # ''sha:c'' @ TAB # ''/y'')) =
    Some (Some [\<lparr>digest_algorithm = ''sha'', digest_prefix = ''ab'', tmp_path = ''/x''\<rparr>,
      \<lparr>digest_algorithm = ''sha'', digest_prefix = ''c'', tmp_path = ''/y''\<rparr>])"
  using tmp_map_roundtrip [of "[\<lparr>digest_algorithm = ''sha'', digest_prefix = ''ab'', tmp_path = ''/x''\<rparr>,
      \<lparr>digest_algorithm = ''sha'', digest_prefix = ''c'', tmp_path = ''/y''\<rparr>]" "\<lambda>a. a = ''sha''" "\<lambda>_. 0"]
  by (simp add: entry_ok_def entry_text_def ctype_defs)

end
