(* ===== verification/Fs_Store.thy ===== *)
theory Fs_Store
  imports Fs_World Tmp_Map Verbs Request_Frame
begin

text \<open>
  What the digest modules \<^verbatim>\<open>bio4d/fs_sha.c\<close>, \<^verbatim>\<open>bio4d/fs_bc160.c\<close> and \<^verbatim>\<open>bio4d/fs_btc20.c\<close> have in
  common, which is all but a few guards: each keeps its blobs in files below a directory of its own,
  named by their digest.  \<open>root\<close> is that directory and \<open>H\<close> the digest of OpenSSL as a function of
  the bytes: a context of OpenSSL is the list of the bytes given to it so far, and its calls
  return 1.  The private data of a request (\<^verbatim>\<open>struct fs_sha_request\<close> and its copies) extends the
  file system, since the state of a child is what its requests work on; the clock, the process id
  and the map of the temporary directories are in it as well, and so is what a child can see of the
  process that logs the blob request records (the fields \<open>lg_\<close>, used by \<^verbatim>\<open>wrap\<close>).  A file that is open
  for reading is the list of its bytes that are not read yet.
\<close>

definition CHUNK_SIZE :: nat where "CHUNK_SIZE = 4 * 1024"

definition MAX_FILE_PATH_LEN :: nat where "MAX_FILE_PATH_LEN = 256"

datatype blob_fd = NoFd | Reading bytes | Writing bytes

record blob_fs = fs +
  fr_blob_dir_path :: bytes
  fr_blob_path :: bytes
  fr_digest :: "ui8 list"
  fr_blob_fd :: blob_fd
  sha_drift :: nat
  bc160_drift :: nat
  btc20_drift :: nat
  fr_time :: int
  fr_pid :: nat
  fr_tmp_map :: "tmp_map_entry list option"
  fr_tmp_default :: bytes
  lg_stamp :: ui32
  lg_seq :: "16 word"
  lg_pending :: "bytes list"

text \<open>An operation on the state of the module, within a request.\<close>

definition on_module :: "('m \<Rightarrow> 'a \<times> 'm) \<Rightarrow> 'm request \<Rightarrow> 'a \<times> 'm request" where
  "on_module f r = (case f (rq_module r) of (a, m) \<Rightarrow> (a, r\<lparr>rq_module := m\<rparr>))"

section \<open>Files and paths\<close>

definition blob_unlink :: "bytes \<Rightarrow> blob_fs callback" where
  "blob_unlink path r =
     (case on_module (io_fs_unlink path) r of
        (Inl e, r1) \<Rightarrow> child_panic r1
      | (Inr _, r1) \<Rightarrow> Ret 0 r1)"

definition zap_blob :: "blob_fs callback" where
  "zap_blob r = blob_unlink (fr_blob_path (rq_module r)) r"

text \<open>
  \<^verbatim>\<open>_read\<close>: reads until the buffer is full or the file ends.  \<open>rest\<close> is what the file still has;
  the result is what was read and what is left, \<open>None\<close> for -1.
\<close>

function stream_read ::
  "nat \<Rightarrow> bytes \<Rightarrow> bytes \<Rightarrow> 's fs_scheme \<Rightarrow> (bytes \<times> bytes) option \<times> 's fs_scheme" where
  "stream_read buf_size got rest w =
     (if buf_size = 0 then (Some (got, rest), w)
      else case fs_touch w of
        (Inl e, w1) \<Rightarrow> (None, w1)
      | (Inr _, w1) \<Rightarrow>
          if rest = [] then (Some (got, []), w1)
          else stream_read (buf_size - length (take buf_size rest)) (got @ take buf_size rest) (drop buf_size rest) w1)"
  by pat_completeness auto
termination
  by (relation "measure (\<lambda>(buf_size, got, rest, w). length rest)") auto

declare stream_read.simps [simp del]

definition blob_close :: "blob_fs callback" where
  "blob_close r =
     (if fr_blob_fd (rq_module r) = NoFd then Ret 0 r
      else case on_module fs_touch (r\<lparr>rq_module := (rq_module r)\<lparr>fr_blob_fd := NoFd\<rparr>\<rparr>) of
        (Inl e, r1) \<Rightarrow> child_panic r1
      | (Inr _, r1) \<Rightarrow> Ret 0 r1)"

text \<open>\<^verbatim>\<open>_open\<close>: 2 is \<^verbatim>\<open>ENOENT\<close>.\<close>

definition blob_open :: "bytes \<Rightarrow> blob_fs callback" where
  "blob_open path r =
     (case on_module (io_fs_open path) r of
        (Inl e, r1) \<Rightarrow> if e = ENOENT then Ret 2 r1 else child_panic r1
      | (Inr bs, r1) \<Rightarrow> Ret 0 (r1\<lparr>rq_module := (rq_module r1)\<lparr>fr_blob_fd := Reading bs\<rparr>\<rparr>))"

definition blob_dir :: "bytes \<Rightarrow> bytes \<Rightarrow> bytes" where
  "blob_dir root digest =
     root @ CHR ''/'' # take 3 digest @ CHR ''/'' # take 3 (drop 3 digest) @ ''/''"

definition make_path :: "bytes \<Rightarrow> bytes \<Rightarrow> blob_fs request \<Rightarrow> blob_fs request" where
  "make_path root digest r =
     r\<lparr>rq_module := (rq_module r)\<lparr>fr_blob_dir_path := blob_dir root digest,
        fr_blob_path := blob_dir root digest @ digest\<rparr>\<rparr>"

text \<open>
  \<^verbatim>\<open>_mkdir\<close> of the root directory in the boot callback of a module: the value is \<open>True\<close> when the
  directory is there in the end, and \<open>False\<close> for the failures, on which the server panics.  A link
  stands for a symbolic link to a directory.
\<close>

definition fs_boot :: "bytes \<Rightarrow> 's fs_scheme \<Rightarrow> bool \<times> 's fs_scheme" where
  "fs_boot root w =
     (case io_fs_mkdir root w of
        (Inr _, w1) \<Rightarrow> (True, w1)
      | (Inl e, w1) \<Rightarrow>
          if e = EEXIST then
            (case io_fs_lstat root w1 of
               (Inr n, w2) \<Rightarrow> (n = Dir \<or> n = Link, w2)
             | (Inl _, w2) \<Rightarrow> (False, w2))
          else (False, w1))"

section \<open>Reading a blob\<close>

definition get_request :: "bytes \<Rightarrow> blob_fs callback" where
  "get_request root r =
     (let r = make_path root (rq_digest r) r in blob_open (fr_blob_path (rq_module r)) r)"

lemma stream_read_split:
  "stream_read buf_size got rest w = (Some (got', rest'), w') \<Longrightarrow> got @ rest = got' @ rest'"
proof (induction buf_size got rest w rule: stream_read.induct)
  case (1 buf_size got rest w)
  then show ?case
    by (subst (asm) stream_read.simps [of buf_size got rest w])
      (auto split: if_splits prod.splits sum.splits)
qed

lemma stream_read_chunk:
  assumes "(Some (chunk, rest'), w') = stream_read n [] rest w" and "chunk \<noteq> []"
  shows "length rest' < length rest"
  using stream_read_split [OF assms(1) [symmetric]] assms(2) by simp

text \<open>
  The loop over the chunks of a file, shared by \<^verbatim>\<open>get_bytes\<close>, \<^verbatim>\<open>copy\<close> and \<^verbatim>\<open>eat\<close>, with \<open>sink\<close> for what each does with a chunk: 0 is success, anything else ends the
  loop with \<^verbatim>\<open>goto croak\<close>.  The value has the bytes that were digested.
\<close>

function blob_loop ::
  "(bytes \<Rightarrow> blob_fs callback) \<Rightarrow> bytes \<Rightarrow> bytes \<Rightarrow> blob_fs request \<Rightarrow>
   (bytes option, blob_fs request) outcome" where
  "blob_loop sink ctx rest r =
     (case stream_read CHUNK_SIZE [] rest (rq_module r) of
        (None, w) \<Rightarrow> child_panic (r\<lparr>rq_module := w\<rparr>)
      | (Some (chunk, rest'), w) \<Rightarrow>
          if chunk = [] then Ret (Some ctx) (r\<lparr>rq_module := w\<rparr>)
          else proceed (sink chunk (r\<lparr>rq_module := w\<rparr>)) (\<lambda>status r.
            if status \<noteq> 0 then Ret None r else blob_loop sink (ctx @ chunk) rest' r))"
  by pat_completeness auto
termination
  by (relation "measure (\<lambda>(sink, ctx, rest, r). length rest)") (auto dest: stream_read_chunk)

declare blob_loop.simps [simp del]

definition reading :: "blob_fs request \<Rightarrow> bytes" where
  "reading r = (case fr_blob_fd (rq_module r) of Reading bs \<Rightarrow> bs | _ \<Rightarrow> [])"

definition get_bytes_checked :: "(bytes \<Rightarrow> ui8 list) \<Rightarrow> blob_fs callback" where
  "get_bytes_checked H r =
     proceed (blob_loop (\<lambda>chunk r. blob_write r chunk) [] (reading r) r) (\<lambda>ctx r.
       case ctx of
         None \<Rightarrow> proceed (blob_close r) (\<lambda>_ r. Ret (-1) r)
       | Some bs \<Rightarrow>
           if fr_digest (rq_module r) \<noteq> H bs then proceed (zap_blob (log_error r)) (\<lambda>_ r. child_panic r)
           else proceed (blob_close r) (\<lambda>_ r. Ret 0 r))"

definition stream_append :: "bytes \<Rightarrow> bytes \<Rightarrow> blob_fs callback" where
  "stream_append path chunk r =
     (case on_module (io_fs_append path chunk) r of
        (Inl e, r1) \<Rightarrow> Ret (-1) r1
      | (Inr _, r1) \<Rightarrow> Ret 0 r1)"

text \<open>\<^verbatim>\<open>copy\<close>, the stream being a file open for appending at \<open>out\<close>.\<close>

definition copy_checked :: "bytes \<Rightarrow> (bytes \<Rightarrow> ui8 list) \<Rightarrow> bytes \<Rightarrow> blob_fs callback" where
  "copy_checked root H out r =
     proceed (get_request root r) (\<lambda>status r.
       if status \<noteq> 0 then Ret 1 r
       else proceed (blob_loop (stream_append out) [] (reading r) r) (\<lambda>ctx r.
         case ctx of
           None \<Rightarrow> proceed (blob_close (log_error r)) (\<lambda>_ r. Ret (-1) r)
         | Some bs \<Rightarrow>
             if fr_digest (rq_module r) \<noteq> H bs then child_panic r
             else proceed (blob_close r) (\<lambda>_ r. Ret 0 r)))"

definition eat_checked :: "bytes \<Rightarrow> (bytes \<Rightarrow> ui8 list) \<Rightarrow> blob_fs callback" where
  "eat_checked root H r =
     proceed (get_request root r) (\<lambda>status r.
       if status \<noteq> 0 then Ret 1 r
       else proceed (blob_loop (\<lambda>chunk r. Ret 0 r) [] (reading r) r) (\<lambda>ctx r.
         case ctx of
           None \<Rightarrow> Ret (-1) r
         | Some bs \<Rightarrow>
             if fr_digest (rq_module r) \<noteq> H bs then child_panic r
             else proceed (blob_close r) (\<lambda>_ r. Ret 0 r)))"

section \<open>Storing a blob\<close>

text \<open>
  \<^verbatim>\<open>eat_chunk\<close>: the accumulated digest is compared with the expected one after each chunk.  The
  value is \<open>True\<close> for 1.
\<close>

definition eat_chunk ::
  "(bytes \<Rightarrow> ui8 list) \<Rightarrow> bytes \<Rightarrow> bytes \<Rightarrow> bytes \<Rightarrow> blob_fs request \<Rightarrow> (bool, blob_fs request) outcome" where
  "eat_chunk H tmp ctx chunk r =
     (case on_module (io_fs_append tmp chunk) r of
        (Inl e, r1) \<Rightarrow> child_panic r1
      | (Inr _, r1) \<Rightarrow> Ret (fr_digest (rq_module r1) = H (ctx @ chunk)) r1)"

text \<open>\<^verbatim>\<open>%d\<close> of \<^verbatim>\<open>(int)time(0)\<close>.\<close>

definition dec_int :: "int \<Rightarrow> bytes" where
  "dec_int i = (if i < 0 then CHR ''-'' # dec_nat (nat (- i)) else dec_nat (nat i))"

definition time_text :: "int \<Rightarrow> bytes" where
  "time_text t = dec_int (sint (of_int t :: 32 word))"

definition put_tmp_path :: "blob_fs request \<Rightarrow> bytes" where
  "put_tmp_path r =
     (let s = rq_module r in
      take (MAX_FILE_PATH_LEN - 1)
        (tmp_get (fr_tmp_map s) (fr_tmp_default s) (rq_algorithm r) (rq_digest r) @
         CHR ''/'' # rq_verb r @ CHR ''-'' # time_text (fr_time s) @ CHR ''-'' #
         dec_nat (fr_pid s) @ CHR ''-'' # rq_digest r))"

text \<open>
  The loop that reads the client: \<open>cp\<close> is the offset in the chunk buffer, which is reused when it
  is full.  \<open>Ret True\<close> is \<^verbatim>\<open>goto digested\<close>, \<open>Ret False\<close> is \<^verbatim>\<open>goto croak\<close>.
\<close>

lemma blob_read_cases:
  assumes "blob_read r n = Ret (RqBytes bs) r'"
  obtains r1 where "req_read r n = Ret (RqBytes bs) r1"
    "r' = (if bs = [] then r1 else r1\<lparr>rq_blob_size := rq_blob_size r1 + of_nat (length bs)\<rparr>)"
proof -
  from assms obtain a s where "req_read r n = Ret a s" and
    "(case a of RqBytes bs \<Rightarrow> Ret a (if 0 < length bs
        then s\<lparr>rq_blob_size := rq_blob_size s + of_nat (length bs)\<rparr> else s)
      | _ \<Rightarrow> Ret a s) = Ret (RqBytes bs) r'"
    unfolding blob_read_def outcome_iff by blast
  then show ?thesis using that by (cases a) auto
qed

lemma blob_read_size:
  "blob_read r n = Ret (RqBytes (b # bs)) r' \<Longrightarrow> 0 < n \<Longrightarrow> net_size (rq_in r') < net_size (rq_in r)"
  by (erule blob_read_cases) (auto dest: req_read_size)

lemma eat_chunk_in:
  "eat_chunk H tmp ctx chunk r = Ret d r' \<Longrightarrow> rq_in r' = rq_in r"
  by (auto simp: eat_chunk_def on_module_def child_panic_def split: prod.splits sum.splits)

function put_loop ::
  "(bytes \<Rightarrow> ui8 list) \<Rightarrow> bytes \<Rightarrow> nat \<Rightarrow> bytes \<Rightarrow> blob_fs request \<Rightarrow> (bool, blob_fs request) outcome" where
  "put_loop H tmp cp ctx r =
     (case blob_read r (if cp < CHUNK_SIZE then CHUNK_SIZE - cp else CHUNK_SIZE) of
        Blocked r1 \<Rightarrow> Blocked r1
      | Exited r1 \<Rightarrow> Exited r1
      | Ret RqError r1 \<Rightarrow> Ret False (log_error r1)
      | Ret RqTimeout r1 \<Rightarrow> Ret False (log_error r1)
      | Ret (RqBytes []) r1 \<Rightarrow> Ret False (log_error r1)
      | Ret (RqBytes (b # bs)) r1 \<Rightarrow>
          (case eat_chunk H tmp ctx (b # bs) r1 of
             Blocked r2 \<Rightarrow> Blocked r2
           | Exited r2 \<Rightarrow> Exited r2
           | Ret True r2 \<Rightarrow> Ret True r2
           | Ret False r2 \<Rightarrow>
               put_loop H tmp ((if cp < CHUNK_SIZE then cp else 0) + length (b # bs))
                 (ctx @ b # bs) r2))"
  by pat_completeness auto
termination
  by (relation "measure (\<lambda>(H, tmp, cp, ctx, r). net_size (rq_in r))")
    (auto simp: CHUNK_SIZE_def dest!: eat_chunk_in dest: blob_read_size)

declare put_loop.simps [simp del]

text \<open>The answer of the arborist to a call of a child.\<close>

definition arbor_done ::
  "arbor_result \<times> blob_fs request \<Rightarrow> (unit, blob_fs request) outcome" where
  "arbor_done x =
     (case x of
        (ArborDone, r) \<Rightarrow> Ret () r
      | (ArborPanic, r) \<Rightarrow> child_panic r
      | (ArborHang, r) \<Rightarrow> Blocked r)"

text \<open>What was read with the request, and then what the client sends: \<open>True\<close> leads to \<^verbatim>\<open>digested\<close>.\<close>

definition put_scanned ::
  "(bytes \<Rightarrow> ui8 list) \<Rightarrow> bytes \<Rightarrow> blob_fs request \<Rightarrow> (bool, blob_fs request) outcome" where
  "put_scanned H tmp r =
     (let scan_buf = rq_scan_buf r in
      proceed (eat_chunk H tmp [] scan_buf r) (\<lambda>digested r.
        if digested then Ret True r else put_loop H tmp 0 scan_buf r))"

text \<open>The labels \<^verbatim>\<open>cleanup\<close>, and \<^verbatim>\<open>digested\<close> or \<^verbatim>\<open>croak\<close>.\<close>

definition put_cleanup :: "bytes \<Rightarrow> int \<Rightarrow> blob_fs callback" where
  "put_cleanup tmp status r =
     proceed (blob_close r) (\<lambda>_ r. proceed (blob_unlink tmp r) (\<lambda>_ r. Ret status r))"

definition put_finish :: "bytes \<Rightarrow> bytes \<Rightarrow> bool \<Rightarrow> blob_fs callback" where
  "put_finish root tmp digested r =
     (if \<not> digested then put_cleanup tmp (-1) r
      else
        let r = make_path root (rq_digest r) r in
        proceed (arbor_done (on_module
            (arbor_rename (fr_pid (rq_module r)) tmp (fr_blob_path (rq_module r))) r))
          (\<lambda>_ r. put_cleanup tmp 0 r))"

text \<open>\<^verbatim>\<open>put_bytes\<close> up to the labels, with \<open>chunks\<close> for what the module does with the bytes.\<close>

definition put_stream ::
  "(bytes \<Rightarrow> blob_fs request \<Rightarrow> (bool, blob_fs request) outcome) \<Rightarrow> bytes \<Rightarrow> blob_fs callback" where
  "put_stream chunks root r =
     (let tmp = put_tmp_path r in
      case on_module (io_fs_create tmp) r of
        (Inl e, r1) \<Rightarrow> child_panic r1
      | (Inr _, r1) \<Rightarrow>
          proceed (chunks tmp (r1\<lparr>rq_module := (rq_module r1)\<lparr>fr_blob_fd := Writing tmp\<rparr>\<rparr>))
            (put_finish root tmp))"

text \<open>
  \<^verbatim>\<open>take_reply\<close>: the blob is removed when the client says \<^verbatim>\<open>ok\<close>.  The text before the last
  slash of the path goes to the arborist.
\<close>

definition unlink_on_ok :: "bytes \<Rightarrow> blob_fs callback" where
  "unlink_on_ok reply r =
     (if hd reply = CHR ''o'' then
        proceed (blob_unlink (fr_blob_path (rq_module r)) r) (\<lambda>_ r.
          case dir_of (fr_blob_path (rq_module r)) of
            None \<Rightarrow> child_panic r
          | Some dir_path \<Rightarrow>
              proceed (arbor_done (on_module (arbor_trim dir_path) r)) (\<lambda>_ r. Ret 0 r))
      else Ret 0 r)"

section \<open>Digesting a local stream\<close>

definition digest_tmp_path :: "nat \<Rightarrow> blob_fs request \<Rightarrow> bytes" where
  "digest_tmp_path drift r =
     (let s = rq_module r in
      take (MAX_FILE_PATH_LEN - 1)
        (tmp_get (fr_tmp_map s) (fr_tmp_default s) (rq_algorithm r) (rq_digest r) @
         ''/digest-'' @ time_text (fr_time s) @ CHR ''-'' # dec_nat (fr_pid s) @
         CHR ''-'' # dec_nat drift))"

text \<open>\<open>stream\<close> is what the local stream still has; \<open>Ret False\<close> is a failed read.\<close>

function digest_loop :: "bytes \<Rightarrow> bytes \<Rightarrow> blob_fs request \<Rightarrow> (bool, blob_fs request) outcome" where
  "digest_loop tmp stream r =
     (case on_module fs_touch r of
        (Inl e, r1) \<Rightarrow> Ret False (log_error r1)
      | (Inr _, r1) \<Rightarrow>
          if stream = [] then Ret True r1
          else case on_module (io_fs_append tmp (take 4096 stream)) r1 of
            (Inl e, r2) \<Rightarrow> child_panic r2
          | (Inr _, r2) \<Rightarrow> digest_loop tmp (drop 4096 stream) r2)"
  by pat_completeness auto
termination
  by (relation "measure (\<lambda>(tmp, stream, r). length stream)") auto

declare digest_loop.simps [simp del]

text \<open>A call whose failure is a panic of the child.\<close>

definition must :: "unit sysret \<times> blob_fs request \<Rightarrow> (unit, blob_fs request) outcome" where
  "must x = (case x of (Inl e, r) \<Rightarrow> child_panic r | (Inr _, r) \<Rightarrow> Ret () r)"

definition next_drift :: "nat \<Rightarrow> nat" where
  "next_drift d = (if d \<ge> 999 then 0 else d + 1)"

text \<open>\<^verbatim>\<open>digest\<close> once the temporary path is known: \<open>None\<close> is -1, otherwise the text of the digest.\<close>

definition store_stream ::
  "bytes \<Rightarrow> (bytes \<Rightarrow> ui8 list) \<Rightarrow> bytes \<Rightarrow> bytes \<Rightarrow> blob_fs request \<Rightarrow>
   (bytes option, blob_fs request) outcome" where
  "store_stream root H tmp stream r =
     proceed (must (on_module (io_fs_create tmp) r)) (\<lambda>_ r.
     proceed (digest_loop tmp stream r) (\<lambda>good r.
       if \<not> good then
         proceed (must (on_module fs_touch r)) (\<lambda>_ r.
         proceed (must (on_module (io_fs_unlink tmp) r)) (\<lambda>_ r. Ret None r))
       else
         proceed (must (on_module fs_touch r)) (\<lambda>_ r.
           let hex_digest = concat (map encode_byte (H stream));
               r = make_path root hex_digest r
           in proceed (arbor_done (on_module
                  (arbor_move (fr_pid (rq_module r)) tmp (fr_blob_path (rq_module r))) r))
                (\<lambda>_ r. Ret (Some hex_digest) r))))"

section \<open>Digests and paths\<close>

definition blob_name :: "bytes \<Rightarrow> bool" where
  "blob_name d \<longleftrightarrow> length d = 40 \<and> set d \<subseteq> set hexchar"

lemma encode_pair:
  assumes "c1 \<in> set hexchar" and "c2 \<in> set hexchar"
  shows "\<exists>b. encode_byte b = [c1, c2]"
proof -
  have l: "length hexchar = 16" by (simp add: hexchar_def)
  obtain i j where i: "i < 16" "c1 = hexchar ! i" and j: "j < 16" "c2 = hexchar ! j"
    using assms l by (metis in_set_conv_nth)
  define k where "k = 16 * i + j"
  have k: "k < 256" "k div 16 = i" "k mod 16 = j" using i(1) j(1) by (simp_all add: k_def)
  let ?b = "of_nat k :: ui8"
  have u: "unat ?b = k" using k(1) by (simp add: unat_of_nat take_bit_eq_mod)
  have "unat (drop_bit 4 ?b) = drop_bit 4 (unat ?b)"
    by (metis drop_bit_eq_div unat_drop_bit_eq)
  then have hi: "unat (drop_bit 4 ?b) = i" using k by (simp only: u) (simp add: drop_bit_eq_div)
  have "and ?b 0xF = take_bit 4 ?b" by (simp add: take_bit_eq_mask mask_eq_exp_minus_1)
  then have "unat (and ?b 0xF) = take_bit 4 (unat ?b)" by (simp only: unsigned_take_bit_eq)
  then have lo: "unat (and ?b 0xF) = j" using k by (simp only: u) (simp add: take_bit_eq_mod)
  show ?thesis
    by (rule exI [of _ ?b]) (simp only: encode_byte_def hi lo i(2) j(2))
qed

lemma hex_text:
  "length d = 2 * n \<Longrightarrow> set d \<subseteq> set hexchar \<Longrightarrow>
   \<exists>bs. length bs = n \<and> concat (map encode_byte bs) = d"
proof (induction n arbitrary: d)
  case (Suc n)
  then obtain c1 c2 d' where d: "d = c1 # c2 # d'"
    by (metis Suc_length_conv add_2_eq_Suc' mult_Suc_right add.commute)
  obtain b where "encode_byte b = [c1, c2]" using encode_pair [of c1 c2] Suc.prems d by auto
  moreover obtain bs where "length bs = n" "concat (map encode_byte bs) = d'"
    using Suc.IH [of d'] Suc.prems d by auto
  ultimately show ?case using d by (intro exI [of _ "b # bs"]) simp
qed simp

lemma blob_name_decode:
  assumes "blob_name d"
  obtains want where "decode_hex d (replicate 20 0) = Some want" "length want = 20"
    "concat (map encode_byte want) = d"
proof -
  obtain bs where bs: "length bs = 20" "concat (map encode_byte bs) = d"
    using hex_text [of d 20] assms by (auto simp: blob_name_def)
  then have "decode_hex d (replicate 20 0) = Some bs"
    using decode_hex_loop_encode [of bs "[]"] encode_byte_no_nul [of bs] by (simp add: decode_hex_def)
  with bs that show ?thesis by blast
qed

definition blob_path :: "bytes \<Rightarrow> bytes \<Rightarrow> bytes" where
  "blob_path root digest = blob_dir root digest @ digest"

lemma blob_path_inj:
  assumes "blob_name d" and "blob_name e"
  shows "blob_path r1 d = blob_path r2 e \<longleftrightarrow> r1 = r2 \<and> d = e"
proof
  assume p: "blob_path r1 d = blob_path r2 e"
  have l: "length d = 40" "length e = 40" using assms by (simp_all add: blob_name_def)
  from p have "length (blob_path r1 d) = length (blob_path r2 e)" by simp
  with l have "length r1 = length r2" by (simp add: blob_path_def blob_dir_def)
  with p l show "r1 = r2 \<and> d = e" by (simp add: blob_path_def blob_dir_def)
qed simp

lemma hexchar_no_nul: "NUL \<notin> set hexchar"
  by (simp add: hexchar_def)

text \<open>The directories of the three modules.\<close>

definition store_roots :: "bytes list" where
  "store_roots = [''data/fs_bc160'', ''data/fs_btc20'', ''data/fs_sha'']"

lemma blob_path_no_nul:
  assumes "blob_name d" and "root \<in> set store_roots"
  shows "NUL \<notin> set (blob_path root d)"
proof -
  have "NUL \<notin> set root" using assms(2) by (auto simp: store_roots_def)
  then show ?thesis
    using hexchar_no_nul assms(1)
    by (auto simp: blob_path_def blob_dir_def blob_name_def dest: in_set_takeD in_set_dropD)
qed

section \<open>What the store holds\<close>

definition is_blob_path :: "bytes \<Rightarrow> bool" where
  "is_blob_path p \<longleftrightarrow> (\<exists>root \<in> set store_roots. \<exists>d. blob_name d \<and> p = blob_path root d)"

text \<open>Every blob of a module hashes to its name; \<open>Hs\<close> has the digest of each root.\<close>

definition store_ok :: "(bytes \<Rightarrow> bytes \<Rightarrow> ui8 list) \<Rightarrow> 's fs_scheme \<Rightarrow> bool" where
  "store_ok Hs w \<longleftrightarrow>
     (\<forall>root \<in> set store_roots. \<forall>d bs. blob_name d \<longrightarrow>
        map_of (fs_nodes w) (blob_path root d) = Some (File bs) \<longrightarrow>
        concat (map encode_byte (Hs root bs)) = d)"

abbreviation blobs_within :: "'s fs_scheme \<Rightarrow> blob_fs request \<Rightarrow> bool" where
  "blobs_within w r \<equiv> files_within is_blob_path w (rq_module r)"

lemma store_ok_within:
  "files_within is_blob_path w w' \<Longrightarrow> store_ok Hs w \<Longrightarrow> store_ok Hs w'"
  unfolding files_within_def store_ok_def is_blob_path_def by blast

lemma on_module_split:
  "on_module f r = (x, r') \<longleftrightarrow> (\<exists>m. f (rq_module r) = (x, m) \<and> r' = r\<lparr>rq_module := m\<rparr>)"
  by (auto simp: on_module_def split: prod.splits)

lemma fs_open_nodes: "io_fs_open p w = (x, w') \<Longrightarrow> fs_nodes w' = fs_nodes w"
  by (auto simp: io_fs_open_def fs_call_def split: prod.splits option.splits node.splits)

lemma unlink_nodes:
  "io_fs_unlink p w = (x, w') \<Longrightarrow>
   fs_nodes w' = fs_nodes w \<or> fs_nodes w' = del_node p (fs_nodes w)"
  by (auto simp: io_fs_unlink_def fs_call_def
      split: prod.splits option.splits node.splits sum.splits if_splits)

lemma unlink_within: "io_fs_unlink p w = (x, w') \<Longrightarrow> files_within P w w'"
  by (drule unlink_nodes) (auto simp: files_within_def split: if_splits)

lemma append_nodes:
  "io_fs_append p bs w = (x, w') \<Longrightarrow>
   (x = Inr () \<longrightarrow> (\<exists>old. map_of (fs_nodes w) p = Some (File old) \<and>
      map_of (fs_nodes w') p = Some (File (old @ bs)))) \<and>
   (\<forall>q. q \<noteq> p \<longrightarrow> map_of (fs_nodes w') q = map_of (fs_nodes w) q) \<and> fr_digest w' = fr_digest w"
  by (auto simp: io_fs_append_def fs_call_def split: prod.splits option.splits node.splits)

lemma create_nodes:
  "io_fs_create p w = (x, w') \<Longrightarrow>
   (x = Inr () \<longrightarrow> map_of (fs_nodes w') p = Some (File [])) \<and>
   (\<forall>q. q \<noteq> p \<longrightarrow> map_of (fs_nodes w') q = map_of (fs_nodes w) q) \<and> fr_digest w' = fr_digest w"
  by (auto simp: io_fs_create_def fs_call_def split: prod.splits option.splits if_splits)

lemma stream_read_nodes: "stream_read n got rest w = (x, w') \<Longrightarrow> fs_nodes w' = fs_nodes w"
proof (induction n got rest w arbitrary: x w' rule: stream_read.induct)
  case (1 n got rest w)
  obtain st w1 where t: "fs_touch w = (st, w1)" by fastforce
  note n = fs_touch_nodes [OF t]
  show ?case
  proof (cases "n = 0 \<or> (\<exists>e. st = Inl e) \<or> rest = []")
    case True
    with "1.prems" t n show ?thesis
      by (subst (asm) stream_read.simps [of n got rest w]) (auto split: if_splits sum.splits)
  next
    case False
    then have "st = Inr ()" by (cases st) auto
    with False "1.prems" t n "1.IH" [of st w1 "()" x w'] show ?thesis
      by (simp add: stream_read.simps [of n got rest w])
  qed
qed

lemma within_same: "fs_nodes (rq_module s) = fs_nodes (rq_module r) \<Longrightarrow> blobs_within w s = blobs_within w r"
  by (simp add: files_within_def)

lemma within_close: "blobs_within w r \<Longrightarrow> after (\<lambda>_. blobs_within w) (blobs_within w) (blob_close r)"
  by (auto simp: blob_close_def on_module_def files_within_def dest!: fs_touch_nodes
      split: prod.splits sum.splits)

lemma within_unlink: "blobs_within w r \<Longrightarrow> after (\<lambda>_. blobs_within w) (blobs_within w) (blob_unlink p r)"
  by (auto simp: blob_unlink_def on_module_def dest!: unlink_within
      intro: files_within_trans split: prod.splits sum.splits)

lemma within_make_path [simp]: "blobs_within w (make_path root d r) = blobs_within w r"
  by (simp add: make_path_def files_within_def)

lemma within_blob_fd: "files_within P w (m\<lparr>fr_blob_fd := b\<rparr>) = files_within P w m"
  by (simp add: files_within_def)

lemma within_open_file:
  "blobs_within w r \<Longrightarrow> after (\<lambda>_. blobs_within w) (blobs_within w) (blob_open p r)"
  by (auto simp: blob_open_def on_module_def files_within_def dest!: fs_open_nodes
      split: prod.splits sum.splits)

lemma within_get_request:
  "blobs_within w r \<Longrightarrow> after (\<lambda>_. blobs_within w) (blobs_within w) (get_request root r)"
  unfolding get_request_def Let_def by (rule within_open_file) simp

lemma within_same_call: "same_call r s \<Longrightarrow> blobs_within w r \<Longrightarrow> blobs_within w s"
  by (simp add: same_call_def)

lemma within_blob_write:
  "blobs_within w r \<Longrightarrow> after (\<lambda>_. blobs_within w) (blobs_within w) (blob_write r bs)"
  by (rule after_mono [OF frame_blob_write]) (auto intro: within_same_call)

lemma within_blob_loop:
  assumes "\<And>chunk s. blobs_within w s \<Longrightarrow> after (\<lambda>_. blobs_within w) (blobs_within w) (sink chunk s)"
  shows "blobs_within w r \<Longrightarrow>
    after (\<lambda>_. blobs_within w) (blobs_within w) (blob_loop sink ctx rest r)"
  using assms
proof (induction sink ctx rest r rule: blob_loop.induct)
  case (1 sink ctx rest r)
  obtain x m where rd: "stream_read CHUNK_SIZE [] rest (rq_module r) = (x, m)" by fastforce
  then have w: "blobs_within w (r\<lparr>rq_module := m\<rparr>)"
    using "1.prems"(1) stream_read_nodes [OF rd] by (simp add: files_within_def)
  show ?case
  proof (cases x)
    case None
    with rd w show ?thesis by (simp add: blob_loop.simps [of sink])
  next
    case (Some p)
    obtain chunk rest' where p: "p = (chunk, rest')" by fastforce
    show ?thesis
    proof (cases "chunk = []")
      case True
      with rd w Some p show ?thesis by (simp add: blob_loop.simps [of sink])
    next
      case False
      have "after (\<lambda>status s. after (\<lambda>_. blobs_within w) (blobs_within w)
          (if status \<noteq> 0 then Ret None s else blob_loop sink (ctx @ chunk) rest' s))
          (blobs_within w) (sink chunk (r\<lparr>rq_module := m\<rparr>))"
        by (rule after_mono [OF "1.prems"(2) [OF w]])
          (use "1.IH" [OF rd [symmetric] Some p [symmetric] False] "1.prems"(2) in auto)
      with rd Some p False show ?thesis by (simp add: blob_loop.simps [of sink ctx rest r])
    qed
  qed
qed

lemma within_get_bytes:
  assumes "blobs_within w r"
  shows "after (\<lambda>_. blobs_within w) (blobs_within w) (get_bytes_checked H r)"
  unfolding get_bytes_checked_def after_proceed
  by (rule after_mono [OF within_blob_loop [OF within_blob_write assms]])
    (auto simp: zap_blob_def split: option.splits
      intro!: after_mono [OF within_close] after_mono [OF within_unlink])

lemma within_eat:
  assumes "blobs_within w r"
  shows "after (\<lambda>_. blobs_within w) (blobs_within w) (eat_checked root H r)"
  unfolding eat_checked_def after_proceed
  by (rule after_mono [OF within_get_request [OF assms]])
    (auto split: option.splits intro!: after_mono [OF within_blob_loop] after_mono [OF within_close])

lemma within_take_reply:
  assumes "blobs_within w r"
  shows "after (\<lambda>_. blobs_within w) (blobs_within w) (unlink_on_ok reply r)"
proof -
  have "blobs_within w s \<Longrightarrow>
      after (\<lambda>_. blobs_within w) (blobs_within w) (arbor_done (on_module (arbor_trim d) s))" for d s
  proof -
    assume a: "blobs_within w s"
    obtain x m where t: "fs_touch (rq_module s) = (x, m)" by fastforce
    have m: "files_within is_blob_path w m"
      using a fs_touch_nodes [OF t] by (simp add: files_within_def)
    have "\<exists>d'. arbor_parse (trim_message d) = Trim d'"
      by (simp add: arbor_parse_def trim_message_def MSG_SIZE_def Let_def)
    then obtain d' where d': "arbor_parse (trim_message d) = Trim d'" ..
    obtain c' n' where n': "trim_blob_dir d' m = (c', n')" by fastforce
    have "files_within is_blob_path w n'"
      using m trim_blob_dir_files [of is_blob_path m d'] n'
      by (auto intro: files_within_trans)
    then show ?thesis
      using m t d' n'
      by (auto simp: arbor_done_def on_module_def arbor_trim_def arborist_serve_def split: sum.splits)
  qed
  then show ?thesis
    using assms unfolding unlink_on_ok_def
    by (auto split: option.splits intro!: after_mono [OF within_unlink])
qed

section \<open>Storing keeps the store sound\<close>

text \<open>
  While a blob arrives: no blob was added to the store, the temporary file holds the bytes that
  were digested, and the request did not change.
\<close>

definition receiving ::
  "blob_fs \<Rightarrow> bytes \<Rightarrow> ui8 list \<Rightarrow> bytes \<Rightarrow> bytes \<Rightarrow> blob_fs request \<Rightarrow> bool" where
  "receiving w tmp want digest ctx r \<longleftrightarrow>
     files_within is_blob_path w (rq_module r) \<and>
     map_of (fs_nodes (rq_module r)) tmp = Some (File ctx) \<and>
     fr_digest (rq_module r) = want \<and> rq_digest r = digest"

lemma receiving_within: "receiving w tmp want digest ctx r \<Longrightarrow> files_within is_blob_path w (rq_module r)"
  by (simp add: receiving_def)

lemma receiving_same_call:
  "same_call r s \<Longrightarrow> receiving w tmp want digest ctx r \<Longrightarrow> receiving w tmp want digest ctx s"
  by (simp add: receiving_def same_call_def)

lemma receiving_log_error [simp]:
  "receiving w tmp want digest ctx (log_error r) = receiving w tmp want digest ctx r"
  by (simp add: receiving_def)

lemma receiving_eat_chunk:
  assumes "receiving w tmp want digest ctx r" and "\<not> is_blob_path tmp"
  shows "after (\<lambda>d s. receiving w tmp want digest (ctx @ chunk) s \<and> (d \<longrightarrow> want = H (ctx @ chunk)))
    (\<lambda>s. files_within is_blob_path w (rq_module s)) (eat_chunk H tmp ctx chunk r)"
proof -
  obtain x m where a: "io_fs_append tmp chunk (rq_module r) = (x, m)" by fastforce
  note n = append_nodes [OF a]
  have "files_within is_blob_path w m"
    using assms n unfolding receiving_def files_within_def by metis
  then show ?thesis
    using assms a n
    by (auto simp: eat_chunk_def on_module_def receiving_def split: sum.splits)
qed

lemma receiving_put_loop:
  assumes "\<not> is_blob_path tmp"
  shows "receiving w tmp want digest ctx r \<Longrightarrow>
    after (\<lambda>d s. files_within is_blob_path w (rq_module s) \<and>
        (d \<longrightarrow> (\<exists>ctx'. receiving w tmp want digest ctx' s \<and> want = H ctx')))
      (\<lambda>s. files_within is_blob_path w (rq_module s)) (put_loop H tmp cp ctx r)"
proof (induction "net_size (rq_in r)" arbitrary: cp ctx r rule: less_induct)
  case less
  let ?n = "if cp < CHUNK_SIZE then CHUNK_SIZE - cp else CHUNK_SIZE"
  have n: "0 < ?n" by (simp add: CHUNK_SIZE_def)
  have fr: "after (\<lambda>_. same_call r) (same_call r) (blob_read r ?n)" by (rule frame_blob_read)
  note rs = receiving_same_call [OF _ less.prems]
  show ?case
  proof (cases "blob_read r ?n")
    case (Ret got r1)
    with fr have s1: "receiving w tmp want digest ctx r1" using rs by simp
    show ?thesis
    proof (cases "\<exists>b bs. got = RqBytes (b # bs)")
      case True
      then obtain b bs where got: "got = RqBytes (b # bs)" by blast
      have sz: "net_size (rq_in r1) < net_size (rq_in r)"
        using blob_read_size [OF Ret [unfolded got] n] .
      note e = receiving_eat_chunk [OF s1 assms, of "b # bs" H]
      show ?thesis
      proof (cases "eat_chunk H tmp ctx (b # bs) r1")
        case (Ret d r2)
        with e have s2: "receiving w tmp want digest (ctx @ b # bs) r2"
          and d: "d \<longrightarrow> want = H (ctx @ b # bs)" by auto
        have sz2: "net_size (rq_in r2) < net_size (rq_in r)"
          using eat_chunk_in [OF Ret] sz by simp
        show ?thesis
          using less.hyps [OF sz2 s2] s2 d Ret \<open>blob_read r ?n = Ret got r1\<close> got
            receiving_within [OF s2]
          by (cases d) (auto simp: put_loop.simps [of H tmp cp ctx r])
      qed (use e Ret got in \<open>auto simp: put_loop.simps [of H tmp cp ctx r]\<close>)
    next
      case False
      then have "got = RqError \<or> got = RqTimeout \<or> got = RqBytes []"
        by (metis req_in.exhaust list.exhaust)
      with Ret receiving_within [OF s1] show ?thesis
        by (auto simp: put_loop.simps [of H tmp cp ctx r])
    qed
  qed (use fr within_same_call [OF _ receiving_within [OF less.prems]]
      in \<open>auto simp: put_loop.simps [of H tmp cp ctx r]\<close>)
qed

text \<open>The whole blob is in the temporary file.\<close>

definition received ::
  "bytes \<Rightarrow> (bytes \<Rightarrow> ui8 list) \<Rightarrow> blob_fs \<Rightarrow> bytes \<Rightarrow> ui8 list \<Rightarrow> bytes \<Rightarrow> blob_fs request \<Rightarrow> bool" where
  "received em H w tmp want digest r \<longleftrightarrow>
     (\<exists>ctx. receiving w tmp want digest ctx r \<and>
        (want = H ctx \<or> digest = em \<and> ctx = []))"

text \<open>What \<^verbatim>\<open>put_bytes\<close> needs of the part that reads the client.\<close>

definition chunks_sound ::
  "bytes \<Rightarrow> (bytes \<Rightarrow> ui8 list) \<Rightarrow>
   (bytes \<Rightarrow> blob_fs request \<Rightarrow> (bool, blob_fs request) outcome) \<Rightarrow> bool" where
  "chunks_sound em H chunks \<longleftrightarrow>
     (\<forall>tmp w want digest r. \<not> is_blob_path tmp \<longrightarrow> receiving w tmp want digest [] r \<longrightarrow>
        after (\<lambda>d s. files_within is_blob_path w (rq_module s) \<and>
            (d \<longrightarrow> received em H w tmp want digest s))
          (\<lambda>s. files_within is_blob_path w (rq_module s)) (chunks tmp r))"

lemma received_loop:
  assumes "\<not> is_blob_path tmp" and "receiving w tmp want digest ctx s"
  shows "after (\<lambda>d s. files_within is_blob_path w (rq_module s) \<and>
      (d \<longrightarrow> received em H w tmp want digest s))
    (\<lambda>s. files_within is_blob_path w (rq_module s)) (put_loop H tmp cp ctx s)"
  by (rule after_mono [OF receiving_put_loop [OF assms]]) (auto simp: received_def)

lemma received_scanned:
  assumes "\<not> is_blob_path tmp" and "receiving w tmp want digest [] s"
  shows "after (\<lambda>d s. files_within is_blob_path w (rq_module s) \<and>
      (d \<longrightarrow> received em H w tmp want digest s))
    (\<lambda>s. files_within is_blob_path w (rq_module s)) (put_scanned H tmp s)"
proof -
  have fin: "received em H w tmp (H ctx) digest s" if "receiving w tmp (H ctx) digest ctx s" for ctx s
    using that by (auto simp: received_def)
  show ?thesis
    unfolding put_scanned_def Let_def after_proceed
    by (rule after_mono [OF receiving_eat_chunk [OF assms(2,1)]])
      (use fin received_loop [OF assms(1)] receiving_within in auto)
qed

lemma received_empty:
  "receiving w tmp want digest [] r \<Longrightarrow> digest = em \<Longrightarrow> received em H w tmp want digest r"
  by (auto simp: received_def)

lemma receiving_unlink:
  assumes "receiving w tmp want digest ctx r"
  shows "files_within is_blob_path w (rq_module (snd (on_module (io_fs_unlink p) r)))"
proof -
  obtain x m where u: "io_fs_unlink p (rq_module r) = (x, m)" by fastforce
  from files_within_trans [OF receiving_within [OF assms] unlink_within [OF u]] u
  show ?thesis by (simp add: on_module_def)
qed

lemma within_store_ok:
  "store_ok Hs w \<Longrightarrow> files_within is_blob_path w (rq_module r) \<Longrightarrow> store_ok Hs (rq_module r)"
  by (rule store_ok_within)

lemma after_within_store_ok:
  assumes "store_ok Hs w"
    and "after (\<lambda>_ s. files_within is_blob_path w (rq_module s))
      (\<lambda>s. files_within is_blob_path w (rq_module s)) m"
  shows "after (\<lambda>_ s. store_ok Hs (rq_module s)) (\<lambda>s. store_ok Hs (rq_module s)) m"
  by (rule after_mono [OF assms(2)]) (auto intro: within_store_ok [OF assms(1)])

text \<open>A rename into place keeps the store sound when the bytes have the digest they are named by.\<close>

lemma placed_store_ok:
  assumes "placed tmp (blob_path root digest) w w'" and "store_ok Hs w"
    and "root \<in> set store_roots" and "blob_name digest"
    and "\<And>bs. map_of (fs_nodes w) tmp = Some (File bs) \<Longrightarrow>
      concat (map encode_byte (Hs root bs)) = digest"
  shows "store_ok Hs w'"
proof -
  have f: "files_within (\<lambda>p. p \<noteq> blob_path root digest) w w'"
    and t: "map_of (fs_nodes w') (blob_path root digest) = Some (File bs) \<Longrightarrow>
      map_of (fs_nodes w) (blob_path root digest) = Some (File bs) \<or>
      map_of (fs_nodes w) tmp = Some (File bs)"
    for bs
    using assms(1) by (auto simp: placed_def)
  show ?thesis
    unfolding store_ok_def
  proof (intro allI impI ballI)
    fix r d bs
    assume r: "r \<in> set store_roots" and d: "blob_name d"
      and bs: "map_of (fs_nodes w') (blob_path r d) = Some (File bs)"
    show "concat (map encode_byte (Hs r bs)) = d"
    proof (cases "r = root \<and> d = digest")
      case True
      with t bs assms(2-5) show ?thesis by (auto simp: store_ok_def)
    next
      case False
      with d assms(4) have "blob_path r d \<noteq> blob_path root digest" by (auto simp: blob_path_inj)
      with f bs have "map_of (fs_nodes w) (blob_path r d) = Some (File bs)"
        by (simp add: files_within_def)
      with assms(2) r d show ?thesis by (simp add: store_ok_def)
    qed
  qed
qed

section \<open>Temporary paths\<close>

text \<open>The directories for temporary files are outside the stores.\<close>

definition tmp_apart :: "blob_fs \<Rightarrow> bool" where
  "tmp_apart m \<longleftrightarrow>
     (\<forall>a d. let t = tmp_get (fr_tmp_map m) (fr_tmp_default m) a d in
        take 4 t \<noteq> ''data'' \<and> NUL \<notin> set t)"

lemma dec_nat_no_nul: "NUL \<notin> set (dec_nat n)"
  using dec_nat_isdigit [of NUL n] by (auto simp: c_isdigit_def)

lemma time_text_no_nul: "NUL \<notin> set (time_text t)"
  using dec_nat_no_nul by (auto simp: time_text_def dec_int_def)

lemma blob_path_data: "is_blob_path p \<Longrightarrow> take 4 p = ''data''"
  by (auto simp: is_blob_path_def blob_path_def blob_dir_def store_roots_def)

lemma tmp_path_not_data:
  assumes "tmp_apart m" and "t = tmp_get (fr_tmp_map m) (fr_tmp_default m) a d" and "4 \<le> n"
  shows "take 4 (take n (t @ CHR ''/'' # x)) \<noteq> ''data''"
proof
  assume "take 4 (take n (t @ CHR ''/'' # x)) = ''data''"
  then have d: "take 4 (t @ CHR ''/'' # x) = ''data''"
    using assms(3) by (simp only: take_take min_absorb1)
  have t: "take 4 t \<noteq> ''data''" using assms(1,2) unfolding tmp_apart_def Let_def by blast
  show False
  proof (cases "length t < 4")
    case True
    then have "CHR ''/'' \<in> set (take 4 (t @ CHR ''/'' # x))"
      by (cases "4 - length t") auto
    with d show False by simp
  qed (use d t in auto)
qed

lemma tmp_path_apart:
  assumes "tmp_apart m" and "t = tmp_get (fr_tmp_map m) (fr_tmp_default m) a d"
    and "4 \<le> n" and "NUL \<notin> set x"
  shows "\<not> is_blob_path (take n (t @ CHR ''/'' # x))" "NUL \<notin> set (take n (t @ CHR ''/'' # x))"
proof -
  have "NUL \<notin> set t" using assms(1,2) unfolding tmp_apart_def Let_def by blast
  with assms(4) show "NUL \<notin> set (take n (t @ CHR ''/'' # x))" by (auto dest: in_set_takeD)
  show "\<not> is_blob_path (take n (t @ CHR ''/'' # x))"
    using blob_path_data tmp_path_not_data [OF assms(1-3)] by blast
qed

lemma put_tmp_path_ok:
  assumes "tmp_apart (rq_module r)" and "NUL \<notin> set (rq_verb r)" and "NUL \<notin> set (rq_digest r)"
  shows "\<not> is_blob_path (put_tmp_path r)" "NUL \<notin> set (put_tmp_path r)"
proof -
  note p = tmp_path_apart [OF assms(1) refl, of "MAX_FILE_PATH_LEN - 1"]
  have n: "4 \<le> MAX_FILE_PATH_LEN - 1" by (simp add: MAX_FILE_PATH_LEN_def)
  note no = dec_nat_no_nul time_text_no_nul assms(2,3)
  show "\<not> is_blob_path (put_tmp_path r)" "NUL \<notin> set (put_tmp_path r)"
    unfolding put_tmp_path_def Let_def by (rule p [OF n]; use no in simp)+
qed

lemma digest_tmp_path_ok:
  assumes "tmp_apart (rq_module r)"
  shows "\<not> is_blob_path (digest_tmp_path d r)" "NUL \<notin> set (digest_tmp_path d r)"
proof -
  have n: "4 \<le> MAX_FILE_PATH_LEN - 1" by (simp add: MAX_FILE_PATH_LEN_def)
  have e: "''/digest-'' @ x = CHR ''/'' # ''digest-'' @ x" for x by simp
  note p = tmp_path_apart [OF assms refl n]
  show "\<not> is_blob_path (digest_tmp_path d r)" "NUL \<notin> set (digest_tmp_path d r)"
    unfolding digest_tmp_path_def Let_def e
    by (rule p; use dec_nat_no_nul time_text_no_nul in simp)+
qed

section \<open>Storing what a client sends\<close>

text \<open>
  What must hold of a request before a module is opened for it, and before its bytes are stored;
  \<open>em\<close> is the digest of the empty blob as the module knows it.  All digests have twenty bytes, and
  the stores and the temporary directories are on one device.
\<close>

definition put_fresh :: "bytes \<Rightarrow> bytes \<Rightarrow> (bytes \<Rightarrow> bytes \<Rightarrow> ui8 list) \<Rightarrow> blob_fs request \<Rightarrow> bool" where
  "put_fresh root em Hs r \<longleftrightarrow>
     store_ok Hs (rq_module r) \<and> tmp_apart (rq_module r) \<and> one_device (rq_module r) \<and>
     concat (map encode_byte (Hs root [])) = em \<and> (\<forall>bs. length (Hs root bs) = 20) \<and>
     NUL \<notin> set (rq_verb r) \<and> NUL \<notin> set (rq_digest r)"

definition put_ready :: "bytes \<Rightarrow> bytes \<Rightarrow> (bytes \<Rightarrow> bytes \<Rightarrow> ui8 list) \<Rightarrow> blob_fs request \<Rightarrow> bool" where
  "put_ready root em Hs r \<longleftrightarrow>
     put_fresh root em Hs r \<and> blob_name (rq_digest r) \<and>
     concat (map encode_byte (fr_digest (rq_module r))) = rq_digest r"

lemma store_ok_cleanup:
  assumes "store_ok Hs (rq_module s)"
  shows "after (\<lambda>_ s. store_ok Hs (rq_module s)) (\<lambda>s. store_ok Hs (rq_module s))
    (put_cleanup tmp st s)"
proof -
  have w: "blobs_within (rq_module t) t" for t :: "blob_fs request" by (simp add: files_within_same)
  note c = after_within_store_ok [OF _ within_close [OF w]]
  note u = after_within_store_ok [OF _ within_unlink [OF w]]
  show ?thesis
    unfolding put_cleanup_def after_proceed
    by (rule after_mono [OF c [OF assms]]) (auto intro: after_mono [OF u])
qed

lemma store_ok_arbor:
  assumes "received em (Hs root) w tmp want digest s" and "root \<in> set store_roots" and "store_ok Hs w"
    and "blob_name digest" and "NUL \<notin> set tmp" and "concat (map encode_byte want) = digest"
    and "concat (map encode_byte (Hs root [])) = em"
  shows "after (\<lambda>_ s. store_ok Hs (rq_module s)) (\<lambda>s. store_ok Hs (rq_module s))
    (arbor_done (on_module (arbor_rename pid tmp (blob_path root digest)) s))"
proof -
  obtain res m where a: "arbor_rename pid tmp (blob_path root digest) (rq_module s) = (res, m)"
    by fastforce
  have "store_ok Hs m"
    by (rule placed_store_ok [OF placed_arbor_rename [OF a assms(5) blob_path_no_nul [OF assms(4,2)]] _ assms(2,4)])
      (use assms in \<open>auto simp: received_def receiving_def intro: store_ok_within\<close>)
  with a show ?thesis
    by (auto simp: arbor_done_def on_module_def split: arbor_result.splits)
qed

lemma store_ok_finish:
  assumes "files_within is_blob_path w (rq_module s)"
    and "d \<longrightarrow> received em (Hs root) w tmp want digest s"
    and "root \<in> set store_roots" and "store_ok Hs w" and "blob_name digest" and "NUL \<notin> set tmp"
    and "concat (map encode_byte want) = digest"
    and "concat (map encode_byte (Hs root [])) = em"
  shows "after (\<lambda>_ s. store_ok Hs (rq_module s)) (\<lambda>s. store_ok Hs (rq_module s))
    (put_finish root tmp d s)"
proof (cases d)
  case True
  let ?s = "make_path root (rq_digest s) s"
  have "rq_digest s = digest" using assms(2) True by (auto simp: received_def receiving_def)
  then have p: "fr_blob_path (rq_module ?s) = blob_path root digest"
    by (simp add: make_path_def blob_path_def)
  have "received em (Hs root) w tmp want digest ?s"
    using assms(2) True by (auto simp: received_def receiving_def make_path_def files_within_def)
  note st = store_ok_arbor [OF this assms(3-8)]
  have "after (\<lambda>_ t. after (\<lambda>_ s. store_ok Hs (rq_module s)) (\<lambda>s. store_ok Hs (rq_module s))
        (put_cleanup tmp 0 t)) (\<lambda>s. store_ok Hs (rq_module s))
      (arbor_done (on_module (arbor_rename (fr_pid (rq_module ?s)) tmp (blob_path root digest)) ?s))"
    by (rule after_mono [OF st]) (auto intro: store_ok_cleanup)
  with True show ?thesis by (simp add: put_finish_def Let_def p)
next
  case False
  with store_ok_cleanup [OF within_store_ok [OF assms(4,1)]] show ?thesis
    by (simp add: put_finish_def)
qed

lemma put_stream_sound:
  assumes "chunks_sound em (Hs root) chunks" and "root \<in> set store_roots"
    and "put_ready root em Hs r"
  shows "after (\<lambda>_ s. store_ok Hs (rq_module s)) (\<lambda>s. store_ok Hs (rq_module s))
    (put_stream chunks root r)"
proof -
  let ?tmp = "put_tmp_path r" and ?w = "rq_module r" and ?d = "rq_digest r"
  have ok: "store_ok Hs ?w" and nm: "blob_name ?d"
    and want: "concat (map encode_byte (fr_digest ?w)) = ?d"
    and emp: "concat (map encode_byte (Hs root [])) = em"
    and tmp: "\<not> is_blob_path ?tmp" "NUL \<notin> set ?tmp"
    using assms(3) by (auto simp: put_ready_def put_fresh_def put_tmp_path_ok)
  obtain x m where c: "io_fs_create ?tmp ?w = (x, m)" by fastforce
  note n = create_nodes [OF c]
  have m: "files_within is_blob_path ?w m" using n tmp(1) unfolding files_within_def by metis
  show ?thesis
  proof (cases x)
    case (Inl e)
    with c m ok show ?thesis
      by (auto simp: put_stream_def on_module_def intro: store_ok_within)
  next
    case (Inr u)
    let ?r = "r\<lparr>rq_module := m\<lparr>fr_blob_fd := Writing ?tmp\<rparr>\<rparr>"
    have "receiving ?w ?tmp (fr_digest ?w) ?d [] ?r"
      using n m Inr by (simp add: receiving_def within_blob_fd)
    then have got: "after (\<lambda>d s. files_within is_blob_path ?w (rq_module s) \<and>
          (d \<longrightarrow> received em (Hs root) ?w ?tmp (fr_digest ?w) ?d s))
        (\<lambda>s. files_within is_blob_path ?w (rq_module s)) (chunks ?tmp ?r)"
      using assms(1) tmp(1) by (simp add: chunks_sound_def)
    have "after (\<lambda>d t. after (\<lambda>_ s. store_ok Hs (rq_module s)) (\<lambda>s. store_ok Hs (rq_module s))
          (put_finish root ?tmp d t)) (\<lambda>s. store_ok Hs (rq_module s)) (chunks ?tmp ?r)"
      by (rule after_mono [OF got])
        (use store_ok_finish [OF _ _ assms(2) ok nm tmp(2) want emp] within_store_ok [OF ok] in auto)
    with c Inr show ?thesis
      by (simp add: put_stream_def Let_def on_module_def)
  qed
qed

section \<open>Sending a blob\<close>

lemma fs_touch_shape: "fs_touch w = (x, w') \<Longrightarrow> \<exists>f. w' = w\<lparr>fs_faults := f\<rparr>"
  by (auto simp: fs_touch_def fs_call_def split: prod.splits option.splits)

lemma stream_read_shape:
  "stream_read n got rest w = (x, w') \<Longrightarrow> \<exists>f. w' = w\<lparr>fs_faults := f\<rparr>"
proof (induction n got rest w arbitrary: x w' rule: stream_read.induct)
  case (1 n got rest w)
  obtain st w1 where t: "fs_touch w = (st, w1)" by fastforce
  obtain f where f: "w1 = w\<lparr>fs_faults := f\<rparr>" using fs_touch_shape [OF t] by blast
  have self: "\<exists>f. w = w\<lparr>fs_faults := f\<rparr>" by (rule exI [of _ "fs_faults w"]) simp
  show ?case
  proof (cases "n = 0 \<or> (\<exists>e. st = Inl e) \<or> rest = []")
    case True
    with self "1.prems" t f show ?thesis
      by (subst (asm) stream_read.simps [of n got rest w]) (auto split: if_splits sum.splits)
  next
    case False
    then have "st = Inr ()" by (cases st) auto
    with False "1.prems" t "1.IH" [of st w1 "()" x w'] f show ?thesis
      by (auto simp: stream_read.simps [of n got rest w])
  qed
qed

lemma stream_read_grows: "stream_read n got rest w = (Some (got', rest'), w') \<Longrightarrow> \<exists>x. got' = got @ x"
proof (induction n got rest w rule: stream_read.induct)
  case (1 n got rest w)
  then show ?case
    by (subst (asm) stream_read.simps [of n got rest w])
      (fastforce split: if_splits prod.splits sum.splits)
qed

lemma stream_read_end:
  assumes "stream_read CHUNK_SIZE [] rest w = (Some ([], rest'), w')"
  shows "rest = []"
proof (rule ccontr)
  assume ne: "rest \<noteq> []"
  obtain st w1 where t: "fs_touch w = (st, w1)" by fastforce
  show False
    using assms ne t
    by (subst (asm) stream_read.simps)
      (auto simp: CHUNK_SIZE_def split: sum.splits dest!: stream_read_grows)
qed

text \<open>The loop sends a prefix of the file, and all of it when it ends well.\<close>

definition sending :: "bytes \<Rightarrow> bytes \<Rightarrow> blob_fs request \<Rightarrow> bytes option \<Rightarrow> blob_fs request \<Rightarrow> bool" where
  "sending ctx rest r c s \<longleftrightarrow>
     sent_prefix rest r s \<and> fr_digest (rq_module s) = fr_digest (rq_module r) \<and>
     (\<forall>bs. c = Some bs \<longrightarrow> bs = ctx @ rest \<and> rq_sent s = rq_sent r @ rest)"

lemma sent_blob_loop:
  "after (sending ctx rest r) (sent_prefix rest r)
     (blob_loop (\<lambda>chunk r. blob_write r chunk) ctx rest r)"
proof (induction "length rest" arbitrary: ctx rest r rule: less_induct)
  case less
  let ?loop = "blob_loop (\<lambda>chunk r. blob_write r chunk)"
  obtain x m where rd: "stream_read CHUNK_SIZE [] rest (rq_module r) = (x, m)" by fastforce
  obtain f where m: "m = (rq_module r)\<lparr>fs_faults := f\<rparr>" using stream_read_shape [OF rd] by blast
  show ?case
  proof (cases "x = None \<or> (\<exists>rest'. x = Some ([], rest'))")
    case True
    with rd m stream_read_end [of rest] show ?thesis
      by (auto simp: blob_loop.simps [of _ ctx rest r] sending_def)
  next
    case False
    then obtain chunk rest' where x: "x = Some (chunk, rest')" and ne: "chunk \<noteq> []" by (cases x) auto
    have rest: "rest = chunk @ rest'" using stream_read_split [OF rd [unfolded x]] by simp
    let ?r = "r\<lparr>rq_module := m\<rparr>"
    have step: "after (sending ctx rest r) (sent_prefix rest r)
        (if st \<noteq> 0 then Ret None s else ?loop (ctx @ chunk) rest' s)"
      if h: "same_call ?r s" "sent_prefix chunk ?r s" "st = 0 \<longrightarrow> rq_sent s = rq_sent ?r @ chunk"
      for st :: int and s
    proof (cases "st = 0")
      case True
      have sent: "rq_sent s = rq_sent r @ chunk" using h(3) True by simp
      have "after (sending ctx rest r) (sent_prefix rest r) (?loop (ctx @ chunk) rest' s)"
        by (rule after_mono [OF less.hyps])
          (use ne h(1) sent rest m sent_prefix_append [OF sent] in \<open>auto simp: same_call_def sending_def\<close>)
      with True show ?thesis by simp
    next
      case False
      have "sent_prefix chunk r s" using h(2) by (simp add: sent_prefix_def)
      with False h(1) m rest show ?thesis by (auto simp: same_call_def sending_def sent_prefix_more)
    qed
    have more: "sent_prefix chunk ?r s \<Longrightarrow> sent_prefix rest r s" for s
      using sent_prefix_more [of chunk r s rest'] by (simp add: rest sent_prefix_def)
    have "after (\<lambda>st s. after (sending ctx rest r) (sent_prefix rest r)
           (if st \<noteq> 0 then Ret None s else ?loop (ctx @ chunk) rest' s))
        (sent_prefix rest r) (blob_write ?r chunk)"
      by (rule after_mono [OF sent_blob_write])
        (use step more in auto)
    with rd x ne show ?thesis by (simp add: blob_loop.simps [of _ ctx rest r])
  qed
qed

lemma sent_close: "after (\<lambda>_ s. rq_sent s = rq_sent r) (\<lambda>s. rq_sent s = rq_sent r) (blob_close r)"
  by (auto simp: blob_close_def on_module_def split: prod.splits sum.splits)

lemma sent_unlink: "after (\<lambda>_ s. rq_sent s = rq_sent r) (\<lambda>s. rq_sent s = rq_sent r) (blob_unlink p r)"
  by (auto simp: blob_unlink_def on_module_def split: prod.splits sum.splits)

definition handed_over :: "(bytes \<Rightarrow> ui8 list) \<Rightarrow> bytes \<Rightarrow> blob_fs request \<Rightarrow> int \<Rightarrow> blob_fs request \<Rightarrow> bool" where
  "handed_over H bs r = (\<lambda>st s. sent_prefix bs r s \<and>
     (st = 0 \<longrightarrow> rq_sent s = rq_sent r @ bs \<and> H bs = fr_digest (rq_module r)))"

lemma get_bytes_checked_sound:
  assumes "fr_blob_fd (rq_module r) = Reading bs"
  shows "after (handed_over H bs r) (sent_prefix bs r) (get_bytes_checked H r)"
proof -
  have rd: "reading r = bs" using assms by (simp add: reading_def)
  have close: "handed_over H bs r st s \<Longrightarrow>
      after (handed_over H bs r) (sent_prefix bs r) (proceed (blob_close s) (\<lambda>_ r. Ret st r))" for st s
    unfolding after_proceed by (rule after_mono [OF sent_close]) (simp_all add: handed_over_def sent_prefix_def)
  have zap: "sent_prefix bs r s \<Longrightarrow>
      after (handed_over H bs r) (sent_prefix bs r) (proceed (zap_blob (log_error s)) (\<lambda>_ r. child_panic r))" for s
    unfolding after_proceed zap_blob_def
    by (rule after_mono [OF sent_unlink]) (simp_all add: sent_prefix_def)
  show ?thesis
    unfolding get_bytes_checked_def rd after_proceed [of _ _ "blob_loop _ _ _ _"]
    by (rule after_mono [OF sent_blob_loop])
      (use close zap in \<open>auto simp: sending_def handed_over_def simp del: after_proceed split: option.splits\<close>)
qed

end
