(* ===== verification/Fs_Sha.thy ===== *)
theory Fs_Sha
  imports Fs_Store
begin

text \<open>
  The digest module \<^verbatim>\<open>sha\<close> of \<^verbatim>\<open>bio4d/fs_sha.c\<close>: blobs below \<^verbatim>\<open>data/fs_sha\<close>, named by their SHA1,
  which is the parameter \<open>H\<close>.
\<close>

section \<open>The callbacks\<close>

definition fs_sha_root :: bytes where "fs_sha_root = ''data/fs_sha''"

definition empty_ascii :: bytes where
  "empty_ascii = ''da39a3ee5e6b4b0d3255bfef95601890afd80709''"

text \<open>\<^verbatim>\<open>fs_sha_open\<close>: a digest of more than forty characters would be written past its twenty bytes.\<close>

definition fs_sha_open :: "blob_fs callback" where
  "fs_sha_open r =
     (let s = (rq_module r)\<lparr>fr_blob_dir_path := [], fr_blob_path := [],
            fr_digest := replicate 20 0, fr_blob_fd := NoFd\<rparr>
      in if rq_verb r = ''wrap'' then Ret 0 (r\<lparr>rq_module := s\<rparr>)
         else case decode_hex (rq_digest r) (replicate 20 0) of
           None \<Rightarrow> child_panic r
         | Some want \<Rightarrow> Ret 0 (r\<lparr>rq_module := s\<lparr>fr_digest := want\<rparr>\<rparr>))"

definition fs_sha_get_request :: "blob_fs callback" where
  "fs_sha_get_request r = get_request fs_sha_root r"

definition fs_sha_get_bytes :: "(bytes \<Rightarrow> ui8 list) \<Rightarrow> blob_fs callback" where
  "fs_sha_get_bytes H r = get_bytes_checked H r"

definition fs_sha_copy :: "(bytes \<Rightarrow> ui8 list) \<Rightarrow> bytes \<Rightarrow> blob_fs callback" where
  "fs_sha_copy H out r = copy_checked fs_sha_root H out r"

definition fs_sha_eat :: "(bytes \<Rightarrow> ui8 list) \<Rightarrow> blob_fs callback" where
  "fs_sha_eat H r = eat_checked fs_sha_root H r"

definition fs_sha_put_request :: "blob_fs callback" where
  "fs_sha_put_request r = Ret 0 r"

text \<open>The temporary file is removed before the two panics on the scanned bytes.\<close>

definition sha_put_chunks ::
  "(bytes \<Rightarrow> ui8 list) \<Rightarrow> bytes \<Rightarrow> blob_fs request \<Rightarrow> (bool, blob_fs request) outcome" where
  "sha_put_chunks H tmp r =
     (if rq_digest r = empty_ascii then Ret True r
      else if rq_scan_buf r \<noteq> [] then
        if of_nat (length (rq_scan_buf r)) \<noteq> rq_blob_size r then
          child_panic (snd (on_module (io_fs_unlink tmp) r))
        else if length (rq_scan_buf r) > CHUNK_SIZE - 1 then
          child_panic (snd (on_module (io_fs_unlink tmp) r))
        else put_scanned H tmp r
      else put_loop H tmp 0 [] r)"

definition fs_sha_put_bytes :: "(bytes \<Rightarrow> ui8 list) \<Rightarrow> blob_fs callback" where
  "fs_sha_put_bytes H r = put_stream (sha_put_chunks H) fs_sha_root r"

definition fs_sha_take_request :: "blob_fs callback" where
  "fs_sha_take_request r = fs_sha_get_request r"

definition fs_sha_take_bytes :: "(bytes \<Rightarrow> ui8 list) \<Rightarrow> blob_fs callback" where
  "fs_sha_take_bytes H r = fs_sha_get_bytes H r"

definition fs_sha_take_reply :: "bytes \<Rightarrow> blob_fs callback" where
  "fs_sha_take_reply reply r = unlink_on_ok reply r"

definition fs_sha_give_request :: "blob_fs callback" where
  "fs_sha_give_request r = Ret 0 r"

definition fs_sha_give_bytes :: "(bytes \<Rightarrow> ui8 list) \<Rightarrow> blob_fs callback" where
  "fs_sha_give_bytes H r = fs_sha_put_bytes H r"

definition fs_sha_give_reply :: "bytes \<Rightarrow> blob_fs callback" where
  "fs_sha_give_reply reply r = Ret 0 r"

definition fs_sha_digest ::
  "(bytes \<Rightarrow> ui8 list) \<Rightarrow> bytes \<Rightarrow> blob_fs request \<Rightarrow> (bytes option, blob_fs request) outcome" where
  "fs_sha_digest H stream r =
     (let drift = next_drift (sha_drift (rq_module r));
          r = r\<lparr>rq_module := (rq_module r)\<lparr>sha_drift := drift\<rparr>\<rparr>
      in store_stream fs_sha_root H (digest_tmp_path drift r) stream r)"

section \<open>The syntax of digests and the module\<close>

text \<open>\<^verbatim>\<open>fs_sha_is_digest\<close> over a C string, \<^verbatim>\<open>NUL\<close> standing for what is behind its end.\<close>

definition sha_digit :: "char \<Rightarrow> bool" where
  "sha_digit c \<longleftrightarrow> c \<noteq> NUL \<and> c_isxdigit c \<and> \<not> (c_isalpha c \<and> \<not> c_islower c)"

fun sha_scan_digest :: "nat \<Rightarrow> bytes \<Rightarrow> bool" where
  "sha_scan_digest 0 d = (d = [])"
| "sha_scan_digest (Suc n) [] = False"
| "sha_scan_digest (Suc n) (c # d) = (sha_digit c \<and> sha_scan_digest n d)"

definition fs_sha_is_digest :: "bytes \<Rightarrow> nat" where
  "fs_sha_is_digest digest =
     (if \<not> sha_scan_digest 40 digest then 0
      else if take 3 digest = ''da3'' then if digest = empty_ascii then 2 else 1
      else 1)"

definition fs_sha_close :: "int \<Rightarrow> blob_fs callback" where
  "fs_sha_close status r = proceed (blob_close r) (\<lambda>_ r. Ret 0 r)"

definition fs_sha_boot :: "'s fs_scheme \<Rightarrow> bool \<times> 's fs_scheme" where
  "fs_sha_boot w = fs_boot fs_sha_root w"

definition fs_sha_module :: "(bytes \<Rightarrow> ui8 list) \<Rightarrow> blob_fs digest_module" where
  "fs_sha_module H =
     \<lparr>dm_name = ''sha'', dm_open = fs_sha_open,
      dm_get_request = fs_sha_get_request, dm_get_bytes = fs_sha_get_bytes H,
      dm_take_request = fs_sha_take_request, dm_take_bytes = fs_sha_take_bytes H,
      dm_take_reply = fs_sha_take_reply, dm_copy = fs_sha_copy H,
      dm_put_request = fs_sha_put_request, dm_put_bytes = fs_sha_put_bytes H,
      dm_give_request = fs_sha_give_request, dm_give_bytes = fs_sha_give_bytes H,
      dm_give_reply = fs_sha_give_reply,
      dm_eat = fs_sha_eat H, dm_digest = fs_sha_digest H,
      dm_is_digest = fs_sha_is_digest, dm_close = fs_sha_close\<rparr>"

section \<open>Digests\<close>

lemma sha_digit_hexchar: "sha_digit c \<longleftrightarrow> c \<in> set hexchar"
proof
  assume d: "sha_digit c"
  have "48 \<le> code c \<and> code c < 58 \<or> 97 \<le> code c \<and> code c < 103"
    using d by (auto simp: sha_digit_def ctype_defs)
  then have "code c \<in> set ([48..<58] @ [97..<103])"
    by (simp only: set_append Un_iff set_upt atLeastLessThan_iff)
  moreover have "list_all (\<lambda>k. char_of k \<in> set hexchar) ([48..<58] @ [97..<103 :: nat])" by code_simp
  ultimately have "char_of (code c) \<in> set hexchar" by (simp only: list_all_iff)
  then show "c \<in> set hexchar" by simp
qed (auto simp: hexchar_def sha_digit_def ctype_defs)

lemma sha_scan_iff: "sha_scan_digest n d \<longleftrightarrow> length d = n \<and> set d \<subseteq> set hexchar"
  by (induction n d rule: sha_scan_digest.induct) (auto simp: sha_digit_hexchar)

text \<open>
  \<^verbatim>\<open>fs_sha_is_digest\<close> accepts exactly the forty lower case hexadecimal digits, and singles out
  the digest of the empty blob.
\<close>

theorem fs_sha_is_digest_correct:
  "fs_sha_is_digest d =
     (if length d = 40 \<and> set d \<subseteq> set hexchar then if d = empty_ascii then 2 else 1 else 0)"
proof -
  have "take 3 empty_ascii = ''da3''" by (simp add: empty_ascii_def)
  then show ?thesis by (auto simp: fs_sha_is_digest_def sha_scan_iff)
qed

lemma sha_is_digest_name: "fs_sha_is_digest d \<noteq> 0 \<Longrightarrow> blob_name d"
  by (auto simp: fs_sha_is_digest_def sha_scan_iff blob_name_def split: if_splits)

section \<open>Storing and sending\<close>

lemma sha_chunks_sound: "chunks_sound empty_ascii H (sha_put_chunks H)"
  unfolding chunks_sound_def sha_put_chunks_def
  by (auto simp: receiving_unlink receiving_within received_loop received_scanned
      intro: received_empty) (auto simp: received_def receiving_def)

text \<open>
  C14: \<^verbatim>\<open>fs_sha_get_bytes\<close> never passes off a corrupt blob.  Whatever the client, the network and
  the file system do, the client has received a prefix of the stored file, and when the call
  returns 0 it has received the whole file and the file has the digest that was asked for.
\<close>

theorem fs_sha_get_bytes_correct:
  assumes "fr_blob_fd (rq_module r) = Reading bs"
  shows "after (\<lambda>st s. sent_prefix bs r s \<and>
      (st = 0 \<longrightarrow> rq_sent s = rq_sent r @ bs \<and> H bs = fr_digest (rq_module r)))
    (sent_prefix bs r) (fs_sha_get_bytes H r)"
  using get_bytes_checked_sound [OF assms, of H] by (simp add: fs_sha_get_bytes_def handed_over_def)

text \<open>A child with an empty file system and an open blob, and a digest that is the length.\<close>

definition a_sha_fs :: blob_fs where
  "a_sha_fs = \<lparr>fs_nodes = [], fs_faults = [], fs_dev = (\<lambda>_. 0), fr_blob_dir_path = [],
     fr_blob_path = [], fr_digest = [2], fr_blob_fd = NoFd, sha_drift = 0, bc160_drift = 0, btc20_drift = 0, fr_time = 0,
     fr_pid = 7, fr_tmp_map = None, fr_tmp_default = ''tmp'',
     lg_stamp = 0, lg_seq = 0, lg_pending = []\<rparr>"

definition a_sha_request :: "blob_fs request" where
  "a_sha_request = req_init [] \<lparr>tv_sec = 0, tv_nsec = 0\<rparr> [] (a_sha_fs\<lparr>fr_blob_fd := Reading ''ab''\<rparr>)"

definition length_digest :: "bytes \<Rightarrow> ui8 list" where
  "length_digest bs = [of_nat (length bs)]"

lemma a_get_bytes:
  "fs_sha_get_bytes length_digest a_sha_request =
     Ret 0 (a_sha_request\<lparr>rq_module := a_sha_fs, rq_sent := ''ab'', rq_blob_size := 2\<rparr>)"
  by (simp add: fs_sha_get_bytes_def get_bytes_checked_def a_sha_request_def a_sha_fs_def reading_def blob_loop.simps
      stream_read.simps CHUNK_SIZE_def fs_touch_def fs_call_def blob_write_def req_write_def
      net_write_def net_write_loop.simps req_init_def length_digest_def blob_close_def on_module_def)

theorem fs_sha_get_bytes_correct_witness:
  "fs_sha_get_bytes length_digest a_sha_request =
     Ret 0 (a_sha_request\<lparr>rq_module := a_sha_fs, rq_sent := ''ab'', rq_blob_size := 2\<rparr>) \<and>
   length_digest ''ab'' = [2]"
  using fs_sha_get_bytes_correct [of a_sha_request "''ab''" length_digest] a_get_bytes
  by (simp add: a_sha_request_def a_sha_fs_def req_init_def)

end
