(* ===== verification/Fs_Ripe.thy ===== *)
theory Fs_Ripe
  imports Fs_Sha
begin

text \<open>
  The digest modules \<^verbatim>\<open>bc160\<close> of \<^verbatim>\<open>bio4d/fs_bc160.c\<close>, which names a blob by the RIPEMD160 of its
  SHA256, and \<^verbatim>\<open>btc20\<close> of \<^verbatim>\<open>bio4d/fs_btc20.c\<close>, which takes the SHA256 twice.  The two files are
  copies of each other; what differs from \<^verbatim>\<open>fs_sha.c\<close> is the decoding of the digest, the option
  \<^verbatim>\<open>trust_fs\<close>, under which stored blobs are not digested again, and the guards of \<^verbatim>\<open>put_bytes\<close>.
  \<^verbatim>\<open>SHA256_Final\<close> writes 32 bytes in arrays of 20 bytes in both \<^verbatim>\<open>eat\<close> functions; the model gives the
  arrays the room.
\<close>

text \<open>The digests of OpenSSL, a parameter of the server.\<close>

record openssl =
  ossl_sha1 :: "bytes \<Rightarrow> ui8 list"
  ossl_sha256 :: "bytes \<Rightarrow> bytes"
  ossl_ripemd160 :: "bytes \<Rightarrow> ui8 list"

section \<open>What the two modules share\<close>

text \<open>\<^verbatim>\<open>nib2digest\<close>: always forty characters, \<^verbatim>\<open>NUL\<close> standing for those behind the end.\<close>

definition nib_of :: "char \<Rightarrow> ui8" where
  "nib_of c =
     (if 48 \<le> code c \<and> code c \<le> 57 then of_nat (code c - 48) else of_nat (code c) - 97 + 10)"

definition nib2digest :: "bytes \<Rightarrow> ui8 list" where
  "nib2digest h =
     map (\<lambda>i. or (push_bit 4 (nib_of (cstr_at h (2 * i)))) (nib_of (cstr_at h (2 * i + 1)))) [0..<20]"

definition ripe_open :: "blob_fs callback" where
  "ripe_open r =
     (let s = (rq_module r)\<lparr>fr_blob_dir_path := [], fr_blob_path := [],
            fr_digest := replicate 20 0, fr_blob_fd := NoFd\<rparr>
      in Ret 0 (r\<lparr>rq_module :=
           (if rq_verb r = ''wrap'' then s else s\<lparr>fr_digest := nib2digest (rq_digest r)\<rparr>)\<rparr>))"

text \<open>The trusting variants: no digest is computed.\<close>

definition get_bytes_trusted :: "blob_fs callback" where
  "get_bytes_trusted r =
     proceed (blob_loop (\<lambda>chunk r. blob_write r chunk) [] (reading r) r) (\<lambda>ctx r.
       proceed (blob_close r) (\<lambda>_ r. Ret (if ctx = None then -1 else 0) r))"

definition copy_trusted :: "bytes \<Rightarrow> bytes \<Rightarrow> blob_fs callback" where
  "copy_trusted root out r =
     proceed (get_request root r) (\<lambda>status r.
       if status \<noteq> 0 then Ret 1 r
       else proceed (blob_loop (stream_append out) [] (reading r) r) (\<lambda>ctx r.
         if ctx = None then proceed (blob_close (log_error r)) (\<lambda>_ r. Ret (-1) r)
         else proceed (blob_close r) (\<lambda>_ r. Ret 0 r)))"

definition eat_trusted :: "bytes \<Rightarrow> blob_fs callback" where
  "eat_trusted root r =
     (let r = make_path root (rq_digest r) r in
      case on_module (io_fs_lstat (fr_blob_path (rq_module r))) r of
        (Inl e, r1) \<Rightarrow> if e = ENOENT then Ret 1 r1 else child_panic r1
      | (Inr _, r1) \<Rightarrow> Ret 0 r1)"

text \<open>The first part of \<^verbatim>\<open>put_bytes\<close>; a panic leaves the temporary file behind.\<close>

definition ripe_put_chunks ::
  "bytes \<Rightarrow> (bytes \<Rightarrow> ui8 list) \<Rightarrow> bytes \<Rightarrow> blob_fs request \<Rightarrow> (bool, blob_fs request) outcome" where
  "ripe_put_chunks em H tmp r =
     (if rq_digest r = em then Ret True r
      else if rq_scan_buf r \<noteq> [] then
        if of_nat (length (rq_scan_buf r)) \<noteq> rq_blob_size r then child_panic r
        else if length (rq_scan_buf r) > CHUNK_SIZE - 1 then child_panic r
        else put_scanned H tmp r
      else put_loop H tmp 0 [] r)"

section \<open>The module bc160\<close>

definition fs_bc160_root :: bytes where "fs_bc160_root = ''data/fs_bc160''"

definition bc160_empty :: bytes where
  "bc160_empty = ''b472a266d0bd89c13706a4132ccfb16f7c3b9fcb''"

definition bc160_hash :: "openssl \<Rightarrow> bytes \<Rightarrow> ui8 list" where
  "bc160_hash ssl bs = ossl_ripemd160 ssl (ossl_sha256 ssl bs)"

definition fs_bc160_open :: "blob_fs callback" where
  "fs_bc160_open r = ripe_open r"

definition fs_bc160_get_request :: "blob_fs callback" where
  "fs_bc160_get_request r = get_request fs_bc160_root r"

definition fs_bc160_get_bytes :: "openssl \<Rightarrow> bool \<Rightarrow> blob_fs callback" where
  "fs_bc160_get_bytes ssl trust r =
     (if trust then get_bytes_trusted r else get_bytes_checked (bc160_hash ssl) r)"

definition fs_bc160_copy :: "openssl \<Rightarrow> bool \<Rightarrow> bytes \<Rightarrow> blob_fs callback" where
  "fs_bc160_copy ssl trust out r =
     (if trust then copy_trusted fs_bc160_root out r
      else copy_checked fs_bc160_root (bc160_hash ssl) out r)"

definition fs_bc160_eat :: "openssl \<Rightarrow> bool \<Rightarrow> blob_fs callback" where
  "fs_bc160_eat ssl trust r =
     (if trust then eat_trusted fs_bc160_root r
      else eat_checked fs_bc160_root (bc160_hash ssl) r)"

definition fs_bc160_put_request :: "blob_fs callback" where
  "fs_bc160_put_request r = Ret 0 r"

definition fs_bc160_put_bytes :: "openssl \<Rightarrow> blob_fs callback" where
  "fs_bc160_put_bytes ssl r =
     put_stream (ripe_put_chunks bc160_empty (bc160_hash ssl)) fs_bc160_root r"

definition fs_bc160_take_request :: "blob_fs callback" where
  "fs_bc160_take_request r = fs_bc160_get_request r"

definition fs_bc160_take_bytes :: "openssl \<Rightarrow> bool \<Rightarrow> blob_fs callback" where
  "fs_bc160_take_bytes ssl trust r = fs_bc160_get_bytes ssl trust r"

definition fs_bc160_take_reply :: "bytes \<Rightarrow> blob_fs callback" where
  "fs_bc160_take_reply reply r = unlink_on_ok reply r"

definition fs_bc160_give_request :: "blob_fs callback" where
  "fs_bc160_give_request r = Ret 0 r"

definition fs_bc160_give_bytes :: "openssl \<Rightarrow> blob_fs callback" where
  "fs_bc160_give_bytes ssl r = fs_bc160_put_bytes ssl r"

definition fs_bc160_give_reply :: "bytes \<Rightarrow> blob_fs callback" where
  "fs_bc160_give_reply reply r = Ret 0 r"

definition fs_bc160_digest ::
  "openssl \<Rightarrow> bytes \<Rightarrow> blob_fs request \<Rightarrow> (bytes option, blob_fs request) outcome" where
  "fs_bc160_digest ssl stream r =
     (let drift = next_drift (bc160_drift (rq_module r));
          r = r\<lparr>rq_module := (rq_module r)\<lparr>bc160_drift := drift\<rparr>\<rparr>
      in store_stream fs_bc160_root (bc160_hash ssl) (digest_tmp_path drift r) stream r)"

text \<open>
  \<^verbatim>\<open>fs_bc160_is_digest\<close>: the quick check before the comparison with the empty digest has the first
  characters of the empty digest of \<^verbatim>\<open>sha\<close>.
\<close>

definition bc160_digit :: "char \<Rightarrow> bool" where
  "bc160_digit c \<longleftrightarrow> 48 \<le> code c \<and> code c \<le> 57 \<or> 97 \<le> code c \<and> code c \<le> 102"

definition fs_bc160_is_digest :: "bytes \<Rightarrow> nat" where
  "fs_bc160_is_digest digest =
     (if length digest \<noteq> 40 then 0
      else if \<not> list_all bc160_digit digest then 0
      else if take 3 digest = ''da3'' then if digest = bc160_empty then 2 else 1
      else 1)"

definition fs_bc160_close :: "int \<Rightarrow> blob_fs callback" where
  "fs_bc160_close status r = proceed (blob_close r) (\<lambda>_ r. Ret 0 r)"

definition fs_bc160_boot :: "'s fs_scheme \<Rightarrow> bool \<times> 's fs_scheme" where
  "fs_bc160_boot w = fs_boot fs_bc160_root w"

definition fs_bc160_module :: "openssl \<Rightarrow> bool \<Rightarrow> blob_fs digest_module" where
  "fs_bc160_module ssl trust =
     \<lparr>dm_name = ''bc160'', dm_open = fs_bc160_open,
      dm_get_request = fs_bc160_get_request, dm_get_bytes = fs_bc160_get_bytes ssl trust,
      dm_take_request = fs_bc160_take_request, dm_take_bytes = fs_bc160_take_bytes ssl trust,
      dm_take_reply = fs_bc160_take_reply, dm_copy = fs_bc160_copy ssl trust,
      dm_put_request = fs_bc160_put_request, dm_put_bytes = fs_bc160_put_bytes ssl,
      dm_give_request = fs_bc160_give_request, dm_give_bytes = fs_bc160_give_bytes ssl,
      dm_give_reply = fs_bc160_give_reply,
      dm_eat = fs_bc160_eat ssl trust, dm_digest = fs_bc160_digest ssl,
      dm_is_digest = fs_bc160_is_digest,
      dm_close = fs_bc160_close\<rparr>"

section \<open>The module btc20\<close>

definition fs_btc20_root :: bytes where "fs_btc20_root = ''data/fs_btc20''"

definition btc20_empty :: bytes where
  "btc20_empty = ''fd7b15dc5dc2039556693555c2b81b36c8deec15''"

definition btc20_hash :: "openssl \<Rightarrow> bytes \<Rightarrow> ui8 list" where
  "btc20_hash ssl bs = ossl_ripemd160 ssl (ossl_sha256 ssl (ossl_sha256 ssl bs))"

definition fs_btc20_open :: "blob_fs callback" where
  "fs_btc20_open r = ripe_open r"

definition fs_btc20_get_request :: "blob_fs callback" where
  "fs_btc20_get_request r = get_request fs_btc20_root r"

definition fs_btc20_get_bytes :: "openssl \<Rightarrow> bool \<Rightarrow> blob_fs callback" where
  "fs_btc20_get_bytes ssl trust r =
     (if trust then get_bytes_trusted r else get_bytes_checked (btc20_hash ssl) r)"

definition fs_btc20_copy :: "openssl \<Rightarrow> bool \<Rightarrow> bytes \<Rightarrow> blob_fs callback" where
  "fs_btc20_copy ssl trust out r =
     (if trust then copy_trusted fs_btc20_root out r
      else copy_checked fs_btc20_root (btc20_hash ssl) out r)"

definition fs_btc20_eat :: "openssl \<Rightarrow> bool \<Rightarrow> blob_fs callback" where
  "fs_btc20_eat ssl trust r =
     (if trust then eat_trusted fs_btc20_root r
      else eat_checked fs_btc20_root (btc20_hash ssl) r)"

definition fs_btc20_put_request :: "blob_fs callback" where
  "fs_btc20_put_request r = Ret 0 r"

definition fs_btc20_put_bytes :: "openssl \<Rightarrow> blob_fs callback" where
  "fs_btc20_put_bytes ssl r =
     put_stream (ripe_put_chunks btc20_empty (btc20_hash ssl)) fs_btc20_root r"

definition fs_btc20_take_request :: "blob_fs callback" where
  "fs_btc20_take_request r = fs_btc20_get_request r"

definition fs_btc20_take_bytes :: "openssl \<Rightarrow> bool \<Rightarrow> blob_fs callback" where
  "fs_btc20_take_bytes ssl trust r = fs_btc20_get_bytes ssl trust r"

definition fs_btc20_take_reply :: "bytes \<Rightarrow> blob_fs callback" where
  "fs_btc20_take_reply reply r = unlink_on_ok reply r"

definition fs_btc20_give_request :: "blob_fs callback" where
  "fs_btc20_give_request r = Ret 0 r"

definition fs_btc20_give_bytes :: "openssl \<Rightarrow> blob_fs callback" where
  "fs_btc20_give_bytes ssl r = fs_btc20_put_bytes ssl r"

definition fs_btc20_give_reply :: "bytes \<Rightarrow> blob_fs callback" where
  "fs_btc20_give_reply reply r = Ret 0 r"

definition fs_btc20_digest ::
  "openssl \<Rightarrow> bytes \<Rightarrow> blob_fs request \<Rightarrow> (bytes option, blob_fs request) outcome" where
  "fs_btc20_digest ssl stream r =
     (let drift = next_drift (btc20_drift (rq_module r));
          r = r\<lparr>rq_module := (rq_module r)\<lparr>btc20_drift := drift\<rparr>\<rparr>
      in store_stream fs_btc20_root (btc20_hash ssl) (digest_tmp_path drift r) stream r)"

text \<open>\<^verbatim>\<open>fs_btc20_is_digest\<close>: the loop of \<^verbatim>\<open>fs_sha_is_digest\<close>.\<close>

definition fs_btc20_is_digest :: "bytes \<Rightarrow> nat" where
  "fs_btc20_is_digest digest =
     (if \<not> sha_scan_digest 40 digest then 0
      else if take 3 digest = ''fd7'' then if digest = btc20_empty then 2 else 1
      else 1)"

definition fs_btc20_close :: "int \<Rightarrow> blob_fs callback" where
  "fs_btc20_close status r = proceed (blob_close r) (\<lambda>_ r. Ret 0 r)"

definition fs_btc20_boot :: "'s fs_scheme \<Rightarrow> bool \<times> 's fs_scheme" where
  "fs_btc20_boot w = fs_boot fs_btc20_root w"

definition fs_btc20_module :: "openssl \<Rightarrow> bool \<Rightarrow> blob_fs digest_module" where
  "fs_btc20_module ssl trust =
     \<lparr>dm_name = ''btc20'', dm_open = fs_btc20_open,
      dm_get_request = fs_btc20_get_request, dm_get_bytes = fs_btc20_get_bytes ssl trust,
      dm_take_request = fs_btc20_take_request, dm_take_bytes = fs_btc20_take_bytes ssl trust,
      dm_take_reply = fs_btc20_take_reply, dm_copy = fs_btc20_copy ssl trust,
      dm_put_request = fs_btc20_put_request, dm_put_bytes = fs_btc20_put_bytes ssl,
      dm_give_request = fs_btc20_give_request, dm_give_bytes = fs_btc20_give_bytes ssl,
      dm_give_reply = fs_btc20_give_reply,
      dm_eat = fs_btc20_eat ssl trust, dm_digest = fs_btc20_digest ssl,
      dm_is_digest = fs_btc20_is_digest,
      dm_close = fs_btc20_close\<rparr>"

section \<open>Digests\<close>

lemma bc160_digit_hexchar: "bc160_digit c \<longleftrightarrow> c \<in> set hexchar"
proof
  assume "bc160_digit c"
  then have "48 \<le> code c \<and> code c < 58 \<or> 97 \<le> code c \<and> code c < 103" by (auto simp: bc160_digit_def)
  then have "code c \<in> set ([48..<58] @ [97..<103])"
    by (simp only: set_append Un_iff set_upt atLeastLessThan_iff)
  moreover have "list_all (\<lambda>k. char_of k \<in> set hexchar) ([48..<58] @ [97..<103 :: nat])" by code_simp
  ultimately have "char_of (code c) \<in> set hexchar" by (simp only: list_all_iff)
  then show "c \<in> set hexchar" by simp
qed (auto simp: hexchar_def bc160_digit_def)

lemma bc160_is_digest_name: "fs_bc160_is_digest d = (if blob_name d then 1 else 0)"
proof -
  have "take 3 bc160_empty = ''b47''" by (simp add: bc160_empty_def)
  moreover have "list_all bc160_digit d \<longleftrightarrow> set d \<subseteq> set hexchar"
    by (auto simp: list_all_iff bc160_digit_hexchar)
  ultimately show ?thesis by (auto simp: fs_bc160_is_digest_def blob_name_def)
qed

lemma btc20_is_digest_name:
  "fs_btc20_is_digest d = (if blob_name d then if d = btc20_empty then 2 else 1 else 0)"
proof -
  have "take 3 btc20_empty = ''fd7''" by (simp add: btc20_empty_def)
  then show ?thesis by (auto simp: fs_btc20_is_digest_def blob_name_def sha_scan_iff)
qed

lemma ripe_is_digest_pos:
  "0 < fs_bc160_is_digest d \<longleftrightarrow> blob_name d" "0 < fs_btc20_is_digest d \<longleftrightarrow> blob_name d"
  by (simp_all add: bc160_is_digest_name btc20_is_digest_name)

text \<open>
  The syntax of the digests of \<^verbatim>\<open>bc160\<close> and \<^verbatim>\<open>btc20\<close> is that of \<^verbatim>\<open>sha\<close>, forty lower case
  hexadecimal digits, and \<^verbatim>\<open>btc20\<close> singles out the digest of the empty blob; \<^verbatim>\<open>bc160\<close> never does,
  since its quick check looks for the first characters of the empty digest of \<^verbatim>\<open>sha\<close>.
\<close>

theorem ripe_is_digest_correct:
  "fs_bc160_is_digest d = (if length d = 40 \<and> set d \<subseteq> set hexchar then 1 else 0) \<and>
   fs_btc20_is_digest d =
     (if length d = 40 \<and> set d \<subseteq> set hexchar then if d = btc20_empty then 2 else 1 else 0) \<and>
   fs_bc160_is_digest bc160_empty = 1"
proof -
  have "length bc160_empty = 40 \<and> set bc160_empty \<subseteq> set hexchar"
    by (simp add: bc160_empty_def hexchar_def)
  then show ?thesis
    by (simp add: bc160_is_digest_name btc20_is_digest_name blob_name_def)
qed

text \<open>\<^verbatim>\<open>nib2digest\<close> inverts the text of a digest.\<close>

lemma encode_nibs:
  assumes "c1 \<in> set hexchar" and "c2 \<in> set hexchar"
  shows "encode_byte (or (push_bit 4 (nib_of c1)) (nib_of c2)) = [c1, c2]"
proof -
  have "list_all (\<lambda>c1. list_all (\<lambda>c2.
      encode_byte (or (push_bit 4 (nib_of c1)) (nib_of c2)) = [c1, c2]) hexchar) hexchar"
    by code_simp
  with assms show ?thesis by (simp add: list_all_iff)
qed

lemma pairs_concat: "length d = 2 * n \<Longrightarrow> concat (map (\<lambda>i. [d ! (2 * i), d ! (2 * i + 1)]) [0..<n]) = d"
proof (induction n arbitrary: d)
  case (Suc n)
  let ?d = "take (2 * n) d"
  have "concat (map (\<lambda>i. [?d ! (2 * i), ?d ! (2 * i + 1)]) [0..<n]) = ?d"
    using Suc.prems by (intro Suc.IH) simp
  moreover have "map (\<lambda>i. [?d ! (2 * i), ?d ! (2 * i + 1)]) [0..<n] =
      map (\<lambda>i. [d ! (2 * i), d ! (2 * i + 1)]) [0..<n]" by simp
  moreover have "d = ?d @ [d ! (2 * n), d ! (2 * n + 1)]"
    using Suc.prems by (intro nth_equalityI) (auto simp: nth_append less_Suc_eq)
  ultimately show ?case by (metis (no_types, lifting) concat.simps concat_append list.simps(8,9)
        map_append append_Nil2 upt_Suc_append zero_le)
qed simp

lemma nib2digest_name:
  assumes "blob_name d"
  shows "concat (map encode_byte (nib2digest d)) = d"
proof -
  have l: "length d = 2 * 20" using assms by (simp add: blob_name_def)
  have c: "cstr_at d i = d ! i" "d ! i \<in> set hexchar" if "i < 40" for i
    using that l assms by (auto simp: cstr_at_def blob_name_def)
  have "map encode_byte (nib2digest d) = map (\<lambda>i. [d ! (2 * i), d ! (2 * i + 1)]) [0..<20]"
    unfolding nib2digest_def map_map
    by (rule map_cong [OF refl]) (simp add: c encode_nibs)
  with pairs_concat [OF l] show ?thesis by simp
qed

lemma ripe_chunks_sound: "chunks_sound em H (ripe_put_chunks em H)"
  unfolding chunks_sound_def ripe_put_chunks_def
  by (auto simp: receiving_within received_loop received_scanned intro: received_empty)
    (auto simp: received_def receiving_def)

end
