(* ===== verification/Verb_Contract.thy ===== *)
theory Verb_Contract
  imports Verbs Request_Frame
begin

text \<open>
  The contract between the verb handlers and a digest module, as a locale.  A module promises that
  its callbacks never answer the client themselves and that its state stays safe in every outcome,
  given that the request was opened; the handlers then keep the state safe and talk to the client
  in the words of the protocol.
\<close>

section \<open>Talking to the client\<close>

text \<open>A call that leaves the chat history alone and ends in a safe state of the module.\<close>

definition quiet_call ::
  "('m \<Rightarrow> bool) \<Rightarrow> 'm request \<Rightarrow> ('a \<Rightarrow> 'm request \<Rightarrow> bool) \<Rightarrow> ('a, 'm request) outcome \<Rightarrow> bool" where
  "quiet_call Safe r Q m \<longleftrightarrow>
     after (\<lambda>a s. Q a s \<and> Safe (rq_module s) \<and> rq_chat_history s = rq_chat_history r)
       (\<lambda>s. Safe (rq_module s)) m"

text \<open>The chat of a state, in a safe module.\<close>

definition chats :: "('m \<Rightarrow> bool) \<Rightarrow> bytes list list \<Rightarrow> 'm request \<Rightarrow> bool" where
  "chats Safe wss s \<longleftrightarrow> Safe (rq_module s) \<and> (\<exists>ws \<in> set wss. rq_chat_history s = chat_of ws)"

lemma chats_upd [simp]:
  "chats Safe wss (s\<lparr>rq_step := x\<rparr>) = chats Safe wss s"
  "chats Safe wss (s\<lparr>rq_exit_status := e\<rparr>) = chats Safe wss s"
  "chats Safe wss (log_error s) = chats Safe wss s"
  by (simp_all add: chats_def)

lemma chats_mono: "chats Safe wss s \<Longrightarrow> set wss \<subseteq> set vss \<Longrightarrow> chats Safe vss s"
  by (auto simp: chats_def)

text \<open>An answer is recorded when it was written whole.\<close>

lemma chat_write:
  assumes "rq_chat_history r = chat_of ws" and "\<forall>w \<in> set ws. blurb w" and "length ws < 3"
    and "Safe (rq_module r)"
  shows "after (\<lambda>st s. Safe (rq_module s) \<and> same_call r s \<and>
        rq_chat_history s = (if st = 0 then chat_of (ws @ [''ok'']) else chat_of ws))
      (\<lambda>s. Safe (rq_module s)) (write_ok r)"
    and "after (\<lambda>st s. Safe (rq_module s) \<and> same_call r s \<and>
        rq_chat_history s = (if st = 0 then chat_of (ws @ [''no'']) else chat_of ws))
      (\<lambda>s. Safe (rq_module s)) (write_no r)"
proof -
  have w: "after (\<lambda>st s. same_call r s \<and> rq_chat_history s = chat_of ws) (same_call r)
      (req_write r bs)" for bs
    using assms(1)
    by (auto simp: req_write_def Let_def SET_EXIT_ERROR_def SET_EXIT_TIMEOUT_def
        split: prod.splits net_result.splits)
  have a: "rq_chat_history s = chat_of ws \<Longrightarrow> blurb w \<Longrightarrow>
      add_chat_history s w = Ret () (s\<lparr>rq_chat_history := chat_of (ws @ [w])\<rparr>)" for s w
    using assms(2,3) by (intro add_chat_history_snoc)
  have m: "same_call r s \<Longrightarrow> Safe (rq_module s)" for s
    using assms(4) by (simp add: same_call_def)
  show "after (\<lambda>st s. Safe (rq_module s) \<and> same_call r s \<and>
        rq_chat_history s = (if st = 0 then chat_of (ws @ [''ok'']) else chat_of ws))
      (\<lambda>s. Safe (rq_module s)) (write_ok r)"
    unfolding write_ok_def after_proceed
    by (rule after_mono [OF w]) (auto simp: a blurb_def m)
  show "after (\<lambda>st s. Safe (rq_module s) \<and> same_call r s \<and>
        rq_chat_history s = (if st = 0 then chat_of (ws @ [''no'']) else chat_of ws))
      (\<lambda>s. Safe (rq_module s)) (write_no r)"
    unfolding write_no_def after_proceed
    by (rule after_mono [OF w]) (auto simp: a blurb_def m)
qed

lemma chat_read:
  "after (\<lambda>_ s. same_call r s \<and> rq_chat_history s = rq_chat_history r) (same_call r) (req_read r n)"
  by (auto simp: req_read_def SET_EXIT_ERROR_def SET_EXIT_TIMEOUT_def split: prod.splits net_result.splits)

text \<open>The reply of the client, and its place in the history.\<close>

definition replied :: "bytes list \<Rightarrow> 'm request \<Rightarrow> bytes option \<Rightarrow> 'm request \<Rightarrow> bool" where
  "replied ws r reply s \<longleftrightarrow> same_call r s \<and>
     (case reply of
        None \<Rightarrow> rq_chat_history s = chat_of ws
      | Some w \<Rightarrow> blurb w \<and> rq_chat_history s = chat_of (ws @ [w]))"

lemma replied_error: "same_call r s \<Longrightarrow> rq_chat_history s = chat_of ws \<Longrightarrow>
    after (replied ws r) (same_call r) (reply_error s)"
  by (simp add: reply_error_def replied_def SET_EXIT_ERROR_def)

lemma replied_word:
  assumes "same_call r s" and "rq_chat_history s = chat_of ws" and "\<forall>w \<in> set ws. blurb w"
    and "length ws < 3"
  shows "after (replied ws r) (same_call r) (reply_word junk got s)"
proof -
  have a: "blurb w \<Longrightarrow> add_chat_history s w = Ret () (s\<lparr>rq_chat_history := chat_of (ws @ [w])\<rparr>)" for w
    using assms(2-4) by (intro add_chat_history_snoc)
  show ?thesis
    using assms(1) replied_error [OF assms(1,2)]
    by (auto simp: reply_word_def Let_def a blurb_def replied_def)
qed

lemma replied_loop:
  assumes "\<forall>w \<in> set ws. blurb w" and "length ws < 3"
  shows "same_call r s \<Longrightarrow> rq_chat_history s = chat_of ws \<Longrightarrow>
    after (replied ws r) (same_call r) (reply_loop junk got s)"
proof (induction junk got s rule: reply_loop.induct)
  case (1 junk got s)
  note e = replied_error [of r _ ws] and w = replied_word [OF _ _ assms, of r]
  show ?case
  proof (cases "req_read s (4 - length got)")
    case (Ret x s1)
    have s1: "same_call r s1" "rq_chat_history s1 = chat_of ws"
      using after_Ret [OF chat_read Ret] "1.prems" by (auto intro: same_call_trans)
    show ?thesis
    proof (cases "\<exists>b bs. x = RqBytes (b # bs)")
      case True
      then obtain b bs where x: "x = RqBytes (b # bs)" by blast
      show ?thesis
        using Ret x e [OF s1] w [OF s1] "1.IH" [OF Ret x refl _ refl] s1
        by (subst reply_loop.simps) (auto simp: Let_def)
    next
      case False
      then have "x = RqError \<or> x = RqTimeout \<or> x = RqBytes []"
        by (metis req_in.exhaust list.exhaust)
      with Ret e [OF s1] show ?thesis by (subst reply_loop.simps) auto
    qed
  next
    case (Exited s1)
    with chat_read [of s "4 - length got"] "1.prems" show ?thesis
      by (subst reply_loop.simps) (auto intro: same_call_trans)
  next
    case (Blocked s1)
    with chat_read [of s "4 - length got"] "1.prems" show ?thesis
      by (subst reply_loop.simps) (auto intro: same_call_trans)
  qed
qed

section \<open>The contract\<close>

definition storing_calls :: "'m digest_module \<Rightarrow> 'm callback list" where
  "storing_calls mp = [dm_put_bytes mp, dm_give_bytes mp]"

definition opening_calls :: "'m digest_module \<Rightarrow> 'm callback list" where
  "opening_calls mp = [dm_put_request mp, dm_give_request mp]"

definition other_calls :: "'m digest_module \<Rightarrow> 'm callback list" where
  "other_calls mp =
     [dm_get_request mp, dm_get_bytes mp, dm_take_request mp, dm_take_bytes mp, dm_eat mp,
      dm_take_reply mp ''ok'', dm_give_reply mp ''ok'', dm_give_reply mp ''no'']"

text \<open>
  The chats that a verb can leave behind, the protocol of \<^verbatim>\<open>bio4d.c\<close>: the server's answers, and for
  \<^verbatim>\<open>take\<close> and \<^verbatim>\<open>give\<close> the client's reply in between.  A chat is shorter when an answer could not be
  written or a reply not be read.
\<close>

definition OK :: bytes where "OK = ''ok''"
definition NO :: bytes where "NO = ''no''"

definition verb_chats :: "bytes \<Rightarrow> bytes list list" where
  "verb_chats verb =
     (if verb = ''cat'' then [[], [NO]]
      else if verb = ''get'' \<or> verb = ''eat'' then [[], [NO], [OK]]
      else if verb = ''put'' then [[], [NO], [OK], [OK, NO], [OK, OK]]
      else if verb = ''take'' then
        [[], [NO], [OK], [OK, NO], [OK, OK], [OK, OK, NO], [OK, OK, OK]]
      else if verb = ''give'' then
        [[], [NO], [OK], [OK, NO], [OK, OK], [OK, OK, NO], [OK, OK, OK]]
      else if verb = ''wrap'' then [[], [OK]]
      else if verb = ''roll'' then [[], [NO], [OK]]
      else [])"

lemma verb_chats_blurb: "ws \<in> set (verb_chats verb) \<Longrightarrow> list_all blurb ws \<and> length ws \<le> 3"
  by (auto simp: verb_chats_def OK_def NO_def blurb_def split: if_splits)

locale digest_contract =
  fixes mp :: "'m digest_module"
    and Fresh :: "'m request \<Rightarrow> bool"
    and Ready :: "'m request \<Rightarrow> bool"
    and Safe :: "'m \<Rightarrow> bool"
  assumes fresh_safe: "Fresh r \<Longrightarrow> Safe (rq_module r)"
    and ready_safe: "Ready r \<Longrightarrow> Safe (rq_module r)"
    and ready_same: "same_call r s \<Longrightarrow> Ready r \<Longrightarrow> Ready s"
    and fresh_scan: "Fresh r \<Longrightarrow> Fresh (r\<lparr>rq_scan_buf := b\<rparr>)"
    and ready_scan: "Ready r \<Longrightarrow> Ready (r\<lparr>rq_scan_buf := b\<rparr>)"
    and open_ready: "Fresh r \<Longrightarrow> rq_verb r = ''wrap'' \<or> dm_is_digest mp (rq_digest r) \<noteq> 0 \<Longrightarrow>
      quiet_call Safe r (\<lambda>st s. st = 0 \<longrightarrow> Fresh s \<and> (rq_verb r \<noteq> ''wrap'' \<longrightarrow> Ready s))
        (dm_open mp r)"
    and opening_ready: "call \<in> set (opening_calls mp) \<Longrightarrow> Ready r \<Longrightarrow>
      quiet_call Safe r (\<lambda>st. Ready) (call r)"
    and storing_safe: "call \<in> set (storing_calls mp) \<Longrightarrow> Ready r \<Longrightarrow>
      quiet_call Safe r (\<lambda>st s. True) (call r)"
    and other_safe: "call \<in> set (other_calls mp) \<Longrightarrow> Safe (rq_module r) \<Longrightarrow>
      quiet_call Safe r (\<lambda>st s. True) (call r)"
    and close_safe: "Safe (rq_module r) \<Longrightarrow> quiet_call Safe r (\<lambda>st s. True) (dm_close mp st' r)"
begin

lemma ready_cong: "same_call r s \<Longrightarrow> Ready s = Ready r"
  using ready_same same_call_sym by blast

lemma ready_upd [simp]: "Ready (r\<lparr>rq_step := x\<rparr>) = Ready r" "Ready (r\<lparr>rq_exit_status := e\<rparr>) = Ready r"
  by (rule ready_cong, simp)+

lemma other_chat:
  "call \<in> set (other_calls mp) \<Longrightarrow> Safe (rq_module r) \<Longrightarrow> rq_chat_history r = chat_of ws \<Longrightarrow>
   after (\<lambda>st s. Safe (rq_module s) \<and> rq_chat_history s = chat_of ws) (\<lambda>s. Safe (rq_module s)) (call r)"
  using other_safe [of call r] by (simp add: quiet_call_def)

lemma storing_chat:
  "call \<in> set (storing_calls mp) \<Longrightarrow> Ready r \<Longrightarrow> rq_chat_history r = chat_of ws \<Longrightarrow>
   after (\<lambda>st s. Safe (rq_module s) \<and> rq_chat_history s = chat_of ws) (\<lambda>s. Safe (rq_module s)) (call r)"
  using storing_safe [of call r] by (simp add: quiet_call_def)

lemma opening_chat:
  "call \<in> set (opening_calls mp) \<Longrightarrow> Ready r \<Longrightarrow> rq_chat_history r = chat_of ws \<Longrightarrow>
   after (\<lambda>st s. Ready s \<and> rq_chat_history s = chat_of ws) (\<lambda>s. Safe (rq_module s)) (call r)"
  by (rule after_mono [OF opening_ready [unfolded quiet_call_def]]) auto

text \<open>The last answer of a handler, and an answer or a reply in its middle.\<close>

lemma last_ok:
  assumes "rq_chat_history r = chat_of ws" and "list_all blurb ws \<and> length ws < 3"
    and "Safe (rq_module r)" and "{ws, ws @ [OK]} \<subseteq> set wss"
  shows "after (\<lambda>_. chats Safe wss) (\<lambda>s. Safe (rq_module s)) (write_ok r)"
  by (rule after_mono [OF chat_write(1) [where Safe = Safe, OF assms(1)]])
    (use assms in \<open>auto simp: chats_def OK_def list_all_iff split: if_splits\<close>)

lemma last_no:
  assumes "rq_chat_history r = chat_of ws" and "list_all blurb ws \<and> length ws < 3"
    and "Safe (rq_module r)" and "{ws, ws @ [NO]} \<subseteq> set wss"
  shows "after (\<lambda>_. chats Safe wss) (\<lambda>s. Safe (rq_module s)) (write_no r)"
  by (rule after_mono [OF chat_write(2) [where Safe = Safe, OF assms(1)]])
    (use assms in \<open>auto simp: chats_def NO_def list_all_iff split: if_splits\<close>)

lemma mid_ok:
  assumes "rq_chat_history r = chat_of ws" and "list_all blurb ws \<and> length ws < 3"
    and "Safe (rq_module r)" and "ws \<in> set wss"
    and "\<And>s. Safe (rq_module s) \<Longrightarrow> same_call r s \<Longrightarrow> rq_chat_history s = chat_of (ws @ [OK]) \<Longrightarrow>
      after (\<lambda>_. chats Safe wss) (\<lambda>s. Safe (rq_module s)) (k s)"
  shows "after (\<lambda>_. chats Safe wss) (\<lambda>s. Safe (rq_module s))
    (proceed (write_ok r) (\<lambda>st s. if st \<noteq> 0 then Ret (-1) s else k s))"
  unfolding after_proceed
  by (rule after_mono [OF chat_write(1) [where Safe = Safe, OF assms(1)]])
    (use assms in \<open>auto simp: chats_def OK_def list_all_iff\<close>)

lemma mid_reply:
  assumes "rq_chat_history r = chat_of ws" and "list_all blurb ws \<and> length ws < 3"
    and "Safe (rq_module r)" and "ws \<in> set wss"
    and "\<And>w s. w = OK \<or> w = NO \<Longrightarrow> Safe (rq_module s) \<Longrightarrow> rq_chat_history s = chat_of (ws @ [w]) \<Longrightarrow>
      after (\<lambda>_. chats Safe wss) (\<lambda>s. Safe (rq_module s)) (k w s)"
  shows "after (\<lambda>_. chats Safe wss) (\<lambda>s. Safe (rq_module s))
    (proceed (read_reply stack r) (\<lambda>reply s. case reply of None \<Rightarrow> Ret (-1) s | Some w \<Rightarrow> k w s))"
proof -
  have "after (replied ws r) (same_call r) (read_reply stack r)"
    unfolding read_reply_def by (rule replied_loop) (use assms in \<open>auto simp: list_all_iff\<close>)
  then show ?thesis
    unfolding after_proceed
  proof (rule after_mono)
    fix reply s assume h: "replied ws r reply s"
    then have "Safe (rq_module s)" using assms(3) by (simp add: replied_def same_call_def)
    with h assms(4,5) show "after (\<lambda>_. chats Safe wss) (\<lambda>s. Safe (rq_module s))
        (case reply of None \<Rightarrow> Ret (-1) s | Some w \<Rightarrow> k w s)"
      by (auto simp: replied_def chats_def blurb_def OK_def NO_def split: option.splits)
  qed (use assms(3) in \<open>auto simp: same_call_def\<close>)
qed

lemma blurb_lists [simp]:
  "blurb OK" "blurb NO" "chat_of [] = []" "chat_of [w] = w"
  by (simp_all add: OK_def NO_def blurb_def chat_of_def)

lemma verb_chats_simps [simp]:
  "verb_chats ''cat'' = [[], [NO]]" "verb_chats ''get'' = [[], [NO], [OK]]"
  "verb_chats ''eat'' = [[], [NO], [OK]]"
  "verb_chats ''put'' = [[], [NO], [OK], [OK, NO], [OK, OK]]"
  "verb_chats ''take'' = [[], [NO], [OK], [OK, NO], [OK, OK], [OK, OK, NO], [OK, OK, OK]]"
  "verb_chats ''give'' = [[], [NO], [OK], [OK, NO], [OK, OK], [OK, OK, NO], [OK, OK, OK]]"
  "verb_chats ''wrap'' = [[], [OK]]" "verb_chats ''roll'' = [[], [NO], [OK]]"
  by (simp_all add: verb_chats_def)

lemma cat_chat:
  assumes "Safe (rq_module r)" and "rq_chat_history r = []"
  shows "after (\<lambda>_. chats Safe (verb_chats ''cat'')) (\<lambda>s. Safe (rq_module s)) (cat sv mp r)"
  unfolding cat_def set_verb_def by (rule last_no [of _ "[]"]) (use assms in auto)

lemma eat_chat:
  assumes "Safe (rq_module r)" and "rq_chat_history r = []"
  shows "after (\<lambda>_. chats Safe (verb_chats ''eat'')) (\<lambda>s. Safe (rq_module s)) (eat sv mp r)"
  unfolding eat_def set_verb_def after_proceed
  by (rule after_mono [OF other_chat [of "dm_eat mp" _ "[]"]])
    (use assms last_ok [of _ "[]"] last_no [of _ "[]"] in \<open>auto simp: other_calls_def\<close>)

lemma other_last:
  assumes "call \<in> set (other_calls mp)" and "Safe (rq_module r)" and "rq_chat_history r = chat_of ws"
    and "ws \<in> set wss"
  shows "after (\<lambda>_. chats Safe wss) (\<lambda>s. Safe (rq_module s)) (call r)"
  by (rule after_mono [OF other_chat [OF assms(1-3)]]) (use assms(4) in \<open>auto simp: chats_def\<close>)

text \<open>A call, then what its status decides.\<close>

lemma other_then:
  assumes "call \<in> set (other_calls mp)" and "Safe (rq_module r)" and "rq_chat_history r = chat_of ws"
    and "\<And>st s. Safe (rq_module s) \<Longrightarrow> rq_chat_history s = chat_of ws \<Longrightarrow>
      after (\<lambda>_. chats Safe wss) (\<lambda>s. Safe (rq_module s)) (k st s)"
  shows "after (\<lambda>_. chats Safe wss) (\<lambda>s. Safe (rq_module s)) (proceed (call r) k)"
  unfolding after_proceed
  by (rule after_mono [OF other_chat [OF assms(1-3)]]) (use assms(4) in auto)

lemma storing_then:
  assumes "call \<in> set (storing_calls mp)" and "Ready r" and "rq_chat_history r = chat_of ws"
    and "\<And>st s. Safe (rq_module s) \<Longrightarrow> rq_chat_history s = chat_of ws \<Longrightarrow>
      after (\<lambda>_. chats Safe wss) (\<lambda>s. Safe (rq_module s)) (k st s)"
  shows "after (\<lambda>_. chats Safe wss) (\<lambda>s. Safe (rq_module s)) (proceed (call r) k)"
  unfolding after_proceed
  by (rule after_mono [OF storing_chat [OF assms(1-3)]]) (use assms(4) in auto)

lemma opening_then:
  assumes "call \<in> set (opening_calls mp)" and "Ready r" and "rq_chat_history r = chat_of ws"
    and "\<And>st s. Ready s \<Longrightarrow> rq_chat_history s = chat_of ws \<Longrightarrow>
      after (\<lambda>_. chats Safe wss) (\<lambda>s. Safe (rq_module s)) (k st s)"
  shows "after (\<lambda>_. chats Safe wss) (\<lambda>s. Safe (rq_module s)) (proceed (call r) k)"
  unfolding after_proceed
  by (rule after_mono [OF opening_chat [OF assms(1-3)]]) (use assms(4) in auto)

lemma get_chat:
  assumes "Safe (rq_module r)" and "rq_chat_history r = []"
  shows "after (\<lambda>_. chats Safe (verb_chats ''get'')) (\<lambda>s. Safe (rq_module s)) (get sv mp r)"
proof -
  let ?r = "(set_verb REQUEST_EXIT_STATUS_GET r)\<lparr>rq_step := ''request''\<rparr>"
  let ?P = "after (\<lambda>_. chats Safe [[], [NO], [OK]]) (\<lambda>s. Safe (rq_module s))"
  have r: "Safe (rq_module ?r)" "rq_chat_history ?r = chat_of []" using assms by (simp_all add: set_verb_def)
  have "?P (proceed (write_ok ?r) (\<lambda>st s. Ret (if st \<noteq> 0 then -1 else 0 :: int) s))"
    unfolding after_proceed by (rule after_mono [OF last_ok [OF r(2) _ r(1)]]) auto
  moreover have "?P (proceed (dm_get_request mp ?r) (\<lambda>st s. if st \<noteq> 0 then write_no s else
      proceed (write_ok s) (\<lambda>st s. if st \<noteq> 0 then Ret (-1) s
        else dm_get_bytes mp (s\<lparr>rq_step := ''bytes''\<rparr>))))"
  proof (rule other_then [OF _ r])
    fix st :: int and s :: "'m request" assume s: "Safe (rq_module s)" "rq_chat_history s = chat_of []"
    have "?P (write_no s)" by (rule last_no [OF s(2) _ s(1)]) auto
    moreover have "?P (proceed (write_ok s) (\<lambda>st s. if st \<noteq> 0 then Ret (-1) s
        else dm_get_bytes mp (s\<lparr>rq_step := ''bytes''\<rparr>)))"
      by (rule mid_ok [OF s(2) _ s(1)]) (auto simp: other_calls_def intro!: other_last [of _ _ "[OK]"])
    ultimately show "?P (if st \<noteq> 0 then write_no s else proceed (write_ok s) (\<lambda>st s.
        if st \<noteq> 0 then Ret (-1) s else dm_get_bytes mp (s\<lparr>rq_step := ''bytes''\<rparr>)))" by simp
  qed (simp add: other_calls_def)
  ultimately show ?thesis by (simp add: get_def Let_def del: after_proceed)
qed

lemma put_chat:
  assumes "Ready r" and "rq_chat_history r = []"
  shows "after (\<lambda>_. chats Safe (verb_chats ''put'')) (\<lambda>s. Safe (rq_module s)) (put sv mp r)"
proof -
  let ?r = "(set_verb REQUEST_EXIT_STATUS_PUT r)\<lparr>rq_step := ''request''\<rparr>"
  let ?P = "after (\<lambda>_. chats Safe [[], [NO], [OK], [OK, NO], [OK, OK]]) (\<lambda>s. Safe (rq_module s))"
  let ?bytes = "\<lambda>s :: 'm request. proceed (dm_put_bytes mp (s\<lparr>rq_step := ''bytes''\<rparr>))
      (\<lambda>st s. if st \<noteq> 0 then write_no s else write_ok s)"
  have r: "Ready ?r" "rq_chat_history ?r = chat_of []" using assms by (simp_all add: set_verb_def)
  have last: "?P (if st \<noteq> 0 then write_no s else write_ok s)"
    if "Safe (rq_module s)" "rq_chat_history s = chat_of [OK]" for st :: int and s :: "'m request"
    using last_no [OF that(2) _ that(1)] last_ok [OF that(2) _ that(1)] by simp
  have "?P (proceed (dm_put_request mp ?r) (\<lambda>st s. if st \<noteq> 0 then write_no s else
      proceed (write_ok s) (\<lambda>st s. if st \<noteq> 0 then Ret (-1) s else ?bytes s)))"
  proof (rule opening_then [OF _ r])
    fix st :: int and s :: "'m request" assume s: "Ready s" "rq_chat_history s = chat_of []"
    note safe = ready_safe [OF s(1)]
    have "?P (write_no s)" by (rule last_no [OF s(2) _ safe]) auto
    moreover have "?P (proceed (write_ok s) (\<lambda>st s. if st \<noteq> 0 then Ret (-1) s else ?bytes s))"
      by (rule mid_ok [OF s(2) _ safe])
        (auto simp: storing_calls_def ready_cong s(1) simp del: after_proceed
          intro!: storing_then [of _ _ "[OK]"] last)
    ultimately show "?P (if st \<noteq> 0 then write_no s else
        proceed (write_ok s) (\<lambda>st s. if st \<noteq> 0 then Ret (-1) s else ?bytes s))" by simp
  qed (simp add: opening_calls_def)
  then show ?thesis by (simp add: put_def Let_def)
qed

lemma hd_words [simp]: "hd OK \<noteq> CHR ''n''" "hd NO = CHR ''n''"
  by (simp_all add: OK_def NO_def)

lemma take_chat:
  assumes "Safe (rq_module r)" and "rq_chat_history r = []"
  shows "after (\<lambda>_. chats Safe (verb_chats ''take'')) (\<lambda>s. Safe (rq_module s)) (take_verb sv mp r)"
proof -
  let ?W = "[[], [NO], [OK], [OK, NO], [OK, OK], [OK, OK, NO], [OK, OK, OK]]"
  let ?P = "after (\<lambda>_. chats Safe ?W) (\<lambda>s. Safe (rq_module s))"
  define answer where "answer = (\<lambda>reply (s :: 'm request).
      if hd reply = CHR ''n'' then Ret 0 s
      else proceed (dm_take_reply mp reply (s\<lparr>rq_step := ''reply''\<rparr>))
        (\<lambda>st s. if st \<noteq> 0 then write_no s else write_ok s))"
  define ack where "ack = (\<lambda>st (s :: 'm request). if st \<noteq> (0 :: int) then Ret (-1) s
      else proceed (read_reply (sv_stack sv) (s\<lparr>rq_step := ''read_reply''\<rparr>))
        (\<lambda>reply s. case reply of None \<Rightarrow> Ret (-1) s | Some w \<Rightarrow> answer w s))"
  define send where "send = (\<lambda>st (s :: 'm request). if st \<noteq> (0 :: int) then write_no s
      else proceed (write_ok s) (\<lambda>st s. if st \<noteq> 0 then Ret (-1) s
        else proceed (dm_take_bytes mp (s\<lparr>rq_step := ''bytes''\<rparr>)) ack))"
  have answer: "?P (answer w s)"
    if "w = OK \<or> w = NO" "Safe (rq_module s)" "rq_chat_history s = chat_of [OK, w]" for w s
  proof (cases "w = OK")
    case True
    have "?P (proceed (dm_take_reply mp OK (s\<lparr>rq_step := ''reply''\<rparr>))
        (\<lambda>st s. if st \<noteq> 0 then write_no s else write_ok s))"
      by (rule other_then [of _ _ "[OK, OK]"])
        (use that True last_no [of _ "[OK, OK]" ?W] last_ok [of _ "[OK, OK]" ?W]
          in \<open>auto simp: other_calls_def OK_def [symmetric]\<close>)
    with True show ?thesis by (simp add: answer_def)
  qed (use that in \<open>auto simp: answer_def chats_def\<close>)
  have ack: "?P (ack st s)" if "Safe (rq_module s)" "rq_chat_history s = chat_of [OK]" for st s
  proof (cases "st = 0")
    case True
    have "?P (proceed (read_reply (sv_stack sv) (s\<lparr>rq_step := ''read_reply''\<rparr>))
        (\<lambda>reply s. case reply of None \<Rightarrow> Ret (-1) s | Some w \<Rightarrow> answer w s))"
      by (rule mid_reply [of _ "[OK]"]) (use that answer in auto)
    with True show ?thesis by (simp add: ack_def)
  qed (use that in \<open>auto simp: ack_def chats_def\<close>)
  have send: "?P (send st s)" if "Safe (rq_module s)" "rq_chat_history s = chat_of []" for st s
  proof (cases "st = 0")
    case True
    have "?P (proceed (write_ok s) (\<lambda>st s. if st \<noteq> 0 then Ret (-1) s
        else proceed (dm_take_bytes mp (s\<lparr>rq_step := ''bytes''\<rparr>)) ack))"
      by (rule mid_ok [OF that(2) _ that(1)])
        (auto simp: other_calls_def simp del: after_proceed intro!: other_then [of _ _ "[OK]"] ack)
    with True show ?thesis by (simp add: send_def)
  qed (use that last_no [of s "[]" ?W] in \<open>auto simp: send_def\<close>)
  let ?r = "(set_verb REQUEST_EXIT_STATUS_TAKE r)\<lparr>rq_step := ''is_wrap''\<rparr>"
  have r: "Safe (rq_module ?r)" "rq_chat_history ?r = chat_of []" using assms by (simp_all add: set_verb_def)
  have go: "?P (proceed (dm_take_request mp (?r\<lparr>rq_step := ''request''\<rparr>)) send)"
    by (rule other_then [of _ _ "[]"]) (use r send in \<open>auto simp: other_calls_def\<close>)
  have "?P (write_no (log_error (log_error ?r)))"
    by (rule last_no [of _ "[]"]) (use r in auto)
  with go [unfolded send_def ack_def answer_def] r show ?thesis
    by (simp add: take_verb_def Let_def del: after_proceed)
qed

lemma give_chat:
  assumes "Ready r" and "rq_chat_history r = []"
  shows "after (\<lambda>_. chats Safe (verb_chats ''give'')) (\<lambda>s. Safe (rq_module s)) (give sv mp r)"
proof -
  let ?W = "[[], [NO], [OK], [OK, NO], [OK, OK], [OK, OK, NO], [OK, OK, OK]]"
  let ?P = "after (\<lambda>_. chats Safe ?W) (\<lambda>s. Safe (rq_module s))"
  define answer where "answer = (\<lambda>reply (s :: 'm request). dm_give_reply mp reply (s\<lparr>rq_step := ''reply''\<rparr>))"
  define ack where "ack = (\<lambda>st (s :: 'm request). if st \<noteq> (0 :: int) then write_no s
      else proceed (write_ok s) (\<lambda>st s. if st \<noteq> 0 then Ret (-1) s
        else proceed (read_reply (sv_stack sv) (s\<lparr>rq_step := ''read_reply''\<rparr>))
          (\<lambda>reply s. case reply of None \<Rightarrow> Ret (-1) s | Some w \<Rightarrow> answer w s)))"
  define send where "send = (\<lambda>st (s :: 'm request). if st \<noteq> (0 :: int) then write_no s
      else proceed (write_ok s) (\<lambda>st s. if st \<noteq> 0 then Ret (-1) s
        else proceed (dm_give_bytes mp (s\<lparr>rq_step := ''bytes''\<rparr>)) ack))"
  have answer: "?P (answer w s)"
    if "w = OK \<or> w = NO" "Safe (rq_module s)" "rq_chat_history s = chat_of [OK, OK, w]" for w s
    unfolding answer_def
    by (rule other_last [of _ _ "[OK, OK, w]"])
      (use that in \<open>auto simp: other_calls_def OK_def NO_def\<close>)
  have ack: "?P (ack st s)" if "Safe (rq_module s)" "rq_chat_history s = chat_of [OK]" for st s
  proof (cases "st = 0")
    case True
    have "?P (proceed (write_ok s) (\<lambda>st s. if st \<noteq> 0 then Ret (-1) s
        else proceed (read_reply (sv_stack sv) (s\<lparr>rq_step := ''read_reply''\<rparr>))
          (\<lambda>reply s. case reply of None \<Rightarrow> Ret (-1) s | Some w \<Rightarrow> answer w s)))"
      by (rule mid_ok [OF that(2) _ that(1)])
        (auto simp del: after_proceed intro!: mid_reply [of _ "[OK, OK]"] answer)
    with True show ?thesis by (simp add: ack_def)
  qed (use that last_no [of s "[OK]" ?W] in \<open>auto simp: ack_def\<close>)
  have send: "?P (send st s)" if "Ready s" "rq_chat_history s = chat_of []" for st s
  proof (cases "st = 0")
    case True
    have "?P (proceed (write_ok s) (\<lambda>st s. if st \<noteq> 0 then Ret (-1) s
        else proceed (dm_give_bytes mp (s\<lparr>rq_step := ''bytes''\<rparr>)) ack))"
      by (rule mid_ok [OF that(2) _ ready_safe [OF that(1)]])
        (auto simp: storing_calls_def ready_cong that(1) simp del: after_proceed
          intro!: storing_then [of _ _ "[OK]"] ack)
    with True show ?thesis by (simp add: send_def)
  qed (use that ready_safe last_no [of s "[]" ?W] in \<open>auto simp: send_def\<close>)
  let ?r = "(set_verb REQUEST_EXIT_STATUS_GIVE r)\<lparr>rq_step := ''request''\<rparr>"
  have r: "Ready ?r" "rq_chat_history ?r = chat_of []" using assms by (simp_all add: set_verb_def)
  have "?P (proceed (dm_give_request mp ?r) send)"
    by (rule opening_then [OF _ r]) (use send in \<open>auto simp: opening_calls_def\<close>)
  from this [unfolded send_def ack_def answer_def] show ?thesis
    by (simp add: give_def Let_def del: after_proceed)
qed

lemma handler_chat:
  assumes "verb_callback sv verb = Some callback" and "verb \<noteq> ''wrap''" and "verb \<noteq> ''roll''"
    and "Ready r" and "rq_chat_history r = []"
  shows "after (\<lambda>_. chats Safe (verb_chats verb)) (\<lambda>s. Safe (rq_module s)) (callback mp r)"
  using assms ready_safe get_chat put_chat take_chat give_chat eat_chat cat_chat
  by (auto simp: verb_callback_def simp del: verb_chats_simps split: if_splits)

lemma safe_die:
  "Safe (rq_module r) \<Longrightarrow> after Q (\<lambda>s. Safe (rq_module s)) (die r)"
  "Safe (rq_module r) \<Longrightarrow> after Q (\<lambda>s. Safe (rq_module s)) (die_NO r)"
  by (auto simp: die_def die_NO_def Let_def split: prod.splits timed.splits)

lemma close_chat:
  assumes "chats Safe wss r"
  shows "after (\<lambda>_. chats Safe wss) (\<lambda>s. Safe (rq_module s)) (bio4d_close mp st r)"
  unfolding bio4d_close_def after_proceed
  by (rule after_mono [OF close_safe [unfolded quiet_call_def]])
    (use assms in \<open>auto simp: chats_def\<close>)

text \<open>The handler of the verb, then the close of the module.\<close>

definition fire :: "'m server \<Rightarrow> bytes \<Rightarrow> ('m digest_module \<Rightarrow> 'm callback) \<Rightarrow> int \<Rightarrow> 'm request \<Rightarrow>
    (unit, 'm request) outcome" where
  "fire sv b callback status t =
     (if status \<noteq> 0 then
        proceed (dm_close mp status t) (\<lambda>st r. die_NO (if st \<noteq> 0 then log_error r else r))
      else proceed (callback mp (t\<lparr>rq_scan_buf := b\<rparr>)) (\<lambda>status r. bio4d_close mp status r))"

lemma fire_chat:
  assumes "verb_callback sv verb = Some callback"
    and "\<And>r. verb = ''wrap'' \<or> verb = ''roll'' \<Longrightarrow> Fresh r \<Longrightarrow> rq_chat_history r = [] \<Longrightarrow>
      after (\<lambda>_. chats Safe (verb_chats verb)) (\<lambda>s. Safe (rq_module s)) (callback mp r)"
    and "Safe (rq_module t)" and "rq_chat_history t = []"
    and "status = 0 \<Longrightarrow> Fresh t \<and> (verb \<noteq> ''wrap'' \<longrightarrow> Ready t)"
  shows "after (\<lambda>_. chats Safe (verb_chats verb)) (\<lambda>s. Safe (rq_module s)) (fire sv b callback status t)"
proof (cases "status = 0")
  case False
  have "after (\<lambda>_ :: unit. chats Safe (verb_chats verb)) (\<lambda>s. Safe (rq_module s))
      (proceed (dm_close mp status t) (\<lambda>st r. die_NO (if st \<noteq> 0 then log_error r else r)))"
    unfolding after_proceed
    by (rule after_mono [OF close_safe [unfolded quiet_call_def]]) (use assms safe_die(2) in auto)
  with False show ?thesis by (simp add: fire_def)
next
  case True
  have "after (\<lambda>_. chats Safe (verb_chats verb)) (\<lambda>s. Safe (rq_module s)) (callback mp (t\<lparr>rq_scan_buf := b\<rparr>))"
  proof (cases "verb = ''wrap'' \<or> verb = ''roll''")
    case wr: True
    show ?thesis by (rule assms(2) [OF wr]) (use assms(4,5) True fresh_scan in auto)
  next
    case False
    have "Ready (t\<lparr>rq_scan_buf := b\<rparr>)" using assms(5) True False ready_scan by blast
    from handler_chat [OF assms(1) _ _ this] assms(4) False show ?thesis by auto
  qed
  then have "after (\<lambda>_. chats Safe (verb_chats verb)) (\<lambda>s. Safe (rq_module s))
      (proceed (callback mp (t\<lparr>rq_scan_buf := b\<rparr>)) (\<lambda>status r. bio4d_close mp status r))"
    unfolding after_proceed by (rule after_mono) (auto intro: close_chat)
  with True show ?thesis by (simp add: fire_def)
qed

lemma bio4d_chat:
  fixes sv :: "'m server"
  defines "alg \<equiv> \<lambda>s. if sc_verb s = ''wrap'' then sv_wrap_algorithm sv else sc_algorithm s"
  assumes get: "module_get (sv_modules sv) (alg s) = Some mp"
    and wrap: "\<And>r callback. verb_callback sv (sc_verb s) = Some callback \<Longrightarrow>
      sc_verb s = ''wrap'' \<or> sc_verb s = ''roll'' \<Longrightarrow> Fresh r \<Longrightarrow> rq_chat_history r = [] \<Longrightarrow>
      after (\<lambda>_. chats Safe (verb_chats (sc_verb s))) (\<lambda>s. Safe (rq_module s)) (callback mp r)"
    and chat: "rq_chat_history r = []"
    and fresh: "Fresh (r\<lparr>rq_verb := sc_verb s, rq_step := [], rq_algorithm := alg s,
        rq_blob_size := of_nat (length b), rq_digest := sc_digest s\<rparr>)"
  shows "after (\<lambda>_. chats Safe (verb_chats (sc_verb s))) (\<lambda>s. Safe (rq_module s)) (bio4d sv s b r)"
proof -
  let ?verb = "sc_verb s"
  let ?r = "r\<lparr>rq_verb := ?verb, rq_step := [], rq_algorithm := alg s,
        rq_blob_size := of_nat (length b), rq_digest := sc_digest s\<rparr>"
  let ?P = "after (\<lambda>_ :: unit. chats Safe (verb_chats ?verb)) (\<lambda>s. Safe (rq_module s))"
  have safe: "Safe (rq_module r)" using fresh_safe [OF fresh] by simp
  have opened: "?P (proceed (dm_open mp ?r) (fire sv b callback))"
    if "verb_callback sv ?verb = Some callback" "?verb = ''wrap'' \<or> dm_is_digest mp (sc_digest s) \<noteq> 0" for callback
    unfolding after_proceed
    by (rule after_mono [OF open_ready [OF fresh, unfolded quiet_call_def]])
      (use that chat in \<open>auto intro!: fire_chat wrap simp del: verb_chats_simps\<close>)
  have die: "?P (die_NO t)" "?P (child_panic t)" if "rq_module t = rq_module r" for t
    using that safe by (simp_all add: safe_die)
  consider "?verb = ''wrap'' \<and> sc_algorithm s \<noteq> [] \<or>
      ?verb \<noteq> ''wrap'' \<and> (sc_algorithm s = [] \<or> sc_digest s = [])"
    | "\<not> (?verb = ''wrap'' \<and> sc_algorithm s \<noteq> [])"
      "\<not> (?verb \<noteq> ''wrap'' \<and> (sc_algorithm s = [] \<or> sc_digest s = []))" by blast
  then show ?thesis
  proof cases
    case 1
    with die show ?thesis by (auto simp: bio4d_def Let_def)
  next
    case 2
    show ?thesis
    proof (cases "sc_digest s \<noteq> [] \<and> dm_is_digest mp (sc_digest s) = 0")
      case True
      with die show ?thesis by (simp add: bio4d_def Let_def 2 get [unfolded alg_def])
    next
      case False
      with 2 have d: "?verb = ''wrap'' \<or> dm_is_digest mp (sc_digest s) \<noteq> 0" by auto
      note b = bio4d_def [of sv s b r, unfolded Let_def if_not_P [OF 2(1)] if_not_P [OF 2(2)]
          get [unfolded alg_def] option.case if_not_P [OF False]]
      show ?thesis
      proof (cases "verb_callback sv ?verb")
        case None
        with die show ?thesis by (simp add: b)
      next
        case (Some callback)
        from opened [OF Some d, unfolded fire_def alg_def] Some show ?thesis
          by (simp add: b del: after_proceed)
      qed
    qed
  qed
qed

end

end
