(* ===== verification/Module_Contract.thy ===== *)
theory Module_Contract
  imports Fs_Ripe Verb_Contract Exit_Status
begin

text \<open>
  The modules \<^verbatim>\<open>sha\<close>, \<^verbatim>\<open>bc160\<close> and \<^verbatim>\<open>btc20\<close> keep the contract of the verb handlers: their
  callbacks leave the chat with the client to the handlers, and in every outcome every blob of
  every store has the digest it is named by.  The properties of whole requests follow.
\<close>

section \<open>A module does not answer the client\<close>

definition keeps_chat :: "bytes \<Rightarrow> ('a, blob_fs request) outcome \<Rightarrow> bool" where
  "keeps_chat c m \<longleftrightarrow> after (\<lambda>_ s. rq_chat_history s = c) (\<lambda>_. True) m"

lemma keeps_Ret [simp]: "keeps_chat c (Ret a s) \<longleftrightarrow> rq_chat_history s = c"
  by (simp add: keeps_chat_def)

lemma keeps_stop [simp]: "keeps_chat c (child_panic r)" "keeps_chat c (Exited r)" "keeps_chat c (Blocked r)"
  by (simp_all add: keeps_chat_def)

lemma keeps_proceed:
  "keeps_chat c m \<Longrightarrow> (\<And>a s. rq_chat_history s = c \<Longrightarrow> keeps_chat c (k a s)) \<Longrightarrow>
   keeps_chat c (proceed m k)"
  unfolding keeps_chat_def after_proceed by (erule after_mono) auto

lemma on_module_chat: "on_module f r = (x, s) \<Longrightarrow> rq_chat_history s = rq_chat_history r"
  by (auto simp: on_module_def split: prod.splits)

lemma chat_req_write:
  "after (\<lambda>_ s. rq_chat_history s = rq_chat_history r) (\<lambda>_. True) (req_write r bs)"
  by (auto simp: req_write_def Let_def SET_EXIT_ERROR_def SET_EXIT_TIMEOUT_def
      split: prod.splits net_result.splits)

lemma keeps_blob_write: "rq_chat_history r = c \<Longrightarrow> keeps_chat c (blob_write r bs)"
  using chat_req_write [of r bs] unfolding blob_write_def
  by (intro keeps_proceed) (auto simp: keeps_chat_def)

lemma keeps_blob_read: "rq_chat_history r = c \<Longrightarrow> keeps_chat c (blob_read r n)"
  unfolding blob_read_def
  by (rule keeps_proceed)
    (auto simp: keeps_chat_def req_read_def SET_EXIT_ERROR_def SET_EXIT_TIMEOUT_def
      split: prod.splits net_result.splits req_in.splits)

lemma keeps_close: "rq_chat_history r = c \<Longrightarrow> keeps_chat c (blob_close r)"
  by (auto simp: blob_close_def dest: on_module_chat split: prod.splits sum.splits)

lemma keeps_unlink: "rq_chat_history r = c \<Longrightarrow> keeps_chat c (blob_unlink p r)"
  by (auto simp: blob_unlink_def dest: on_module_chat split: prod.splits sum.splits)

lemma keeps_open_file: "rq_chat_history r = c \<Longrightarrow> keeps_chat c (blob_open p r)"
  by (auto simp: blob_open_def dest: on_module_chat split: prod.splits sum.splits)

lemma chat_make_path [simp]: "rq_chat_history (make_path root d r) = rq_chat_history r"
  by (simp add: make_path_def)

lemma keeps_get_request: "rq_chat_history r = c \<Longrightarrow> keeps_chat c (get_request root r)"
  by (simp add: get_request_def Let_def keeps_open_file)

lemma keeps_blob_loop:
  assumes "\<And>chunk s. rq_chat_history s = c \<Longrightarrow> keeps_chat c (sink chunk s)"
  shows "rq_chat_history r = c \<Longrightarrow> keeps_chat c (blob_loop sink ctx rest r)"
  using assms
proof (induction sink ctx rest r rule: blob_loop.induct)
  case (1 sink ctx rest r)
  obtain x m where rd: "stream_read CHUNK_SIZE [] rest (rq_module r) = (x, m)" by fastforce
  show ?case
  proof (cases "x = None \<or> (\<exists>rest'. x = Some ([], rest'))")
    case True
    with rd "1.prems"(1) show ?thesis by (auto simp: blob_loop.simps [of sink ctx rest r])
  next
    case False
    then obtain chunk rest' where x: "x = Some (chunk, rest')" and ne: "chunk \<noteq> []" by (cases x) auto
    have "keeps_chat c (proceed (sink chunk (r\<lparr>rq_module := m\<rparr>)) (\<lambda>status r.
        if status \<noteq> 0 then Ret None r else blob_loop sink (ctx @ chunk) rest' r))"
      by (rule keeps_proceed)
        (use "1.prems" "1.IH" [OF rd [symmetric] x refl ne] in auto)
    with rd x ne show ?thesis by (simp add: blob_loop.simps [of sink ctx rest r])
  qed
qed

lemma keeps_get_bytes: "rq_chat_history r = c \<Longrightarrow> keeps_chat c (get_bytes_checked H r)"
  unfolding get_bytes_checked_def zap_blob_def
  by (intro keeps_proceed keeps_blob_loop keeps_blob_write)
    (auto split: option.splits intro!: keeps_proceed keeps_close keeps_unlink)

lemma keeps_eat: "rq_chat_history r = c \<Longrightarrow> keeps_chat c (eat_checked root H r)"
  unfolding eat_checked_def
  by (intro keeps_proceed keeps_get_request)
    (auto split: option.splits intro!: keeps_proceed keeps_close keeps_blob_loop)

lemma keeps_arbor: "rq_chat_history r = c \<Longrightarrow> keeps_chat c (arbor_done (on_module f r))"
  by (cases "on_module f r", rename_tac x s, case_tac x)
    (auto simp: arbor_done_def dest: on_module_chat)

lemma keeps_take_reply: "rq_chat_history r = c \<Longrightarrow> keeps_chat c (unlink_on_ok reply r)"
  unfolding unlink_on_ok_def
  by (auto split: option.splits intro!: keeps_proceed keeps_unlink keeps_arbor)

lemma keeps_eat_chunk: "rq_chat_history r = c \<Longrightarrow> keeps_chat c (eat_chunk H tmp ctx chunk r)"
  by (auto simp: eat_chunk_def dest: on_module_chat split: prod.splits sum.splits)

lemma keeps_put_loop: "rq_chat_history r = c \<Longrightarrow> keeps_chat c (put_loop H tmp cp ctx r)"
proof (induction "net_size (rq_in r)" arbitrary: cp ctx r rule: less_induct)
  case less
  let ?n = "if cp < CHUNK_SIZE then CHUNK_SIZE - cp else CHUNK_SIZE"
  have n: "0 < ?n" by (simp add: CHUNK_SIZE_def)
  note simps = put_loop.simps [of H tmp cp ctx r]
  show ?case
  proof (cases "blob_read r ?n")
    case (Ret got r1)
    have c1: "rq_chat_history r1 = c"
      using keeps_blob_read [OF less.prems, of ?n] Ret by (simp add: keeps_chat_def)
    show ?thesis
    proof (cases "\<exists>b bs. got = RqBytes (b # bs)")
      case True
      then obtain b bs where got: "got = RqBytes (b # bs)" by blast
      have sz: "net_size (rq_in r1) < net_size (rq_in r)" using blob_read_size [OF Ret [unfolded got] n] .
      show ?thesis
      proof (cases "eat_chunk H tmp ctx (b # bs) r1")
        case (Ret d r2)
        have "rq_chat_history r2 = c"
          using keeps_eat_chunk [OF c1, of H tmp ctx "b # bs"] Ret by (simp add: keeps_chat_def)
        with less.hyps [of r2] eat_chunk_in [OF Ret] sz \<open>blob_read r ?n = Ret got r1\<close> got Ret
        show ?thesis by (cases d) (auto simp: simps)
      qed (use Ret got in \<open>auto simp: simps\<close>)
    next
      case False
      then have "got = RqError \<or> got = RqTimeout \<or> got = RqBytes []"
        by (metis req_in.exhaust list.exhaust)
      with Ret c1 show ?thesis by (auto simp: simps)
    qed
  qed (auto simp: simps)
qed

lemma keeps_cleanup: "rq_chat_history r = c \<Longrightarrow> keeps_chat c (put_cleanup tmp st r)"
  unfolding put_cleanup_def by (intro keeps_proceed keeps_close keeps_unlink) simp_all

lemma keeps_finish: "rq_chat_history r = c \<Longrightarrow> keeps_chat c (put_finish root tmp d r)"
  unfolding put_finish_def Let_def by (auto intro!: keeps_cleanup keeps_proceed keeps_arbor)

lemma keeps_scanned: "rq_chat_history r = c \<Longrightarrow> keeps_chat c (put_scanned H tmp r)"
  unfolding put_scanned_def Let_def by (auto intro!: keeps_proceed keeps_eat_chunk keeps_put_loop)

lemma keeps_put_stream:
  assumes "rq_chat_history r = c" and "\<And>tmp s. rq_chat_history s = c \<Longrightarrow> keeps_chat c (chunks tmp s)"
  shows "keeps_chat c (put_stream chunks root r)"
proof -
  obtain x s where o: "on_module (io_fs_create (put_tmp_path r)) r = (x, s)" by fastforce
  with on_module_chat [OF o] assms show ?thesis
    by (cases x) (auto simp: put_stream_def Let_def intro!: keeps_proceed keeps_finish)
qed

lemma keeps_trusted: "rq_chat_history r = c \<Longrightarrow> keeps_chat c (get_bytes_trusted r)"
  unfolding get_bytes_trusted_def
  by (intro keeps_proceed keeps_blob_loop keeps_blob_write keeps_close) auto

lemma keeps_eat_trusted: "rq_chat_history r = c \<Longrightarrow> keeps_chat c (eat_trusted root r)"
  by (auto simp: eat_trusted_def Let_def dest: on_module_chat split: prod.splits sum.splits)

section \<open>The callbacks that store nothing\<close>

text \<open>A callback that says nothing to the client and adds no blob to a store.\<close>

definition tidy_call :: "blob_fs callback \<Rightarrow> bool" where
  "tidy_call call \<longleftrightarrow>
     (\<forall>r. keeps_chat (rq_chat_history r) (call r) \<and>
        after (\<lambda>_. blobs_within (rq_module r)) (blobs_within (rq_module r)) (call r))"

lemma within_trusted:
  assumes "blobs_within w r"
  shows "after (\<lambda>_. blobs_within w) (blobs_within w) (get_bytes_trusted r)"
  unfolding get_bytes_trusted_def after_proceed
  by (rule after_mono [OF within_blob_loop [OF within_blob_write assms]])
    (auto intro!: after_mono [OF within_close])

lemma within_eat_trusted:
  assumes "blobs_within w r"
  shows "after (\<lambda>_. blobs_within w) (blobs_within w) (eat_trusted root r)"
proof -
  let ?r = "make_path root (rq_digest r) r"
  obtain x m where l: "io_fs_lstat (fr_blob_path (rq_module ?r)) (rq_module ?r) = (x, m)" by fastforce
  have "fs_nodes m = fs_nodes (rq_module ?r)" by (rule lstat_nodes [OF l])
  then have "files_within is_blob_path w m" using assms by (simp add: make_path_def files_within_def)
  with l show ?thesis
    by (auto simp: eat_trusted_def Let_def on_module_def split: sum.splits)
qed

lemmas tidy_parts =
  keeps_get_request keeps_get_bytes keeps_trusted keeps_eat keeps_eat_trusted keeps_take_reply
  within_get_request within_get_bytes within_trusted within_eat within_eat_trusted within_take_reply
  files_within_same

lemma tidy_calls:
  "tidy_call (get_request root)" "tidy_call (get_bytes_checked H)" "tidy_call get_bytes_trusted"
  "tidy_call (eat_checked root H)" "tidy_call (eat_trusted root)" "tidy_call (unlink_on_ok reply)"
  by (simp_all add: tidy_call_def tidy_parts)

lemma tidy_const: "tidy_call (\<lambda>r. Ret st r)"
  by (simp add: tidy_call_def files_within_same)

lemma tidy_close: "tidy_call (\<lambda>r. proceed (blob_close r) (\<lambda>_ r. Ret 0 r))"
  unfolding tidy_call_def after_proceed
  by (auto intro!: keeps_proceed keeps_close after_mono [OF within_close [OF files_within_same [OF refl]]])

lemma tidy_if: "tidy_call f \<Longrightarrow> tidy_call g \<Longrightarrow> tidy_call (\<lambda>r. if b then f r else g r)"
  by (simp add: tidy_call_def)

section \<open>The contract is kept\<close>

lemma quiet_combine:
  assumes "after Q (\<lambda>s. Safe (rq_module s)) m" and "after (\<lambda>_ s. Safe (rq_module s)) E m"
    and "keeps_chat (rq_chat_history r) m"
  shows "quiet_call Safe r Q m"
  unfolding quiet_call_def using assms(1) after_conj [OF assms(2) assms(3) [unfolded keeps_chat_def]]
  by (rule after_conj)

lemma tidy_quiet:
  assumes "tidy_call call" and "store_ok Hs (rq_module r)"
  shows "quiet_call (store_ok Hs) r (\<lambda>_ _. True) (call r)"
proof -
  have s: "after (\<lambda>_ s. store_ok Hs (rq_module s)) (\<lambda>s. store_ok Hs (rq_module s)) (call r)"
    by (rule after_within_store_ok [OF assms(2)]) (use assms(1) in \<open>simp add: tidy_call_def\<close>)
  show ?thesis
    by (rule quiet_combine [OF _ s]) (rule after_mono [OF s], use assms(1) in \<open>auto simp: tidy_call_def\<close>)
qed

lemma store_ok_upd [simp]:
  "store_ok Hs (m\<lparr>fr_blob_dir_path := a\<rparr>) = store_ok Hs m"
  "store_ok Hs (m\<lparr>fr_blob_path := a\<rparr>) = store_ok Hs m"
  "store_ok Hs (m\<lparr>fr_digest := w\<rparr>) = store_ok Hs m"
  "store_ok Hs (m\<lparr>fr_blob_fd := f\<rparr>) = store_ok Hs m"
  by (simp_all add: store_ok_def)

lemma env_upd [simp]:
  "tmp_apart (m\<lparr>fr_blob_dir_path := a\<rparr>) = tmp_apart m" "one_device (m\<lparr>fr_blob_dir_path := a\<rparr>) = one_device m"
  "tmp_apart (m\<lparr>fr_blob_path := p\<rparr>) = tmp_apart m" "one_device (m\<lparr>fr_blob_path := p\<rparr>) = one_device m"
  "tmp_apart (m\<lparr>fr_digest := w\<rparr>) = tmp_apart m" "one_device (m\<lparr>fr_digest := w\<rparr>) = one_device m"
  "tmp_apart (m\<lparr>fr_blob_fd := f\<rparr>) = tmp_apart m" "one_device (m\<lparr>fr_blob_fd := f\<rparr>) = one_device m"
  by (simp_all add: tmp_apart_def one_device_def)

text \<open>What a module of this kind needs for the contract.\<close>

lemma module_contract:
  assumes "root \<in> set store_roots"
    and "\<And>r. put_fresh root em Hs r \<Longrightarrow> rq_verb r = ''wrap'' \<or> dm_is_digest mp (rq_digest r) \<noteq> 0 \<Longrightarrow>
      quiet_call (store_ok Hs) r (\<lambda>st s. st = 0 \<longrightarrow> put_fresh root em Hs s \<and>
          (rq_verb r \<noteq> ''wrap'' \<longrightarrow> put_ready root em Hs s)) (dm_open mp r)"
    and "list_all (\<lambda>call. call = Ret 0) (opening_calls mp)"
    and "list_all (\<lambda>call. call = put_stream chunks root) (storing_calls mp)"
    and "chunks_sound em (Hs root) chunks"
    and "\<And>c tmp s. rq_chat_history s = c \<Longrightarrow> keeps_chat c (chunks tmp s)"
    and "list_all tidy_call (other_calls mp)" and "\<And>st. tidy_call (dm_close mp st)"
  shows "digest_contract mp (put_fresh root em Hs) (put_ready root em Hs) (store_ok Hs)"
proof unfold_locales
  fix r :: "blob_fs request" and s call st' b
  show "put_fresh root em Hs r \<Longrightarrow> store_ok Hs (rq_module r)" by (simp add: put_fresh_def)
  show "put_ready root em Hs r \<Longrightarrow> store_ok Hs (rq_module r)" by (simp add: put_ready_def put_fresh_def)
  show "same_call r s \<Longrightarrow> put_ready root em Hs r \<Longrightarrow> put_ready root em Hs s"
    by (simp add: same_call_def put_ready_def put_fresh_def)
  show "put_fresh root em Hs r \<Longrightarrow> put_fresh root em Hs (r\<lparr>rq_scan_buf := b\<rparr>)"
    by (simp add: put_fresh_def)
  show "put_ready root em Hs r \<Longrightarrow> put_ready root em Hs (r\<lparr>rq_scan_buf := b\<rparr>)"
    by (simp add: put_ready_def put_fresh_def)
  show "put_fresh root em Hs r \<Longrightarrow> rq_verb r = ''wrap'' \<or> dm_is_digest mp (rq_digest r) \<noteq> 0 \<Longrightarrow>
      quiet_call (store_ok Hs) r (\<lambda>st s. st = 0 \<longrightarrow> put_fresh root em Hs s \<and>
          (rq_verb r \<noteq> ''wrap'' \<longrightarrow> put_ready root em Hs s)) (dm_open mp r)" by (rule assms(2))
  show "call \<in> set (opening_calls mp) \<Longrightarrow> put_ready root em Hs r \<Longrightarrow>
      quiet_call (store_ok Hs) r (\<lambda>st. put_ready root em Hs) (call r)"
    using assms(3) by (auto simp: list_all_iff quiet_call_def put_ready_def put_fresh_def)
  show "call \<in> set (storing_calls mp) \<Longrightarrow> put_ready root em Hs r \<Longrightarrow>
      quiet_call (store_ok Hs) r (\<lambda>st s. True) (call r)"
  proof -
    assume c: "call \<in> set (storing_calls mp)" and r: "put_ready root em Hs r"
    note p = put_stream_sound [OF assms(5,1) r]
    have "quiet_call (store_ok Hs) r (\<lambda>st s. True) (put_stream chunks root r)"
      by (rule quiet_combine [OF _ p keeps_put_stream [OF refl assms(6)]])
        (rule after_mono [OF p], auto)
    with c assms(4) show ?thesis by (auto simp: list_all_iff)
  qed
  show "call \<in> set (other_calls mp) \<Longrightarrow> store_ok Hs (rq_module r) \<Longrightarrow>
      quiet_call (store_ok Hs) r (\<lambda>st s. True) (call r)"
    using assms(7) by (auto simp: list_all_iff intro: tidy_quiet)
  show "store_ok Hs (rq_module r) \<Longrightarrow> quiet_call (store_ok Hs) r (\<lambda>st s. True) (dm_close mp st' r)"
    by (rule tidy_quiet [OF assms(8)])
qed

text \<open>The digest of each store.\<close>

definition store_hash :: "openssl \<Rightarrow> bytes \<Rightarrow> bytes \<Rightarrow> ui8 list" where
  "store_hash ssl root =
     (if root = fs_bc160_root then bc160_hash ssl
      else if root = fs_btc20_root then btc20_hash ssl else ossl_sha1 ssl)"

lemma store_hash_simps [simp]:
  "store_hash ssl fs_sha_root = ossl_sha1 ssl" "store_hash ssl fs_bc160_root = bc160_hash ssl"
  "store_hash ssl fs_btc20_root = btc20_hash ssl"
  by (simp_all add: store_hash_def fs_sha_root_def fs_bc160_root_def fs_btc20_root_def)

lemma roots [simp]:
  "fs_sha_root \<in> set store_roots" "fs_bc160_root \<in> set store_roots" "fs_btc20_root \<in> set store_roots"
  by (simp_all add: store_roots_def fs_sha_root_def fs_bc160_root_def fs_btc20_root_def)

lemma sha_open_ready:
  assumes "put_fresh root em Hs r" and "rq_verb r = ''wrap'' \<or> fs_sha_is_digest (rq_digest r) \<noteq> 0"
  shows "quiet_call (store_ok Hs) r (\<lambda>st s. st = 0 \<longrightarrow> put_fresh root em Hs s \<and>
      (rq_verb r \<noteq> ''wrap'' \<longrightarrow> put_ready root em Hs s)) (fs_sha_open r)"
proof (cases "rq_verb r = ''wrap''")
  case True
  with assms(1) show ?thesis
    by (simp add: fs_sha_open_def quiet_call_def put_fresh_def)
next
  case False
  then have nm: "blob_name (rq_digest r)" using assms(2) sha_is_digest_name by simp
  then obtain want where "decode_hex (rq_digest r) (replicate 20 0) = Some want"
    "concat (map encode_byte want) = rq_digest r" by (rule blob_name_decode)
  with False assms(1) nm show ?thesis
    by (simp add: fs_sha_open_def quiet_call_def put_fresh_def put_ready_def)
qed

lemma ripe_open_ready:
  assumes "put_fresh root em Hs r" and "rq_verb r = ''wrap'' \<or> blob_name (rq_digest r)"
  shows "quiet_call (store_ok Hs) r (\<lambda>st s. st = 0 \<longrightarrow> put_fresh root em Hs s \<and>
      (rq_verb r \<noteq> ''wrap'' \<longrightarrow> put_ready root em Hs s)) (ripe_open r)"
  using assms nib2digest_name [of "rq_digest r"]
  by (auto simp: ripe_open_def Let_def quiet_call_def put_fresh_def put_ready_def)

lemma keeps_sha_chunks: "rq_chat_history r = c \<Longrightarrow> keeps_chat c (sha_put_chunks H tmp r)"
  unfolding sha_put_chunks_def by (auto intro!: keeps_put_loop keeps_scanned)

lemma keeps_ripe_chunks: "rq_chat_history r = c \<Longrightarrow> keeps_chat c (ripe_put_chunks em H tmp r)"
  unfolding ripe_put_chunks_def by (auto intro!: keeps_put_loop keeps_scanned)

lemmas sha_callbacks =
  fs_sha_module_def fs_sha_get_request_def [abs_def] fs_sha_get_bytes_def [abs_def] fs_sha_eat_def [abs_def]
  fs_sha_put_request_def [abs_def] fs_sha_put_bytes_def [abs_def] fs_sha_take_request_def [abs_def]
  fs_sha_take_bytes_def [abs_def] fs_sha_take_reply_def [abs_def] fs_sha_give_request_def [abs_def]
  fs_sha_give_bytes_def [abs_def] fs_sha_give_reply_def [abs_def] fs_sha_close_def [abs_def]

lemmas bc160_callbacks =
  fs_bc160_module_def fs_bc160_open_def [abs_def] fs_bc160_get_request_def [abs_def]
  fs_bc160_get_bytes_def [abs_def] fs_bc160_eat_def [abs_def] fs_bc160_put_request_def [abs_def]
  fs_bc160_put_bytes_def [abs_def] fs_bc160_take_request_def [abs_def]
  fs_bc160_take_bytes_def [abs_def] fs_bc160_take_reply_def [abs_def]
  fs_bc160_give_request_def [abs_def] fs_bc160_give_bytes_def [abs_def]
  fs_bc160_give_reply_def [abs_def] fs_bc160_close_def [abs_def]

lemmas btc20_callbacks =
  fs_btc20_module_def fs_btc20_open_def [abs_def] fs_btc20_get_request_def [abs_def]
  fs_btc20_get_bytes_def [abs_def] fs_btc20_eat_def [abs_def] fs_btc20_put_request_def [abs_def]
  fs_btc20_put_bytes_def [abs_def] fs_btc20_take_request_def [abs_def]
  fs_btc20_take_bytes_def [abs_def] fs_btc20_take_reply_def [abs_def]
  fs_btc20_give_request_def [abs_def] fs_btc20_give_bytes_def [abs_def]
  fs_btc20_give_reply_def [abs_def] fs_btc20_close_def [abs_def]

interpretation sha: digest_contract "fs_sha_module (ossl_sha1 ssl)"
  "put_fresh fs_sha_root empty_ascii (store_hash ssl)" "put_ready fs_sha_root empty_ascii (store_hash ssl)"
  "store_ok (store_hash ssl)" for ssl
  by (rule module_contract [where chunks = "sha_put_chunks (ossl_sha1 ssl)"])
    (simp_all add: sha_open_ready keeps_sha_chunks sha_chunks_sound opening_calls_def
      storing_calls_def other_calls_def tidy_calls tidy_const tidy_close sha_callbacks)

interpretation bc160: digest_contract "fs_bc160_module ssl trust"
  "put_fresh fs_bc160_root bc160_empty (store_hash ssl)"
  "put_ready fs_bc160_root bc160_empty (store_hash ssl)" "store_ok (store_hash ssl)" for ssl trust
  by (rule module_contract [where chunks = "ripe_put_chunks bc160_empty (bc160_hash ssl)"])
    (simp_all add: tidy_if ripe_open_ready ripe_is_digest_pos keeps_ripe_chunks ripe_chunks_sound
      opening_calls_def storing_calls_def other_calls_def tidy_calls tidy_const tidy_close
      bc160_callbacks)

interpretation btc20: digest_contract "fs_btc20_module ssl trust"
  "put_fresh fs_btc20_root btc20_empty (store_hash ssl)"
  "put_ready fs_btc20_root btc20_empty (store_hash ssl)" "store_ok (store_hash ssl)" for ssl trust
  by (rule module_contract [where chunks = "ripe_put_chunks btc20_empty (btc20_hash ssl)"])
    (simp_all add: tidy_if ripe_open_ready ripe_is_digest_pos keeps_ripe_chunks ripe_chunks_sound
      opening_calls_def storing_calls_def other_calls_def tidy_calls tidy_const tidy_close
      btc20_callbacks)

section \<open>Whole requests\<close>

lemma scan_chunk_ok:
  "scan_chunk s b = More s' \<Longrightarrow> scan_ok s \<Longrightarrow> scan_ok s'"
  "scan_chunk s b = Go s' rest \<Longrightarrow> scan_ok s \<Longrightarrow> scan_ok s'"
proof (induction s b rule: scan_chunk.induct)
  case (2 s c b)
  {
    case 1
    with 2 scan_char_ok [of s c] show ?case by (auto split: scan_step.splits)
  next
    case 2
    have "scan_char s c = ScanGo s1 \<Longrightarrow> s1 = s" for s1
      by (auto simp: scan_char.simps split: scan_state.splits if_splits)
    with 2 "2.IH"(2) scan_char_ok [of s c] show ?case by (auto split: scan_step.splits)
  }
qed auto

text \<open>
  The read loop hands over only well-formed requests, and has touched neither the module nor the
  chat before.
\<close>

lemma after_request_loop:
  fixes r :: "'a request"
  assumes "\<And>s b t. scan_ok s \<Longrightarrow> same_call r t \<Longrightarrow> rq_chat_history t = c \<Longrightarrow> after (\<lambda>_. Q) E (go s b t)"
    and "\<And>t. same_call r t \<Longrightarrow> E t"
  shows "scan_ok s0 \<Longrightarrow> same_call r r0 \<Longrightarrow> rq_chat_history r0 = c \<Longrightarrow>
    after (\<lambda>halted t. if halted then Q t else same_call r t) E (request_loop go s0 r0)"
proof (induction "net_size (rq_in r0)" arbitrary: s0 r0 rule: less_induct)
  case less
  note simps = request_loop.simps [of go s0 r0]
  have rd: "after (\<lambda>_ t. same_call r t \<and> rq_chat_history t = c) (same_call r) (req_read r0 MSG_SIZE)"
    by (rule after_mono [OF chat_read]) (use less.prems in \<open>auto intro: same_call_trans\<close>)
  have die: "after P E (die_NO t)" "after P E (die t)" if "same_call r t"
    for t and P :: "bool \<Rightarrow> 'a request \<Rightarrow> bool"
    using that assms(2) by (auto simp: die_NO_def die_def Let_def split: prod.splits timed.splits)
  show ?case
  proof (cases "req_read r0 MSG_SIZE")
    case (Ret x r1)
    with rd have r1: "same_call r r1" "rq_chat_history r1 = c" by auto
    show ?thesis
    proof (cases "\<exists>b bs. x = RqBytes (b # bs)")
      case True
      then obtain b bs where x: "x = RqBytes (b # bs)" by blast
      show ?thesis
      proof (cases "scan_chunk s0 (b # bs)")
        case (More s1)
        from less.hyps [of r1 s1, OF req_read_chunk [OF Ret [unfolded x]] scan_chunk_ok(1) [OF More less.prems(1)] r1]
        show ?thesis using Ret x More by (simp add: simps del: scan_chunk.simps)
      next
        case (Go s1 rest)
        have "after (\<lambda>_. Q) E (go s1 rest r1)"
          by (rule assms(1) [OF scan_chunk_ok(2) [OF Go less.prems(1)] r1])
        with Ret x Go show ?thesis
          by (auto simp: simps simp del: scan_chunk.simps elim!: after_mono)
      next
        case (Dead e)
        with Ret x die [OF r1(1)] show ?thesis by (simp add: simps del: scan_chunk.simps)
      qed
    next
      case False
      then have "x = RqError \<or> x = RqTimeout \<or> x = RqBytes []"
        by (metis req_in.exhaust list.exhaust)
      with Ret die [OF r1(1)] r1 show ?thesis by (auto simp: simps)
    qed
  qed (use rd assms(2) in \<open>auto simp: simps\<close>)
qed

lemma scan_ok_no_nul:
  assumes "scan_ok s"
  shows "NUL \<notin> set (sc_verb s)" "NUL \<notin> set (sc_digest s)"
  using assms by (auto simp: scan_ok_def ctype_defs c_isgraph_def)

lemma request_end:
  assumes "store_ok Hs (rq_module r)"
  shows "after (\<lambda>_ s. store_ok Hs (rq_module s)) (\<lambda>s. store_ok Hs (rq_module s)) (encode_chat r)"
    and "after (\<lambda>_ s. store_ok Hs (rq_module s)) (\<lambda>s. store_ok Hs (rq_module s))
      (brr_send gmtime brr_mask r)"
proof -
  show "after (\<lambda>_ s. store_ok Hs (rq_module s)) (\<lambda>s. store_ok Hs (rq_module s)) (encode_chat r)"
    using assms by (auto simp: encode_chat_def Let_def set_chat_def)
  show "after (\<lambda>_ s. store_ok Hs (rq_module s)) (\<lambda>s. store_ok Hs (rq_module s))
      (brr_send gmtime brr_mask r)"
    using assms by (auto simp: brr_send_def Let_def split: prod.splits sum.splits)
qed

end
