(* ===== verification/Wrap_Roll.thy ===== *)
theory Wrap_Roll
  imports Fs_Ripe Udig_Set
begin

text \<open>
  The verbs \<^verbatim>\<open>wrap\<close> and \<^verbatim>\<open>roll\<close> and the logger process of \<^verbatim>\<open>bio4d/brr.c\<close>.  The children write
  their blob request records to a pipe; the logger appends them to \<^verbatim>\<open>spool/bio4d.brr\<close>.  \<^verbatim>\<open>wrap\<close> asks
  the logger to freeze that file, stores the frozen file as a blob, moves it to \<^verbatim>\<open>spool/wrap\<close> under
  its udig, and stores the set of all udigs found there as a blob, whose udig the client gets.
  \<^verbatim>\<open>roll\<close> reads such a set from a blob and removes the files in \<^verbatim>\<open>spool/wrap\<close> that it names.
\<close>

section \<open>The logger\<close>

definition brr_log_path :: bytes where "brr_log_path = ''spool/bio4d.brr''"

text \<open>
  The name of the frozen log.  The first number should be the time, but what is printed is the
  address of the function \<^verbatim>\<open>time\<close>, cut to 32 bits: \<open>lg_stamp\<close>.
\<close>

definition frozen_path :: "ui32 \<Rightarrow> 16 word \<Rightarrow> bytes" where
  "frozen_path stamp seq =
     ''spool/bio4d-'' @ pad0 10 (unat stamp) @ CHR ''-'' # pad0 5 (unat seq) @ ''.brr''"

definition io_fs_open_append :: "bytes \<Rightarrow> 's fs_scheme \<Rightarrow> unit sysret \<times> 's fs_scheme" where
  "io_fs_open_append p = fs_call (\<lambda>w.
     case map_of (fs_nodes w) p of
       Some (File bs) \<Rightarrow> (Inr (), w)
     | Some _ \<Rightarrow> (Inl EOTHER, w)
     | None \<Rightarrow>
         if \<not> parent_there p (fs_nodes w) then (Inl ENOENT, w)
         else (Inr (), w\<lparr>fs_nodes := set_node p (File []) (fs_nodes w)\<rparr>))"

text \<open>
  System calls in a row, each of which must succeed: the value is \<open>True\<close> when all did, and the
  calls after a failure are not made.
\<close>

fun calls :: "('w \<Rightarrow> unit sysret \<times> 'w) list \<Rightarrow> 'w \<Rightarrow> bool \<times> 'w" where
  "calls [] w = (True, w)"
| "calls (c # cs) w =
     (case c w of (Inl e, w1) \<Rightarrow> (False, w1) | (Inr _, w1) \<Rightarrow> calls cs w1)"

text \<open>
  \<^verbatim>\<open>answer_wrap\<close>: close, \<^verbatim>\<open>time\<close>, rename, \<^verbatim>\<open>chmod\<close>, reopen, and the answer on the fifo of the child.
  The value has the path that the child receives, if any, and whether the logger panics.
\<close>

definition answer_wrap :: "blob_fs \<Rightarrow> (bytes option \<times> bool) \<times> blob_fs" where
  "answer_wrap w =
     (case calls [fs_touch] w of
        (False, w1) \<Rightarrow> ((None, True), w1)
      | (True, w1) \<Rightarrow>
          if fr_time w1 = 0 then ((None, True), w1)
          else
            let w2 = w1\<lparr>lg_seq := lg_seq w1 + 1\<rparr>;
                path = frozen_path (lg_stamp w2) (lg_seq w2)
            in case calls [io_fs_rename brr_log_path path, fs_touch, io_fs_open_append brr_log_path,
                           fs_touch, fs_touch] w2 of
                 (False, w3) \<Rightarrow> ((None, True), w3)
               | (True, w3) \<Rightarrow>
                   (case fs_touch w3 of (st, w4) \<Rightarrow> ((Some path, st \<noteq> Inr ()), w4)))"

text \<open>
  One message of \<^verbatim>\<open>brr_logger\<close>: a payload of 25 bytes is a request of \<^verbatim>\<open>wrap\<close>, anything else a
  record.
\<close>

definition brr_logger :: "bytes \<Rightarrow> blob_fs \<Rightarrow> (bytes option \<times> bool) \<times> blob_fs" where
  "brr_logger payload w =
     (if length payload = 25 then answer_wrap w
      else case io_fs_append brr_log_path payload w of
        (Inl e, w1) \<Rightarrow> ((None, True), w1)
      | (Inr _, w1) \<Rightarrow> ((None, payload = []), w1))"

text \<open>
  The logger reads the messages of the other children that came before, and then ours; the value
  is what we receive, \<open>None\<close> when the logger has panicked before.
\<close>

fun brr_logger_serve :: "bytes list \<Rightarrow> bytes \<Rightarrow> blob_fs \<Rightarrow> bytes option \<times> blob_fs" where
  "brr_logger_serve [] msg w = (case brr_logger msg w of ((reply, _), w1) \<Rightarrow> (reply, w1))"
| "brr_logger_serve (m # ms) msg w =
     (case brr_logger m w of
        ((_, dead), w1) \<Rightarrow> if dead then (None, w1) else brr_logger_serve ms msg w1)"

section \<open>The directory of wrapped logs\<close>

definition wrap_dir :: bytes where "wrap_dir = ''spool/wrap''"

text \<open>The entries of a directory: names, and whether the entry is a regular file.\<close>

definition dir_entries :: "bytes \<Rightarrow> (bytes \<times> node) list \<Rightarrow> (bytes \<times> bool) list" where
  "dir_entries d ns =
     map (\<lambda>p. (drop (length d + 1) p, case map_of ns p of Some (File bs) \<Rightarrow> True | _ \<Rightarrow> False))
       (filter (\<lambda>p. dir_of p = Some d) (remdups (map fst ns)))"

definition io_fs_opendir :: "bytes \<Rightarrow> 's fs_scheme \<Rightarrow> (bytes \<times> bool) list sysret \<times> 's fs_scheme" where
  "io_fs_opendir d = fs_call (\<lambda>w.
     if map_of (fs_nodes w) d = Some Dir \<or> map_of (fs_nodes w) d = Some Link
     then (Inr (dir_entries d (fs_nodes w)), w) else (Inl ENOENT, w))"

text \<open>
  \<^verbatim>\<open>extract_wrap_udig\<close>: the udig in a file name, \<open>None\<close> for -1.  An algorithm of eight characters
  would be terminated behind its buffer, but no module has such a name.
\<close>

definition extract_wrap_udig :: "'m digest_module list \<Rightarrow> bytes \<Rightarrow> bytes option" where
  "extract_wrap_udig modules name =
     (let len = length name in
      if len < 4 \<or> len \<ge> MAX_UDIG_SIZE + 4 \<or> drop (len - 4) name \<noteq> ''.brr'' then None
      else if CHR '':'' \<notin> set name then None
      else
        let algorithm = takeWhile (\<lambda>c. c \<noteq> CHR '':'') name;
            udig = take (len - 4) name
        in if length algorithm > 8 then None
           else case module_get modules algorithm of
             None \<Rightarrow> None
           | Some mp \<Rightarrow>
               if dm_is_digest mp (drop (length algorithm + 1) udig) > 0 then Some udig else None)"

section \<open>The verb wrap\<close>

definition wrap_fifo :: "nat \<Rightarrow> bytes" where
  "wrap_fifo pid = take 24 (''run/wrap-'' @ pad0 10 pid @ ''.fifo'')"

definition spool_tmp_path :: "bytes \<Rightarrow> bytes \<Rightarrow> blob_fs request \<Rightarrow> bytes" where
  "spool_tmp_path verb_time suffix r =
     (let s = rq_module r in
      take MAX_FILE_PATH_LEN
        (tmp_get (fr_tmp_map s) (fr_tmp_default s) (rq_algorithm r) (rq_digest r) @
         CHR ''/'' # verb_time @ CHR ''-'' # dec_nat (fr_pid s) @ suffix))"

text \<open>
  A call and what its failure does: \<open>must\<close> panics.  \<^verbatim>\<open>put_wrap_set\<close> is two writes, the udig and a
  newline, to the open and unlinked file of the set, whose text the loop carries.
\<close>

definition put_wrap_set :: "bytes \<Rightarrow> bytes \<Rightarrow> blob_fs request \<Rightarrow> (bytes, blob_fs request) outcome" where
  "put_wrap_set text udig r =
     proceed (must (on_module fs_touch r)) (\<lambda>_ r.
     proceed (must (on_module fs_touch r)) (\<lambda>_ r. Ret (text @ udig @ [NL]) r))"

fun wrap_scan ::
  "blob_fs digest_module list \<Rightarrow> bytes \<Rightarrow> (bytes \<times> bool) list \<Rightarrow> bytes \<Rightarrow> blob_fs request \<Rightarrow>
   (bytes, blob_fs request) outcome" where
  "wrap_scan modules frozen_udig [] text r = proceed (must (on_module fs_touch r)) (\<lambda>_ r. Ret text r)"
| "wrap_scan modules frozen_udig ((name, regular) # es) text r =
     proceed (must (on_module fs_touch r)) (\<lambda>_ r.
       if \<not> regular then wrap_scan modules frozen_udig es text r
       else case extract_wrap_udig modules name of
         None \<Rightarrow> wrap_scan modules frozen_udig es text r
       | Some udig \<Rightarrow>
           if udig = frozen_udig then wrap_scan modules frozen_udig es text r
           else proceed (put_wrap_set text udig r) (\<lambda>text r. wrap_scan modules frozen_udig es text r))"

text \<open>Freezing the log: the path of the frozen file and its bytes.\<close>

definition wrap_freeze :: "blob_fs request \<Rightarrow> (bytes \<times> bytes, blob_fs request) outcome" where
  "wrap_freeze r =
     (let fifo = wrap_fifo (fr_pid (rq_module r)) @ [NUL] in
      proceed (must (on_module fs_touch r)) (\<lambda>_ r.
      case io_msg_write fifo 25 (rq_log r) of
        (Inl e, log) \<Rightarrow> child_panic (r\<lparr>rq_log := log\<rparr>)
      | (Inr _, log) \<Rightarrow>
          let r = r\<lparr>rq_log := log\<rparr> in
          (case on_module fs_touch r of
             (Inl e, r1) \<Rightarrow> child_panic (snd (on_module fs_touch r1))
           | (Inr _, r1) \<Rightarrow>
               (case on_module (brr_logger_serve (lg_pending (rq_module r1)) fifo) r1 of
                  (None, r2) \<Rightarrow> Blocked r2
                | (Some path, r2) \<Rightarrow>
                    (case on_module fs_touch r2 of
                       (Inl e, r3) \<Rightarrow> child_panic (snd (on_module fs_touch r3))
                     | (Inr _, r3) \<Rightarrow>
                         let r4 = snd (on_module fs_touch r3) in
                         (case on_module (io_fs_open path) r4 of
                            (Inl e, r5) \<Rightarrow> child_panic r5
                          | (Inr bs, r5) \<Rightarrow> Ret (path, bs) r5))))))"

text \<open>Digesting a stream of the server and closing it, with a panic when the module fails.\<close>

definition wrap_digest ::
  "blob_fs digest_module \<Rightarrow> bytes \<Rightarrow> blob_fs request \<Rightarrow> (bytes, blob_fs request) outcome" where
  "wrap_digest mp bs r =
     proceed (dm_digest mp bs r) (\<lambda>digest r.
     proceed (must (on_module fs_touch r)) (\<lambda>_ r.
       case digest of None \<Rightarrow> child_panic r | Some hex \<Rightarrow> Ret hex r))"

text \<open>
  The file of the set is opened without \<^verbatim>\<open>O_EXCL\<close> and unlinked while open: \<open>old\<close> is what an
  existing file of that name had.
\<close>

definition open_wrap_set :: "bytes \<Rightarrow> blob_fs request \<Rightarrow> (bytes, blob_fs request) outcome" where
  "open_wrap_set path r =
     (case on_module (fs_call (\<lambda>w.
        case map_of (fs_nodes w) path of
          Some (File old) \<Rightarrow> (Inr old, w)
        | Some _ \<Rightarrow> (Inl EOTHER, w)
        | None \<Rightarrow> if parent_there path (fs_nodes w) then (Inr [], w) else (Inl ENOENT, w))) r of
        (Inl e, r1) \<Rightarrow> child_panic (snd (on_module (io_fs_unlink path) r1))
      | (Inr old, r1) \<Rightarrow>
          (case on_module (io_fs_unlink path) r1 of
             (Inr _, r2) \<Rightarrow> Ret old r2
           | (Inl e, r2) \<Rightarrow>
               Ret old (r2\<lparr>rq_module := (rq_module r2)\<lparr>fs_nodes :=
                 set_node path (File old) (fs_nodes (rq_module r2))\<rparr>\<rparr>)))"

definition wrap ::
  "blob_fs digest_module list \<Rightarrow> blob_fs digest_module \<Rightarrow> blob_fs callback" where
  "wrap modules mp r =
     (let r = set_verb REQUEST_EXIT_STATUS_WRAP r in
      proceed (wrap_freeze r) (\<lambda>(path, bs) r.
      proceed (wrap_digest mp bs r) (\<lambda>hex r.
        let frozen_udig = dm_name mp @ CHR '':'' # hex in
      proceed (must (on_module (io_fs_rename path (wrap_dir @ CHR ''/'' # frozen_udig @ ''.brr'')) r)) (\<lambda>_ r.
      proceed (open_wrap_set
          (spool_tmp_path (''wrap-'' @ dec_int (fr_time (rq_module r))) ''.udig'' r) r) (\<lambda>old r.
      proceed (put_wrap_set [] frozen_udig r) (\<lambda>text r.
        case on_module (io_fs_opendir wrap_dir) r of
          (Inl e, r1) \<Rightarrow> child_panic r1
        | (Inr es, r1) \<Rightarrow>
      proceed (wrap_scan modules frozen_udig es text r1) (\<lambda>text r.
      proceed (must (on_module fs_touch r)) (\<lambda>_ r.
      proceed (must (on_module fs_touch r)) (\<lambda>_ r.
      proceed (wrap_digest mp (text @ drop (length text) old) r) (\<lambda>set_hex r.
      proceed (write_ok r) (\<lambda>status r.
        if status \<noteq> 0 then Ret (-1) (log_error r)
        else
          let r = r\<lparr>rq_digest := set_hex\<rparr> in
          proceed (req_write r (dm_name mp @ CHR '':'' # set_hex @ [NL])) (\<lambda>status r.
            if status \<noteq> 0 then Ret (-1) (log_error r) else Ret 0 r))))))))))))"

section \<open>The verb roll\<close>

text \<open>
  A file that is created and unlinked while it is open: its bytes are kept under a key that is no
  path.  The value is the place of the stream.
\<close>

definition open_unlinked :: "bytes \<Rightarrow> 's fs_scheme \<Rightarrow> bytes sysret \<times> 's fs_scheme" where
  "open_unlinked path w =
     (case io_fs_create path w of
        (Inl e, w1) \<Rightarrow> (Inl e, snd (io_fs_unlink path w1))
      | (Inr _, w1) \<Rightarrow>
          (case io_fs_unlink path w1 of
             (Inl e, w2) \<Rightarrow> (Inr path, w2)
           | (Inr _, w2) \<Rightarrow>
               (Inr (NUL # path), w2\<lparr>fs_nodes := set_node (NUL # path) (File []) (fs_nodes w2)\<rparr>)))"

definition stream_bytes :: "bytes \<Rightarrow> blob_fs request \<Rightarrow> bytes" where
  "stream_bytes out r = (case map_of (fs_nodes (rq_module r)) out of Some (File bs) \<Rightarrow> bs | _ \<Rightarrow> [])"

text \<open>The loop over \<^verbatim>\<open>spool/wrap\<close>; a file that is gone is as good as one that was removed.\<close>

fun roll_scan ::
  "blob_fs digest_module list \<Rightarrow> hash_set \<Rightarrow> (bytes \<times> bool) list \<Rightarrow> blob_fs request \<Rightarrow>
   (unit, blob_fs request) outcome" where
  "roll_scan modules uset [] r =
     (case on_module fs_touch r of
        (Inl e, r1) \<Rightarrow> if e = ENOENT then Ret () r1 else child_panic r1
      | (Inr _, r1) \<Rightarrow> Ret () r1)"
| "roll_scan modules uset ((name, regular) # es) r =
     (case on_module fs_touch r of
        (Inl e, r1) \<Rightarrow> if e = ENOENT then Ret () r1 else child_panic r1
      | (Inr _, r1) \<Rightarrow>
          if \<not> regular then roll_scan modules uset es r1
          else case extract_wrap_udig modules name of
            None \<Rightarrow> roll_scan modules uset es r1
          | Some udig \<Rightarrow>
              if \<not> blob_set_exists uset udig then roll_scan modules uset es r1
              else proceed (must (on_module (io_fs_unlink (wrap_dir @ CHR ''/'' # name)) r1)) (\<lambda>_ r.
                roll_scan modules uset es r))"

definition roll_remove ::
  "blob_fs digest_module list \<Rightarrow> hash_set \<Rightarrow> blob_fs callback" where
  "roll_remove modules uset r =
     (case on_module (io_fs_opendir wrap_dir) r of
        (Inl e, r1) \<Rightarrow> child_panic r1
      | (Inr es, r1) \<Rightarrow>
          proceed (roll_scan modules uset es r1) (\<lambda>_ r.
          proceed (must (on_module fs_touch r)) (\<lambda>_ r.
          proceed (write_ok r) (\<lambda>status r.
            if status \<noteq> 0 then Ret (-1) (log_error r) else Ret 0 r))))"

text \<open>Slurping the stream into memory.\<close>

definition roll_slurp :: "bytes \<Rightarrow> blob_fs request \<Rightarrow> (bytes, blob_fs request) outcome" where
  "roll_slurp blob r =
     (case stream_read (length blob) [] blob (rq_module r) of
        (None, m) \<Rightarrow> child_panic (r\<lparr>rq_module := m\<rparr>)
      | (Some (got, _), m) \<Rightarrow>
          proceed (must (on_module fs_touch (r\<lparr>rq_module := m\<rparr>))) (\<lambda>_ r. Ret got r))"

definition roll_set ::
  "blob_fs digest_module list \<Rightarrow> bytes \<Rightarrow> blob_fs callback" where
  "roll_set modules blob r =
     (case blob2udig_set blob of
        ParsePanic \<Rightarrow> child_panic r
      | Croak e \<Rightarrow> proceed (write_no r) (\<lambda>st r. Ret (-1) (if st \<noteq> 0 then log_error r else r))
      | Parsed uset aset \<Rightarrow> roll_remove modules uset r)"

text \<open>The seek, \<^verbatim>\<open>fstat\<close>, and the empty set, which is nothing to do.\<close>

definition roll_stream ::
  "blob_fs digest_module list \<Rightarrow> bytes \<Rightarrow> blob_fs callback" where
  "roll_stream modules out r =
     proceed (must (on_module fs_touch r)) (\<lambda>_ r.
     proceed (must (on_module fs_touch r)) (\<lambda>_ r.
       let blob = stream_bytes out r in
       if blob = [] then
         proceed (write_ok r) (\<lambda>st r. Ret (if st \<noteq> 0 then -1 else 0) (if st \<noteq> 0 then log_error r else r))
       else proceed (roll_slurp blob r) (\<lambda>blob r. roll_set modules blob r)))"

text \<open>Only the status 1 of \<^verbatim>\<open>copy\<close> ends the request; -1, a copy that broke off, does not.\<close>

definition roll ::
  "blob_fs digest_module list \<Rightarrow> blob_fs digest_module \<Rightarrow> blob_fs callback" where
  "roll modules mp r =
     (let r = set_verb REQUEST_EXIT_STATUS_ROLL r;
          path = spool_tmp_path (''roll-'' @ time_text (fr_time (rq_module r))) ''.log'' r
      in case on_module (open_unlinked path) r of
           (Inl e, r1) \<Rightarrow> child_panic r1
         | (Inr out, r1) \<Rightarrow>
             proceed (dm_copy mp out r1) (\<lambda>status r.
               if status = 1 then
                 proceed (write_no r) (\<lambda>st r. Ret (-1) (if st \<noteq> 0 then log_error r else r))
               else roll_stream modules out r))"

end
