(* ===== verification/Wrap_Safe.thy ===== *)
theory Wrap_Safe
  imports Wrap_Roll Fs_Frame Module_Contract
begin

text \<open>
  \<^verbatim>\<open>wrap\<close> and \<^verbatim>\<open>roll\<close> keep the contract of the verb handlers: they work in \<^verbatim>\<open>spool\<close> and in the
  temporary directory and reach the stores through the module's \<^verbatim>\<open>digest\<close> only, which stores a
  stream under its own digest; what they tell the client is in the protocol.
\<close>

section \<open>Calls outside the stores\<close>

text \<open>A call of the kernel, or of another process, that adds no blob to a store.\<close>

definition gentle :: "(blob_fs \<Rightarrow> 'a \<times> blob_fs) \<Rightarrow> bool" where
  "gentle f \<longleftrightarrow> (\<forall>m x m'. f m = (x, m') \<longrightarrow>
     files_within is_blob_path m m' \<and> (tmp_apart m \<longrightarrow> tmp_apart m') \<and> (one_device m \<longrightarrow> one_device m'))"

lemma gentleD:
  "gentle f \<Longrightarrow> f m = (x, m') \<Longrightarrow> files_within is_blob_path m m' \<and>
    (tmp_apart m \<longrightarrow> tmp_apart m') \<and> (one_device m \<longrightarrow> one_device m')"
  by (simp add: gentle_def)

lemma fs_only_tmp:
  assumes "fs_only m m'"
  shows "fr_tmp_map m' = fr_tmp_map m" "fr_tmp_default m' = fr_tmp_default m"
proof -
  have e: "m' = m\<lparr>fs_faults := fs_faults m', fs_nodes := fs_nodes m'\<rparr>"
    using assms by (simp only: fs_only_def)
  show "fr_tmp_map m' = fr_tmp_map m" by (subst e) simp
  show "fr_tmp_default m' = fr_tmp_default m" by (subst e) simp
qed

lemma env_only: "fs_only m m' \<Longrightarrow> (tmp_apart m \<longrightarrow> tmp_apart m') \<and> (one_device m \<longrightarrow> one_device m')"
  using one_device_only [of m m'] by (simp add: tmp_apart_def fs_only_tmp)

lemma gentle_only:
  "(\<And>m x m'. f m = (x, m') \<Longrightarrow> fs_only m m' \<and> files_within is_blob_path m m') \<Longrightarrow> gentle f"
  unfolding gentle_def using env_only by blast

lemma gentle_touch: "gentle fs_touch"
  by (rule gentle_only) (simp add: fs_only_touch files_within_same fs_touch_nodes)

lemma gentle_unlink: "gentle (io_fs_unlink p)"
  by (rule gentle_only) (simp add: fs_only_unlink unlink_within)

lemma gentle_open: "gentle (io_fs_open p)"
  by (rule gentle_only) (simp add: fs_only_open files_within_same fs_open_nodes)

lemma within_off:
  "\<not> is_blob_path p \<Longrightarrow> (\<forall>q. q \<noteq> p \<longrightarrow> map_of (fs_nodes m') q = map_of (fs_nodes m) q) \<Longrightarrow>
   files_within is_blob_path m m'"
  unfolding files_within_def by metis

lemma gentle_append: "\<not> is_blob_path p \<Longrightarrow> gentle (io_fs_append p bs)"
  by (rule gentle_only) (auto simp: fs_only_append dest!: append_nodes intro: within_off)

lemma gentle_create: "\<not> is_blob_path p \<Longrightarrow> gentle (io_fs_create p)"
  by (rule gentle_only) (auto simp: fs_only_create dest!: create_nodes intro: within_off)

lemma gentle_rename:
  assumes "\<not> is_blob_path q"
  shows "gentle (io_fs_rename p q)"
proof (rule gentle_only)
  fix m m' :: blob_fs and x
  assume r: "io_fs_rename p q m = (x, m')"
  have "files_within (\<lambda>x. x \<noteq> q) m m'" using placed_rename [OF r] by (simp add: placed_def)
  with assms have "files_within is_blob_path m m'" unfolding files_within_def by metis
  with r show "fs_only m m' \<and> files_within is_blob_path m m'" by (simp add: fs_only_rename)
qed

lemma gentle_open_append:
  assumes "\<not> is_blob_path p"
  shows "gentle (io_fs_open_append p)"
proof (rule gentle_only)
  fix m m' :: blob_fs and x
  assume r: "io_fs_open_append p m = (x, m')"
  have "fs_only m m'"
    using r unfolding io_fs_open_append_def
    by (rule fs_only_call) (simp add: fs_only_upd split: option.split node.split)
  moreover have "\<forall>q. q \<noteq> p \<longrightarrow> map_of (fs_nodes m') q = map_of (fs_nodes m) q"
    using r by (auto simp: io_fs_open_append_def fs_call_def
        split: prod.splits option.splits node.splits if_splits)
  ultimately show "fs_only m m' \<and> files_within is_blob_path m m'" using within_off [OF assms] by blast
qed

lemma gentle_opendir: "gentle (io_fs_opendir d)"
proof (rule gentle_only)
  fix m m' :: blob_fs and x
  assume r: "io_fs_opendir d m = (x, m')"
  have "fs_only m m'"
    using r unfolding io_fs_opendir_def by (rule fs_only_call) simp
  moreover have "fs_nodes m' = fs_nodes m"
    using r by (auto simp: io_fs_opendir_def fs_call_def split: prod.splits option.splits if_splits)
  ultimately show "fs_only m m' \<and> files_within is_blob_path m m'" by (simp add: files_within_same)
qed

lemma gentle_calls: "list_all gentle cs \<Longrightarrow> gentle (calls cs)"
proof (induction cs)
  case Nil
  show ?case by (rule gentle_only) (simp add: files_within_same)
next
  case (Cons c cs)
  show ?case
    unfolding gentle_def
  proof (intro allI impI)
    fix m m' :: blob_fs and x
    assume "calls (c # cs) m = (x, m')"
    moreover obtain y m1 where c: "c m = (y, m1)" by fastforce
    ultimately have "m' = m1 \<or> calls cs m1 = (x, m')" by (auto split: sum.splits)
    with gentleD [of c m y m1] c gentleD [of "calls cs" m1 x m'] Cons.IH Cons.prems
    show "files_within is_blob_path m m' \<and> (tmp_apart m \<longrightarrow> tmp_apart m') \<and> (one_device m \<longrightarrow> one_device m')"
      by (metis (full_types) files_within_trans list.pred_inject(2))
  qed
qed


section \<open>Requests\<close>

text \<open>The stores are sound, the temporary directories apart and on their device, the chat as before.\<close>

definition safe :: "(bytes \<Rightarrow> bytes \<Rightarrow> ui8 list) \<Rightarrow> bytes \<Rightarrow> blob_fs request \<Rightarrow> bool" where
  "safe Hs c r \<longleftrightarrow> store_ok Hs (rq_module r) \<and> tmp_apart (rq_module r) \<and> one_device (rq_module r) \<and>
     rq_chat_history r = c"

abbreviation sound :: "(bytes \<Rightarrow> bytes \<Rightarrow> ui8 list) \<Rightarrow> blob_fs request \<Rightarrow> bool" where
  "sound Hs r \<equiv> store_ok Hs (rq_module r)"

lemma safe_sound: "safe Hs c r \<Longrightarrow> sound Hs r"
  by (simp add: safe_def)

lemma safe_on:
  assumes "gentle f" and "on_module f r = (x, s)" and "safe Hs c r"
  shows "safe Hs c s"
proof -
  obtain m where m: "f (rq_module r) = (x, m)" and s: "s = r\<lparr>rq_module := m\<rparr>"
    using assms(2) by (auto simp: on_module_split)
  from gentleD [OF assms(1) m] assms(3) store_ok_within [of "rq_module r" m Hs] s show ?thesis
    by (simp add: safe_def)
qed

lemma safe_must:
  assumes "gentle f" and "safe Hs c r"
  shows "after (\<lambda>_. safe Hs c) (sound Hs) (must (on_module f r))"
proof -
  obtain x s where o: "on_module f r = (x, s)" by fastforce
  from safe_on [OF assms(1) o assms(2)] o safe_sound show ?thesis
    by (auto simp: must_def split: sum.splits)
qed

text \<open>A step, then the rest.\<close>

lemma safe_then:
  assumes "after (\<lambda>_. safe Hs c) (sound Hs) m" and "\<And>a s. safe Hs c s \<Longrightarrow> after Q (sound Hs) (k a s)"
  shows "after Q (sound Hs) (proceed m k)"
  unfolding after_proceed by (rule after_mono [OF assms(1)]) (auto intro: assms(2))

lemma safe_must_then:
  assumes "gentle f" and "safe Hs c r" and "\<And>a s. safe Hs c s \<Longrightarrow> after Q (sound Hs) (k a s)"
  shows "after Q (sound Hs) (proceed (must (on_module f r)) k)"
  by (rule safe_then [OF safe_must [OF assms(1,2)]]) (rule assms(3))

lemma safe_upd [simp]:
  "safe Hs c (r\<lparr>rq_log := l\<rparr>) = safe Hs c r" "safe Hs c (log_error r) = safe Hs c r"
  "safe Hs c (r\<lparr>rq_digest := d\<rparr>) = safe Hs c r" "safe Hs c (set_verb v r) = safe Hs c r"
  by (simp_all add: safe_def set_verb_def)

section \<open>Digesting a stream\<close>

lemma hexchar_length: "n < 16 \<Longrightarrow> hexchar ! n \<in> set hexchar"
  by (rule nth_mem) (simp add: hexchar_def)

lemma blob_name_hex:
  assumes "length bs = 20"
  shows "blob_name (concat (map encode_byte bs))"
proof -
  have "set (encode_byte b) \<subseteq> set hexchar" for b
    using nibble_bounds [of b] by (simp add: encode_byte_def hexchar_length)
  moreover have "length (concat (map encode_byte bs)) = 2 * length bs"
    by (induction bs) (simp_all add: encode_byte_def)
  ultimately show ?thesis using assms by (auto simp: blob_name_def)
qed

definition streaming ::
  "(bytes \<Rightarrow> bytes \<Rightarrow> ui8 list) \<Rightarrow> bytes \<Rightarrow> bytes \<Rightarrow> bytes \<Rightarrow> blob_fs request \<Rightarrow> bool" where
  "streaming Hs c tmp written r \<longleftrightarrow>
     safe Hs c r \<and> map_of (fs_nodes (rq_module r)) tmp = Some (File written)"

lemma streaming_touch:
  "on_module fs_touch r = (x, s) \<Longrightarrow> streaming Hs c tmp written r \<Longrightarrow> streaming Hs c tmp written s"
  using safe_on [OF gentle_touch, of r x s]
  by (auto simp: streaming_def on_module_split dest!: fs_touch_nodes)

lemma streaming_loop:
  assumes "\<not> is_blob_path tmp"
  shows "streaming Hs c tmp written r \<Longrightarrow>
    after (\<lambda>good s. safe Hs c s \<and> (good \<longrightarrow> streaming Hs c tmp (written @ stream) s)) (sound Hs)
      (digest_loop tmp stream r)"
proof (induction "length stream" arbitrary: written stream r rule: less_induct)
  case less
  obtain x r1 where t: "on_module fs_touch r = (x, r1)" by fastforce
  have r1: "streaming Hs c tmp written r1" by (rule streaming_touch [OF t less.prems])
  then have s1: "safe Hs c r1" by (simp add: streaming_def)
  show ?case
  proof (cases "(\<exists>e. x = Inl e) \<or> stream = []")
    case True
    with t r1 s1 show ?thesis
      by (auto simp: digest_loop.simps [of tmp stream r] split: sum.splits)
  next
    case False
    then have x: "x = Inr ()" by (cases x) auto
    obtain y r2 where a: "on_module (io_fs_append tmp (take 4096 stream)) r1 = (y, r2)" by fastforce
    have s2: "safe Hs c r2" by (rule safe_on [OF gentle_append [OF assms] a s1])
    show ?thesis
    proof (cases y)
      case (Inl e)
      with t x a False safe_sound [OF s2] show ?thesis
        by (simp add: digest_loop.simps [of tmp stream r])
    next
      case (Inr u)
      from a Inr r1 s2 have "streaming Hs c tmp (written @ take 4096 stream) r2"
        by (auto simp: streaming_def on_module_split dest!: append_nodes)
      from less.hyps [of "drop 4096 stream", OF _ this] False t x a Inr show ?thesis
        by (simp add: digest_loop.simps [of tmp stream r])
    qed
  qed
qed

lemma safe_store_stream:
  assumes "root \<in> set store_roots" and "H = Hs root" and "length (H stream) = 20"
    and "\<not> is_blob_path tmp" and "NUL \<notin> set tmp" and "safe Hs c r"
  shows "after (\<lambda>_. safe Hs c) (sound Hs) (store_stream root H tmp stream r)"
proof -
  let ?hex = "concat (map encode_byte (H stream))"
  have nm: "blob_name ?hex" by (rule blob_name_hex [OF assms(3)])
  have made: "streaming Hs c tmp [] s"
    if "on_module (io_fs_create tmp) r = (Inr u, s)" for s u
    using that safe_on [OF gentle_create [OF assms(4)] that assms(6)]
    by (auto simp: streaming_def on_module_split dest!: create_nodes)
  have created: "after (\<lambda>_. streaming Hs c tmp []) (sound Hs) (must (on_module (io_fs_create tmp) r))"
  proof -
    obtain x s where o: "on_module (io_fs_create tmp) r = (x, s)" by fastforce
    with made safe_sound [OF safe_on [OF gentle_create [OF assms(4)] o assms(6)]] show ?thesis
      by (auto simp: must_def split: sum.splits)
  qed
  have moved: "after (\<lambda>_. safe Hs c) (sound Hs) (arbor_done (on_module
      (arbor_move pid tmp (blob_path root ?hex)) s))" if "streaming Hs c tmp stream s" for s pid
  proof -
    obtain res m where a: "arbor_move pid tmp (blob_path root ?hex) (rq_module s) = (res, m)" by fastforce
    have p: "placed tmp (blob_path root ?hex) (rq_module s) m"
      by (rule placed_arbor_move [OF a assms(5) blob_path_no_nul [OF nm assms(1)]])
        (use that in \<open>simp add: streaming_def safe_def\<close>)
    have "store_ok Hs m"
      by (rule placed_store_ok [OF p _ assms(1) nm])
        (use that assms(2) in \<open>auto simp: streaming_def safe_def\<close>)
    moreover have "fs_only (rq_module s) m"
      using fs_only_send [OF a [unfolded arbor_move_def]] .
    ultimately show ?thesis
      using a that env_only [of "rq_module s" m]
      by (auto simp: arbor_done_def on_module_def streaming_def safe_def split: arbor_result.splits)
  qed
  have made_path: "streaming Hs c tmp stream (make_path root d s) = streaming Hs c tmp stream s" for d s
    by (simp add: streaming_def safe_def make_path_def)
  have path: "fr_blob_path (rq_module (make_path root d s)) = blob_path root d" for d s
    by (simp add: make_path_def blob_path_def)
  have place: "after (\<lambda>_. safe Hs c) (sound Hs) (proceed (must (on_module fs_touch s)) (\<lambda>_ r.
      let r = make_path root ?hex r in
      proceed (arbor_done (on_module (arbor_move (fr_pid (rq_module r)) tmp (fr_blob_path (rq_module r))) r))
        (\<lambda>_ r. Ret (Some ?hex) r)))" if s: "streaming Hs c tmp stream s" for s
  proof -
    have "after (\<lambda>_. streaming Hs c tmp stream) (sound Hs) (must (on_module fs_touch s))"
    proof -
      obtain x t where o: "on_module fs_touch s = (x, t)" by fastforce
      with streaming_touch [OF o s] safe_sound show ?thesis
        by (auto simp: must_def streaming_def split: sum.splits)
    qed
    then show ?thesis
      unfolding after_proceed Let_def path
      by (rule after_mono) (auto intro!: after_mono [OF moved] simp: made_path)
  qed
  have drop: "after (\<lambda>_. safe Hs c) (sound Hs) (proceed (must (on_module fs_touch s)) (\<lambda>_ r.
      proceed (must (on_module (io_fs_unlink tmp) r)) (\<lambda>_ r. Ret (None :: bytes option) r)))"
    if "safe Hs c s" for s
    by (intro safe_must_then [OF gentle_touch that] safe_must_then [OF gentle_unlink]) simp_all
  have "after (\<lambda>_. safe Hs c) (sound Hs) (proceed (digest_loop tmp stream s) (\<lambda>good r.
       if \<not> good then
         proceed (must (on_module fs_touch r)) (\<lambda>_ r.
         proceed (must (on_module (io_fs_unlink tmp) r)) (\<lambda>_ r. Ret None r))
       else
         proceed (must (on_module fs_touch r)) (\<lambda>_ r.
           let hex_digest = concat (map encode_byte (H stream));
               r = make_path root hex_digest r
           in proceed (arbor_done (on_module
                  (arbor_move (fr_pid (rq_module r)) tmp (fr_blob_path (rq_module r))) r))
                (\<lambda>_ r. Ret (Some hex_digest) r))))" if "streaming Hs c tmp [] s" for s
    unfolding after_proceed [of _ _ "digest_loop _ _ _"]
    by (rule after_mono [OF streaming_loop [OF assms(4) that, of stream]])
      (use place drop in \<open>auto simp: Let_def simp del: after_proceed\<close>)
  then show ?thesis
    unfolding store_stream_def after_proceed [of _ _ "must (on_module (io_fs_create tmp) r)"]
    by (rule after_mono [OF created])
qed

section \<open>The logger\<close>

lemma spool_not_blob: "take 4 p \<noteq> ''data'' \<Longrightarrow> \<not> is_blob_path p"
  using blob_path_data by blast

lemma gentle_answer_wrap: "gentle answer_wrap"
  unfolding gentle_def
proof (intro allI impI)
  fix m m' :: blob_fs and x
  assume a: "answer_wrap m = (x, m')"
  let ?G = "\<lambda>m m'. files_within is_blob_path m m' \<and> (tmp_apart m \<longrightarrow> tmp_apart m') \<and> (one_device m \<longrightarrow> one_device m')"
  obtain b w1 where 1: "calls [fs_touch] m = (b, w1)" by fastforce
  let ?w2 = "w1\<lparr>lg_seq := lg_seq w1 + 1\<rparr>"
  let ?path = "frozen_path (lg_stamp ?w2) (lg_seq ?w2)"
  let ?cs = "[io_fs_rename brr_log_path ?path, fs_touch, io_fs_open_append brr_log_path, fs_touch, fs_touch]"
  obtain b3 w3 where 3: "calls ?cs ?w2 = (b3, w3)" by fastforce
  obtain st w4 where 4: "fs_touch w3 = (st, w4)" by fastforce
  have g1: "?G m w1" by (rule gentleD [OF gentle_calls 1]) (simp add: gentle_touch)
  have g2: "?G m ?w2" using g1 by (simp add: files_within_def tmp_apart_def one_device_def)
  have "list_all gentle ?cs"
    by (simp add: gentle_touch gentle_rename gentle_open_append spool_not_blob frozen_path_def brr_log_path_def)
  from gentleD [OF gentle_calls [OF this] 3] g2 have g3: "?G m w3" by (meson files_within_trans)
  with gentleD [OF gentle_touch 4] have g4: "?G m w4" by (meson files_within_trans)
  have "m' \<in> {w1, w3, w4}"
    using a 1 3 4 unfolding answer_wrap_def Let_def by (auto split: if_splits bool.splits)
  with g1 g3 g4 show "?G m m'" by auto
qed

lemma gentle_logger: "gentle (brr_logger payload)"
proof -
  have l: "\<not> is_blob_path brr_log_path" by (rule spool_not_blob) (simp add: brr_log_path_def)
  show ?thesis
    unfolding gentle_def
  proof (intro allI impI)
    fix m m' :: blob_fs and x
    assume a: "brr_logger payload m = (x, m')"
    obtain y w1 where 1: "io_fs_append brr_log_path payload m = (y, w1)" by fastforce
    have "answer_wrap m = (x, m') \<or> m' = w1"
      using a 1 by (auto simp: brr_logger_def split: if_splits sum.splits)
    with gentleD [OF gentle_append [OF l] 1] gentleD [OF gentle_answer_wrap, of m x m']
    show "files_within is_blob_path m m' \<and> (tmp_apart m \<longrightarrow> tmp_apart m') \<and> (one_device m \<longrightarrow> one_device m')"
      by auto
  qed
qed

lemma gentle_serve: "gentle (brr_logger_serve ms msg)"
  unfolding gentle_def
proof (intro allI impI)
  fix m m' :: blob_fs and x
  show "brr_logger_serve ms msg m = (x, m') \<Longrightarrow>
    files_within is_blob_path m m' \<and> (tmp_apart m \<longrightarrow> tmp_apart m') \<and> (one_device m \<longrightarrow> one_device m')"
  proof (induction ms msg m rule: brr_logger_serve.induct)
    case (1 msg w)
    then show ?case using gentleD [OF gentle_logger, of msg w] by (auto split: prod.splits)
  next
    case (2 m ms msg w)
    obtain r1 r2 w1 where l: "brr_logger m w = ((r1, r2), w1)" by (metis prod.exhaust)
    from 2 l gentleD [OF gentle_logger l] show ?case
      by (auto split: if_splits intro: files_within_trans)
  qed
qed


section \<open>The verb wrap\<close>

lemma safe_panic: "safe Hs c r \<Longrightarrow> after Q (sound Hs) (child_panic r)"
  by (simp add: safe_def)

lemma safe_snd_on: "gentle f \<Longrightarrow> safe Hs c r \<Longrightarrow> safe Hs c (snd (on_module f r))"
  by (cases "on_module f r") (simp add: safe_on)

lemma safe_case:
  assumes "gentle f" and "safe Hs c r"
    and "\<And>e s. safe Hs c s \<Longrightarrow> after Q (sound Hs) (A e s)"
    and "\<And>a s. safe Hs c s \<Longrightarrow> after Q (sound Hs) (B a s)"
  shows "after Q (sound Hs) (case on_module f r of (Inl e, s) \<Rightarrow> A e s | (Inr a, s) \<Rightarrow> B a s)"
proof -
  obtain x s where o: "on_module f r = (x, s)" by fastforce
  from safe_on [OF assms(1) o assms(2)] assms(3,4) o show ?thesis by (cases x) auto
qed

lemma safe_case_reply:
  assumes "gentle f" and "safe Hs c r" and "\<And>a s. safe Hs c s \<Longrightarrow> after Q (sound Hs) (B a s)"
  shows "after Q (sound Hs) (case on_module f r of (None, s) \<Rightarrow> Blocked s | (Some a, s) \<Rightarrow> B a s)"
proof -
  obtain x s where o: "on_module f r = (x, s)" by fastforce
  from safe_on [OF assms(1) o assms(2)] assms(3) o safe_sound show ?thesis by (cases x) auto
qed

lemma safe_freeze:
  assumes "safe Hs c r"
  shows "after (\<lambda>_. safe Hs c) (sound Hs) (wrap_freeze r)"
  unfolding wrap_freeze_def Let_def
proof (rule safe_must_then [OF gentle_touch assms])
  fix a :: unit and s
  let ?fifo = "wrap_fifo (fr_pid (rq_module r)) @ [NUL]"
  assume s: "safe Hs c s"
  obtain x log where w: "io_msg_write ?fifo 25 (rq_log s) = (x, log)" by fastforce
  have l: "safe Hs c (s\<lparr>rq_log := log\<rparr>)" using s by simp
  show "after (\<lambda>_. safe Hs c) (sound Hs)
      (case io_msg_write ?fifo 25 (rq_log s) of
        (Inl e, log) \<Rightarrow> child_panic (s\<lparr>rq_log := log\<rparr>)
      | (Inr _, log) \<Rightarrow>
          (case on_module fs_touch (s\<lparr>rq_log := log\<rparr>) of
             (Inl e, r1) \<Rightarrow> child_panic (snd (on_module fs_touch r1))
           | (Inr _, r1) \<Rightarrow>
               (case on_module (brr_logger_serve (lg_pending (rq_module r1)) ?fifo) r1 of
                  (None, r2) \<Rightarrow> Blocked r2
                | (Some path, r2) \<Rightarrow>
                    (case on_module fs_touch r2 of
                       (Inl e, r3) \<Rightarrow> child_panic (snd (on_module fs_touch r3))
                     | (Inr _, r3) \<Rightarrow>
                         (case on_module (io_fs_open path) (snd (on_module fs_touch r3)) of
                            (Inl e, r5) \<Rightarrow> child_panic r5
                          | (Inr bs, r5) \<Rightarrow> Ret (path, bs) r5)))))"
    unfolding w
    by (cases x)
      (auto simp: safe_sound [OF s] intro!: l safe_panic safe_case [OF gentle_touch]
        safe_case_reply [OF gentle_serve] safe_case [OF gentle_open] safe_snd_on [OF gentle_touch])
qed

lemma safe_put_wrap_set:
  "safe Hs c r \<Longrightarrow> after (\<lambda>_. safe Hs c) (sound Hs) (put_wrap_set text udig r)"
  unfolding put_wrap_set_def
  by (intro safe_must_then [OF gentle_touch] safe_must_then [OF gentle_touch]) simp_all

lemma safe_wrap_scan:
  "safe Hs c r \<Longrightarrow> after (\<lambda>_. safe Hs c) (sound Hs) (wrap_scan modules fu es acc r)"
proof (induction modules fu es acc r rule: wrap_scan.induct)
  case (1 modules fu acc r)
  show ?case unfolding wrap_scan.simps by (rule safe_must_then [OF gentle_touch 1]) simp
next
  case (2 modules fu name regular es acc r)
  show ?case
    unfolding wrap_scan.simps
  proof (rule safe_must_then [OF gentle_touch "2.prems"])
    fix a :: unit and s assume s: "safe Hs c s"
    have put: "after (\<lambda>_. safe Hs c) (sound Hs)
        (proceed (put_wrap_set acc udig s) (\<lambda>acc r. wrap_scan modules fu es acc r))"
      if "regular" "extract_wrap_udig modules name = Some udig" "udig \<noteq> fu" for udig
      by (rule safe_then [OF safe_put_wrap_set [OF s]], rule "2.IH"(4)) (use that in auto)
    show "after (\<lambda>_. safe Hs c) (sound Hs)
        (if \<not> regular then wrap_scan modules fu es acc s
         else case extract_wrap_udig modules name of None \<Rightarrow> wrap_scan modules fu es acc s
           | Some udig \<Rightarrow> if udig = fu then wrap_scan modules fu es acc s
               else proceed (put_wrap_set acc udig s) (\<lambda>acc r. wrap_scan modules fu es acc r))"
      using "2.IH"(1) [OF _ s] "2.IH"(2) [OF _ _ s] "2.IH"(3) [OF _ _ _ s] put
      by (auto simp del: after_proceed split: option.split)
  qed
qed

lemma safe_digest_stream:
  assumes "\<And>bs r. safe Hs c r \<Longrightarrow> after (\<lambda>_. safe Hs c) (sound Hs) (dm_digest mp bs r)" and "safe Hs c r"
  shows "after (\<lambda>_. safe Hs c) (sound Hs) (wrap_digest mp bs r)"
  unfolding wrap_digest_def
  by (rule safe_then [OF assms(1) [OF assms(2)]], rule safe_must_then [OF gentle_touch])
    (auto simp: safe_panic safe_sound split: option.split)


lemma safe_set_node: "\<not> is_blob_path p \<Longrightarrow>
    safe Hs c (r\<lparr>rq_module := (rq_module r)\<lparr>fs_nodes := set_node p n (fs_nodes (rq_module r))\<rparr>\<rparr>) = safe Hs c r"
proof -
  assume p: "\<not> is_blob_path p"
  have "blob_path root d \<noteq> p" if "root \<in> set store_roots" "blob_name d" for root d
    using p that by (auto simp: is_blob_path_def)
  then show ?thesis by (auto simp: safe_def store_ok_def tmp_apart_def one_device_def)
qed

lemma safe_open_wrap_set:
  assumes "\<not> is_blob_path path" and "safe Hs c r"
  shows "after (\<lambda>_. safe Hs c) (sound Hs) (open_wrap_set path r)"
proof -
  let ?look = "fs_call (\<lambda>w. case map_of (fs_nodes w) path of
          Some (File old) \<Rightarrow> (Inr old, w) | Some _ \<Rightarrow> (Inl EOTHER, w)
        | None \<Rightarrow> if parent_there path (fs_nodes w) then (Inr [], w) else (Inl ENOENT, w))"
  have "gentle ?look"
  proof (rule gentle_only)
    fix m m' :: blob_fs and x
    assume l: "?look m = (x, m')"
    have "fs_only m m'" using l by (rule fs_only_call) (simp split: option.split node.split)
    moreover have "fs_nodes m' = fs_nodes m"
      using l by (auto simp: fs_call_def split: prod.splits option.splits node.splits if_splits)
    ultimately show "fs_only m m' \<and> files_within is_blob_path m m'" by (simp add: files_within_same)
  qed
  then show ?thesis
    unfolding open_wrap_set_def
  proof (rule safe_case [OF _ assms(2)])
    fix e s assume "safe Hs c s"
    then show "after (\<lambda>_. safe Hs c) (sound Hs) (child_panic (snd (on_module (io_fs_unlink path) s)))"
      by (intro safe_panic safe_snd_on [OF gentle_unlink])
  next
    fix old s assume s: "safe Hs c s"
    obtain x t where o: "on_module (io_fs_unlink path) s = (x, t)" by fastforce
    from safe_on [OF gentle_unlink o s] o safe_set_node [OF assms(1)]
    show "after (\<lambda>_. safe Hs c) (sound Hs) (case on_module (io_fs_unlink path) s of
        (Inl e, r2) \<Rightarrow> Ret old (r2\<lparr>rq_module := (rq_module r2)\<lparr>fs_nodes :=
                 set_node path (File old) (fs_nodes (rq_module r2))\<rparr>\<rparr>)
      | (Inr _, r2) \<Rightarrow> Ret old r2)" by (cases x) auto
  qed
qed

text \<open>The last words.\<close>

lemma chat_of_words [simp]: "chat_of [] = []" "chat_of [w] = w"
  by (simp_all add: chat_of_def)

lemma chats_words:
  "sound Hs s \<Longrightarrow> rq_chat_history s = [] \<and> [] \<in> set wss \<or> [rq_chat_history s] \<in> set wss \<Longrightarrow>
   chats (store_ok Hs) wss s"
  unfolding chats_def using chat_of_words by metis

lemma chat_ok:
  assumes "safe Hs [] r" and "{[], [OK]} \<subseteq> set wss"
    and "\<And>st s. chats (store_ok Hs) wss s \<Longrightarrow> after (\<lambda>_. chats (store_ok Hs) wss) (sound Hs) (k st s)"
  shows "after (\<lambda>_. chats (store_ok Hs) wss) (sound Hs) (proceed (write_ok r) k)"
  unfolding after_proceed
  by (rule after_mono [OF chat_write(1) [where ws = "[]" and Safe = "store_ok Hs"]])
    (use assms in \<open>auto simp: safe_def OK_def intro!: assms(3) chats_words split: if_splits\<close>)

lemma chat_no:
  assumes "safe Hs [] r" and "{[], [NO]} \<subseteq> set wss"
    and "\<And>st s. chats (store_ok Hs) wss s \<Longrightarrow> after (\<lambda>_. chats (store_ok Hs) wss) (sound Hs) (k st s)"
  shows "after (\<lambda>_. chats (store_ok Hs) wss) (sound Hs) (proceed (write_no r) k)"
  unfolding after_proceed
  by (rule after_mono [OF chat_write(2) [where ws = "[]" and Safe = "store_ok Hs"]])
    (use assms in \<open>auto simp: safe_def NO_def intro!: assms(3) chats_words split: if_splits\<close>)

lemma chats_digest [simp]: "chats Safe wss (r\<lparr>rq_digest := d\<rparr>) = chats Safe wss r"
  by (simp add: chats_def)

lemma chats_req_write:
  assumes "chats Safe wss r"
  shows "after (\<lambda>_. chats Safe wss) (\<lambda>s. Safe (rq_module s)) (req_write r bs)"
proof -
  have "after (\<lambda>_ s. same_call r s \<and> rq_chat_history s = rq_chat_history r) (same_call r) (req_write r bs)"
    by (auto simp: req_write_def Let_def SET_EXIT_ERROR_def SET_EXIT_TIMEOUT_def
        split: prod.splits net_result.splits)
  then show ?thesis
    by (rule after_mono) (use assms in \<open>auto simp: chats_def same_call_def\<close>)
qed

lemma spool_tmp_path_ok:
  assumes "tmp_apart (rq_module r)" and "NUL \<notin> set v" and "NUL \<notin> set suffix"
  shows "\<not> is_blob_path (spool_tmp_path v suffix r)"
proof -
  have n: "4 \<le> MAX_FILE_PATH_LEN" by (simp add: MAX_FILE_PATH_LEN_def)
  show ?thesis
    unfolding spool_tmp_path_def Let_def
    by (rule tmp_path_apart(1) [OF assms(1) refl n]) (use assms(2,3) dec_nat_no_nul in simp)
qed

lemma wrap_path_not_blob: "\<not> is_blob_path (wrap_dir @ p)"
  by (rule spool_not_blob) (simp add: wrap_dir_def)

lemma wrap_chat:
  assumes "\<And>bs r. safe Hs [] r \<Longrightarrow> after (\<lambda>_. safe Hs []) (sound Hs) (dm_digest mp bs r)"
    and "safe Hs [] r"
  shows "after (\<lambda>_. chats (store_ok Hs) [[], [OK]]) (sound Hs) (wrap modules mp r)"
proof -
  have n: "NUL \<notin> set (''wrap-'' @ dec_int t)" "NUL \<notin> set ''.udig''" for t
    using dec_nat_no_nul by (auto simp: dec_int_def)
  have tmp: "\<not> is_blob_path (spool_tmp_path (''wrap-'' @ dec_int t) ''.udig'' s)" if "safe Hs [] s" for s t
    by (rule spool_tmp_path_ok [OF _ n]) (use that in \<open>simp add: safe_def\<close>)
  show ?thesis
    unfolding wrap_def Let_def
    apply (rule safe_then [OF safe_freeze [of Hs "[]"]])
     apply (simp only: safe_upd assms(2))
    apply (rename_tac a s, case_tac a, simp only: prod.case)
    apply (rule safe_then [OF safe_digest_stream [OF assms(1)]], assumption+)
    apply (rule safe_must_then [OF gentle_rename [OF wrap_path_not_blob]], assumption)
    apply (rule safe_then [OF safe_open_wrap_set [OF tmp]], assumption+)
    apply (rule safe_then [OF safe_put_wrap_set], assumption)
    apply (rule safe_case [OF gentle_opendir], assumption)
     apply (erule safe_panic)
    apply (rule safe_then [OF safe_wrap_scan], assumption)
    apply (rule safe_must_then [OF gentle_touch], assumption)
    apply (rule safe_must_then [OF gentle_touch], assumption)
    apply (rule safe_then [OF safe_digest_stream [OF assms(1)]], assumption+)
    apply (rule chat_ok, assumption, simp)
    apply (auto intro!: after_mono [OF chats_req_write])
    done
qed


section \<open>The verb roll\<close>

lemma gentle_open_unlinked:
  assumes "\<not> is_blob_path path"
  shows "gentle (open_unlinked path)"
  unfolding gentle_def
proof (intro allI impI)
  fix m m' :: blob_fs and x
  assume o: "open_unlinked path m = (x, m')"
  let ?G = "\<lambda>m m'. files_within is_blob_path m m' \<and> (tmp_apart m \<longrightarrow> tmp_apart m') \<and> (one_device m \<longrightarrow> one_device m')"
  obtain y w1 where 1: "io_fs_create path m = (y, w1)" by fastforce
  obtain z w2 where 2: "io_fs_unlink path w1 = (z, w2)" by fastforce
  let ?w3 = "w2\<lparr>fs_nodes := set_node (NUL # path) (File []) (fs_nodes w2)\<rparr>"
  have n: "\<not> is_blob_path (NUL # path)" by (rule spool_not_blob) simp
  have g2: "?G m w2"
    using gentleD [OF gentle_create [OF assms] 1] gentleD [OF gentle_unlink 2]
    by (meson files_within_trans)
  have "files_within is_blob_path w2 ?w3" by (rule within_off [OF n]) simp
  then have "?G w2 ?w3" by (simp add: tmp_apart_def one_device_def)
  with g2 have g3: "?G m ?w3" by (meson files_within_trans)
  have "m' = w2 \<or> m' = ?w3" using o 1 2 by (auto simp: open_unlinked_def split: sum.splits)
  with g2 g3 show "?G m m'" by blast
qed

lemma open_unlinked_place:
  "on_module (open_unlinked path) r = (Inr out, s) \<Longrightarrow> out = path \<or> out = NUL # path"
  by (auto simp: on_module_split open_unlinked_def split: prod.splits sum.splits)

lemma safe_end_touch:
  assumes "safe Hs c r"
  shows "after (\<lambda>_. safe Hs c) (sound Hs) (case on_module fs_touch r of
      (Inl e, r1) \<Rightarrow> if e = ENOENT then Ret () r1 else child_panic r1 | (Inr _, r1) \<Rightarrow> Ret () r1)"
  by (rule safe_case [OF gentle_touch assms]) (auto intro: safe_sound)

lemma safe_roll_scan:
  "safe Hs c r \<Longrightarrow> after (\<lambda>_. safe Hs c) (sound Hs) (roll_scan modules uset es r)"
proof (induction es arbitrary: r)
  case Nil
  then show ?case unfolding roll_scan.simps by (rule safe_end_touch)
next
  case (Cons entry es)
  obtain name regular where e: "entry = (name, regular)" by fastforce
  show ?case
    unfolding roll_scan.simps e
  proof (rule safe_case [OF gentle_touch Cons.prems])
    fix e s assume "safe Hs c s"
    then show "after (\<lambda>_. safe Hs c) (sound Hs) (if e = ENOENT then Ret () s else child_panic s)"
      using safe_sound by auto
  next
    fix a :: unit and s
    assume "safe Hs c s"
    then show "after (\<lambda>_. safe Hs c) (sound Hs)
        (if \<not> regular then roll_scan modules uset es s
         else case extract_wrap_udig modules name of None \<Rightarrow> roll_scan modules uset es s
         | Some udig \<Rightarrow> if \<not> blob_set_exists uset udig then roll_scan modules uset es s
             else proceed (must (on_module (io_fs_unlink (wrap_dir @ CHR ''/'' # name)) s))
               (\<lambda>_ r. roll_scan modules uset es r))"
      using Cons.IH
      by (auto simp del: after_proceed intro: safe_must_then [OF gentle_unlink] split: option.split)
  qed
qed

lemma roll_remove_chat:
  assumes "safe Hs [] r"
  shows "after (\<lambda>_. chats (store_ok Hs) [[], [NO], [OK]]) (sound Hs) (roll_remove modules uset r)"
  unfolding roll_remove_def
  apply (rule safe_case [OF gentle_opendir assms])
   apply (erule safe_panic)
  apply (rule safe_then [OF safe_roll_scan], assumption)
  apply (rule safe_must_then [OF gentle_touch], assumption)
  apply (rule chat_ok, assumption, simp)
  apply auto
  done

lemma safe_slurp:
  assumes "safe Hs c r"
  shows "after (\<lambda>_. safe Hs c) (sound Hs) (roll_slurp blob r)"
proof -
  obtain x m where s: "stream_read (length blob) [] blob (rq_module r) = (x, m)" by fastforce
  obtain f where f: "m = (rq_module r)\<lparr>fs_faults := f\<rparr>" using stream_read_shape [OF s] by blast
  have m: "safe Hs c (r\<lparr>rq_module := m\<rparr>)"
    using assms by (simp add: f safe_def store_ok_def tmp_apart_def one_device_def)
  have "after (\<lambda>_. safe Hs c) (sound Hs)
      (proceed (must (on_module fs_touch (r\<lparr>rq_module := m\<rparr>))) (\<lambda>_ r. Ret got r))" for got :: bytes
    by (rule safe_must_then [OF gentle_touch m]) simp
  with s safe_panic [OF m] show ?thesis
    by (cases x) (auto simp: roll_slurp_def)
qed

lemma roll_no:
  "safe Hs [] s \<Longrightarrow> after (\<lambda>_. chats (store_ok Hs) [[], [NO], [OK]]) (sound Hs)
    (proceed (write_no s) (\<lambda>st r. Ret (-1) (if st \<noteq> 0 then log_error r else r)))"
  by (erule chat_no) auto

lemma roll_set_chat:
  "safe Hs [] s \<Longrightarrow> after (\<lambda>_. chats (store_ok Hs) [[], [NO], [OK]]) (sound Hs) (roll_set modules blob s)"
  using roll_no safe_panic roll_remove_chat
  by (auto simp: roll_set_def simp del: after_proceed split: parse_result.split)

lemma roll_ok:
  "safe Hs [] s \<Longrightarrow> after (\<lambda>_. chats (store_ok Hs) [[], [NO], [OK]]) (sound Hs) (proceed (write_ok s)
      (\<lambda>st r. Ret (if st \<noteq> 0 then -1 else 0 :: int) (if st \<noteq> 0 then log_error r else r)))"
  by (erule chat_ok) auto

lemma roll_stream_chat:
  assumes "safe Hs [] r"
  shows "after (\<lambda>_. chats (store_ok Hs) [[], [NO], [OK]]) (sound Hs) (roll_stream modules out r)"
  unfolding roll_stream_def Let_def
  apply (rule safe_must_then [OF gentle_touch assms])
  apply (rule safe_must_then [OF gentle_touch], assumption)
  apply (split if_split, intro conjI impI)
   apply (erule roll_ok)
  apply (rule safe_then [OF safe_slurp], assumption)
  apply (erule roll_set_chat)
  done

lemma roll_chat:
  assumes "\<And>out r. \<not> is_blob_path out \<Longrightarrow> safe Hs [] r \<Longrightarrow>
      after (\<lambda>_. safe Hs []) (sound Hs) (dm_copy mp out r)"
    and "safe Hs [] r"
  shows "after (\<lambda>_. chats (store_ok Hs) [[], [NO], [OK]]) (sound Hs) (roll modules mp r)"
proof -
  let ?r = "set_verb REQUEST_EXIT_STATUS_ROLL r"
  let ?path = "spool_tmp_path (''roll-'' @ time_text (fr_time (rq_module ?r))) ''.log'' ?r"
  have n: "NUL \<notin> set (''roll-'' @ time_text t)" "NUL \<notin> set ''.log''" for t
    using time_text_no_nul by auto
  have path: "\<not> is_blob_path ?path"
    by (rule spool_tmp_path_ok [OF _ n]) (use assms(2) in \<open>simp add: safe_def set_verb_def\<close>)
  have anon: "\<not> is_blob_path (NUL # ?path)" by (rule spool_not_blob) simp
  obtain x s where o: "on_module (open_unlinked ?path) ?r = (x, s)" by fastforce
  have s: "safe Hs [] s"
    by (rule safe_on [OF gentle_open_unlinked [OF path] o]) (simp only: safe_upd assms(2))
  show ?thesis
  proof (cases x)
    case (Inl e)
    with o safe_panic [OF s] show ?thesis by (simp add: roll_def Let_def)
  next
    case (Inr out)
    have "\<not> is_blob_path out" using open_unlinked_place [OF o [unfolded Inr]] path anon by auto
    then have "after (\<lambda>_. chats (store_ok Hs) [[], [NO], [OK]]) (sound Hs)
        (proceed (dm_copy mp out s) (\<lambda>status r. if status = 1 then
           proceed (write_no r) (\<lambda>st r. Ret (-1) (if st \<noteq> 0 then log_error r else r))
         else roll_stream modules out r))"
      by (intro safe_then [OF assms(1)] s) (simp_all add: roll_no roll_stream_chat del: after_proceed)
    with o Inr show ?thesis by (simp add: roll_def Let_def del: after_proceed)
  qed
qed

end
