(* ===== verification/Server.thy ===== *)
theory Server
  imports Wrap_Safe
begin

text \<open>
  The server as it is linked: the three modules of \<^verbatim>\<open>bio4d/module.c\<close> and the handlers of all eight
  verbs, and the properties of whole requests.
\<close>

section \<open>The modules digest and copy safely\<close>

lemma safe_drift [simp]:
  "safe Hs c (r\<lparr>rq_module := (rq_module r)\<lparr>sha_drift := d\<rparr>\<rparr>) = safe Hs c r"
  "safe Hs c (r\<lparr>rq_module := (rq_module r)\<lparr>bc160_drift := d\<rparr>\<rparr>) = safe Hs c r"
  "safe Hs c (r\<lparr>rq_module := (rq_module r)\<lparr>btc20_drift := d\<rparr>\<rparr>) = safe Hs c r"
  by (simp_all add: safe_def store_ok_def tmp_apart_def one_device_def)

lemma safe_store_digest:
  assumes "root \<in> set store_roots" and "H = Hs root" and "length (H stream) = 20" and "safe Hs c r"
  shows "after (\<lambda>_. safe Hs c) (sound Hs) (store_stream root H (digest_tmp_path d r) stream r)"
  by (rule safe_store_stream [OF assms(1-3) _ _ assms(4)])
    (use assms(4) in \<open>simp_all add: safe_def digest_tmp_path_ok\<close>)

lemma safe_close:
  assumes "safe Hs c r"
  shows "after (\<lambda>_. safe Hs c) (sound Hs) (blob_close r)"
proof -
  have "safe Hs c (r\<lparr>rq_module := (rq_module r)\<lparr>fr_blob_fd := NoFd\<rparr>\<rparr>)" using assms by (simp add: safe_def)
  then have "after (\<lambda>_. safe Hs c) (sound Hs)
      (case on_module fs_touch (r\<lparr>rq_module := (rq_module r)\<lparr>fr_blob_fd := NoFd\<rparr>\<rparr>) of
        (Inl e, r1) \<Rightarrow> child_panic r1 | (Inr _, r1) \<Rightarrow> Ret (0 :: int) r1)"
    by (rule safe_case [OF gentle_touch]) (auto intro: safe_sound)
  with assms show ?thesis by (simp add: blob_close_def)
qed

lemma safe_get_request:
  assumes "safe Hs c r"
  shows "after (\<lambda>_. safe Hs c) (sound Hs) (get_request root r)"
proof -
  let ?r = "make_path root (rq_digest r) r"
  have m: "safe Hs c ?r" using assms by (simp add: safe_def make_path_def)
  have "safe Hs c s \<Longrightarrow> safe Hs c (s\<lparr>rq_module := (rq_module s)\<lparr>fr_blob_fd := b\<rparr>\<rparr>)" for s b
    by (simp add: safe_def)
  then show ?thesis
    unfolding get_request_def Let_def blob_open_def
    by (intro safe_case [OF gentle_open m]) (auto simp: safe_sound)
qed

lemma safe_blob_loop:
  assumes "\<And>chunk s. safe Hs c s \<Longrightarrow> after (\<lambda>_. safe Hs c) (sound Hs) (sink chunk s)"
  shows "safe Hs c r \<Longrightarrow> after (\<lambda>_. safe Hs c) (sound Hs) (blob_loop sink ctx rest r)"
proof (induction "length rest" arbitrary: ctx rest r rule: less_induct)
  case less
  obtain x m where rd: "stream_read CHUNK_SIZE [] rest (rq_module r) = (x, m)" by fastforce
  obtain f where f: "m = (rq_module r)\<lparr>fs_faults := f\<rparr>" using stream_read_shape [OF rd] by blast
  have m: "safe Hs c (r\<lparr>rq_module := m\<rparr>)"
    using less.prems by (simp add: f safe_def store_ok_def tmp_apart_def one_device_def)
  show ?case
  proof (cases "x = None \<or> (\<exists>rest'. x = Some ([], rest'))")
    case True
    with rd m safe_sound [OF m] show ?thesis by (auto simp: blob_loop.simps [of sink ctx rest r])
  next
    case False
    then obtain chunk rest' where x: "x = Some (chunk, rest')" and ne: "chunk \<noteq> []" by (cases x) auto
    have l: "length rest' < length rest" using stream_read_split [OF rd [unfolded x]] ne by simp
    have "after (\<lambda>_. safe Hs c) (sound Hs) (proceed (sink chunk (r\<lparr>rq_module := m\<rparr>)) (\<lambda>status r.
        if status \<noteq> 0 then Ret None r else blob_loop sink (ctx @ chunk) rest' r))"
      by (rule safe_then [OF assms [OF m]]) (use less.hyps [OF l] in auto)
    with rd x ne show ?thesis by (simp add: blob_loop.simps [of sink ctx rest r] del: after_proceed)
  qed
qed

lemma safe_append:
  "\<not> is_blob_path out \<Longrightarrow> safe Hs c s \<Longrightarrow> after (\<lambda>_. safe Hs c) (sound Hs) (stream_append out chunk s)"
  unfolding stream_append_def by (rule safe_case [OF gentle_append]) auto

lemma safe_copy_checked:
  assumes "\<not> is_blob_path out" and "safe Hs c r"
  shows "after (\<lambda>_. safe Hs c) (sound Hs) (copy_checked root H out r)"
  unfolding copy_checked_def
  by (rule safe_then [OF safe_get_request [OF assms(2)]])
    (auto simp del: after_proceed split: option.split intro: safe_sound
      intro!: safe_then [OF safe_blob_loop [OF safe_append [OF assms(1)]]] safe_then [OF safe_close])

lemma safe_copy_trusted:
  assumes "\<not> is_blob_path out" and "safe Hs c r"
  shows "after (\<lambda>_. safe Hs c) (sound Hs) (copy_trusted root out r)"
  unfolding copy_trusted_def
  by (rule safe_then [OF safe_get_request [OF assms(2)]])
    (auto simp del: after_proceed
      intro!: safe_then [OF safe_blob_loop [OF safe_append [OF assms(1)]]] safe_then [OF safe_close])

text \<open>What the code relies on of OpenSSL: twenty bytes, and the digests of the empty blob.\<close>

definition openssl_ok :: "openssl \<Rightarrow> bool" where
  "openssl_ok ssl \<longleftrightarrow>
     (\<forall>bs. length (ossl_sha1 ssl bs) = 20) \<and> (\<forall>bs. length (ossl_ripemd160 ssl bs) = 20) \<and>
     concat (map encode_byte (ossl_sha1 ssl [])) = empty_ascii \<and>
     concat (map encode_byte (bc160_hash ssl [])) = bc160_empty \<and>
     concat (map encode_byte (btc20_hash ssl [])) = btc20_empty"

definition bio4d_modules :: "openssl \<Rightarrow> bool \<Rightarrow> blob_fs digest_module list" where
  "bio4d_modules ssl trust =
     [fs_bc160_module ssl trust, fs_btc20_module ssl trust, fs_sha_module (ossl_sha1 ssl)]"

lemma modules_digest:
  assumes "openssl_ok ssl" and "mp \<in> set (bio4d_modules ssl trust)" and "safe (store_hash ssl) c r"
  shows "after (\<lambda>_. safe (store_hash ssl) c) (sound (store_hash ssl)) (dm_digest mp bs r)"
  using assms
  by (auto simp: bio4d_modules_def fs_bc160_module_def fs_btc20_module_def fs_sha_module_def
      fs_bc160_digest_def fs_btc20_digest_def fs_sha_digest_def Let_def openssl_ok_def
      bc160_hash_def btc20_hash_def intro!: safe_store_digest)

lemma modules_copy:
  assumes "mp \<in> set (bio4d_modules ssl trust)" and "\<not> is_blob_path out" and "safe Hs c r"
  shows "after (\<lambda>_. safe Hs c) (sound Hs) (dm_copy mp out r)"
  using assms
  by (auto simp: bio4d_modules_def fs_bc160_module_def fs_btc20_module_def fs_sha_module_def
      fs_bc160_copy_def fs_btc20_copy_def fs_sha_copy_def safe_copy_checked safe_copy_trusted)

section \<open>The server\<close>

text \<open>
  The options of the command line and the kernel's view of a path are parameters: \<^verbatim>\<open>trust_fs\<close>,
  \<^verbatim>\<open>--wrap-algorithm\<close>, \<^verbatim>\<open>io_path_exists\<close>, and the stack under \<^verbatim>\<open>read_reply\<close>.
\<close>

definition bio4d_server ::
  "openssl \<Rightarrow> bool \<Rightarrow> bytes \<Rightarrow> (bytes \<Rightarrow> blob_fs \<Rightarrow> int) \<Rightarrow> (nat \<Rightarrow> char) \<Rightarrow> blob_fs server" where
  "bio4d_server ssl trust wrap_algorithm path_exists stack =
     \<lparr>sv_modules = bio4d_modules ssl trust, sv_wrap_algorithm = wrap_algorithm,
      sv_path_exists = path_exists, sv_stack = stack,
      sv_wrap = wrap (bio4d_modules ssl trust), sv_roll = roll (bio4d_modules ssl trust)\<rparr>"


lemma server_modules [simp]:
  "sv_modules (bio4d_server ssl trust alg exists stack) = bio4d_modules ssl trust"
  by (simp add: bio4d_server_def)

lemma modules_names:
  "module_get (bio4d_modules ssl trust) name = Some mp \<longleftrightarrow>
     (name = ''bc160'' \<and> mp = fs_bc160_module ssl trust) \<or>
     (name = ''btc20'' \<and> mp = fs_btc20_module ssl trust) \<or>
     (name = ''sha'' \<and> mp = fs_sha_module (ossl_sha1 ssl))"
  by (auto simp: bio4d_modules_def fs_bc160_module_def fs_btc20_module_def fs_sha_module_def split: if_splits)

lemma fresh_safe: "put_fresh root em Hs r \<Longrightarrow> rq_chat_history r = [] \<Longrightarrow> safe Hs [] r"
  by (simp add: put_fresh_def safe_def)

text \<open>The handlers of \<^verbatim>\<open>wrap\<close> and \<^verbatim>\<open>roll\<close> speak their part of the protocol.\<close>

lemma spool_handlers:
  assumes "openssl_ok ssl" and "mp \<in> set (bio4d_modules ssl trust)"
    and "verb_callback (bio4d_server ssl trust alg exists stack) verb = Some callback"
    and "verb = ''wrap'' \<or> verb = ''roll''" and "put_fresh root em (store_hash ssl) r"
    and "rq_chat_history r = []"
  shows "after (\<lambda>_. chats (store_ok (store_hash ssl)) (verb_chats verb)) (sound (store_hash ssl)) (callback mp r)"
proof -
  have s: "safe (store_hash ssl) [] r" using fresh_safe [OF assms(5,6)] .
  have w: "after (\<lambda>_. chats (store_ok (store_hash ssl)) [[], [OK]]) (sound (store_hash ssl))
      (wrap (bio4d_modules ssl trust) mp r)"
    by (rule wrap_chat [OF modules_digest [OF assms(1,2)] s])
  have l: "after (\<lambda>_. chats (store_ok (store_hash ssl)) [[], [NO], [OK]]) (sound (store_hash ssl))
      (roll (bio4d_modules ssl trust) mp r)"
    by (rule roll_chat [OF modules_copy [OF assms(2)] s])
  show ?thesis
    using assms(3,4) w l by (auto simp: verb_callback_def bio4d_server_def verb_chats_def)
qed

text \<open>What a child starts from.\<close>

definition child_ok :: "openssl \<Rightarrow> blob_fs request \<Rightarrow> bool" where
  "child_ok ssl r \<longleftrightarrow>
     store_ok (store_hash ssl) (rq_module r) \<and> tmp_apart (rq_module r) \<and> one_device (rq_module r) \<and>
     rq_chat_history r = []"

lemma server_bio4d:
  fixes ssl trust alg exists stack
  defines "sv \<equiv> bio4d_server ssl trust alg exists stack"
  assumes ssl: "openssl_ok ssl" and r: "child_ok ssl r" and s: "scan_ok s"
  shows "after (\<lambda>_. chats (store_ok (store_hash ssl)) (verb_chats (sc_verb s)))
    (sound (store_hash ssl)) (bio4d sv s b r)"
proof -
  let ?alg = "if sc_verb s = ''wrap'' then sv_wrap_algorithm sv else sc_algorithm s"
  let ?r = "r\<lparr>rq_verb := sc_verb s, rq_step := [], rq_algorithm := ?alg,
        rq_blob_size := of_nat (length b), rq_digest := sc_digest s\<rparr>"
  have chat: "rq_chat_history r = []" and ok: "sound (store_hash ssl) r" using r by (simp_all add: child_ok_def)
  have fresh: "put_fresh root em (store_hash ssl) ?r"
    if "concat (map encode_byte (store_hash ssl root [])) = em" "\<forall>bs. length (store_hash ssl root bs) = 20"
    for root em
    using that r scan_ok_no_nul [OF s] by (simp add: put_fresh_def child_ok_def)
  have get: "sv_modules sv = bio4d_modules ssl trust" by (simp add: sv_def)
  note [simp del] = sha.verb_chats_simps bc160.verb_chats_simps btc20.verb_chats_simps
  show ?thesis
  proof (cases "module_get (sv_modules sv) ?alg")
    case None
    then show ?thesis
      using ok by (auto simp: bio4d_def Let_def sha.safe_die)
  next
    case (Some mp)
    then have mp: "mp \<in> set (bio4d_modules ssl trust)"
      using get modules_names by (fastforce simp: bio4d_modules_def)
    have h: "after (\<lambda>_. chats (store_ok (store_hash ssl)) (verb_chats verb)) (\<lambda>s. store_ok (store_hash ssl) (rq_module s))
        (callback mp r)"
      if "verb_callback sv verb = Some callback" "verb = ''wrap'' \<or> verb = ''roll''"
        "put_fresh root em (store_hash ssl) r" "rq_chat_history r = []" for verb callback root em r
      using spool_handlers [OF ssl mp that(1) [unfolded sv_def] that(2-4)] by (simp add:)
    from Some get modules_names consider
        "mp = fs_bc160_module ssl trust" | "mp = fs_btc20_module ssl trust" | "mp = fs_sha_module (ossl_sha1 ssl)"
      by metis
    then show ?thesis
    proof cases
      case 1
      show ?thesis
      proof (rule bc160.bio4d_chat [OF _ _ chat fresh])
        show "module_get (sv_modules sv) ?alg = Some (fs_bc160_module ssl trust)" using Some 1 by simp
      qed (use h 1 ssl in \<open>auto simp: openssl_ok_def bc160_hash_def\<close>)
    next
      case 2
      show ?thesis
      proof (rule btc20.bio4d_chat [OF _ _ chat fresh])
        show "module_get (sv_modules sv) ?alg = Some (fs_btc20_module ssl trust)" using Some 2 by simp
      qed (use h 2 ssl in \<open>auto simp: openssl_ok_def btc20_hash_def\<close>)
    next
      case 3
      show ?thesis
      proof (rule sha.bio4d_chat [OF _ _ chat fresh])
        show "module_get (sv_modules sv) ?alg = Some (fs_sha_module (ossl_sha1 ssl))" using Some 3 by simp
      qed (use h 3 ssl in \<open>auto simp: openssl_ok_def\<close>)
    qed
  qed
qed

section \<open>Whole requests\<close>

lemma child_same_call: "same_call r t \<Longrightarrow> rq_chat_history t = [] \<Longrightarrow> child_ok ssl r \<Longrightarrow> child_ok ssl t"
  by (simp add: same_call_def child_ok_def)

lemma server_request:
  assumes "openssl_ok ssl" and "child_ok ssl r"
  shows "after (\<lambda>_. sound (store_hash ssl)) (sound (store_hash ssl))
    (request_child (bio4d_server ssl trust alg exists stack) gmtime brr_mask end_time r)"
proof -
  let ?E = "sound (store_hash ssl) :: blob_fs request \<Rightarrow> bool"
  let ?go = "bio4d (bio4d_server ssl trust alg exists stack)"
  have ok: "?E r" and chat: "rq_chat_history r = []" using assms(2) by (simp_all add: child_ok_def)
  have go: "after (\<lambda>_. ?E) ?E (?go s b t)"
    if "scan_ok s" "same_call r t" "rq_chat_history t = []" for s b t
    by (rule after_mono [OF server_bio4d [OF assms(1) child_same_call [OF that(2,3) assms(2)] that(1)]])
      (auto simp: chats_def)
  have "after (\<lambda>halted t. if halted then ?E t else same_call r t) ?E (request_loop ?go scan_start r)"
    by (rule after_request_loop [where c = "[]", OF go])
      (use ok chat in \<open>auto simp: same_call_def scan_ok_def scan_start_def\<close>)
  then show ?thesis
    unfolding request_child_def after_proceed
    by (rule after_mono)
      (auto simp: same_call_def ok intro!: after_mono [OF request_end(1)]
        intro: after_mono [OF request_end(2)])
qed


text \<open>
  C12: a request that is answered has spoken the protocol of its verb: its chat history, the word
  that goes into the blob request record, is one of those listed for the verb.
\<close>

theorem bio4d_speaks_the_protocol:
  assumes "openssl_ok ssl" and "child_ok ssl r" and "scan_ok s"
  shows "after (\<lambda>_ t. \<exists>ws \<in> set (verb_chats (sc_verb s)). rq_chat_history t = chat_of ws) (\<lambda>_. True)
    (bio4d (bio4d_server ssl trust alg exists stack) s b r)"
  by (rule after_mono [OF server_bio4d [OF assms]]) (auto simp: chats_def)

section \<open>A server with one blob\<close>

definition an_openssl :: openssl where
  "an_openssl =
     \<lparr>ossl_sha1 = (\<lambda>bs. if bs = [] then nib2digest empty_ascii else replicate 20 1),
      ossl_sha256 = (\<lambda>bs. if bs = [] then ''e'' else ''x''),
      ossl_ripemd160 = (\<lambda>bs. if bs = ''e'' then nib2digest bc160_empty else nib2digest btc20_empty)\<rparr>"

definition a_child :: "net_event list \<Rightarrow> blob_fs request" where
  "a_child evs = req_init evs \<lparr>tv_sec = 0, tv_nsec = 0\<rparr> []
     (a_sha_fs\<lparr>fs_nodes := [(blob_path fs_sha_root empty_ascii, File [])]\<rparr>)"

lemma nib2digest_length [simp]: "length (nib2digest h) = 20"
  by (simp add: nib2digest_def)

lemma empty_names: "blob_name empty_ascii" "blob_name bc160_empty" "blob_name btc20_empty"
  by (simp_all add: blob_name_def empty_ascii_def bc160_empty_def btc20_empty_def hexchar_def)

lemma an_openssl_ok: "openssl_ok an_openssl"
proof -
  have "concat (map encode_byte (nib2digest empty_ascii)) = empty_ascii"
    "concat (map encode_byte (nib2digest bc160_empty)) = bc160_empty"
    "concat (map encode_byte (nib2digest btc20_empty)) = btc20_empty"
    by (rule nib2digest_name, rule empty_names)+
  then show ?thesis by (simp add: openssl_ok_def an_openssl_def bc160_hash_def btc20_hash_def)
qed

lemma a_child_ok: "child_ok an_openssl (a_child evs)"
proof -
  note n = empty_names(1)
  have "blob_name d \<Longrightarrow> blob_path root d = blob_path fs_sha_root empty_ascii \<longleftrightarrow>
      root = fs_sha_root \<and> d = empty_ascii" for root d
    using blob_path_inj n by blast
  moreover have "concat (map encode_byte (ossl_sha1 an_openssl [])) = empty_ascii"
    using an_openssl_ok by (simp add: openssl_ok_def)
  ultimately have "store_ok (store_hash an_openssl) (rq_module (a_child evs))"
    by (auto simp: store_ok_def a_child_def req_init_def split: if_splits)
  then show ?thesis
    by (simp add: child_ok_def a_child_def req_init_def a_sha_fs_def tmp_apart_def tmp_get_def one_device_def)
qed


theorem bio4d_speaks_the_protocol_witness:
  "after (\<lambda>_ t. \<exists>ws \<in> set (verb_chats ''get''). rq_chat_history t = chat_of ws) (\<lambda>_. True)
     (bio4d (bio4d_server an_openssl True ''sha'' (\<lambda>_ _. 0) (\<lambda>_. NUL))
       (scan_start\<lparr>sc_verb := ''get'', sc_algorithm := ''sha'', sc_digest := empty_ascii\<rparr>) [] (a_child []))"
proof -
  let ?s = "scan_start\<lparr>sc_verb := ''get'', sc_algorithm := ''sha'', sc_digest := empty_ascii\<rparr>"
  have "scan_ok ?s" by code_simp
  from bio4d_speaks_the_protocol [OF an_openssl_ok a_child_ok this] show ?thesis by simp
qed

end
