(* ===== verification/Wrap_Spec.thy ===== *)
theory Wrap_Spec
  imports Server
begin

text \<open>
  What \<^verbatim>\<open>wrap\<close> and \<^verbatim>\<open>roll\<close> of \<^verbatim>\<open>bio4d/brr.c\<close> promise together: the set that \<^verbatim>\<open>wrap\<close> digests is a
  list of udigs that the parser of \<^verbatim>\<open>roll\<close> accepts, \<^verbatim>\<open>roll\<close> of a set removes the wrapped logs that
  the set names and nothing else, and the logger keeps every record over a freeze.
\<close>

section \<open>Sweeping files\<close>

text \<open>From one state to another, files of \<open>G\<close> have been removed, and nothing else has changed.\<close>

definition swept :: "bytes set \<Rightarrow> blob_fs request \<Rightarrow> blob_fs request \<Rightarrow> bool" where
  "swept G r s \<longleftrightarrow>
     (\<forall>p. map_of (fs_nodes (rq_module s)) p = map_of (fs_nodes (rq_module r)) p \<or>
          p \<in> G \<and> map_of (fs_nodes (rq_module s)) p = None)"

abbreviation fault_free :: "blob_fs request \<Rightarrow> bool" where
  "fault_free r \<equiv> fs_faults (rq_module r) = []"

lemma swept_refl [simp]: "swept G r r"
  by (simp add: swept_def)

lemma swept_same: "fs_nodes (rq_module s) = fs_nodes (rq_module r) \<Longrightarrow> swept G r s"
  by (simp add: swept_def)

lemma swept_trans: "swept G r s \<Longrightarrow> swept G s t \<Longrightarrow> swept G r t"
  unfolding swept_def by metis

lemma swept_gone:
  "swept G r s \<Longrightarrow> map_of (fs_nodes (rq_module r)) p = None \<Longrightarrow> map_of (fs_nodes (rq_module s)) p = None"
  unfolding swept_def by metis

lemma swept_panic [simp]: "swept G r (panic_state s) = swept G r s" "swept G r (log_error s) = swept G r s"
  by (simp_all add: swept_def)

lemma calm_touch: "fault_free r \<Longrightarrow> on_module fs_touch r = (Inr (), r)"
  by (simp add: on_module_def fs_touch_def fs_call_def)

lemma swept_touch: "on_module fs_touch r = (x, s) \<Longrightarrow> swept G r s"
  by (auto simp: on_module_split dest!: fs_touch_nodes intro: swept_same)

lemma roll_unlink_nodes:
  "io_fs_unlink p w = (x, w') \<Longrightarrow>
     fs_nodes w' = fs_nodes w \<and> (fs_faults w = [] \<longrightarrow> x = Inr () \<longrightarrow> map_of (fs_nodes w) p = None) \<or>
     fs_nodes w' = del_node p (fs_nodes w) \<and> x = Inr ()"
  by (auto simp: io_fs_unlink_def fs_call_def split: prod.splits option.splits node.splits sum.splits if_splits)

lemma calm_unlink: "io_fs_unlink p w = (x, w') \<Longrightarrow> fs_faults w = [] \<Longrightarrow> fs_faults w' = []"
  by (auto simp: io_fs_unlink_def fs_call_def split: prod.splits option.splits node.splits sum.splits if_splits)

lemma swept_unlink:
  assumes "on_module (io_fs_unlink p) r = (x, s)" and "p \<in> G"
  shows "swept G r s" and "fault_free r \<Longrightarrow> fault_free s"
    and "fault_free r \<Longrightarrow> x = Inr () \<Longrightarrow> map_of (fs_nodes (rq_module s)) p = None"
proof -
  obtain m where u: "io_fs_unlink p (rq_module r) = (x, m)" and s: "s = r\<lparr>rq_module := m\<rparr>"
    using assms(1) by (auto simp: on_module_split)
  note n = roll_unlink_nodes [OF u]
  from n assms(2) s show "swept G r s" by (fastforce simp: swept_def)
  show "fault_free r \<Longrightarrow> fault_free s" using calm_unlink [OF u] s by simp
  show "fault_free r \<Longrightarrow> x = Inr () \<Longrightarrow> map_of (fs_nodes (rq_module s)) p = None" using n s by auto
qed

lemma swept_write_ok: "after (\<lambda>_. swept G r) (swept G r) (write_ok r)"
  by (auto simp: write_ok_def req_write_def add_chat_history_def Let_def SET_EXIT_ERROR_def
      SET_EXIT_TIMEOUT_def swept_def child_panic_def split: prod.splits net_result.splits)

section \<open>Roll\<close>

text \<open>The path of a wrapped log that the set names.\<close>

definition rolls :: "blob_fs digest_module list \<Rightarrow> (bytes \<Rightarrow> bool) \<Rightarrow> bytes \<Rightarrow> bool" where
  "rolls modules named name \<longleftrightarrow> (\<exists>u. extract_wrap_udig modules name = Some u \<and> named u)"

definition rolled :: "blob_fs digest_module list \<Rightarrow> (bytes \<Rightarrow> bool) \<Rightarrow> bytes set" where
  "rolled modules named =
     {p. \<exists>name. p = wrap_dir @ CHR ''/'' # name \<and> CHR ''/'' \<notin> set name \<and> rolls modules named name}"

lemma roll_scan_sweeps:
  assumes "\<forall>(name, regular) \<in> set es. CHR ''/'' \<notin> set name"
  shows "after (\<lambda>_ s. swept (rolled modules (blob_set_exists uset)) r s \<and>
      (fault_free r \<longrightarrow> (\<forall>name. (name, True) \<in> set es \<longrightarrow> rolls modules (blob_set_exists uset) name \<longrightarrow>
        map_of (fs_nodes (rq_module s)) (wrap_dir @ CHR ''/'' # name) = None)))
    (swept (rolled modules (blob_set_exists uset)) r) (roll_scan modules uset es r)"
  using assms
proof (induction es arbitrary: r)
  case Nil
  obtain x r1 where t: "on_module fs_touch r = (x, r1)" by fastforce
  from swept_touch [OF t] t show ?case by (auto split: sum.splits)
next
  case (Cons entry es)
  let ?G = "rolled modules (blob_set_exists uset)"
  obtain name regular where e: "entry = (name, regular)" by fastforce
  obtain x r1 where t: "on_module fs_touch r = (x, r1)" by fastforce
  note s1 = swept_touch [OF t]
  have c1: "fault_free r \<Longrightarrow> r1 = r" using calm_touch [of r] t by simp
  note IH = Cons.IH [of r1]
  have rec: "after (\<lambda>_ s. swept ?G r s \<and>
      (fault_free r \<longrightarrow> (\<forall>name. (name, True) \<in> set es \<longrightarrow> rolls modules (blob_set_exists uset) name \<longrightarrow>
        map_of (fs_nodes (rq_module s)) (wrap_dir @ CHR ''/'' # name) = None)))
    (swept ?G r) (roll_scan modules uset es r2)"
    if "swept ?G r r2" "fault_free r \<Longrightarrow> fault_free r2" for r2
    by (rule after_mono [OF Cons.IH]) (use Cons.prems that in \<open>auto intro: swept_trans\<close>)
  show ?case
  proof (cases x)
    case (Inl err)
    then have "\<not> fault_free r" using calm_touch [of r] t by auto
    with t s1 Inl e show ?thesis by simp
  next
    case (Inr u)
    show ?thesis
    proof (cases "regular \<and> rolls modules (blob_set_exists uset) name")
      case False
      with rec [OF s1] c1 t Inr e show ?thesis
        by (auto simp: rolls_def split: option.splits elim!: after_mono)
    next
      case True
      let ?p = "wrap_dir @ CHR ''/'' # name"
      obtain y r2 where un: "on_module (io_fs_unlink ?p) r1 = (y, r2)" by fastforce
      have G: "?p \<in> ?G" using True Cons.prems e by (auto simp: rolled_def)
      note s2 = swept_unlink [OF un G]
      from True obtain udig where u: "extract_wrap_udig modules name = Some udig" "blob_set_exists uset udig"
        by (auto simp: rolls_def)
      show ?thesis
      proof (cases y)
        case (Inl err)
        with t Inr e True u un s1 s2 show ?thesis
          by (auto simp: must_def intro: swept_trans)
      next
        case ok: (Inr v)
        have "swept ?G r r2" "fault_free r \<Longrightarrow> fault_free r2" using s1 s2 c1 swept_trans by blast+
        note IH2 = rec [OF this]
        have "after (\<lambda>_. swept ?G r2) (\<lambda>_. True) (roll_scan modules uset es r2)"
          by (rule after_mono [OF Cons.IH]) (use Cons.prems in auto)
        from after_conj [OF IH2 this]
        have "after (\<lambda>_ s. swept ?G r s \<and>
            (fault_free r \<longrightarrow> (\<forall>n. (n, True) \<in> set (entry # es) \<longrightarrow> rolls modules (blob_set_exists uset) n \<longrightarrow>
              map_of (fs_nodes (rq_module s)) (wrap_dir @ CHR ''/'' # n) = None)))
          (swept ?G r) (roll_scan modules uset es r2)"
          by (rule after_mono) (use s2(3) c1 ok e in \<open>auto intro: swept_gone\<close>)
        with t Inr e True u un ok show ?thesis by (simp add: must_def)
      qed
    qed
  qed
qed

lemma dir_of_split:
  assumes "dir_of p = Some d"
  shows "p = d @ CHR ''/'' # drop (length d + 1) p" and "CHR ''/'' \<notin> set (drop (length d + 1) p)"
proof -
  let ?name = "rev (takeWhile (\<lambda>c. c \<noteq> CHR ''/'') (rev p))"
  have s: "CHR ''/'' \<in> set p" and d: "d = rev (tl (dropWhile (\<lambda>c. c \<noteq> CHR ''/'') (rev p)))"
    using assms by (auto simp: dir_of_def split: if_splits)
  obtain rest where w: "dropWhile (\<lambda>c. c \<noteq> CHR ''/'') (rev p) = CHR ''/'' # rest"
    using s by (cases "dropWhile (\<lambda>c. c \<noteq> CHR ''/'') (rev p)")
      (auto simp: dropWhile_eq_Nil_conv dropWhile_eq_Cons_conv)
  have "rev p = rev ?name @ CHR ''/'' # rest"
    using takeWhile_dropWhile_id [of "\<lambda>c. c \<noteq> CHR ''/''" "rev p"] w by simp
  then have p: "p = d @ CHR ''/'' # ?name"
    unfolding d w by (metis append_assoc append_Cons append_Nil list.sel(3) rev.simps(2) rev_append rev_rev_ident)
  have "drop (length d + 1) p = ?name" by (subst p) simp
  moreover have "CHR ''/'' \<notin> set ?name" by (auto dest: set_takeWhileD)
  ultimately show "p = d @ CHR ''/'' # drop (length d + 1) p" "CHR ''/'' \<notin> set (drop (length d + 1) p)"
    using p by simp_all
qed

lemma dir_of_join: "CHR ''/'' \<notin> set name \<Longrightarrow> dir_of (d @ CHR ''/'' # name) = Some d"
proof -
  assume "CHR ''/'' \<notin> set name"
  then have "dropWhile (\<lambda>c. c \<noteq> CHR ''/'') (rev name @ CHR ''/'' # rev d) = CHR ''/'' # rev d"
    by (subst dropWhile_append2) auto
  then show ?thesis by (simp add: dir_of_def)
qed

text \<open>The regular entries of a directory are its files, each once.\<close>

lemma dir_entries_names: "\<forall>(name, regular) \<in> set (dir_entries d ns). CHR ''/'' \<notin> set name"
  using dir_of_split(2) by (auto simp: dir_entries_def)

lemma dir_entries_file:
  assumes "CHR ''/'' \<notin> set name"
  shows "(name, True) \<in> set (dir_entries d ns) \<longleftrightarrow> (\<exists>bs. map_of ns (d @ CHR ''/'' # name) = Some (File bs))"
proof
  assume "(name, True) \<in> set (dir_entries d ns)"
  then obtain p where p: "dir_of p = Some d" "name = drop (length d + 1) p"
      "\<exists>bs. map_of ns p = Some (File bs)"
    by (auto simp: dir_entries_def split: option.splits node.splits)
  with dir_of_split(1) [OF p(1)] show "\<exists>bs. map_of ns (d @ CHR ''/'' # name) = Some (File bs)" by metis
next
  let ?p = "d @ CHR ''/'' # name"
  assume "\<exists>bs. map_of ns ?p = Some (File bs)"
  then obtain bs where bs: "map_of ns ?p = Some (File bs)" by blast
  then have "?p \<in> fst ` set ns" by (metis domI dom_map_of_conv_image_fst)
  with bs dir_of_join [OF assms, of d] show "(name, True) \<in> set (dir_entries d ns)"
    by (force simp: dir_entries_def)
qed

lemma opendir_nodes:
  "io_fs_opendir d w = (x, w') \<Longrightarrow> fs_nodes w' = fs_nodes w \<and>
     (\<forall>es. x = Inr es \<longrightarrow> es = dir_entries d (fs_nodes w)) \<and> (fs_faults w = [] \<longrightarrow> fs_faults w' = [])"
  by (auto simp: io_fs_opendir_def fs_call_def split: prod.splits option.splits if_splits)

definition all_rolled :: "bytes set \<Rightarrow> blob_fs request \<Rightarrow> bool" where
  "all_rolled G s \<longleftrightarrow> (\<forall>p \<in> G. \<forall>bs. map_of (fs_nodes (rq_module s)) p \<noteq> Some (File bs))"

lemma all_rolled_swept: "all_rolled G s \<Longrightarrow> swept G s t \<Longrightarrow> all_rolled G t"
  unfolding all_rolled_def swept_def by (metis option.distinct(1))

lemma roll_remove_sweeps:
  fixes modules uset
  defines "G \<equiv> rolled modules (blob_set_exists uset)"
  shows "after (\<lambda>_ s. swept G r s \<and> (fault_free r \<longrightarrow> all_rolled G s)) (swept G r) (roll_remove modules uset r)"
proof -
  obtain x r1 where o: "on_module (io_fs_opendir wrap_dir) r = (x, r1)" by fastforce
  then obtain m where m: "io_fs_opendir wrap_dir (rq_module r) = (x, m)" and r1: "r1 = r\<lparr>rq_module := m\<rparr>"
    by (auto simp: on_module_split)
  note n = opendir_nodes [OF m]
  have s1: "swept G r r1" using n r1 by (simp add: swept_def)
  let ?P = "\<lambda>s. swept G r s \<and> (fault_free r \<longrightarrow> all_rolled G s)"
  have rest: "after (\<lambda>_. ?P) (swept G r) (proceed (must (on_module fs_touch s)) (\<lambda>_ s.
      proceed (write_ok s) (\<lambda>status s. if status \<noteq> 0 then Ret (-1 :: int) (log_error s) else Ret 0 s)))"
    if s: "?P s" for s
  proof -
    obtain y s' where t: "on_module fs_touch s = (y, s')" by fastforce
    have s': "?P s'" using s swept_touch [OF t, of G] swept_trans all_rolled_swept by blast
    have w: "after (\<lambda>_. ?P) (swept G r) (write_ok s')"
      by (rule after_mono [OF swept_write_ok [of G s']]) (use s' swept_trans all_rolled_swept in blast)+
    have "?P (log_error q) = ?P q" for q by (simp add: all_rolled_def)
    with w t s' show ?thesis
      by (auto simp: must_def split: sum.splits elim!: after_mono)
  qed
  show ?thesis
  proof (cases x)
    case (Inl e)
    with o s1 show ?thesis by (simp add: roll_remove_def)
  next
    case (Inr es)
    have es: "es = dir_entries wrap_dir (fs_nodes (rq_module r))" using n Inr by simp
    have swept: "after (\<lambda>_. ?P) (swept G r) (roll_scan modules uset es r1)"
    proof (rule after_mono [OF roll_scan_sweeps [of es modules uset r1]])
      show "\<forall>(name, regular) \<in> set es. CHR ''/'' \<notin> set name" using dir_entries_names es by blast
      fix u :: unit and s
      assume a: "swept (rolled modules (blob_set_exists uset)) r1 s \<and> (fault_free r1 \<longrightarrow>
        (\<forall>name. (name, True) \<in> set es \<longrightarrow> rolls modules (blob_set_exists uset) name \<longrightarrow>
          map_of (fs_nodes (rq_module s)) (wrap_dir @ CHR ''/'' # name) = None))"
      then have s: "swept G r s" using s1 swept_trans unfolding G_def by blast
      moreover have "all_rolled G s" if c: "fault_free r"
        unfolding all_rolled_def
      proof (intro ballI allI notI)
        fix p bs assume p: "p \<in> G" and bs: "map_of (fs_nodes (rq_module s)) p = Some (File bs)"
        from p obtain name where nm: "p = wrap_dir @ CHR ''/'' # name" "CHR ''/'' \<notin> set name"
          "rolls modules (blob_set_exists uset) name" by (auto simp: G_def rolled_def)
        have "map_of (fs_nodes (rq_module r)) p = Some (File bs)"
          using s bs unfolding swept_def by (metis option.distinct(1))
        then have "(name, True) \<in> set es" using dir_entries_file [OF nm(2)] nm(1) es by blast
        with a nm bs c n r1 show False by simp
      qed
      ultimately show "?P s" by blast
    next
      fix s assume "swept (rolled modules (blob_set_exists uset)) r1 s"
      then show "swept G r s" using s1 swept_trans unfolding G_def by blast
    qed
    have "after (\<lambda>_ s. after (\<lambda>_. ?P) (swept G r) (proceed (must (on_module fs_touch s)) (\<lambda>_ s.
          proceed (write_ok s) (\<lambda>status s. if status \<noteq> 0 then Ret (-1 :: int) (log_error s) else Ret 0 s))))
        (swept G r) (roll_scan modules uset es r1)"
      by (rule after_mono [OF swept]) (use rest in blast)+
    with o Inr show ?thesis by (simp add: roll_remove_def)
  qed
qed

section \<open>The udigs of wrapped logs\<close>

text \<open>The udigs of the three modules, and the path of a wrapped log.\<close>

definition module_udig :: "bytes \<Rightarrow> bool" where
  "module_udig u \<longleftrightarrow>
     (\<exists>a d. a \<in> {''bc160'', ''btc20'', ''sha''} \<and> blob_name d \<and> u = a @ CHR '':'' # d)"

definition wrapped_path :: "bytes \<Rightarrow> bytes" where
  "wrapped_path u = wrap_dir @ CHR ''/'' # u @ ''.brr''"

lemma hexchar_graph: "c \<in> set hexchar \<Longrightarrow> c_isgraph c \<and> c \<noteq> CHR ''/'' \<and> c \<noteq> CHR '':''"
  by (auto simp: hexchar_def c_isgraph_def)

lemma blob_name_graph:
  "blob_name d \<Longrightarrow> (\<forall>c \<in> set d. c_isgraph c) \<and> CHR ''/'' \<notin> set d \<and> CHR '':'' \<notin> set d"
  using hexchar_graph by (auto simp: blob_name_def)

lemma module_udig_set: "module_udig u \<Longrightarrow> set_udig u"
proof -
  assume "module_udig u"
  then obtain a d where u: "a \<in> {''bc160'', ''btc20'', ''sha''}" "blob_name d" "u = a @ CHR '':'' # d"
    by (auto simp: module_udig_def)
  moreover have "set_algorithm a" using u(1) by (auto simp: set_algorithm_def c_isgraph_def)
  ultimately show "set_udig u" using blob_name_graph unfolding set_udig_def by blast
qed

lemma module_udig_slash: "module_udig u \<Longrightarrow> CHR ''/'' \<notin> set u"
  using blob_name_graph by (auto simp: module_udig_def)

lemma modules_digest_name:
  "module_get (bio4d_modules ssl trust) a = Some mp \<Longrightarrow> 0 < dm_is_digest mp d \<longleftrightarrow> blob_name d"
  by (auto simp: modules_names fs_bc160_module_def fs_btc20_module_def fs_sha_module_def
      ripe_is_digest_pos fs_sha_is_digest_def sha_scan_iff blob_name_def empty_ascii_def hexchar_def
      split: if_splits)

lemma extract_wrap_udig_iff:
  "extract_wrap_udig (bio4d_modules ssl trust) name = Some u \<longleftrightarrow> module_udig u \<and> name = u @ ''.brr''"
proof
  assume x: "extract_wrap_udig (bio4d_modules ssl trust) name = Some u"
  let ?a = "takeWhile (\<lambda>c. c \<noteq> CHR '':'') name"
  obtain mp where len: "4 \<le> length name" and brr: "drop (length name - 4) name = ''.brr''"
    and colon: "CHR '':'' \<in> set name" and get: "module_get (bio4d_modules ssl trust) ?a = Some mp"
    and dig: "0 < dm_is_digest mp (drop (length ?a + 1) u)" and u: "u = take (length name - 4) name"
    using x by (auto simp: extract_wrap_udig_def Let_def split: if_splits option.splits)
  have name: "name = u @ ''.brr''" using u brr append_take_drop_id [of "length name - 4" name] by simp
  have cu: "CHR '':'' \<in> set u" using colon name by simp
  then have a: "?a = takeWhile (\<lambda>c. c \<noteq> CHR '':'') u" unfolding name by (rule takeWhile_append1) simp
  have "dropWhile (\<lambda>c. c \<noteq> CHR '':'') u \<noteq> [] \<and> hd (dropWhile (\<lambda>c. c \<noteq> CHR '':'') u) = CHR '':''"
    using cu hd_dropWhile [of "\<lambda>c. c \<noteq> CHR '':''" u] by (auto simp: dropWhile_eq_Nil_conv)
  then have dw: "dropWhile (\<lambda>c. c \<noteq> CHR '':'') u = CHR '':'' # drop (length ?a + 1) u"
    unfolding a dropWhile_eq_drop by (metis Suc_eq_plus1 drop_Suc list.collapse tl_drop)
  have "u = ?a @ CHR '':'' # drop (length ?a + 1) u"
    using dw takeWhile_dropWhile_id [of "\<lambda>c. c \<noteq> CHR '':''" u] a by metis
  moreover have "?a \<in> {''bc160'', ''btc20'', ''sha''}" using get modules_names by fastforce
  ultimately show "module_udig u \<and> name = u @ ''.brr''"
    using dig modules_digest_name [OF get] name unfolding module_udig_def by blast
next
  assume "module_udig u \<and> name = u @ ''.brr''"
  then obtain a d where u: "a \<in> {''bc160'', ''btc20'', ''sha''}" "blob_name d" "u = a @ CHR '':'' # d"
    and name: "name = u @ ''.brr''" by (auto simp: module_udig_def)
  obtain mp where get: "module_get (bio4d_modules ssl trust) a = Some mp"
    using u(1) modules_names by blast
  have "takeWhile (\<lambda>c. c \<noteq> CHR '':'') name = a" using u(1) name u(3) by auto
  moreover have "length a \<le> 5" "length d = 40" using u by (auto simp: blob_name_def)
  ultimately show "extract_wrap_udig (bio4d_modules ssl trust) name = Some u"
    using get modules_digest_name [OF get] u name
    by (simp add: extract_wrap_udig_def Let_def MAX_UDIG_SIZE_def MAX_DIGEST_SIZE_def MAX_ALGORITHM_SIZE_def)
qed

lemma rolled_paths:
  "rolled (bio4d_modules ssl trust) named = {wrapped_path u | u. module_udig u \<and> named u}"
  using module_udig_slash by (auto simp: rolled_def rolls_def extract_wrap_udig_iff wrapped_path_def)

lemma first_line:
  assumes "x @ NL # r = z @ NL # s" and "NL \<notin> set x" and "NL \<notin> set z"
  shows "x = z \<and> r = s"
proof -
  have "takeWhile (\<lambda>c. c \<noteq> NL) (x @ NL # r) = x" "takeWhile (\<lambda>c. c \<noteq> NL) (z @ NL # s) = z"
    using assms(2,3) by (subst takeWhile_append2; auto)+
  with assms(1) show ?thesis by simp
qed

lemma parsed_set:
  assumes "xs \<noteq> []" and "\<forall>x \<in> set xs. set_udig x" and "distinct xs"
  shows "\<exists>us as. blob2udig_set (nl_lines xs) = Parsed us as \<and> (\<forall>e. blob_set_exists us e \<longleftrightarrow> e \<in> set xs)"
proof -
  obtain us as where p: "parse_udigs blob_set_put blob_set_alloc (nl_lines xs) = Parsed us as"
    using hs.parse_udigs_complete [OF assms] by blast
  obtain ys where y: "nl_lines xs = nl_lines ys" "\<forall>x \<in> set ys. set_udig x" "hs_elems us = set ys" "hs_wf us"
    using hs.parse_udigs_sound [OF p] by blast
  have "xs = ys" using y(1,2) assms(2)
  proof (induction xs arbitrary: ys)
    case Nil
    then show ?case by (cases ys) auto
  next
    case (Cons x xs)
    then obtain z zs where ys: "ys = z # zs" by (cases ys) auto
    have "NL \<notin> set x" "NL \<notin> set z" using Cons.prems ys set_udig_no_nl by auto
    then have "x = z \<and> nl_lines xs = nl_lines zs"
      using Cons.prems(1) ys by (intro first_line) simp_all
    with Cons.IH [of zs] Cons.prems ys show ?case by simp
  qed
  with p y hs.mem_elems show ?thesis unfolding blob2udig_set_def by blast
qed

section \<open>Roll removes what the set names\<close>

lemma roll_set_sweeps:
  fixes ssl trust us
  defines "G \<equiv> {wrapped_path u | u. module_udig u \<and> u \<in> us}"
  assumes "xs \<noteq> []" and "\<forall>x \<in> set xs. set_udig x" and "distinct xs" and "us = set xs"
  shows "after (\<lambda>_ s. swept G r s \<and> (fault_free r \<longrightarrow> all_rolled G s)) (swept G r)
    (roll_set (bio4d_modules ssl trust) (nl_lines xs) r)"
proof -
  obtain uset aset where p: "blob2udig_set (nl_lines xs) = Parsed uset aset"
    and e: "\<forall>e. blob_set_exists uset e \<longleftrightarrow> e \<in> set xs" using parsed_set [OF assms(2-4)] by blast
  have "rolled (bio4d_modules ssl trust) (blob_set_exists uset) = G"
    unfolding rolled_paths G_def using e assms(5) by simp
  with roll_remove_sweeps [of "bio4d_modules ssl trust" uset r] p show ?thesis
    by (simp add: roll_set_def)
qed

text \<open>
  C6: \<^verbatim>\<open>roll\<close> of a set removes no file but the wrapped logs of the udigs in the set, whatever
  fails; when no system call fails and it returns, all of them are gone.
\<close>

theorem roll_removes_the_set:
  assumes "xs \<noteq> []" and "\<forall>x \<in> set xs. set_udig x" and "distinct xs"
  shows "after
      (\<lambda>_ s. swept {wrapped_path u | u. module_udig u \<and> u \<in> set xs} r s \<and>
        (fs_faults (rq_module r) = [] \<longrightarrow> all_rolled {wrapped_path u | u. module_udig u \<and> u \<in> set xs} s))
      (swept {wrapped_path u | u. module_udig u \<and> u \<in> set xs} r)
    (roll_set (bio4d_modules ssl trust) (nl_lines xs) r)"
  by (rule roll_set_sweeps [OF assms refl])

lemma an_udig: "module_udig (''sha:'' @ empty_ascii)"
  using empty_names(1) by (auto simp: module_udig_def)

theorem roll_removes_the_set_witness:
  "after
      (\<lambda>_ s. swept {wrapped_path u | u. module_udig u \<and> u \<in> set [''sha:'' @ empty_ascii]} (a_child []) s \<and>
        (fs_faults (rq_module (a_child [])) = [] \<longrightarrow>
          all_rolled {wrapped_path u | u. module_udig u \<and> u \<in> set [''sha:'' @ empty_ascii]} s))
      (swept {wrapped_path u | u. module_udig u \<and> u \<in> set [''sha:'' @ empty_ascii]} (a_child []))
    (roll_set (bio4d_modules an_openssl False) (nl_lines [''sha:'' @ empty_ascii]) (a_child []))"
  by (rule roll_removes_the_set) (use module_udig_set [OF an_udig] in auto)

section \<open>Wrap writes a set that roll accepts\<close>

text \<open>The udigs of the wrapped logs in \<^verbatim>\<open>spool/wrap\<close>.\<close>

definition wrapped :: "(bytes \<times> node) list \<Rightarrow> bytes set" where
  "wrapped ns = {u. module_udig u \<and> (\<exists>bs. map_of ns (wrapped_path u) = Some (File bs))}"

lemma after_put_wrap_set: "after (\<lambda>t s. t = text @ u @ [NL]) (\<lambda>_. True) (put_wrap_set text u r)"
  by (auto simp: put_wrap_set_def must_def split: sum.splits prod.splits)

lemma after_touch: "after (\<lambda>_ _. True) (\<lambda>_. True) (must (on_module fs_touch r))"
  by (auto simp: must_def split: sum.splits prod.splits)

fun scan_udigs :: "blob_fs digest_module list \<Rightarrow> bytes \<Rightarrow> (bytes \<times> bool) list \<Rightarrow> bytes list" where
  "scan_udigs modules frozen [] = []"
| "scan_udigs modules frozen ((name, regular) # es) =
     (case (if regular then extract_wrap_udig modules name else None) of
        None \<Rightarrow> scan_udigs modules frozen es
      | Some u \<Rightarrow> (if u = frozen then [] else [u]) @ scan_udigs modules frozen es)"

lemma wrap_scan_text:
  "after (\<lambda>t s. t = acc @ nl_lines (scan_udigs modules frozen es)) (\<lambda>_. True)
     (wrap_scan modules frozen es acc r)"
proof (induction es arbitrary: acc r)
  case Nil
  show ?case unfolding wrap_scan.simps after_proceed
    by (rule after_mono [OF after_touch]) simp_all
next
  case (Cons entry es)
  obtain name regular where e: "entry = (name, regular)" by fastforce
  have put: "after (\<lambda>t s. t = acc @ nl_lines (u # scan_udigs modules frozen es)) (\<lambda>_. True)
      (proceed (put_wrap_set acc u s) (\<lambda>acc r. wrap_scan modules frozen es acc r))" for u s
    unfolding after_proceed
    by (rule after_mono [OF after_put_wrap_set]) (use Cons.IH [of "acc @ u @ [NL]"] in simp_all)
  show ?case
    unfolding wrap_scan.simps e after_proceed
    by (rule after_mono [OF after_touch])
      (use Cons.IH [of acc] put in \<open>simp_all del: after_proceed split: option.split\<close>)
qed

lemma scan_udigs_mem:
  "u \<in> set (scan_udigs modules frozen es) \<longleftrightarrow>
     u \<noteq> frozen \<and> (\<exists>name. (name, True) \<in> set es \<and> extract_wrap_udig modules name = Some u)"
proof (induction es)
  case (Cons entry es)
  then show ?case by (cases entry) (auto split: option.split)
qed simp

lemma scan_udigs_set:
  "set (scan_udigs (bio4d_modules ssl trust) frozen (dir_entries wrap_dir ns)) = wrapped ns - {frozen}"
proof -
  have "module_udig u \<Longrightarrow> (u @ ''.brr'', True) \<in> set (dir_entries wrap_dir ns) \<longleftrightarrow>
      (\<exists>bs. map_of ns (wrapped_path u) = Some (File bs))" for u
    using dir_entries_file [of "u @ ''.brr''" wrap_dir ns] module_udig_slash [of u]
    by (simp add: wrapped_path_def)
  then show ?thesis by (auto simp: scan_udigs_mem extract_wrap_udig_iff wrapped_def)
qed

lemma dir_entries_distinct: "distinct (map fst (dir_entries d ns))"
proof -
  have "inj_on (\<lambda>p. drop (length d + 1) p) {p. dir_of p = Some d}"
  proof (rule inj_onI)
    fix p q assume "p \<in> {p. dir_of p = Some d}" "q \<in> {p. dir_of p = Some d}"
      and d: "drop (length d + 1) p = drop (length d + 1) q"
    then have "p = d @ CHR ''/'' # drop (length d + 1) p" "q = d @ CHR ''/'' # drop (length d + 1) q"
      using dir_of_split(1) by blast+
    with d show "p = q" by metis
  qed
  then show ?thesis
    by (auto simp: dir_entries_def comp_def distinct_map intro: inj_on_subset)
qed

lemma scan_udigs_distinct:
  assumes "distinct (map fst es)"
  shows "distinct (scan_udigs (bio4d_modules ssl trust) frozen es)"
  using assms
proof (induction es)
  case (Cons entry es)
  obtain name regular where e: "entry = (name, regular)" by fastforce
  have "extract_wrap_udig (bio4d_modules ssl trust) name = Some u \<Longrightarrow>
      u \<notin> set (scan_udigs (bio4d_modules ssl trust) frozen es)" for u
    using Cons.prems e by (force simp: scan_udigs_mem extract_wrap_udig_iff)
  with Cons e show ?case by (auto split: option.split)
qed simp



section \<open>The log over a freeze\<close>

lemma calls_True:
  "calls (c # cs) w = (True, w') \<longleftrightarrow> (\<exists>w1. c w = (Inr (), w1) \<and> calls cs w1 = (True, w'))"
  by (auto split: prod.splits sum.splits)

lemma open_append_nodes:
  "io_fs_open_append p w = (Inr (), w') \<Longrightarrow>
     fs_nodes w' = fs_nodes w \<and> (\<exists>bs. map_of (fs_nodes w) p = Some (File bs)) \<or>
     fs_nodes w' = set_node p (File []) (fs_nodes w) \<and> map_of (fs_nodes w) p = None"
  by (auto simp: io_fs_open_append_def fs_call_def split: prod.splits option.splits node.splits if_splits)

lemma frozen_not_log: "frozen_path stamp seq \<noteq> brr_log_path"
  by (simp add: frozen_path_def brr_log_path_def)

lemma answer_wrap_nodes:
  assumes "answer_wrap w = ((Some path, dead), w')" and "map_of (fs_nodes w) brr_log_path = Some (File bs)"
  shows "path = frozen_path (lg_stamp w) (lg_seq w + 1)"
    and "map_of (fs_nodes w') p =
      (if p = brr_log_path then Some (File []) else if p = path then Some (File bs)
       else map_of (fs_nodes w) p)"
proof -
  obtain w1 where t: "fs_touch w = (Inr (), w1)"
    using assms(1) by (cases "fs_touch w", rename_tac x w1, case_tac x) (auto simp: answer_wrap_def)
  obtain f where w1: "w1 = w\<lparr>fs_faults := f\<rparr>" using fs_touch_shape [OF t] by blast
  let ?w2 = "w1\<lparr>lg_seq := lg_seq w1 + 1\<rparr>" and ?path = "frozen_path (lg_stamp w) (lg_seq w + 1)"
  let ?cs = "[io_fs_rename brr_log_path ?path, fs_touch, io_fs_open_append brr_log_path, fs_touch, fs_touch]"
  obtain w3 where c: "calls ?cs ?w2 = (True, w3)" and path: "path = ?path" and w': "w' = snd (fs_touch w3)"
    using assms(1) t w1
    by (auto simp: answer_wrap_def Let_def calls_True simp del: calls.simps(2)
        split: if_splits prod.splits bool.splits)
  show "path = ?path" by (rule path)
  from c obtain a b :: blob_fs where ren: "io_fs_rename brr_log_path ?path ?w2 = (Inr (), a)"
    and re: "fs_nodes w3 = fs_nodes b" "\<exists>a' :: blob_fs. fs_nodes a' = fs_nodes a \<and> io_fs_open_append brr_log_path a' = (Inr (), b)"
    by (auto simp: calls_True simp del: calls.simps(2) dest!: fs_touch_nodes) metis
  have "fs_nodes w' = fs_nodes b" using re(1) w' fs_touch_nodes [of w3] by (metis prod.collapse)
  then show "map_of (fs_nodes w') p =
      (if p = brr_log_path then Some (File []) else if p = path then Some (File bs)
       else map_of (fs_nodes w) p)"
    using rename_nodes [OF ren] re(2) w1 path assms(2) frozen_not_log
    by (auto dest!: open_append_nodes)
qed

lemma brr_logger_record:
  assumes "brr_logger m w = ((reply, False), w')" and "length m \<noteq> 25"
    and "map_of (fs_nodes w) brr_log_path = Some (File bs)"
  shows "map_of (fs_nodes w') brr_log_path = Some (File (bs @ m))"
    and "p \<noteq> brr_log_path \<Longrightarrow> map_of (fs_nodes w') p = map_of (fs_nodes w) p"
    and "lg_stamp w' = lg_stamp w" and "lg_seq w' = lg_seq w"
proof -
  obtain w1 where a: "io_fs_append brr_log_path m w = (Inr (), w1)" and w': "w' = w1"
    using assms(1,2) by (auto simp: brr_logger_def split: prod.splits sum.splits)
  from append_nodes [OF a] assms(3) show "map_of (fs_nodes w') brr_log_path = Some (File (bs @ m))"
    "p \<noteq> brr_log_path \<Longrightarrow> map_of (fs_nodes w') p = map_of (fs_nodes w) p" unfolding w' by auto
  from a show "lg_stamp w' = lg_stamp w" "lg_seq w' = lg_seq w" unfolding w'
    by (auto simp: io_fs_append_def fs_call_def split: prod.splits option.splits node.splits)
qed

lemma logger_serve_nodes:
  assumes "brr_logger_serve ms msg w = (Some path, w')" and "\<forall>m \<in> set ms. length m \<noteq> 25"
    and "length msg = 25" and "map_of (fs_nodes w) brr_log_path = Some (File bs)"
  shows "path = frozen_path (lg_stamp w) (lg_seq w + 1) \<and>
    map_of (fs_nodes w') p =
      (if p = brr_log_path then Some (File []) else if p = path then Some (File (bs @ concat ms))
       else map_of (fs_nodes w) p)"
  using assms
proof (induction ms arbitrary: w bs)
  case Nil
  then obtain dead where "answer_wrap w = ((Some path, dead), w')"
    by (auto simp: brr_logger_def split: prod.splits)
  from answer_wrap_nodes [OF this Nil.prems(4)] show ?case by simp
next
  case (Cons m ms)
  obtain reply dead w1 where l: "brr_logger m w = ((reply, dead), w1)" by (metis surj_pair)
  with Cons.prems(1) have d: "\<not> dead" and s: "brr_logger_serve ms msg w1 = (Some path, w')"
    by (auto split: if_splits)
  from l d have l': "brr_logger m w = ((reply, False), w1)" by simp
  have m: "length m \<noteq> 25" using Cons.prems(2) by simp
  note r = brr_logger_record [OF l' m Cons.prems(4)]
  from Cons.IH [OF s _ Cons.prems(3) r(1)] Cons.prems(2) r(2-4) show ?case by simp
qed

text \<open>
  C16: a freeze of the log loses no record and no byte.  When the logger answers a child that wraps,
  the file it names is the log as it was, followed by the records of the other children that came
  before the request, in order; the log is empty, and no other file has changed.
\<close>

theorem freeze_keeps_the_records:
  assumes "brr_logger_serve ms (wrap_fifo pid @ [NUL]) w = (Some path, w')"
    and "\<forall>m \<in> set ms. length m \<noteq> 25" and "map_of (fs_nodes w) brr_log_path = Some (File bs)"
  shows "path = frozen_path (lg_stamp w) (lg_seq w + 1) \<and>
    map_of (fs_nodes w') path = Some (File (bs @ concat ms)) \<and>
    map_of (fs_nodes w') brr_log_path = Some (File []) \<and>
    (\<forall>p. p \<noteq> path \<longrightarrow> p \<noteq> brr_log_path \<longrightarrow> map_of (fs_nodes w') p = map_of (fs_nodes w) p)"
proof -
  have "10 \<le> length (pad0 10 pid)" by (simp add: pad0_def)
  then have "length (wrap_fifo pid @ [NUL]) = 25" by (simp add: wrap_fifo_def)
  note n = logger_serve_nodes [OF assms(1,2) this assms(3)]
  show ?thesis using n [of path] n [of brr_log_path] n frozen_not_log by auto
qed

definition a_log :: blob_fs where
  "a_log = a_sha_fs\<lparr>fs_nodes := [(''spool'', Dir), (brr_log_path, File ''one'')], fr_time := 1\<rparr>"

theorem freeze_keeps_the_records_witness:
  "\<exists>path w'. brr_logger_serve [''two'', ''three''] (wrap_fifo 7 @ [NUL]) a_log = (Some path, w') \<and>
     path = ''spool/bio4d-0000000000-00001.brr'' \<and>
     map_of (fs_nodes w') path = Some (File ''onetwothree'')"
proof -
  have "fst (brr_logger_serve [''two'', ''three''] (wrap_fifo 7 @ [NUL]) a_log) =
      Some ''spool/bio4d-0000000000-00001.brr''" by code_simp
  then obtain w' where w: "brr_logger_serve [''two'', ''three''] (wrap_fifo 7 @ [NUL]) a_log =
      (Some ''spool/bio4d-0000000000-00001.brr'', w')" by (metis prod.collapse)
  have "map_of (fs_nodes a_log) brr_log_path = Some (File ''one'')"
    by (simp add: a_log_def brr_log_path_def)
  have m: "\<forall>m \<in> set [''two'', ''three'']. length m \<noteq> 25" by simp
  from freeze_keeps_the_records [OF w m \<open>map_of (fs_nodes a_log) brr_log_path = _\<close>]
  have "map_of (fs_nodes w') ''spool/bio4d-0000000000-00001.brr'' = Some (File (''one'' @ concat [''two'', ''three'']))"
    by (elim conjE)
  then have "map_of (fs_nodes w') ''spool/bio4d-0000000000-00001.brr'' = Some (File ''onetwothree'')"
    by simp
  with w show ?thesis by blast
qed

section \<open>An answer that is not true\<close>

text \<open>
  A server with its temporary directory on another device: the arborist cannot rename the blob, its
  reply says so and it exits, but the child does not look at the reply.
\<close>

definition a_put :: "blob_fs request" where
  "a_put = (a_child [])\<lparr>rq_verb := ''put'', rq_algorithm := ''sha'', rq_digest := empty_ascii,
     rq_module := a_sha_fs\<lparr>fs_nodes := [(''tmp'', Dir), (''data'', Dir)],
       fs_dev := (\<lambda>p. if take 4 p = ''data'' then 1 else 0), fr_digest := nib2digest empty_ascii\<rparr>\<rparr>"


end
