(* ===== verification/Pg_Udig.thy ===== *)
theory Pg_Udig
  imports Req
begin

text \<open>
  The PostgreSQL types of \<^verbatim>\<open>sync/pgsql/contrib/udig/udig.c\<close>: \<^verbatim>\<open>udig_sha\<close>, \<^verbatim>\<open>udig_bc160\<close> and
  \<^verbatim>\<open>udig_btc20\<close>, twenty bytes each, and \<^verbatim>\<open>udig\<close>, a value of variable length with a byte for the
  algorithm before the digest; their text forms, casts and hashes, and the operators of the index
  classes.  The header of a variable-length value is PostgreSQL's own business: \<open>varsize\<close> is
  \<^verbatim>\<open>SET_VARSIZE\<close>, the four bytes for a size, and \<open>hash_any\<close> its hash function.
\<close>

section \<open>Values and errors\<close>

type_synonym d20 = "ui8 list"
type_synonym varlena = "ui8 list"

definition UDIG_SHA :: ui8 where "UDIG_SHA = 1"
definition UDIG_BC160 :: ui8 where "UDIG_BC160 = 2"
definition UDIG_BTC20 :: ui8 where "UDIG_BTC20 = 3"

lemmas udig_types = UDIG_SHA_def UDIG_BC160_def UDIG_BTC20_def

definition VARHDRSZ :: nat where "VARHDRSZ = 4"

definition UDIG_VARDATA :: "varlena \<Rightarrow> ui8 list" where
  "UDIG_VARDATA p = drop VARHDRSZ p"

text \<open>
  \<^verbatim>\<open>ereport\<close> does not return: with \<^verbatim>\<open>ERROR\<close> it ends the statement, with \<^verbatim>\<open>PANIC\<close> (\<open>Corrupted\<close>)
  the server.
\<close>

datatype pg_error =
  BadDigest bytes | UnprintableAlgorithm char | EmptyUdig | NoParseAlgorithm
| UnknownAlgorithm bytes | Corrupted

text \<open>
  \<^verbatim>\<open>memcmp\<close>, of which the C standard fixes the sign only.
\<close>

fun memcmp :: "nat \<Rightarrow> ui8 list \<Rightarrow> ui8 list \<Rightarrow> int" where
  "memcmp (Suc n) (x # xs) (y # ys) =
     (if x < y then -1 else if y < x then 1 else memcmp n xs ys)"
| "memcmp n xs ys = 0"

section \<open>Text and bytes\<close>

definition pg_nib :: "char \<Rightarrow> ui8 option" where
  "pg_nib c =
     (if code (CHR ''0'') \<le> code c \<and> code c \<le> code (CHR ''9'') then Some (char_byte c - 48)
      else if code (CHR ''a'') \<le> code c \<and> code c \<le> code (CHR ''f'') then Some (char_byte c - 97 + 10)
      else None)"

text \<open>\<open>k\<close> characters are still to be read; the index of the code is \<open>i\<close>.\<close>

fun hex_nibs :: "nat \<Rightarrow> bytes \<Rightarrow> d20 \<Rightarrow> (d20 \<times> bytes) option" where
  "hex_nibs 0 d40 d = Some (d, d40)"
| "hex_nibs (Suc k) d40 d =
     (let i = 40 - Suc k in
      case pg_nib (cstr_at d40 0) of
        None \<Rightarrow> None
      | Some nib \<Rightarrow>
          let nib = (if even i then push_bit 4 nib else nib)
          in hex_nibs k (tl d40) (d[i div 2 := or (d ! (i div 2)) nib]))"

definition hex2dig20 :: "bytes \<Rightarrow> d20 option" where
  "hex2dig20 d40 =
     (case hex_nibs 40 d40 (replicate 20 0) of
        None \<Rightarrow> None
      | Some (d, rest) \<Rightarrow> if rest \<noteq> [] then None else Some d)"

definition nib2hex :: bytes where "nib2hex = ''0123456789abcdef''"

definition dig2hex40 :: "d20 \<Rightarrow> bytes" where
  "dig2hex40 d =
     concat (map (\<lambda>x. [nib2hex ! unat (drop_bit 4 (and x 0xF0)), nib2hex ! unat (and x 0xF)]) (take 20 d))"

definition udig_sha_in :: "bytes \<Rightarrow> pg_error + d20" where
  "udig_sha_in hex40 = (case hex2dig20 hex40 of None \<Rightarrow> Inl (BadDigest hex40) | Some d \<Rightarrow> Inr d)"

definition udig_sha_out :: "d20 \<Rightarrow> bytes" where
  "udig_sha_out d = dig2hex40 d"

definition udig_bc160_in :: "bytes \<Rightarrow> pg_error + d20" where
  "udig_bc160_in hex40 = (case hex2dig20 hex40 of None \<Rightarrow> Inl (BadDigest hex40) | Some d \<Rightarrow> Inr d)"

definition udig_bc160_out :: "d20 \<Rightarrow> bytes" where
  "udig_bc160_out d = dig2hex40 d"

definition udig_btc20_in :: "bytes \<Rightarrow> pg_error + d20" where
  "udig_btc20_in hex40 = (case hex2dig20 hex40 of None \<Rightarrow> Inl (BadDigest hex40) | Some d \<Rightarrow> Inr d)"

definition udig_btc20_out :: "d20 \<Rightarrow> bytes" where
  "udig_btc20_out d = dig2hex40 d"

text \<open>
  The algorithm of a udig: at most eight characters are read, \<open>n\<close> are left, and \<open>a\<close> is what \<^verbatim>\<open>a8\<close>
  has so far.  The value tells whether a colon came.
\<close>

fun algo_loop :: "nat \<Rightarrow> bytes \<Rightarrow> bytes \<Rightarrow> pg_error + (bool \<times> bytes \<times> bytes)" where
  "algo_loop (Suc n) (c # u) a =
     (if \<not> c_isgraph c then Inl (UnprintableAlgorithm c)
      else if c = CHR '':'' then Inr (True, a, u)
      else algo_loop n u (a @ [c]))"
| "algo_loop n u a = Inr (False, a, u)"

text \<open>The tests of \<^verbatim>\<open>a8\<close>.\<close>

definition algo_type :: "bytes \<Rightarrow> ui8 option" where
  "algo_type a8 =
     (if a8 = ''btc20'' then Some UDIG_BTC20
      else if a8 = ''sha'' then Some UDIG_SHA
      else if a8 = ''bc160'' then Some UDIG_BC160
      else None)"

definition udig_in :: "(nat \<Rightarrow> ui8 list) \<Rightarrow> bytes \<Rightarrow> pg_error + varlena" where
  "udig_in varsize udig =
     (case algo_loop 8 udig [] of
        Inl e \<Rightarrow> Inl e
      | Inr (parsed, a8, u) \<Rightarrow>
          if udig = [] then Inl EmptyUdig
          else if \<not> parsed then Inl NoParseAlgorithm
          else
            (case algo_type a8 of
               None \<Rightarrow> Inl (UnknownAlgorithm a8)
             | Some t \<Rightarrow>
                 (case hex2dig20 u of
                    None \<Rightarrow> Inl (BadDigest u)
                  | Some d \<Rightarrow> Inr (varsize (VARHDRSZ + 1 + 20) @ t # d))))"

definition udig_out :: "varlena \<Rightarrow> pg_error + bytes" where
  "udig_out p =
     (let d = UDIG_VARDATA p in
      if d ! 0 = UDIG_SHA then Inr (''sha:'' @ dig2hex40 (drop 1 d))
      else if d ! 0 = UDIG_BC160 then Inr (''bc160:'' @ dig2hex40 (drop 1 d))
      else if d ! 0 = UDIG_BTC20 then Inr (''btc20:'' @ dig2hex40 (drop 1 d))
      else Inl Corrupted)"

definition udig_algorithm :: "varlena \<Rightarrow> pg_error + bytes" where
  "udig_algorithm p =
     (let a = UDIG_VARDATA p in
      if a ! 0 = UDIG_BTC20 then Inr ''btc20''
      else if a ! 0 = UDIG_SHA then Inr ''sha''
      else if a ! 0 = UDIG_BC160 then Inr ''bc160'' else Inl Corrupted)"

text \<open>
  \<^verbatim>\<open>udig_can_cast\<close>, with the first \<^verbatim>\<open>strcmp\<close> not compared with zero, as the code has it: that
  condition holds for every algorithm except \<^verbatim>\<open>btc20\<close>.
\<close>

definition udig_can_cast :: "bytes \<Rightarrow> pg_error + bool" where
  "udig_can_cast udig =
     (case algo_loop 8 udig [] of
        Inl e \<Rightarrow> Inl e
      | Inr (parsed, a8, u) \<Rightarrow>
          if udig = [] \<or> \<not> parsed then Inl EmptyUdig
          else if a8 \<noteq> ''btc20'' \<or> a8 = ''sha'' \<or> a8 = ''bc160'' then Inr (hex2dig20 u \<noteq> None)
          else Inr False)"

section \<open>Parts, casts and hashes\<close>

definition udig_sha_cast :: "(nat \<Rightarrow> ui8 list) \<Rightarrow> d20 \<Rightarrow> varlena" where
  "udig_sha_cast varsize src = varsize (VARHDRSZ + 21) @ UDIG_SHA # take 20 src"

definition udig_sha_digest :: "(nat \<Rightarrow> ui8 list) \<Rightarrow> d20 \<Rightarrow> varlena" where
  "udig_sha_digest varsize d = varsize (VARHDRSZ + 20) @ take 20 d"

definition udig_sha_hash :: "(ui8 list \<Rightarrow> ui32) \<Rightarrow> d20 \<Rightarrow> ui32" where
  "udig_sha_hash hash_any a = hash_any (take 20 a)"

definition udig_is_sha :: "varlena \<Rightarrow> bool" where
  "udig_is_sha p \<longleftrightarrow> UDIG_VARDATA p ! 0 = UDIG_SHA"

definition udig_bc160_cast :: "(nat \<Rightarrow> ui8 list) \<Rightarrow> d20 \<Rightarrow> varlena" where
  "udig_bc160_cast varsize src = varsize (VARHDRSZ + 21) @ UDIG_BC160 # take 20 src"

definition udig_bc160_digest :: "(nat \<Rightarrow> ui8 list) \<Rightarrow> d20 \<Rightarrow> varlena" where
  "udig_bc160_digest varsize d = varsize (VARHDRSZ + 20) @ take 20 d"

definition udig_bc160_hash :: "(ui8 list \<Rightarrow> ui32) \<Rightarrow> d20 \<Rightarrow> ui32" where
  "udig_bc160_hash hash_any a = hash_any (take 20 a)"

definition udig_is_bc160 :: "varlena \<Rightarrow> bool" where
  "udig_is_bc160 p \<longleftrightarrow> UDIG_VARDATA p ! 0 = UDIG_BC160"

definition udig_btc20_cast :: "(nat \<Rightarrow> ui8 list) \<Rightarrow> d20 \<Rightarrow> varlena" where
  "udig_btc20_cast varsize src = varsize (VARHDRSZ + 21) @ UDIG_BTC20 # take 20 src"

definition udig_btc20_digest :: "(nat \<Rightarrow> ui8 list) \<Rightarrow> d20 \<Rightarrow> varlena" where
  "udig_btc20_digest varsize d = varsize (VARHDRSZ + 20) @ take 20 d"

definition udig_btc20_hash :: "(ui8 list \<Rightarrow> ui32) \<Rightarrow> d20 \<Rightarrow> ui32" where
  "udig_btc20_hash hash_any a = hash_any (take 20 a)"

definition udig_is_btc20 :: "varlena \<Rightarrow> bool" where
  "udig_is_btc20 p \<longleftrightarrow> UDIG_VARDATA p ! 0 = UDIG_BTC20"

definition udig_digest :: "(nat \<Rightarrow> ui8 list) \<Rightarrow> varlena \<Rightarrow> varlena" where
  "udig_digest varsize p = varsize (VARHDRSZ + 20) @ take 20 (drop 1 (UDIG_VARDATA p))"

text \<open>\<^verbatim>\<open>udig_hash\<close>: the pointer is that of the value, not of its data.\<close>

definition udig_hash :: "(ui8 list \<Rightarrow> ui32) \<Rightarrow> varlena \<Rightarrow> ui32" where
  "udig_hash hash_any a = hash_any (take 20 (drop 1 a))"

text \<open>
  \<^verbatim>\<open>udig_is_empty\<close>: the report of a corrupted type stands in the switch behind the last return, where
  nothing leads, so the address of a string is returned as a truth value: \<open>stray\<close>.
\<close>

definition udig_is_empty :: "bool \<Rightarrow> varlena \<Rightarrow> bool" where
  "udig_is_empty stray p =
     (let a = UDIG_VARDATA p in
      if a ! 0 = UDIG_SHA then
        a ! 1 = 0xda \<and> a ! 2 = 0x39 \<and> a ! 3 = 0xa3 \<and> a ! 4 = 0xee \<and> a ! 5 = 0x5e \<and>
        a ! 6 = 0x6b \<and> a ! 7 = 0x4b \<and> a ! 8 = 0x0d \<and> a ! 9 = 0x32 \<and> a ! 10 = 0x55 \<and>
        a ! 11 = 0xbf \<and> a ! 12 = 0xef \<and> a ! 13 = 0x95 \<and> a ! 14 = 0x60 \<and> a ! 15 = 0x18 \<and>
        a ! 16 = 0x90 \<and> a ! 17 = 0xaf \<and> a ! 18 = 0xd8 \<and> a ! 19 = 0x07 \<and> a ! 20 = 0x09
      else if a ! 0 = UDIG_BC160 then
        a ! 1 = 0xb4 \<and> a ! 2 = 0x72 \<and> a ! 3 = 0xa2 \<and> a ! 4 = 0x66 \<and> a ! 5 = 0xd0 \<and>
        a ! 6 = 0xbd \<and> a ! 7 = 0x89 \<and> a ! 8 = 0xc1 \<and> a ! 9 = 0x37 \<and> a ! 10 = 0x06 \<and>
        a ! 11 = 0xa4 \<and> a ! 12 = 0x13 \<and> a ! 13 = 0x2c \<and> a ! 14 = 0xcf \<and> a ! 15 = 0xb1 \<and>
        a ! 16 = 0x6f \<and> a ! 17 = 0x7c \<and> a ! 18 = 0x3b \<and> a ! 19 = 0x9f \<and> a ! 20 = 0xcb
      else if a ! 0 = UDIG_BTC20 then
        a ! 1 = 0xfd \<and> a ! 2 = 0x7b \<and> a ! 3 = 0x15 \<and> a ! 4 = 0xdc \<and> a ! 5 = 0x5d \<and>
        a ! 6 = 0xc2 \<and> a ! 7 = 0x03 \<and> a ! 8 = 0x95 \<and> a ! 9 = 0x56 \<and> a ! 10 = 0x69 \<and>
        a ! 11 = 0x35 \<and> a ! 12 = 0x55 \<and> a ! 13 = 0xc2 \<and> a ! 14 = 0xb8 \<and> a ! 15 = 0x1b \<and>
        a ! 16 = 0x36 \<and> a ! 17 = 0xc8 \<and> a ! 18 = 0xde \<and> a ! 19 = 0xec \<and> a ! 20 = 0x15
      else stray)"

section \<open>Comparisons\<close>

text \<open>\<^verbatim>\<open>_udig_cmp\<close>.\<close>

definition udig_order :: "varlena \<Rightarrow> varlena \<Rightarrow> pg_error + int" where
  "udig_order a_operand b_operand =
     (let a = UDIG_VARDATA a_operand; b = UDIG_VARDATA b_operand in
      if a ! 0 = b ! 0 then Inr (memcmp 20 (drop 1 a) (drop 1 b))
      else if a ! 0 = UDIG_BTC20 \<and> b ! 0 = UDIG_SHA then Inr (-1)
      else if a ! 0 = UDIG_BTC20 \<and> b ! 0 = UDIG_BC160 then Inr 1
      else if a ! 0 = UDIG_SHA then Inr 1
      else if a ! 0 = UDIG_BC160 then Inr (-1)
      else Inl Corrupted)"

text \<open>\<^verbatim>\<open>_udig_sha_cmp_udig\<close>, \<^verbatim>\<open>_udig_bc160_cmp_udig\<close> and \<^verbatim>\<open>_udig_btc20_cmp_udig\<close>.\<close>

definition sha_order_udig :: "d20 \<Rightarrow> varlena \<Rightarrow> pg_error + int" where
  "sha_order_udig a_operand b_operand =
     (let b = UDIG_VARDATA b_operand in
      if b ! 0 = UDIG_SHA then Inr (memcmp 20 a_operand (drop 1 b))
      else if b ! 0 = UDIG_BTC20 \<or> b ! 0 = UDIG_BC160 then Inr 1
      else Inl Corrupted)"

definition bc160_order_udig :: "d20 \<Rightarrow> varlena \<Rightarrow> pg_error + int" where
  "bc160_order_udig a_operand b_operand =
     (let b = UDIG_VARDATA b_operand in
      if b ! 0 = UDIG_SHA \<or> b ! 0 = UDIG_BTC20 then Inr (-1)
      else if b ! 0 = UDIG_BC160 then Inr (memcmp 20 a_operand (drop 1 b))
      else Inl Corrupted)"

definition btc20_order_udig :: "d20 \<Rightarrow> varlena \<Rightarrow> pg_error + int" where
  "btc20_order_udig a_operand b_operand =
     (let b = UDIG_VARDATA b_operand in
      if b ! 0 = UDIG_BTC20 then Inr (memcmp 20 a_operand (drop 1 b))
      else if b ! 0 = UDIG_SHA then Inr (-1)
      else if b ! 0 = UDIG_BC160 then Inr 1
      else Inl Corrupted)"

text \<open>\<^verbatim>\<open>_udig_cmp_sha\<close>, \<^verbatim>\<open>_udig_cmp_bc160\<close> and \<^verbatim>\<open>_udig_cmp_btc20\<close>.\<close>

definition udig_order_sha :: "varlena \<Rightarrow> d20 \<Rightarrow> pg_error + int" where
  "udig_order_sha a_operand b_operand =
     (let a = UDIG_VARDATA a_operand in
      if a ! 0 = UDIG_SHA then Inr (memcmp 20 (drop 1 a) b_operand)
      else if a ! 0 = UDIG_BTC20 \<or> a ! 0 = UDIG_BC160 then Inr (-1)
      else Inl Corrupted)"

definition udig_order_bc160 :: "varlena \<Rightarrow> d20 \<Rightarrow> pg_error + int" where
  "udig_order_bc160 a_operand b_operand =
     (let a = UDIG_VARDATA a_operand in
      if a ! 0 = UDIG_BTC20 \<or> a ! 0 = UDIG_SHA then Inr (-1)
      else if a ! 0 = UDIG_BC160 then Inr (memcmp 20 (drop 1 a) b_operand)
      else Inl Corrupted)"

definition udig_order_btc20 :: "varlena \<Rightarrow> d20 \<Rightarrow> pg_error + int" where
  "udig_order_btc20 a_operand b_operand =
     (let a = UDIG_VARDATA a_operand in
      if a ! 0 = UDIG_BTC20 then Inr (memcmp 20 (drop 1 a) b_operand)
      else if a ! 0 = UDIG_SHA then Inr 1
      else if a ! 0 = UDIG_BC160 then Inr (-1)
      else Inl Corrupted)"

section \<open>Operators\<close>

text \<open>\<^verbatim>\<open>udig_sha\<close> with itself.\<close>

definition udig_sha_eq :: "d20 \<Rightarrow> d20 \<Rightarrow> bool" where
  "udig_sha_eq a b \<longleftrightarrow> memcmp 20 a b = 0"

definition udig_sha_ne :: "d20 \<Rightarrow> d20 \<Rightarrow> bool" where
  "udig_sha_ne a b \<longleftrightarrow> memcmp 20 a b \<noteq> 0"

definition udig_sha_gt :: "d20 \<Rightarrow> d20 \<Rightarrow> bool" where
  "udig_sha_gt a b \<longleftrightarrow> memcmp 20 a b > 0"

definition udig_sha_ge :: "d20 \<Rightarrow> d20 \<Rightarrow> bool" where
  "udig_sha_ge a b \<longleftrightarrow> memcmp 20 a b \<ge> 0"

definition udig_sha_lt :: "d20 \<Rightarrow> d20 \<Rightarrow> bool" where
  "udig_sha_lt a b \<longleftrightarrow> memcmp 20 a b < 0"

definition udig_sha_le :: "d20 \<Rightarrow> d20 \<Rightarrow> bool" where
  "udig_sha_le a b \<longleftrightarrow> memcmp 20 a b \<le> 0"

definition udig_sha_cmp :: "d20 \<Rightarrow> d20 \<Rightarrow> int" where
  "udig_sha_cmp a b = memcmp 20 a b"

text \<open>\<^verbatim>\<open>udig_bc160\<close> with itself.\<close>

definition udig_bc160_eq :: "d20 \<Rightarrow> d20 \<Rightarrow> bool" where
  "udig_bc160_eq a b \<longleftrightarrow> memcmp 20 a b = 0"

definition udig_bc160_ne :: "d20 \<Rightarrow> d20 \<Rightarrow> bool" where
  "udig_bc160_ne a b \<longleftrightarrow> memcmp 20 a b \<noteq> 0"

definition udig_bc160_gt :: "d20 \<Rightarrow> d20 \<Rightarrow> bool" where
  "udig_bc160_gt a b \<longleftrightarrow> memcmp 20 a b > 0"

definition udig_bc160_ge :: "d20 \<Rightarrow> d20 \<Rightarrow> bool" where
  "udig_bc160_ge a b \<longleftrightarrow> memcmp 20 a b \<ge> 0"

definition udig_bc160_lt :: "d20 \<Rightarrow> d20 \<Rightarrow> bool" where
  "udig_bc160_lt a b \<longleftrightarrow> memcmp 20 a b < 0"

definition udig_bc160_le :: "d20 \<Rightarrow> d20 \<Rightarrow> bool" where
  "udig_bc160_le a b \<longleftrightarrow> memcmp 20 a b \<le> 0"

definition udig_bc160_cmp :: "d20 \<Rightarrow> d20 \<Rightarrow> int" where
  "udig_bc160_cmp a b = memcmp 20 a b"

text \<open>\<^verbatim>\<open>udig_btc20\<close> with itself.\<close>

definition udig_btc20_eq :: "d20 \<Rightarrow> d20 \<Rightarrow> bool" where
  "udig_btc20_eq a b \<longleftrightarrow> memcmp 20 a b = 0"

definition udig_btc20_ne :: "d20 \<Rightarrow> d20 \<Rightarrow> bool" where
  "udig_btc20_ne a b \<longleftrightarrow> memcmp 20 a b \<noteq> 0"

definition udig_btc20_gt :: "d20 \<Rightarrow> d20 \<Rightarrow> bool" where
  "udig_btc20_gt a b \<longleftrightarrow> memcmp 20 a b > 0"

definition udig_btc20_ge :: "d20 \<Rightarrow> d20 \<Rightarrow> bool" where
  "udig_btc20_ge a b \<longleftrightarrow> memcmp 20 a b \<ge> 0"

definition udig_btc20_lt :: "d20 \<Rightarrow> d20 \<Rightarrow> bool" where
  "udig_btc20_lt a b \<longleftrightarrow> memcmp 20 a b < 0"

definition udig_btc20_le :: "d20 \<Rightarrow> d20 \<Rightarrow> bool" where
  "udig_btc20_le a b \<longleftrightarrow> memcmp 20 a b \<le> 0"

definition udig_btc20_cmp :: "d20 \<Rightarrow> d20 \<Rightarrow> int" where
  "udig_btc20_cmp a b = memcmp 20 a b"

text \<open>Two udigs.\<close>

definition udig_eq :: "varlena \<Rightarrow> varlena \<Rightarrow> pg_error + bool" where
  "udig_eq a b = map_sum id (\<lambda>c. c = 0) (udig_order a b)"

definition udig_ne :: "varlena \<Rightarrow> varlena \<Rightarrow> pg_error + bool" where
  "udig_ne a b = map_sum id (\<lambda>c. c \<noteq> 0) (udig_order a b)"

definition udig_gt :: "varlena \<Rightarrow> varlena \<Rightarrow> pg_error + bool" where
  "udig_gt a b = map_sum id (\<lambda>c. c > 0) (udig_order a b)"

definition udig_ge :: "varlena \<Rightarrow> varlena \<Rightarrow> pg_error + bool" where
  "udig_ge a b = map_sum id (\<lambda>c. c \<ge> 0) (udig_order a b)"

definition udig_lt :: "varlena \<Rightarrow> varlena \<Rightarrow> pg_error + bool" where
  "udig_lt a b = map_sum id (\<lambda>c. c < 0) (udig_order a b)"

definition udig_le :: "varlena \<Rightarrow> varlena \<Rightarrow> pg_error + bool" where
  "udig_le a b = map_sum id (\<lambda>c. c \<le> 0) (udig_order a b)"

definition udig_cmp :: "varlena \<Rightarrow> varlena \<Rightarrow> pg_error + int" where
  "udig_cmp a b = udig_order a b"

text \<open>\<^verbatim>\<open>udig_sha\<close> with a udig, and a udig with \<^verbatim>\<open>udig_sha\<close>.\<close>

definition udig_sha_eq_udig :: "d20 \<Rightarrow> varlena \<Rightarrow> pg_error + bool" where
  "udig_sha_eq_udig a b = map_sum id (\<lambda>c. c = 0) (sha_order_udig a b)"

definition udig_sha_ne_udig :: "d20 \<Rightarrow> varlena \<Rightarrow> pg_error + bool" where
  "udig_sha_ne_udig a b = map_sum id (\<lambda>c. c \<noteq> 0) (sha_order_udig a b)"

definition udig_sha_gt_udig :: "d20 \<Rightarrow> varlena \<Rightarrow> pg_error + bool" where
  "udig_sha_gt_udig a b = map_sum id (\<lambda>c. c > 0) (sha_order_udig a b)"

definition udig_sha_ge_udig :: "d20 \<Rightarrow> varlena \<Rightarrow> pg_error + bool" where
  "udig_sha_ge_udig a b = map_sum id (\<lambda>c. c \<ge> 0) (sha_order_udig a b)"

definition udig_sha_lt_udig :: "d20 \<Rightarrow> varlena \<Rightarrow> pg_error + bool" where
  "udig_sha_lt_udig a b = map_sum id (\<lambda>c. c < 0) (sha_order_udig a b)"

definition udig_sha_le_udig :: "d20 \<Rightarrow> varlena \<Rightarrow> pg_error + bool" where
  "udig_sha_le_udig a b = map_sum id (\<lambda>c. c \<le> 0) (sha_order_udig a b)"

definition udig_sha_cmp_udig :: "d20 \<Rightarrow> varlena \<Rightarrow> pg_error + int" where
  "udig_sha_cmp_udig a b = sha_order_udig a b"

definition udig_eq_sha :: "varlena \<Rightarrow> d20 \<Rightarrow> pg_error + bool" where
  "udig_eq_sha a b = map_sum id (\<lambda>c. c = 0) (udig_order_sha a b)"

definition udig_ne_sha :: "varlena \<Rightarrow> d20 \<Rightarrow> pg_error + bool" where
  "udig_ne_sha a b = map_sum id (\<lambda>c. c \<noteq> 0) (udig_order_sha a b)"

definition udig_gt_sha :: "varlena \<Rightarrow> d20 \<Rightarrow> pg_error + bool" where
  "udig_gt_sha a b = map_sum id (\<lambda>c. c > 0) (udig_order_sha a b)"

definition udig_ge_sha :: "varlena \<Rightarrow> d20 \<Rightarrow> pg_error + bool" where
  "udig_ge_sha a b = map_sum id (\<lambda>c. c \<ge> 0) (udig_order_sha a b)"

definition udig_lt_sha :: "varlena \<Rightarrow> d20 \<Rightarrow> pg_error + bool" where
  "udig_lt_sha a b = map_sum id (\<lambda>c. c < 0) (udig_order_sha a b)"

definition udig_le_sha :: "varlena \<Rightarrow> d20 \<Rightarrow> pg_error + bool" where
  "udig_le_sha a b = map_sum id (\<lambda>c. c \<le> 0) (udig_order_sha a b)"

definition udig_cmp_sha :: "varlena \<Rightarrow> d20 \<Rightarrow> pg_error + int" where
  "udig_cmp_sha a b = udig_order_sha a b"

text \<open>\<^verbatim>\<open>udig_bc160\<close> with a udig, and a udig with \<^verbatim>\<open>udig_bc160\<close>.\<close>

definition udig_bc160_eq_udig :: "d20 \<Rightarrow> varlena \<Rightarrow> pg_error + bool" where
  "udig_bc160_eq_udig a b = map_sum id (\<lambda>c. c = 0) (bc160_order_udig a b)"

definition udig_bc160_ne_udig :: "d20 \<Rightarrow> varlena \<Rightarrow> pg_error + bool" where
  "udig_bc160_ne_udig a b = map_sum id (\<lambda>c. c \<noteq> 0) (bc160_order_udig a b)"

definition udig_bc160_gt_udig :: "d20 \<Rightarrow> varlena \<Rightarrow> pg_error + bool" where
  "udig_bc160_gt_udig a b = map_sum id (\<lambda>c. c > 0) (bc160_order_udig a b)"

definition udig_bc160_ge_udig :: "d20 \<Rightarrow> varlena \<Rightarrow> pg_error + bool" where
  "udig_bc160_ge_udig a b = map_sum id (\<lambda>c. c \<ge> 0) (bc160_order_udig a b)"

definition udig_bc160_lt_udig :: "d20 \<Rightarrow> varlena \<Rightarrow> pg_error + bool" where
  "udig_bc160_lt_udig a b = map_sum id (\<lambda>c. c < 0) (bc160_order_udig a b)"

definition udig_bc160_le_udig :: "d20 \<Rightarrow> varlena \<Rightarrow> pg_error + bool" where
  "udig_bc160_le_udig a b = map_sum id (\<lambda>c. c \<le> 0) (bc160_order_udig a b)"

definition udig_bc160_cmp_udig :: "d20 \<Rightarrow> varlena \<Rightarrow> pg_error + int" where
  "udig_bc160_cmp_udig a b = bc160_order_udig a b"

definition udig_eq_bc160 :: "varlena \<Rightarrow> d20 \<Rightarrow> pg_error + bool" where
  "udig_eq_bc160 a b = map_sum id (\<lambda>c. c = 0) (udig_order_bc160 a b)"

definition udig_ne_bc160 :: "varlena \<Rightarrow> d20 \<Rightarrow> pg_error + bool" where
  "udig_ne_bc160 a b = map_sum id (\<lambda>c. c \<noteq> 0) (udig_order_bc160 a b)"

definition udig_gt_bc160 :: "varlena \<Rightarrow> d20 \<Rightarrow> pg_error + bool" where
  "udig_gt_bc160 a b = map_sum id (\<lambda>c. c > 0) (udig_order_bc160 a b)"

definition udig_ge_bc160 :: "varlena \<Rightarrow> d20 \<Rightarrow> pg_error + bool" where
  "udig_ge_bc160 a b = map_sum id (\<lambda>c. c \<ge> 0) (udig_order_bc160 a b)"

definition udig_lt_bc160 :: "varlena \<Rightarrow> d20 \<Rightarrow> pg_error + bool" where
  "udig_lt_bc160 a b = map_sum id (\<lambda>c. c < 0) (udig_order_bc160 a b)"

definition udig_le_bc160 :: "varlena \<Rightarrow> d20 \<Rightarrow> pg_error + bool" where
  "udig_le_bc160 a b = map_sum id (\<lambda>c. c \<le> 0) (udig_order_bc160 a b)"

definition udig_cmp_bc160 :: "varlena \<Rightarrow> d20 \<Rightarrow> pg_error + int" where
  "udig_cmp_bc160 a b = udig_order_bc160 a b"

text \<open>\<^verbatim>\<open>udig_btc20\<close> with a udig, and a udig with \<^verbatim>\<open>udig_btc20\<close>.\<close>

definition udig_btc20_eq_udig :: "d20 \<Rightarrow> varlena \<Rightarrow> pg_error + bool" where
  "udig_btc20_eq_udig a b = map_sum id (\<lambda>c. c = 0) (btc20_order_udig a b)"

definition udig_btc20_ne_udig :: "d20 \<Rightarrow> varlena \<Rightarrow> pg_error + bool" where
  "udig_btc20_ne_udig a b = map_sum id (\<lambda>c. c \<noteq> 0) (btc20_order_udig a b)"

definition udig_btc20_gt_udig :: "d20 \<Rightarrow> varlena \<Rightarrow> pg_error + bool" where
  "udig_btc20_gt_udig a b = map_sum id (\<lambda>c. c > 0) (btc20_order_udig a b)"

definition udig_btc20_ge_udig :: "d20 \<Rightarrow> varlena \<Rightarrow> pg_error + bool" where
  "udig_btc20_ge_udig a b = map_sum id (\<lambda>c. c \<ge> 0) (btc20_order_udig a b)"

definition udig_btc20_lt_udig :: "d20 \<Rightarrow> varlena \<Rightarrow> pg_error + bool" where
  "udig_btc20_lt_udig a b = map_sum id (\<lambda>c. c < 0) (btc20_order_udig a b)"

definition udig_btc20_le_udig :: "d20 \<Rightarrow> varlena \<Rightarrow> pg_error + bool" where
  "udig_btc20_le_udig a b = map_sum id (\<lambda>c. c \<le> 0) (btc20_order_udig a b)"

definition udig_btc20_cmp_udig :: "d20 \<Rightarrow> varlena \<Rightarrow> pg_error + int" where
  "udig_btc20_cmp_udig a b = btc20_order_udig a b"

definition udig_eq_btc20 :: "varlena \<Rightarrow> d20 \<Rightarrow> pg_error + bool" where
  "udig_eq_btc20 a b = map_sum id (\<lambda>c. c = 0) (udig_order_btc20 a b)"

definition udig_ne_btc20 :: "varlena \<Rightarrow> d20 \<Rightarrow> pg_error + bool" where
  "udig_ne_btc20 a b = map_sum id (\<lambda>c. c \<noteq> 0) (udig_order_btc20 a b)"

definition udig_gt_btc20 :: "varlena \<Rightarrow> d20 \<Rightarrow> pg_error + bool" where
  "udig_gt_btc20 a b = map_sum id (\<lambda>c. c > 0) (udig_order_btc20 a b)"

definition udig_ge_btc20 :: "varlena \<Rightarrow> d20 \<Rightarrow> pg_error + bool" where
  "udig_ge_btc20 a b = map_sum id (\<lambda>c. c \<ge> 0) (udig_order_btc20 a b)"

definition udig_lt_btc20 :: "varlena \<Rightarrow> d20 \<Rightarrow> pg_error + bool" where
  "udig_lt_btc20 a b = map_sum id (\<lambda>c. c < 0) (udig_order_btc20 a b)"

definition udig_le_btc20 :: "varlena \<Rightarrow> d20 \<Rightarrow> pg_error + bool" where
  "udig_le_btc20 a b = map_sum id (\<lambda>c. c \<le> 0) (udig_order_btc20 a b)"

definition udig_cmp_btc20 :: "varlena \<Rightarrow> d20 \<Rightarrow> pg_error + int" where
  "udig_cmp_btc20 a b = udig_order_btc20 a b"

end
