(* ===== verification/Pg_Order.thy ===== *)
theory Pg_Order
  imports Pg_Udig Fs_Ripe "HOL-Library.List_Lexorder" "HOL-Library.Char_ord"
begin

text \<open>
  What the PostgreSQL types promise: text and value are inverse to each other, and the operators of
  the index classes compare the text forms in the order of their characters.
\<close>

section \<open>Twenty bytes and forty characters\<close>

lemma hex_byte: "[nib2hex ! unat (drop_bit 4 (and x 0xF0)), nib2hex ! unat (and x 0xF)] = encode_byte x"
  by (rule all_bytes [where P = "\<lambda>x. [nib2hex ! unat (drop_bit 4 (and x 0xF0)), nib2hex ! unat (and x 0xF)]
    = encode_byte x"]) code_simp

lemma dig2hex40_text: "length d = 20 \<Longrightarrow> dig2hex40 d = concat (map encode_byte d)"
  unfolding dig2hex40_def hex_byte by simp

lemma pg_nib_hexchar: "pg_nib c \<noteq> None \<Longrightarrow> c \<in> set hexchar"
proof -
  assume "pg_nib c \<noteq> None"
  then have "bc160_digit c" by (auto simp: pg_nib_def bc160_digit_def split: if_splits)
  then show ?thesis by (simp add: bc160_digit_hexchar)
qed

definition nib_pair :: "char \<Rightarrow> char \<Rightarrow> ui8 option" where
  "nib_pair c1 c2 =
     (case pg_nib c1 of None \<Rightarrow> None
      | Some h \<Rightarrow> (case pg_nib c2 of None \<Rightarrow> None | Some l \<Rightarrow> Some (or (or 0 (push_bit 4 h)) l)))"

lemma nib_pair_hexchar:
  assumes "c1 \<in> set hexchar" and "c2 \<in> set hexchar"
  obtains x where "nib_pair c1 c2 = Some x" "encode_byte x = [c1, c2]"
proof -
  have "list_all (\<lambda>c1. list_all (\<lambda>c2.
      case nib_pair c1 c2 of None \<Rightarrow> False | Some x \<Rightarrow> encode_byte x = [c1, c2]) hexchar) hexchar"
    by code_simp
  with assms have "case nib_pair c1 c2 of None \<Rightarrow> False | Some x \<Rightarrow> encode_byte x = [c1, c2]"
    by (simp add: list_all_iff)
  with that show thesis by (auto split: option.splits)
qed

lemma encode_byte_inj: "encode_byte x = encode_byte y \<Longrightarrow> x = y"
proof -
  assume "encode_byte x = encode_byte y"
  then have "hex_nib (hexchar ! unat (drop_bit 4 x)) = hex_nib (hexchar ! unat (drop_bit 4 y))"
    "hex_nib (hexchar ! unat (and x 0xF)) = hex_nib (hexchar ! unat (and y 0xF))"
    by (simp_all add: encode_byte_def)
  then have "drop_bit 4 x = drop_bit 4 y" "and x 0xF = and y 0xF" by (simp_all only: hex_nib_byte)
  then show "x = y" by (metis nibbles)
qed

lemma encode_byte_hexchar: "encode_byte x = [c1, c2] \<Longrightarrow> c1 \<in> set hexchar \<and> c2 \<in> set hexchar"
proof -
  have l: "length hexchar = 16" by (simp add: hexchar_def)
  show "encode_byte x = [c1, c2] \<Longrightarrow> c1 \<in> set hexchar \<and> c2 \<in> set hexchar"
    using nibble_bounds [of x] by (auto simp: encode_byte_def l intro!: nth_mem)
qed

lemma nib_pair_Some: "nib_pair c1 c2 = Some x \<longleftrightarrow> encode_byte x = [c1, c2]"
proof
  assume p: "nib_pair c1 c2 = Some x"
  then have "c1 \<in> set hexchar" "c2 \<in> set hexchar"
    using pg_nib_hexchar by (auto simp: nib_pair_def split: option.splits)
  then obtain y where "nib_pair c1 c2 = Some y" "encode_byte y = [c1, c2]" by (rule nib_pair_hexchar)
  with p show "encode_byte x = [c1, c2]" by simp
next
  assume e: "encode_byte x = [c1, c2]"
  then obtain y where y: "nib_pair c1 c2 = Some y" "encode_byte y = [c1, c2]"
    using encode_byte_hexchar nib_pair_hexchar by metis
  with e have "x = y" by (intro encode_byte_inj) simp
  with y show "nib_pair c1 c2 = Some x" by simp
qed

text \<open>Two turns of the loop read one byte.\<close>

lemma hex_nibs_pair:
  assumes "length acc + Suc m = 20"
  shows "hex_nibs (Suc (Suc (2 * m))) s (acc @ replicate (Suc m) 0) =
    (case nib_pair (cstr_at s 0) (cstr_at (tl s) 0) of
       None \<Rightarrow> None
     | Some x \<Rightarrow> hex_nibs (2 * m) (tl (tl s)) ((acc @ [x]) @ replicate m 0))"
proof -
  have i: "40 - Suc (Suc (2 * m)) = 2 * length acc" "40 - Suc (2 * m) = Suc (2 * length acc)"
    using assms by arith+
  have z: "acc @ replicate (Suc m) 0 = acc @ 0 # replicate m 0" for m by simp
  show ?thesis
    by (simp only: hex_nibs.simps Let_def i z nib_pair_def)
      (auto simp: nth_append list_update_append split: option.split)
qed

lemma hex_nibs_encode:
  "length acc + length bs = 20 \<Longrightarrow>
   hex_nibs (2 * length bs) (concat (map encode_byte bs) @ rest) (acc @ replicate (length bs) 0) =
     Some (acc @ bs, rest)"
proof (induction bs arbitrary: acc)
  case (Cons b bs)
  obtain c1 c2 where e: "encode_byte b = [c1, c2]" by (simp add: encode_byte_def)
  then have p: "nib_pair c1 c2 = Some b" by (simp add: nib_pair_Some)
  have "hex_nibs (2 * length bs) (concat (map encode_byte bs) @ rest) ((acc @ [b]) @ replicate (length bs) 0) =
     Some ((acc @ [b]) @ bs, rest)"
    using Cons.prems by (intro Cons.IH) simp
  with hex_nibs_pair [of acc "length bs"] Cons.prems e p show ?case
    by (simp del: hex_nibs.simps)
qed simp

lemma cstr_at_nib: "pg_nib (cstr_at s 0) \<noteq> None \<Longrightarrow> s = cstr_at s 0 # tl s"
proof (cases s)
  case Nil
  moreover have "pg_nib NUL = None" by (simp add: pg_nib_def)
  ultimately show "pg_nib (cstr_at s 0) \<noteq> None \<Longrightarrow> s = cstr_at s 0 # tl s" by simp
qed simp

lemma hex_nibs_sound:
  "hex_nibs (2 * m) s (acc @ replicate m 0) = Some (d, rest) \<Longrightarrow> length acc + m = 20 \<Longrightarrow>
   \<exists>bs. length bs = m \<and> s = concat (map encode_byte bs) @ rest \<and> d = acc @ bs"
proof (induction m arbitrary: s acc)
  case (Suc m)
  have two: "2 * Suc m = Suc (Suc (2 * m))" by simp
  obtain x where x: "nib_pair (cstr_at s 0) (cstr_at (tl s) 0) = Some x"
    and r: "hex_nibs (2 * m) (tl (tl s)) ((acc @ [x]) @ replicate m 0) = Some (d, rest)"
    using Suc.prems(1) hex_nibs_pair [OF Suc.prems(2), of s] unfolding two
    by (auto split: option.splits)
  obtain bs where bs: "length bs = m" "tl (tl s) = concat (map encode_byte bs) @ rest" "d = (acc @ [x]) @ bs"
    using Suc.IH [OF r] Suc.prems(2) by auto
  have "pg_nib (cstr_at s 0) \<noteq> None" "pg_nib (cstr_at (tl s) 0) \<noteq> None"
    using x by (auto simp: nib_pair_def split: option.splits)
  then have "s = [cstr_at s 0, cstr_at (tl s) 0] @ tl (tl s)"
    using cstr_at_nib [of s] cstr_at_nib [of "tl s"] by simp
  with bs x have "s = concat (map encode_byte (x # bs)) @ rest" by (simp add: nib_pair_Some)
  with bs show ?case by (intro exI [of _ "x # bs"]) simp
qed simp

lemma hex2dig20_iff: "hex2dig20 s = Some d \<longleftrightarrow> length d = 20 \<and> s = dig2hex40 d"
proof
  assume a: "hex2dig20 s = Some d"
  then have "hex_nibs (2 * 20) s ([] @ replicate 20 0) = Some (d, [])"
    by (cases "hex_nibs 40 s (replicate 20 0)")
      (auto simp: hex2dig20_def split: if_splits simp del: hex_nibs.simps)
  from hex_nibs_sound [OF this] show "length d = 20 \<and> s = dig2hex40 d"
    by (auto simp: dig2hex40_text)
next
  assume "length d = 20 \<and> s = dig2hex40 d"
  with hex_nibs_encode [of "[]" d "[]"] show "hex2dig20 s = Some d"
    by (simp add: hex2dig20_def dig2hex40_text del: hex_nibs.simps)
qed

section \<open>The order of texts\<close>

text \<open>The order of character strings, as a comparison.\<close>

definition text_cmp :: "'a::linorder list \<Rightarrow> 'a list \<Rightarrow> int" where
  "text_cmp s t = (if s = t then 0 else if s < t then -1 else 1)"

lemma text_cmp_Cons [simp]:
  "text_cmp (x # xs) (y # ys) = (if x < y then -1 else if y < x then 1 else text_cmp xs ys)"
  by (auto simp: text_cmp_def)

lemma text_cmp_append [simp]: "text_cmp (p @ s) (p @ t) = text_cmp s t"
  by (induction p) simp_all

lemma text_cmp_same [simp]: "text_cmp s s = 0"
  by (simp add: text_cmp_def)

lemma text_cmp_laws:
  "text_cmp t s = - text_cmp s t"
  "text_cmp s t = 0 \<longleftrightarrow> s = t"
  "text_cmp s t < 0 \<longleftrightarrow> s < t"
  "text_cmp s t \<le> 0 \<longleftrightarrow> s \<le> t"
  by (auto simp: text_cmp_def)

lemma memcmp_text: "length xs = n \<Longrightarrow> length ys = n \<Longrightarrow> memcmp n xs ys = text_cmp xs ys"
proof (induction n arbitrary: xs ys)
  case (Suc n)
  then obtain x xs' y ys' where "xs = x # xs'" "ys = y # ys'" by (metis length_Suc_conv)
  with Suc show ?case by simp
qed simp

text \<open>The digits are in the order of their values, so the text of bytes is in the order of the bytes.\<close>

lemma hexchar_less: "i < 16 \<Longrightarrow> j < 16 \<Longrightarrow> hexchar ! i < hexchar ! j \<longleftrightarrow> i < j"
proof -
  have "list_all (\<lambda>i. list_all (\<lambda>j. hexchar ! i < hexchar ! j \<longleftrightarrow> i < j) [0..<16]) [0..<16]" by code_simp
  then show "i < 16 \<Longrightarrow> j < 16 \<Longrightarrow> hexchar ! i < hexchar ! j \<longleftrightarrow> i < j" by (simp add: list_all_iff)
qed

lemma unat_nibbles: "unat (x :: ui8) = 16 * unat (drop_bit 4 x) + unat (and x 0xF)"
proof -
  have "unat (drop_bit 4 x) = drop_bit 4 (unat x)" by (metis drop_bit_eq_div unat_drop_bit_eq)
  moreover have "and x 0xF = take_bit 4 x" by (simp add: take_bit_eq_mask mask_eq_exp_minus_1)
  then have "unat (and x 0xF) = take_bit 4 (unat x)" by (simp only: unsigned_take_bit_eq)
  ultimately show ?thesis
    by (simp only:) (simp add: drop_bit_eq_div take_bit_eq_mod)
qed

lemma text_cmp_byte:
  "text_cmp (encode_byte x @ s) (encode_byte y @ t) =
     (if x < y then -1 else if y < x then 1 else text_cmp s t)"
proof -
  let ?h = "\<lambda>x :: ui8. unat (drop_bit 4 x)" and ?l = "\<lambda>x :: ui8. unat (and x 0xF)"
  note b = nibble_bounds [of x] nibble_bounds [of y]
  have "x < y \<longleftrightarrow> ?h x < ?h y \<or> ?h x = ?h y \<and> ?l x < ?l y"
    "y < x \<longleftrightarrow> ?h y < ?h x \<or> ?h x = ?h y \<and> ?l y < ?l x"
    using unat_nibbles [of x] unat_nibbles [of y] b by (auto simp: word_less_nat_alt)
  then show ?thesis using b by (auto simp: encode_byte_def hexchar_less)
qed

lemma text_cmp_hex:
  "length xs = length ys \<Longrightarrow>
   text_cmp (concat (map encode_byte xs)) (concat (map encode_byte ys)) = text_cmp xs ys"
  by (induction xs ys rule: list_induct2) (simp_all add: text_cmp_byte)

lemma memcmp_dig2hex40:
  "length a = 20 \<Longrightarrow> length b = 20 \<Longrightarrow> memcmp 20 a b = text_cmp (dig2hex40 a) (dig2hex40 b)"
  by (simp add: memcmp_text text_cmp_hex dig2hex40_text)

section \<open>Well-formed values\<close>

definition type_name :: "ui8 \<Rightarrow> bytes" where
  "type_name t = (if t = UDIG_SHA then ''sha'' else if t = UDIG_BC160 then ''bc160'' else ''btc20'')"

text \<open>A header, the byte of the type, and the digest.\<close>

definition udig_value :: "varlena \<Rightarrow> ui8 \<Rightarrow> d20 \<Rightarrow> bool" where
  "udig_value p t d \<longleftrightarrow>
     length p = 25 \<and> drop 4 p = t # d \<and> t \<in> {UDIG_SHA, UDIG_BC160, UDIG_BTC20}"

definition udig_text :: "ui8 \<Rightarrow> d20 \<Rightarrow> bytes" where
  "udig_text t d = type_name t @ CHR '':'' # dig2hex40 d"

lemma udig_value_parts:
  assumes "udig_value p t d"
  shows "length d = 20" and "UDIG_VARDATA p = t # d" and "t \<in> {UDIG_SHA, UDIG_BC160, UDIG_BTC20}"
proof -
  have p: "length p = 25" "drop 4 p = t # d" using assms by (simp_all add: udig_value_def)
  have "length (t # d) = length p - 4" unfolding p(2) [symmetric] by simp
  with p(1) have "length (t # d) = 21" by simp
  then show "length d = 20" by simp
  show "UDIG_VARDATA p = t # d" "t \<in> {UDIG_SHA, UDIG_BC160, UDIG_BTC20}"
    using assms by (simp_all add: udig_value_def UDIG_VARDATA_def VARHDRSZ_def)
qed

lemma udig_out_value: "udig_value p t d \<Longrightarrow> udig_out p = Inr (udig_text t d)"
  using udig_value_parts [of p t d]
  by (auto simp: udig_out_def udig_text_def type_name_def udig_types)

lemma udig_order_value:
  assumes "udig_value p t d" and "udig_value q u e"
  shows "udig_order p q = Inr (text_cmp (udig_text t d) (udig_text u e))"
  using udig_value_parts [OF assms(1)] udig_value_parts [OF assms(2)]
  by (auto simp: udig_order_def udig_text_def type_name_def udig_types memcmp_dig2hex40)

text \<open>A digest of one type and a udig.\<close>

lemma cross_value:
  assumes "udig_value q u e" and "length a = 20"
  shows "sha_order_udig a q = Inr (text_cmp (udig_text UDIG_SHA a) (udig_text u e))"
    and "bc160_order_udig a q = Inr (text_cmp (udig_text UDIG_BC160 a) (udig_text u e))"
    and "btc20_order_udig a q = Inr (text_cmp (udig_text UDIG_BTC20 a) (udig_text u e))"
    and "udig_order_sha q a = Inr (text_cmp (udig_text u e) (udig_text UDIG_SHA a))"
    and "udig_order_btc20 q a = Inr (text_cmp (udig_text u e) (udig_text UDIG_BTC20 a))"
    and "udig_order_bc160 q a =
      Inr (if u = UDIG_BC160 then text_cmp (udig_text u e) (udig_text UDIG_BC160 a) else -1)"
    and "u \<noteq> UDIG_BC160 \<Longrightarrow> text_cmp (udig_text u e) (udig_text UDIG_BC160 a) = 1"
  using udig_value_parts [OF assms(1)] assms(2)
  by (auto simp: sha_order_udig_def bc160_order_udig_def btc20_order_udig_def udig_order_sha_def
      udig_order_btc20_def udig_order_bc160_def udig_text_def type_name_def udig_types memcmp_dig2hex40)

lemmas udig_operators =
  udig_eq_def udig_ne_def udig_gt_def udig_ge_def udig_lt_def udig_le_def udig_cmp_def

section \<open>The operator class of an index\<close>

text \<open>What a B-tree of PostgreSQL requires of the comparison of its keys.\<close>

locale btree_opclass =
  fixes ok :: "'a \<Rightarrow> bool" and cmp :: "'a \<Rightarrow> 'a \<Rightarrow> int"
  assumes cmp_refl: "ok a \<Longrightarrow> cmp a a = 0"
    and cmp_swap: "ok a \<Longrightarrow> ok b \<Longrightarrow> sgn (cmp b a) = - sgn (cmp a b)"
    and cmp_trans: "ok a \<Longrightarrow> ok b \<Longrightarrow> ok c \<Longrightarrow> cmp a b \<le> 0 \<Longrightarrow> cmp b c \<le> 0 \<Longrightarrow> cmp a c \<le> 0"
begin

lemma cmp_neg: "ok a \<Longrightarrow> ok b \<Longrightarrow> cmp b a < 0 \<longleftrightarrow> 0 < cmp a b"
  using cmp_swap [of a b] by (auto simp: sgn_if split: if_splits)

lemma cmp_total: "ok a \<Longrightarrow> ok b \<Longrightarrow> cmp a b \<le> 0 \<or> cmp b a \<le> 0"
  using cmp_neg [of a b] by linarith

lemma lt_trans:
  assumes "ok a" "ok b" "ok c" "cmp a b < 0" "cmp b c < 0"
  shows "cmp a c < 0"
proof (rule ccontr)
  assume "\<not> cmp a c < 0"
  then have "cmp c a \<le> 0" using cmp_neg [of c a] assms(1,3) by linarith
  then have "cmp c b \<le> 0" using cmp_trans [of c a b] assms by linarith
  then show False using cmp_neg [of c b] assms by linarith
qed

text \<open>A key is in a sorted page exactly when the search for the first key that is not less finds it.\<close>

lemma search_sorted:
  assumes "sorted_wrt (\<lambda>a b. cmp a b \<le> 0) ks" and "\<forall>k \<in> set ks. ok k" and "ok a"
  shows "(\<exists>k \<in> set ks. cmp k a = 0) \<longleftrightarrow>
    (case dropWhile (\<lambda>k. cmp k a < 0) ks of [] \<Rightarrow> False | k # _ \<Rightarrow> cmp k a = 0)"
  using assms(1,2)
proof (induction ks)
  case (Cons k ks)
  show ?case
  proof (cases "cmp k a < 0")
    case True
    with Cons show ?thesis by auto
  next
    case False
    have "cmp k a = 0" if l: "l \<in> set ks" and z: "cmp l a = 0" for l
    proof -
      have "cmp k l \<le> 0" using Cons.prems(1) l by simp
      then have "cmp k a \<le> 0" using cmp_trans [of k l a] Cons.prems(2) assms(3) l z by simp
      with False show ?thesis by simp
    qed
    with False show ?thesis by auto
  qed
qed simp

end

lemma text_cmp_btree:
  assumes "\<And>a b. ok a \<Longrightarrow> ok b \<Longrightarrow> cmp a b = text_cmp (f a) (f b)"
  shows "btree_opclass ok cmp"
proof unfold_locales
  fix a b c
  assume "ok a"
  then show "cmp a a = 0" using assms by simp
  assume "ok b"
  with \<open>ok a\<close> show "sgn (cmp b a) = - sgn (cmp a b)" using assms by (auto simp: text_cmp_def)
  assume "ok c" "cmp a b \<le> 0" "cmp b c \<le> 0"
  with \<open>ok a\<close> \<open>ok b\<close> show "cmp a c \<le> 0" using assms by (auto simp: text_cmp_laws(4))
qed

definition digest_ok :: "d20 \<Rightarrow> bool" where "digest_ok d \<longleftrightarrow> length d = 20"

definition udig_ok :: "varlena \<Rightarrow> bool" where "udig_ok p \<longleftrightarrow> (\<exists>t d. udig_value p t d)"

lemma udig_ok_out: "udig_ok p \<Longrightarrow> udig_ok q \<Longrightarrow>
    udig_order p q = Inr (text_cmp (projr (udig_out p)) (projr (udig_out q)))"
  by (auto simp: udig_ok_def udig_order_value udig_out_value)

interpretation sha_ops: btree_opclass digest_ok udig_sha_cmp
  by (rule text_cmp_btree [where f = dig2hex40]) (simp add: digest_ok_def udig_sha_cmp_def memcmp_dig2hex40)

interpretation bc160_ops: btree_opclass digest_ok udig_bc160_cmp
  by (rule text_cmp_btree [where f = dig2hex40]) (simp add: digest_ok_def udig_bc160_cmp_def memcmp_dig2hex40)

interpretation btc20_ops: btree_opclass digest_ok udig_btc20_cmp
  by (rule text_cmp_btree [where f = dig2hex40]) (simp add: digest_ok_def udig_btc20_cmp_def memcmp_dig2hex40)

interpretation udig_ops: btree_opclass udig_ok "\<lambda>p q. projr (udig_cmp p q)"
  by (rule text_cmp_btree [where f = "\<lambda>p. projr (udig_out p)"]) (simp add: udig_cmp_def udig_ok_out)

text \<open>
  C17: the operators of the type \<^verbatim>\<open>udig\<close> compare values as their text forms are compared, character
  by character; so different algorithms come in the order of their names, as the comments say, and
  no pair of values makes the comparison panic.
\<close>

theorem udig_operators_text_order:
  assumes "udig_value p t d" and "udig_value q u e"
  shows "\<exists>x y. udig_out p = Inr x \<and> udig_out q = Inr y \<and>
    udig_eq p q = Inr (x = y) \<and> udig_ne p q = Inr (x \<noteq> y) \<and> udig_gt p q = Inr (x > y) \<and>
    udig_ge p q = Inr (x \<ge> y) \<and> udig_lt p q = Inr (x < y) \<and> udig_le p q = Inr (x \<le> y)"
  unfolding udig_operators udig_order_value [OF assms] udig_out_value [OF assms(1)] udig_out_value [OF assms(2)]
  by (auto simp: text_cmp_def)

lemma two_udigs: "udig_value ([100, 0, 0, 0] @ UDIG_SHA # replicate 20 7) UDIG_SHA (replicate 20 7)"
  "udig_value ([100, 0, 0, 0] @ UDIG_BC160 # replicate 20 9) UDIG_BC160 (replicate 20 9)"
  by (simp_all add: udig_value_def)

theorem udig_operators_text_order_witness:
  "udig_gt ([100, 0, 0, 0] @ UDIG_SHA # replicate 20 7) ([100, 0, 0, 0] @ UDIG_BC160 # replicate 20 9) = Inr True"
proof -
  have "udig_text UDIG_BC160 (replicate 20 9) < udig_text UDIG_SHA (replicate 20 7)"
    by (simp add: udig_text_def type_name_def udig_types)
  with udig_operators_text_order [OF two_udigs] show ?thesis
    unfolding udig_out_value [OF two_udigs(1)] udig_out_value [OF two_udigs(2)] by auto
qed

text \<open>
  C20: the comparisons across types agree with the comparison of udigs after a cast, except
  \<^verbatim>\<open>_udig_cmp_bc160\<close>: for a udig of another algorithm it answers "less" where the order of the
  operator family, and \<^verbatim>\<open>_udig_bc160_cmp_udig\<close> with the operands exchanged, say "greater".
\<close>

theorem udig_cross_types:
  assumes "udig_value q u e" and "length a = 20" and "length (varsize 25) = 4"
  shows "udig_sha_cmp_udig a q = udig_cmp (udig_sha_cast varsize a) q \<and>
    udig_cmp_sha q a = udig_cmp q (udig_sha_cast varsize a) \<and>
    udig_bc160_cmp_udig a q = udig_cmp (udig_bc160_cast varsize a) q \<and>
    udig_btc20_cmp_udig a q = udig_cmp (udig_btc20_cast varsize a) q \<and>
    udig_cmp_btc20 q a = udig_cmp q (udig_btc20_cast varsize a) \<and>
    (if u = UDIG_BC160 then udig_cmp_bc160 q a = udig_cmp q (udig_bc160_cast varsize a)
     else udig_cmp_bc160 q a = Inr (-1) \<and> udig_cmp q (udig_bc160_cast varsize a) = Inr 1 \<and>
       udig_bc160_cmp_udig a q = Inr (-1))"
proof -
  have c: "udig_value (udig_sha_cast varsize a) UDIG_SHA a" "udig_value (udig_bc160_cast varsize a) UDIG_BC160 a"
    "udig_value (udig_btc20_cast varsize a) UDIG_BTC20 a"
    using assms(2,3)
    by (simp_all add: udig_value_def udig_sha_cast_def udig_bc160_cast_def udig_btc20_cast_def VARHDRSZ_def)
  note x = cross_value [OF assms(1,2)]
  note v = c [THEN udig_order_value, OF assms(1)] udig_order_value [OF assms(1) c(1)]
    udig_order_value [OF assms(1) c(2)] udig_order_value [OF assms(1) c(3)]
  have s: "text_cmp x y = 1 \<Longrightarrow> text_cmp y x = -1" for x y :: bytes by (simp add: text_cmp_def split: if_splits)
  show ?thesis
    using x(7) s [OF x(7)]
    by (simp add: udig_sha_cmp_udig_def udig_cmp_def udig_cmp_sha_def udig_bc160_cmp_udig_def
        udig_btc20_cmp_udig_def udig_cmp_btc20_def udig_cmp_bc160_def x(1-6) v)
qed

theorem udig_cross_types_witness:
  "udig_cmp_bc160 ([100, 0, 0, 0] @ UDIG_SHA # replicate 20 7) (replicate 20 0) = Inr (-1) \<and>
   udig_bc160_cmp_udig (replicate 20 0) ([100, 0, 0, 0] @ UDIG_SHA # replicate 20 7) = Inr (-1)"
proof -
  have "UDIG_SHA \<noteq> UDIG_BC160" by (simp add: udig_types)
  moreover have "length (replicate 20 (0 :: ui8)) = 20" "length [100, 0, 0, 0 :: ui8] = 4" by simp_all
  ultimately show ?thesis
    using udig_cross_types [OF two_udigs(1), of "replicate 20 0" "\<lambda>_. [100, 0, 0, 0]"] by metis
qed

section \<open>Reading and printing\<close>

lemma algo_loop_iff:
  "algo_loop n u a = Inr (True, a', u') \<longleftrightarrow>
     (\<exists>b. a' = a @ b \<and> u = b @ CHR '':'' # u' \<and> length b < n \<and> (\<forall>c \<in> set b. c_isgraph c \<and> c \<noteq> CHR '':''))"
proof (induction n u a rule: algo_loop.induct)
  case (1 n c u a)
  have colon: "c_isgraph (CHR '':'')" by (simp add: c_isgraph_def)
  show ?case
  proof (cases "c_isgraph c \<and> c \<noteq> CHR '':''")
    case True
    have "(\<exists>b. a' = (a @ [c]) @ b \<and> u = b @ CHR '':'' # u' \<and> length b < n \<and>
          (\<forall>c \<in> set b. c_isgraph c \<and> c \<noteq> CHR '':'')) \<longleftrightarrow>
        (\<exists>b. a' = a @ b \<and> c # u = b @ CHR '':'' # u' \<and> length b < Suc n \<and>
          (\<forall>c \<in> set b. c_isgraph c \<and> c \<noteq> CHR '':''))" (is "?l \<longleftrightarrow> ?r")
    proof
      assume ?l
      then obtain b where "a' = (a @ [c]) @ b" "u = b @ CHR '':'' # u'" "length b < n"
        "\<forall>c \<in> set b. c_isgraph c \<and> c \<noteq> CHR '':''" by blast
      with True show ?r by (intro exI [of _ "c # b"]) auto
    next
      assume ?r
      then obtain b where b: "a' = a @ b" "c # u = b @ CHR '':'' # u'" "length b < Suc n"
        "\<forall>c \<in> set b. c_isgraph c \<and> c \<noteq> CHR '':''" by blast
      with True show ?l by (cases b) auto
    qed
    with True 1 show ?thesis by simp
  next
    case False
    have hd: "c # u = b @ CHR '':'' # u' \<Longrightarrow> \<forall>c \<in> set b. c_isgraph c \<and> c \<noteq> CHR '':'' \<Longrightarrow>
        b = [] \<and> c = CHR '':'' \<and> u = u'" for b
      using False by (cases b) auto
    show ?thesis
    proof (cases "c = CHR '':''")
      case True
      with colon hd show ?thesis by fastforce
    next
      case nc: False
      with False hd show ?thesis by fastforce
    qed
  qed
qed auto

lemma algo_type_iff: "algo_type a = Some t \<longleftrightarrow> t \<in> {UDIG_SHA, UDIG_BC160, UDIG_BTC20} \<and> a = type_name t"
  by (auto simp: algo_type_def type_name_def udig_types)

lemma type_name_chars: "length (type_name t) < 8" "\<forall>c \<in> set (type_name t). c_isgraph c \<and> c \<noteq> CHR '':''"
  by (auto simp: type_name_def c_isgraph_def)


text \<open>
  \<^verbatim>\<open>udig_can_cast\<close> should be true of exactly the texts that \<^verbatim>\<open>udig_in\<close> reads.  It is true of any
  algorithm of at most seven characters except \<^verbatim>\<open>btc20\<close>, known or not.
\<close>

theorem udig_can_cast_wrong:
  "udig_can_cast s = Inr True \<longleftrightarrow>
     (\<exists>a d. length a < 8 \<and> list_all (\<lambda>c. c_isgraph c \<and> c \<noteq> CHR '':'') a \<and> a \<noteq> ''btc20'' \<and>
        length d = 20 \<and> s = a @ CHR '':'' # dig2hex40 d)"
proof
  assume i: "udig_can_cast s = Inr True"
  obtain a u d where l: "algo_loop 8 s [] = Inr (True, a, u)" and "a \<noteq> ''btc20''"
    and "hex2dig20 u = Some d"
    using i by (auto simp: udig_can_cast_def split: sum.splits prod.splits if_splits)
  then show "\<exists>a d. length a < 8 \<and> list_all (\<lambda>c. c_isgraph c \<and> c \<noteq> CHR '':'') a \<and> a \<noteq> ''btc20'' \<and>
      length d = 20 \<and> s = a @ CHR '':'' # dig2hex40 d"
    by (auto simp: algo_loop_iff hex2dig20_iff list_all_iff)
next
  assume "\<exists>a d. length a < 8 \<and> list_all (\<lambda>c. c_isgraph c \<and> c \<noteq> CHR '':'') a \<and> a \<noteq> ''btc20'' \<and>
      length d = 20 \<and> s = a @ CHR '':'' # dig2hex40 d"
  then obtain a d where a: "length a < 8" "list_all (\<lambda>c. c_isgraph c \<and> c \<noteq> CHR '':'') a" "a \<noteq> ''btc20''"
    "length d = 20" "s = a @ CHR '':'' # dig2hex40 d" by blast
  have "algo_loop 8 s [] = Inr (True, a, dig2hex40 d)" using a(1,2) by (auto simp: algo_loop_iff a(5) list_all_iff)
  moreover have "hex2dig20 (dig2hex40 d) = Some d" using a(4) by (simp add: hex2dig20_iff)
  ultimately show "udig_can_cast s = Inr True" using a(3) by (simp add: udig_can_cast_def a(5))
qed

section \<open>The empty blob, and hashes\<close>

lemma dig2hex40_inj:
  assumes "length d = 20" and "length e = 20" and "dig2hex40 d = dig2hex40 e"
  shows "d = e"
  using assms hex2dig20_iff [of "dig2hex40 d" d] hex2dig20_iff [of "dig2hex40 d" e] by simp

lemma empty_texts:
  "dig2hex40 [218, 57, 163, 238, 94, 107, 75, 13, 50, 85,
     191, 239, 149, 96, 24, 144, 175, 216, 7, 9] = empty_ascii"
  "dig2hex40 [180, 114, 162, 102, 208, 189, 137, 193, 55, 6,
     164, 19, 44, 207, 177, 111, 124, 59, 159, 203] = bc160_empty"
  "dig2hex40 [253, 123, 21, 220, 93, 194, 3, 149, 86, 105,
     53, 85, 194, 184, 27, 54, 200, 222, 236, 21] = btc20_empty"
  by code_simp+

lemma list_of_20:
  assumes "length (d :: ui8 list) = 20"
  obtains x0 x1 x2 x3 x4 x5 x6 x7 x8 x9 y0 y1 y2 y3 y4 y5 y6 y7 y8 y9
  where "d = [x0, x1, x2, x3, x4, x5, x6, x7, x8, x9, y0, y1, y2, y3, y4, y5, y6, y7, y8, y9]"
  using assms by (auto simp: numeral_eq_Suc length_Suc_conv)

text \<open>
  \<^verbatim>\<open>udig_is_empty\<close> holds of exactly the three udigs that the server's modules give the empty
  blob.
\<close>

theorem udig_is_empty_agrees:
  assumes "udig_value p t d"
  shows "udig_is_empty stray p \<longleftrightarrow> (udig_text t d \<in>
    {''sha:'' @ empty_ascii, ''bc160:'' @ bc160_empty, ''btc20:'' @ btc20_empty})"
proof -
  note v = udig_value_parts [OF assms]
  have eq: "e \<in> {x. length x = 20} \<Longrightarrow> d = e \<longleftrightarrow> dig2hex40 d = dig2hex40 e" for e
    using dig2hex40_inj [of d e] v(1) by auto
  from v(3) consider "t = UDIG_SHA" | "t = UDIG_BC160" | "t = UDIG_BTC20" by blast
  then show ?thesis
  proof cases
    case 1
    have "udig_is_empty stray p \<longleftrightarrow> (dig2hex40 d = empty_ascii)"
      unfolding empty_texts(1) [symmetric]
      by (subst eq [symmetric], simp)
        (rule list_of_20 [OF v(1)], use v(2) in \<open>simp add: udig_is_empty_def 1 udig_types\<close>)
    then show ?thesis by (simp add: 1 udig_text_def type_name_def udig_types)
  next
    case 2
    have "udig_is_empty stray p \<longleftrightarrow> (dig2hex40 d = bc160_empty)"
      unfolding empty_texts(2) [symmetric]
      by (subst eq [symmetric], simp)
        (rule list_of_20 [OF v(1)], use v(2) in \<open>simp add: udig_is_empty_def 2 udig_types\<close>)
    then show ?thesis by (simp add: 2 udig_text_def type_name_def udig_types)
  next
    case 3
    have "udig_is_empty stray p \<longleftrightarrow> (dig2hex40 d = btc20_empty)"
      unfolding empty_texts(3) [symmetric]
      by (subst eq [symmetric], simp)
        (rule list_of_20 [OF v(1)], use v(2) in \<open>simp add: udig_is_empty_def 3 udig_types\<close>)
    then show ?thesis by (simp add: 3 udig_text_def type_name_def udig_types)
  qed
qed

theorem udig_is_empty_agrees_witness:
  "udig_is_empty True ([100, 0, 0, 0] @ UDIG_SHA # replicate 20 7) \<longleftrightarrow> (udig_text UDIG_SHA (replicate 20 7) \<in>
    {''sha:'' @ empty_ascii, ''bc160:'' @ bc160_empty, ''btc20:'' @ btc20_empty})"
  by (rule udig_is_empty_agrees [OF two_udigs(1)])

text \<open>
  \<^verbatim>\<open>udig_hash\<close> starts one byte after the header's start instead of in the data, so the last four
  bytes of the digest do not take part, and udigs that differ only there collide for every hash
  function.
\<close>

theorem udig_hash_cuts_digest:
  assumes "udig_value p t d" and "udig_value q t e" and "take 4 p = take 4 q"
    and "take 16 d = take 16 e"
  shows "udig_hash hash_any p = udig_hash hash_any q"
proof -
  have h: "take 20 (drop 1 x) = drop 1 (take 4 x) @ t # take 16 y" if v: "udig_value x t y" for x y
  proof -
    have l: "length x = 25" "drop 4 x = t # y" using v by (simp_all add: udig_value_def)
    have "drop 1 x = drop 1 (take 4 x) @ drop 4 x"
      using append_take_drop_id [of 3 "drop 1 x"] by (simp add: drop_take)
    moreover have "length (drop 1 (take 4 x)) = 3" using l by simp
    ultimately show ?thesis by (simp add: l(2))
  qed
  show ?thesis unfolding udig_hash_def h [OF assms(1)] h [OF assms(2)] assms(3,4) ..
qed

theorem udig_hash_cuts_digest_witness:
  "udig_hash (\<lambda>bs. of_nat (length bs)) ([100, 0, 0, 0] @ UDIG_SHA # replicate 20 7) =
   udig_hash (\<lambda>bs. of_nat (length bs)) ([100, 0, 0, 0] @ UDIG_SHA # replicate 16 7 @ replicate 4 8)"
  by (rule udig_hash_cuts_digest [of _ UDIG_SHA "replicate 20 7" _ "replicate 16 7 @ replicate 4 8"])
    (simp_all add: udig_value_def)

end
