(* ===== verification/Frisk.thy ===== *)
theory Frisk
  imports Brr_Record Verb_Contract
begin

text \<open>
  \<^verbatim>\<open>cli/bio-frisk-brr.c\<close>: is a stream of lines a log of blob request records?  The scanners are
  functions on the rest of the line buffer, which after the NUL of \<^verbatim>\<open>fgets\<close> still holds the end of
  an earlier line; a read beyond the buffer is an error of its own, \<open>Overrun\<close>.
\<close>

section \<open>Scanners\<close>

text \<open>
  How the program may end inside a line: \<^verbatim>\<open>sexit\<close>, \<^verbatim>\<open>die\<close>, or a read past the end of \<^verbatim>\<open>line\<close>.
\<close>

datatype frisk_exit = Sexit | Died | Overrun

type_synonym 'a scanner = "bytes \<Rightarrow> frisk_exit + 'a \<times> bytes"

definition ret :: "'a \<Rightarrow> 'a scanner" where
  "ret v src = Inr (v, src)"

definition andthen :: "'a scanner \<Rightarrow> ('a \<Rightarrow> 'b scanner) \<Rightarrow> 'b scanner" where
  "andthen f g src = (case f src of Inl e \<Rightarrow> Inl e | Inr (v, src1) \<Rightarrow> g v src1)"

abbreviation then_scan :: "'a scanner \<Rightarrow> 'b scanner \<Rightarrow> 'b scanner" where
  "then_scan f g \<equiv> andthen f (\<lambda>_. g)"

text \<open>\<^verbatim>\<open>*p++\<close>\<close>

definition next_char :: "char scanner" where
  "next_char src = (case src of [] \<Rightarrow> Inl Overrun | c # p \<Rightarrow> Inr (c, p))"

text \<open>The tests \<^verbatim>\<open>if (*p++ != c) sexit(..)\<close>.\<close>

definition expect :: "(char \<Rightarrow> bool) \<Rightarrow> unit scanner" where
  "expect ok = andthen next_char (\<lambda>c. if ok c then ret () else (\<lambda>_. Inl Sexit))"

fun expects :: "(char \<Rightarrow> bool) list \<Rightarrow> unit scanner" where
  "expects [] = ret ()"
| "expects (ok # oks) = then_scan (expect ok) (expects oks)"

text \<open>\<^verbatim>\<open>strchr(set, c) != NULL\<close>: the terminating NUL of the set belongs to it.\<close>

definition strchr :: "bytes \<Rightarrow> char \<Rightarrow> bool" where
  "strchr cset c \<longleftrightarrow> c = NUL \<or> c \<in> set cset"

definition digits :: bytes where "digits = ''0123456789''"

definition lower_alnum :: bytes where
  "lower_alnum = ''abcdefghijklmnopqrstuvwxyz0123456789''"

text \<open>The 94 characters of \<^verbatim>\<open>graph_set\<close>, in the order of their codes.\<close>

definition graph_set :: bytes where "graph_set = map char_of [33..<127 :: nat]"

definition in_set :: "nat \<Rightarrow> bytes \<Rightarrow> unit scanner" where
  "in_set n cset = expects (replicate n (\<lambda>c. c \<noteq> NUL \<and> strchr cset c))"

fun in_range_loop :: "nat \<Rightarrow> nat \<Rightarrow> nat \<Rightarrow> bytes \<Rightarrow> unit scanner" where
  "in_range_loop 0 seen lower cset src = Inr ((), src)"
| "in_range_loop (Suc n) seen lower cset src =
     (case src of
        [] \<Rightarrow> Inl Overrun
      | c # s \<Rightarrow>
          if strchr cset c then in_range_loop n (seen + 1) lower cset s
          else if seen + 1 \<le> lower then Inl Sexit
          else Inr ((), src))"

definition in_range :: "nat \<Rightarrow> nat \<Rightarrow> bytes \<Rightarrow> unit scanner" where
  "in_range upper lower cset = in_range_loop upper 0 lower cset"

text \<open>
  \<^verbatim>\<open>scan_set\<close>.  When \<open>n\<close> is 0 the loop has ended with \<^verbatim>\<open>s == s_end\<close>, which is also where the end
  character of a field of \<^verbatim>\<open>limit - 1\<close> characters leads to.
\<close>

fun scan_set_loop :: "nat \<Rightarrow> bool \<Rightarrow> bytes \<Rightarrow> char \<Rightarrow> unit scanner" where
  "scan_set_loop 0 at_start cset end_fld s =
     (case s of
        [] \<Rightarrow> Inl Overrun
      | c # s1 \<Rightarrow> if c \<noteq> end_fld then Inl Sexit else Inr ((), s1))"
| "scan_set_loop (Suc n) at_start cset end_fld s =
     (case s of
        [] \<Rightarrow> Inl Overrun
      | c # s1 \<Rightarrow>
          if c = end_fld then
            (if at_start then Inl Sexit
             else if n = 0 then scan_set_loop 0 False cset end_fld s1
             else Inr ((), s1))
          else if c = NUL then Inl Sexit
          else if \<not> c_isascii c then Inl Sexit
          else if strchr cset c then scan_set_loop n False cset end_fld s1
          else Inl Sexit)"

definition scan_set :: "nat \<Rightarrow> bytes \<Rightarrow> char \<Rightarrow> unit scanner" where
  "scan_set limit cset end_fld = scan_set_loop limit True cset end_fld"

section \<open>The seven fields\<close>

text \<open>\<^verbatim>\<open>lo <= *p && *p <= hi\<close>\<close>

abbreviation between :: "char \<Rightarrow> char \<Rightarrow> char \<Rightarrow> bool" where
  "between lo hi c \<equiv> code lo \<le> code c \<and> code c \<le> code hi"

definition scan_rfc399nano :: "unit scanner" where
  "scan_rfc399nano =
     then_scan (expect (between (CHR ''2'') (CHR ''5'')))
     (then_scan (in_set 3 digits)
     (then_scan (expects
       [(=) (CHR ''-''), between (CHR ''0'') (CHR ''1''), between (CHR ''0'') (CHR ''9''),
        (=) (CHR ''-''), between (CHR ''0'') (CHR ''3''), between (CHR ''0'') (CHR ''9''),
        (=) (CHR ''T''), between (CHR ''0'') (CHR ''2''), between (CHR ''0'') (CHR ''9''),
        (=) (CHR '':''), between (CHR ''0'') (CHR ''5''), between (CHR ''0'') (CHR ''9''),
        (=) (CHR '':''), between (CHR ''0'') (CHR ''5''), between (CHR ''0'') (CHR ''9''),
        (=) (CHR ''.'')])
     (then_scan (in_range 9 1 digits)
     (then_scan (expect (\<lambda>c. c = CHR ''+'' \<or> c = CHR ''-''))
     (then_scan (in_set 2 digits)
     (then_scan (expect ((=) (CHR '':'')))
     (then_scan (in_set 2 digits)
     (expect ((=) TAB)))))))))"

definition scan_transport :: "unit scanner" where
  "scan_transport =
     then_scan (expect (between (CHR ''a'') (CHR ''z'')))
     (then_scan
       (\<lambda>p. case p of
          [] \<Rightarrow> Inl Overrun
        | c # p1 \<Rightarrow> if c = CHR ''~'' then Inr ((), p1)
                   else scan_set 7 lower_alnum (CHR ''~'') p)
       (scan_set 128 graph_set TAB))"

text \<open>The rest of a verb whose first characters have been read, and the tab.\<close>

definition verb_rest :: "bytes \<Rightarrow> bytes \<Rightarrow> bytes scanner" where
  "verb_rest rest verb =
     then_scan (expects (map (=) rest)) (then_scan (expect ((=) TAB)) (ret verb))"

definition scan_verb :: "bytes scanner" where
  "scan_verb =
     andthen next_char (\<lambda>c.
       if c = CHR ''g'' then
         andthen next_char (\<lambda>c.
           if c = CHR ''e'' then verb_rest ''t'' ''get''
           else if c = CHR ''i'' then verb_rest ''ve'' ''give''
           else (\<lambda>_. Inl Sexit))
       else if c = CHR ''p'' then verb_rest ''ut'' ''put''
       else if c = CHR ''t'' then verb_rest ''ake'' ''take''
       else if c = CHR ''e'' then verb_rest ''at'' ''eat''
       else if c = CHR ''w'' then verb_rest ''rap'' ''wrap''
       else if c = CHR ''r'' then verb_rest ''oll'' ''roll''
       else (\<lambda>_. Inl Sexit))"

text \<open>
  \<^verbatim>\<open>strchr(p, '\t')\<close>, which stops at a NUL: the field before the tab and what follows the tab;
  without a tab before the NUL the scan fails.
\<close>

fun tab_at :: "bytes \<Rightarrow> frisk_exit + bytes \<times> bytes" where
  "tab_at [] = Inl Overrun"
| "tab_at (c # p) =
     (if c = TAB then Inr ([], p)
      else if c = NUL then Inl Sexit
      else case tab_at p of Inl e \<Rightarrow> Inl e | Inr (fld, rest) \<Rightarrow> Inr (c # fld, rest))"

text \<open>
  \<^verbatim>\<open>scan_udig\<close>: 1 if the udig is empty.  \<open>frisk_udig\<close> is the library's \<^verbatim>\<open>jmscott_frisk_udig\<close>, true
  for a string it has no error for.
\<close>

definition scan_udig :: "(bytes \<Rightarrow> bool) \<Rightarrow> bool scanner" where
  "scan_udig frisk_udig p =
     (case tab_at p of
        Inl e \<Rightarrow> Inl e
      | Inr (udig, rest) \<Rightarrow>
          if length udig = 0 then Inr (True, rest)
          else if length udig < 34 then Inl Sexit
          else if length udig > 137 then Inl Sexit
          else if \<not> frisk_udig udig then Inl Sexit
          else Inr (False, rest))"

text \<open>Which chat history \<^verbatim>\<open>scan_chat_history\<close> takes for a verb, once it has been copied to \<^verbatim>\<open>ch\<close>.\<close>

definition chat_of_verb :: "bytes \<Rightarrow> bytes \<Rightarrow> bool" where
  "chat_of_verb verb ch =
     (let v1 = cstr_at verb 0; v2 = cstr_at verb 1 in
      if ch = ''no'' then True
      else if ch = ''ok'' then
        v1 = CHR ''g'' \<and> v2 = CHR ''e'' \<or> v1 = CHR ''e'' \<or> v1 = CHR ''w'' \<or> v1 = CHR ''r''
      else if ch = ''ok,ok'' \<or> ch = ''ok,no'' then
        v1 = CHR ''g'' \<and> v2 = CHR ''i'' \<or> v1 = CHR ''t'' \<or> v1 = CHR ''p''
      else (ch = ''ok,ok,ok'' \<or> ch = ''ok,ok,no'') \<and>
           (v1 = CHR ''t'' \<or> v1 = CHR ''g'' \<and> v2 = CHR ''i''))"

text \<open>The result is true when the last character is the one of \<^verbatim>\<open>no\<close>.\<close>

definition scan_chat_history :: "bytes \<Rightarrow> bool scanner" where
  "scan_chat_history verb p =
     (case scan_set 8 ''nok,'' TAB p of
        Inl e \<Rightarrow> Inl e
      | Inr (_, end1) \<Rightarrow>
          let ch_len = length p - length end1 - 1;
              ch = take ch_len p
          in if ch_len \<noteq> 2 \<and> ch_len \<noteq> 5 \<and> ch_len \<noteq> 8 then Inl Sexit
             else if chat_of_verb verb ch then Inr (ch ! (ch_len - 1) = CHR ''o'', end1)
             else Inl Sexit)"

text \<open>\<^verbatim>\<open>strtoll\<close> of a text that starts with a digit, before it is clamped to a \<^verbatim>\<open>long long\<close>.\<close>

definition strtoll_value :: "bytes \<Rightarrow> nat" where
  "strtoll_value q = undec (takeWhile c_isdigit q)"

definition LLONG_MAX :: nat where "LLONG_MAX = 9223372036854775807"

definition scan_byte_count :: "unit scanner" where
  "scan_byte_count q =
     (case scan_set 20 digits TAB q of
        Inl e \<Rightarrow> Inl e
      | Inr (_, p) \<Rightarrow> if strtoll_value q > LLONG_MAX then Inl Sexit else Inr ((), p))"

text \<open>A \<^verbatim>\<open>long\<close> has 64 bits.\<close>

definition scan_wall_duration :: "unit scanner" where
  "scan_wall_duration q =
     (case scan_set 10 digits (CHR ''.'') q of
        Inl e \<Rightarrow> Inl e
      | Inr (_, p) \<Rightarrow>
          if strtoll_value q > LLONG_MAX \<or> strtoll_value q > 2147483647 then Inl Sexit
          else then_scan (in_range 9 1 digits) (expect ((=) NL)) p)"

section \<open>The program\<close>

text \<open>The body of the loop of \<^verbatim>\<open>main\<close>, on the line buffer.\<close>

definition frisk_line :: "(bytes \<Rightarrow> bool) \<Rightarrow> unit scanner" where
  "frisk_line frisk_udig =
     then_scan scan_rfc399nano
     (then_scan scan_transport
     (andthen scan_verb (\<lambda>verb.
      andthen (scan_udig frisk_udig) (\<lambda>no_udig.
      andthen (scan_chat_history verb) (\<lambda>is_no.
        if (cstr_at verb 0 = CHR ''w'' \<or> cstr_at verb 0 = CHR ''r'') \<and>
           (\<not> no_udig \<and> is_no \<or> no_udig \<and> \<not> is_no)
        then (\<lambda>_. Inl Died)
        else then_scan scan_byte_count scan_wall_duration)))))"

definition LINE_SIZE :: nat where "LINE_SIZE = 372"

text \<open>What \<^verbatim>\<open>fgets\<close> takes from the stream: up to a new-line, at most \<open>n\<close> characters.\<close>

fun fgets_take :: "nat \<Rightarrow> bytes \<Rightarrow> bytes \<times> bytes" where
  "fgets_take 0 s = ([], s)"
| "fgets_take (Suc n) [] = ([], [])"
| "fgets_take (Suc n) (c # s) =
     (if c = NL then ([c], s) else (case fgets_take n s of (l, rest) \<Rightarrow> (c # l, rest)))"

text \<open>
  The state of the standard streams: what \<^verbatim>\<open>stdin\<close> delivers, whether it then fails instead of
  ending, whether \<^verbatim>\<open>ferror(stderr)\<close> holds and whether \<^verbatim>\<open>fclose(stdin)\<close> succeeds.
\<close>

record stdio =
  in_data :: bytes
  in_fails :: bool
  err_fails :: bool
  close_ok :: bool

text \<open>
  \<^verbatim>\<open>fgets\<close> into the buffer: \<open>None\<close> at the end of the stream, and when the read fails before the
  line is complete.
\<close>

definition fgets :: "bool \<Rightarrow> bytes \<Rightarrow> bytes \<Rightarrow> (bytes \<times> bytes) option" where
  "fgets fails buf s =
     (case fgets_take (LINE_SIZE - 1) s of
        (l, rest) \<Rightarrow>
          if l = [] then None
          else if fails \<and> length l < LINE_SIZE - 1 \<and> last l \<noteq> NL then None
          else Some (l @ NUL # drop (length l + 1) buf, rest))"

lemma fgets_take_shorter:
  "fgets_take n s = (l, rest) \<Longrightarrow> s = l @ rest \<and> length l \<le> n"
  by (induction n s arbitrary: l rule: fgets_take.induct) (auto split: if_splits prod.splits)

text \<open>The loop: whether a line was read, when the program has not ended inside a line.\<close>

function frisk_loop :: "(bytes \<Rightarrow> bool) \<Rightarrow> bool \<Rightarrow> bool \<Rightarrow> bytes \<Rightarrow> bytes \<Rightarrow> frisk_exit + bool" where
  "frisk_loop frisk_udig fails read_input buf s =
     (case fgets fails buf s of
        None \<Rightarrow> Inr read_input
      | Some (line, rest) \<Rightarrow>
          (case frisk_line frisk_udig line of
             Inl e \<Rightarrow> Inl e
           | Inr _ \<Rightarrow> frisk_loop frisk_udig fails True line rest))"
  by pat_completeness auto
termination
  by (relation "measure (\<lambda>(_, _, _, _, s). length s)")
    (auto simp: fgets_def LINE_SIZE_def split: prod.splits if_splits dest!: fgets_take_shorter)

declare frisk_loop.simps [simp del]

definition EXIT_IS_BRR :: nat where "EXIT_IS_BRR = 0"
definition EXIT_IS_NOT_BRR :: nat where "EXIT_IS_NOT_BRR = 1"
definition EXIT_IS_EMPTY :: nat where "EXIT_IS_EMPTY = 2"
definition EXIT_ERROR :: nat where "EXIT_ERROR = 3"

text \<open>\<^verbatim>\<open>die\<close>: while a line is being traced its status is 1.\<close>

definition die_status :: "bool \<Rightarrow> bool \<Rightarrow> nat" where
  "die_status tracing in_line = (if tracing \<and> in_line then 1 else EXIT_ERROR)"

text \<open>
  \<^verbatim>\<open>main\<close>: the exit status for the arguments after the name of the program; \<open>None\<close> if the line
  buffer is overrun.
\<close>

definition frisk_main :: "(bytes \<Rightarrow> bool) \<Rightarrow> bytes list \<Rightarrow> stdio \<Rightarrow> nat option" where
  "frisk_main frisk_udig args io =
     (if length args > 1 then Some (die_status False False)
      else if length args = 1 \<and> args ! 0 \<noteq> ''--trace'' then Some (die_status False False)
      else
        (let tracing = (length args = 1) in
         case frisk_loop frisk_udig (in_fails io) False (replicate LINE_SIZE NUL) (in_data io) of
           Inl Overrun \<Rightarrow> None
         | Inl Sexit \<Rightarrow> Some EXIT_IS_NOT_BRR
         | Inl Died \<Rightarrow> Some (die_status tracing True)
         | Inr read_input \<Rightarrow>
             Some (if err_fails io then die_status tracing False
                   else if read_input then
                     (if \<not> in_fails io then EXIT_IS_BRR else die_status tracing False)
                   else if \<not> close_ok io then die_status tracing False
                   else EXIT_IS_EMPTY)))"

section \<open>The line buffer\<close>

text \<open>
  A scanner that reads at most \<open>k\<close> characters of a buffer ending in a NUL, and leaves a suffix.
\<close>

definition eats :: "nat \<Rightarrow> 'a scanner \<Rightarrow> bool" where
  "eats k f \<longleftrightarrow> (\<forall>s. k < length s \<longrightarrow> last s = NUL \<longrightarrow>
     (case f s of Inl e \<Rightarrow> e \<noteq> Overrun | Inr (v, t) \<Rightarrow> \<exists>u. s = u @ t \<and> length u \<le> k))"

named_theorems eat \<open>how far the scanners read\<close>

lemma eatsI:
  assumes "\<And>s. k < length s \<Longrightarrow> last s = NUL \<Longrightarrow>
    (case f s of Inl e \<Rightarrow> e \<noteq> Overrun | Inr (v, t) \<Rightarrow> \<exists>u. s = u @ t \<and> length u \<le> k)"
  shows "eats k f"
  using assms by (simp add: eats_def)

lemma eats_ret [eat]: "eats 0 (ret v)"
  by (simp add: eats_def ret_def)

lemma eats_fail [eat]: "e \<noteq> Overrun \<Longrightarrow> eats 0 (\<lambda>_. Inl e)"
  by (simp add: eats_def)

lemma eats_andthen:
  assumes f: "eats j f" and g: "\<And>v. eats k (g v)" and n: "n = j + k"
  shows "eats n (andthen f g)"
proof (rule eatsI)
  fix s assume l: "n < length s" and z: "last s = NUL"
  have *: "case f s of Inl e \<Rightarrow> e \<noteq> Overrun | Inr (v, t) \<Rightarrow> \<exists>u. s = u @ t \<and> length u \<le> j"
    using f l z n by (simp add: eats_def)
  show "case andthen f g s of Inl e \<Rightarrow> e \<noteq> Overrun | Inr (v, t) \<Rightarrow> \<exists>u. s = u @ t \<and> length u \<le> n"
  proof (cases "f s")
    case (Inr p)
    obtain v t where p: "p = (v, t)" by (cases p)
    from * Inr p obtain u where s: "s = u @ t" "length u \<le> j" by auto
    then have "k < length t" "last t = NUL" using l z n by (auto simp: last_append split: if_splits)
    then have "case g v t of Inl e \<Rightarrow> e \<noteq> Overrun | Inr (v, t1) \<Rightarrow> \<exists>u. t = u @ t1 \<and> length u \<le> k"
      using g [of v] by (simp add: eats_def)
    then show ?thesis using Inr p s n
      by (auto simp: andthen_def split: sum.splits)
  qed (use * in \<open>simp add: andthen_def\<close>)
qed

lemma eats_then [eat]: "eats j f \<Longrightarrow> eats k g \<Longrightarrow> n = j + k \<Longrightarrow> eats n (then_scan f g)"
  by (rule eats_andthen)

lemma eats_le: "eats j f \<Longrightarrow> j \<le> k \<Longrightarrow> eats k f"
  by (auto simp: eats_def split: sum.splits) (meson le_trans order.strict_trans1)+

lemma eats_next [eat]: "eats 1 next_char"
  by (auto simp: eats_def next_char_def split: list.splits)

lemma eats_expect [eat]: "eats 1 (expect ok)"
  unfolding expect_def by (rule eats_andthen [OF eats_next, of 0]) (auto simp: eats_ret eats_fail)

lemma eats_expects [eat]: "n = length oks \<Longrightarrow> eats n (expects oks)"
proof (induction oks arbitrary: n)
  case (Cons ok oks)
  show ?case
    unfolding expects.simps by (rule eats_andthen [OF eats_expect Cons.IH]) (auto simp: Cons.prems)
qed (simp add: eats_ret)

lemma eats_in_set [eat]: "eats n (in_set n cset)"
  unfolding in_set_def by (rule eats_expects) simp

lemma eats_Cons: "\<exists>u. s = u @ t \<and> length u \<le> k \<Longrightarrow> \<exists>u. c # s = u @ t \<and> length u \<le> Suc k"
  by (metis append_Cons length_Cons Suc_le_mono)

lemma in_range_loop_eats:
  "n < length s \<Longrightarrow>
   (case in_range_loop n seen lower cset s of Inl e \<Rightarrow> e \<noteq> Overrun
    | Inr (v, t) \<Rightarrow> \<exists>u. s = u @ t \<and> length u \<le> n)"
proof (induction n arbitrary: seen s)
  case (Suc n)
  then obtain c s1 where s: "s = c # s1" by (cases s) auto
  with Suc.IH [of s1 "seen + 1"] Suc.prems show ?case
    by (auto split: sum.splits intro: eats_Cons)
qed simp

lemma eats_in_range [eat]: "eats n (in_range n lower cset)"
  unfolding in_range_def by (rule eatsI) (rule in_range_loop_eats)

lemma scan_set_loop_eats:
  "Suc n < length s \<Longrightarrow>
   (case scan_set_loop n st cset end_fld s of Inl e \<Rightarrow> e \<noteq> Overrun
    | Inr (v, t) \<Rightarrow> \<exists>u. s = u @ t \<and> length u \<le> Suc n)"
proof (induction n arbitrary: st s)
  case 0
  then show ?case by (cases s) auto
next
  case (Suc n)
  then obtain c s1 where s: "s = c # s1" and l: "Suc n < length s1" by (cases s) auto
  then obtain d s2 where s1: "s1 = d # s2" by (cases s1) auto
  show ?case
    using Suc.IH [OF l, of False] s s1
    by (auto split: sum.splits intro: eats_Cons)
qed

lemma eats_scan_set [eat]: "k = Suc n \<Longrightarrow> eats k (scan_set n cset end_fld)"
  unfolding scan_set_def by (rule eatsI) (simp only: scan_set_loop_eats)

lemma eats_rfc399nano: "eats 36 scan_rfc399nano"
  unfolding scan_rfc399nano_def
  by (rule eats_le [of "1 + (3 + (16 + (9 + (1 + (2 + (1 + (2 + 1)))))))"])
    (intro eats_then [OF _ _ refl] eats_expect eats_in_set eats_in_range eats_expects | simp)+

lemma eats_transport: "eats 138 scan_transport"
proof -
  have "eats 8 (\<lambda>p. case p of [] \<Rightarrow> Inl Overrun | c # p1 \<Rightarrow> if c = CHR ''~'' then Inr ((), p1)
      else scan_set 7 lower_alnum (CHR ''~'') p)"
    using eats_scan_set [of 8 7 lower_alnum "CHR ''~''"]
    by (auto simp: eats_def split: list.splits)
  then show ?thesis
    unfolding scan_transport_def
    by (intro eats_andthen [where j = 1 and k = 137] eats_andthen [where j = 8 and k = 129]
        eats_expect eats_scan_set) auto
qed

lemma eats_verb_rest: "length rest \<le> n \<Longrightarrow> eats (Suc n) (verb_rest rest verb)"
  unfolding verb_rest_def
  by (rule eats_le [of "length rest + (1 + 0)"])
    (intro eats_then [OF _ _ refl] eats_expect eats_expects eats_ret | simp)+

lemma eats_if: "(c \<Longrightarrow> eats k f) \<Longrightarrow> (\<not> c \<Longrightarrow> eats k g) \<Longrightarrow> eats k (if c then f else g)"
  by simp

lemma eats_Sexit: "eats k (\<lambda>_. Inl Sexit)"
  by (rule eats_le [OF eats_fail]) auto

lemma eats_verb: "eats 5 scan_verb"
  unfolding scan_verb_def
  by (rule eats_andthen [OF eats_next, of 4])
    (auto intro!: eats_if eats_Sexit eats_verb_rest [of _ 3, simplified]
       eats_verb_rest [of _ 2, simplified] eats_andthen [OF eats_next, of 3])

lemma tab_at_eats:
  "s \<noteq> [] \<Longrightarrow> last s = NUL \<Longrightarrow>
   (case tab_at s of Inl e \<Rightarrow> e \<noteq> Overrun | Inr (fld, t) \<Rightarrow> s = fld @ TAB # t \<and> NUL \<notin> set fld)"
proof (induction s)
  case (Cons c s)
  then show ?case by (cases "s = []") (auto split: sum.splits prod.splits)
qed simp

lemma eats_udig: "eats 138 (scan_udig frisk_udig)"
proof (rule eatsI)
  fix s :: bytes assume "138 < length s" and "last s = NUL"
  then show "case scan_udig frisk_udig s of Inl e \<Rightarrow> e \<noteq> Overrun
      | Inr (v, t) \<Rightarrow> \<exists>u. s = u @ t \<and> length u \<le> 138"
    using tab_at_eats [of s]
    by (cases "tab_at s")
      (force simp: scan_udig_def split: prod.splits intro: exI [of _ "_ @ [TAB]"])+
qed

lemma eats_chat_history: "eats 9 (scan_chat_history verb)"
  using eats_scan_set [of 9 8 "''nok,''" TAB]
  by (auto simp: eats_def scan_chat_history_def Let_def split: sum.splits prod.splits)

lemma eats_byte_count: "eats 21 scan_byte_count"
  using eats_scan_set [of 21 20 digits TAB]
  by (auto simp: eats_def scan_byte_count_def split: sum.splits prod.splits)

lemma eats_guarded: "eats k g \<Longrightarrow> (\<And>s. f s = Inl Sexit \<or> f s = g s) \<Longrightarrow> eats k f"
proof (rule eatsI)
  fix s assume g: "eats k g" and fg: "\<And>s. f s = Inl Sexit \<or> f s = g s"
    and "k < length s" and "last s = NUL"
  with fg [of s] show "case f s of Inl e \<Rightarrow> e \<noteq> Overrun | Inr (v, t) \<Rightarrow> \<exists>u. s = u @ t \<and> length u \<le> k"
    by (elim disjE) (simp_all add: eats_def)
qed

lemma eats_wall_duration: "eats 21 scan_wall_duration"
proof -
  have 1: "eats 21 (andthen (scan_set 10 digits (CHR ''.''))
      (\<lambda>_. then_scan (in_range 9 1 digits) (expect ((=) NL))))"
    by (rule eats_andthen [OF eats_scan_set [OF refl] eats_andthen [OF eats_in_range eats_expect refl]])
      simp
  show ?thesis
    by (rule eats_guarded [OF 1]) (auto simp: scan_wall_duration_def andthen_def split: sum.splits)
qed

lemma eats_frisk_line: "eats 368 (frisk_line frisk_udig)"
proof -
  have c: "eats 42 (if b then (\<lambda>_. Inl Died) else then_scan scan_byte_count scan_wall_duration)" for b
    by (auto intro: eats_andthen [OF eats_byte_count eats_wall_duration] eats_le [OF eats_fail])
  note eats_andthen [OF eats_chat_history c refl]
  note eats_andthen [OF eats_udig this refl]
  note eats_andthen [OF eats_verb this refl]
  note eats_then [OF eats_rfc399nano eats_then [OF eats_transport this refl] refl]
  then show ?thesis by (simp add: frisk_line_def)
qed

definition line_buffer :: "bytes \<Rightarrow> bool" where
  "line_buffer buf \<longleftrightarrow> length buf = LINE_SIZE \<and> last buf = NUL"

lemma fgets_line_buffer:
  assumes "fgets fails buf s = Some (line, rest)" and "line_buffer buf"
  shows "line_buffer line"
proof -
  obtain l r where l: "fgets_take (LINE_SIZE - 1) s = (l, r)" by fastforce
  then have "length l \<le> LINE_SIZE - 1" by (rule fgets_take_shorter [THEN conjunct2])
  with assms l show ?thesis
    by (auto simp: fgets_def line_buffer_def LINE_SIZE_def last_append split: if_splits)
qed

lemma frisk_loop_no_overrun:
  "line_buffer buf \<Longrightarrow> frisk_loop frisk_udig fails read_input buf s \<noteq> Inl Overrun"
proof (induction frisk_udig fails read_input buf s rule: frisk_loop.induct)
  case (1 frisk_udig fails read_input buf s)
  show ?case
  proof (cases "fgets fails buf s")
    case (Some p)
    obtain line rest where p: "p = (line, rest)" by (cases p)
    then have b: "line_buffer line" using fgets_line_buffer Some 1(2) by blast
    then have "frisk_line frisk_udig line \<noteq> Inl Overrun"
      using eats_frisk_line [of frisk_udig]
      by (auto simp: eats_def line_buffer_def LINE_SIZE_def split: sum.splits)
    then show ?thesis
      using 1(1) [OF Some p [symmetric]] b Some p by (subst frisk_loop.simps) (auto split: sum.splits)
  qed (subst frisk_loop.simps, simp)
qed

text \<open>
  C32: memory safety of the log checker.  For every input, every behaviour of the standard streams
  and every syntax of udigs, \<^verbatim>\<open>bio-frisk-brr\<close> ends with one of its four exit statuses and never
  reads outside its line buffer, although its scanners run past the NUL of a cut line: the fields
  of a line take at most 368 of the 372 characters.
\<close>

theorem frisk_stays_in_its_buffer:
  "\<exists>status \<in> {EXIT_IS_BRR, EXIT_IS_NOT_BRR, EXIT_IS_EMPTY, EXIT_ERROR}.
     frisk_main frisk_udig args io = Some status"
proof -
  have "line_buffer (replicate LINE_SIZE NUL)" by (simp add: line_buffer_def LINE_SIZE_def)
  from frisk_loop_no_overrun [OF this, of frisk_udig "in_fails io" False "in_data io"]
  show ?thesis
    by (auto simp: frisk_main_def die_status_def EXIT_IS_NOT_BRR_def Let_def
        split: sum.splits frisk_exit.splits)
qed

section \<open>The records of the server\<close>

lemma andthen_Inr: "f s = Inr (v, t) \<Longrightarrow> andthen f g s = g v t"
  by (simp add: andthen_def)

lemma andthen_Inl: "f s = Inl e \<Longrightarrow> andthen f g s = Inl e"
  by (simp add: andthen_def)

lemma expect_Cons: "expect ok (c # s) = (if ok c then Inr ((), s) else Inl Sexit)"
  by (simp add: expect_def andthen_def next_char_def ret_def)

text \<open>The scanners by simplification, one character at a time.\<close>

lemma scan_steps:
  "andthen (expect ok) g (c # s) = (if ok c then g () s else Inl Sexit)"
  "andthen (expects []) g s = g () s"
  "andthen (expects (ok # oks)) g (c # s) =
     (if ok c then andthen (expects oks) g s else Inl Sexit)"
  by (simp_all add: andthen_def expect_Cons ret_def)

lemma expects_append: "list_all2 (\<lambda>ok c. ok c) oks cs \<Longrightarrow> expects oks (cs @ s) = Inr ((), s)"
  by (induction oks cs rule: list_all2_induct) (simp_all add: ret_def andthen_def expect_Cons)

lemma expects_all: "list_all ok cs \<Longrightarrow> n = length cs \<Longrightarrow>
    expects (replicate n ok) (cs @ s) = Inr ((), s)"
  by (rule expects_append) (simp add: list_all2_conv_all_nth list_all_length)

lemma in_range_loop_field:
  assumes "list_all (strchr cset) ds" and "length ds \<le> n" and "length ds = n \<or> \<not> strchr cset c"
    and "lower \<le> seen + length ds"
  shows "in_range_loop n seen lower cset (ds @ c # s) = Inr ((), c # s)"
  using assms
proof (induction ds arbitrary: n seen)
  case Nil
  then show ?case by (cases n) auto
next
  case (Cons d ds)
  then show ?case by (cases n) auto
qed

text \<open>
  A field that \<^verbatim>\<open>scan_set\<close> takes: of the limit or shorter, but not shorter by exactly one.
\<close>

definition set_field :: "bytes \<Rightarrow> nat \<Rightarrow> bytes \<Rightarrow> bool" where
  "set_field cset limit fld \<longleftrightarrow>
     fld \<noteq> [] \<and> length fld \<le> limit \<and> length fld \<noteq> limit - 1 \<and> set fld \<subseteq> set cset"

lemma scan_set_loop_field:
  assumes "list_all (\<lambda>c. c \<noteq> end_fld \<and> c \<noteq> NUL \<and> c_isascii c \<and> strchr cset c) fld"
    and "length fld \<le> n" and "Suc (length fld) \<noteq> n" and "\<not> at_start \<or> fld \<noteq> []"
  shows "scan_set_loop n at_start cset end_fld (fld @ end_fld # s) = Inr ((), s)"
  using assms
proof (induction fld arbitrary: n at_start)
  case Nil
  then show ?case by (cases n) auto
next
  case (Cons d ds)
  then show ?case by (cases n) auto
qed

lemma scan_set_field:
  assumes "set_field cset limit fld" and "list_all (\<lambda>c. c \<noteq> end_fld \<and> c \<noteq> NUL \<and> c_isascii c) cset"
  shows "scan_set limit cset end_fld (fld @ end_fld # s) = Inr ((), s)"
proof -
  have "list_all (\<lambda>c. c \<noteq> end_fld \<and> c \<noteq> NUL \<and> c_isascii c \<and> strchr cset c) fld"
    using assms by (force simp: set_field_def list_all_iff strchr_def)
  moreover have "length fld \<le> limit" "Suc (length fld) \<noteq> limit" "fld \<noteq> []"
    using assms(1) by (auto simp: set_field_def)
  ultimately show ?thesis unfolding scan_set_def by (intro scan_set_loop_field) auto
qed

lemma in_char_range: "b \<le> 256 \<Longrightarrow> c \<in> set (map char_of [a..<b]) \<longleftrightarrow> a \<le> code c \<and> code c < b"
proof (rule iffI)
  assume "b \<le> 256" and "c \<in> set (map char_of [a..<b])"
  then obtain n where "n \<in> {a..<b}" "c = char_of n" by auto
  then show "a \<le> code c \<and> code c < b" using \<open>b \<le> 256\<close> by simp
next
  assume "a \<le> code c \<and> code c < b"
  then have "char_of (code c) \<in> char_of ` {a..<b}" by (intro imageI) auto
  then show "c \<in> set (map char_of [a..<b])" by simp
qed

lemma digits_isdigit: "c_isdigit c \<longleftrightarrow> c \<in> set digits"
proof -
  have "[0..<10] = [0, 1, 2, 3, 4, 5, 6, 7, 8, 9 :: nat]" by (simp add: upt_rec numeral_eq_Suc)
  then have d: "set digits = dec_digit ` set [0..<10]" by (simp add: digits_def dec_digits)
  show ?thesis
  proof (rule iffI)
    assume "c_isdigit c"
    then have "dec_digit (code c - 48) = c" "code c - 48 \<in> set [0..<10]"
      by (auto simp: c_isdigit_def dec_digit_def)
    then show "c \<in> set digits" unfolding d by (metis imageI)
  qed (auto simp: d c_isdigit_def)
qed

lemma graph_isgraph: "c \<in> set graph_set \<longleftrightarrow> c_isgraph c"
proof -
  have "code c < 127 \<longleftrightarrow> code c \<le> 126" by linarith
  then show ?thesis
    unfolding graph_set_def c_isgraph_def by (subst in_char_range) simp_all
qed

lemma set_plain:
  "list_all (\<lambda>c. c \<noteq> TAB \<and> c \<noteq> NUL \<and> c_isascii c) digits"
  "list_all (\<lambda>c. c \<noteq> CHR ''.'' \<and> c \<noteq> NUL \<and> c_isascii c) digits"
  "list_all (\<lambda>c. c \<noteq> CHR ''~'' \<and> c \<noteq> NUL \<and> c_isascii c) lower_alnum"
  "list_all (\<lambda>c. c \<noteq> TAB \<and> c \<noteq> NUL \<and> c_isascii c) ''nok,''"
  "list_all (\<lambda>c. c \<noteq> TAB \<and> c \<noteq> NUL \<and> c_isascii c) graph_set"
  by (simp_all add: digits_def lower_alnum_def c_isascii_def)
    (auto simp: list_all_iff graph_isgraph c_isgraph_def c_isascii_def)

lemma dec_digit_in: "d < 10 \<Longrightarrow> dec_digit d \<in> set digits"
  using dec_digit_isdigit digits_isdigit by blast

lemma dec_digit_not_NUL: "d < 10 \<Longrightarrow> dec_digit d \<noteq> NUL"
  using code_dec_digit [of d] by (auto simp del: code_dec_digit)

lemma in_set_digits:
  "list_all (\<lambda>c. c \<in> set digits) ds \<Longrightarrow> n = length ds \<Longrightarrow> in_set n digits (ds @ s) = Inr ((), s)"
  unfolding in_set_def
  by (rule expects_all) (use set_plain(1) in \<open>auto simp: list_all_iff strchr_def\<close>)

lemma pad0_2: "n < 100 \<Longrightarrow> pad0 2 n = [dec_digit (n div 10), dec_digit (n mod 10)]"
  by (auto simp: pad0_def dec_nat.simps dec_digits)

lemma pad0_4:
  assumes "1000 \<le> n" and "n < 10000"
  shows "pad0 4 n = [dec_digit (n div 1000), dec_digit (n div 100 mod 10),
    dec_digit (n div 10 mod 10), dec_digit (n mod 10)]"
proof -
  have "dec_nat n = dec_nat (n div 10) @ [dec_digit (n mod 10)]"
    "dec_nat (n div 10) = dec_nat (n div 100) @ [dec_digit (n div 10 mod 10)]"
    "dec_nat (n div 100) = dec_nat (n div 1000) @ [dec_digit (n div 100 mod 10)]"
    "dec_nat (n div 1000) = [dec_digit (n div 1000)]"
    using assms by (simp_all add: dec_nat.simps [of n] dec_nat.simps [of "n div 10"]
        dec_nat.simps [of "n div 100"] dec_nat.simps [of "n div 1000"] div_mult2_eq [symmetric])
  then show ?thesis by (simp add: pad0_def)
qed

text \<open>The times that \<^verbatim>\<open>scan_rfc399nano\<close> takes; the second of a leap is not among them.\<close>

definition frisk_tm :: "tm \<Rightarrow> bool" where
  "frisk_tm t \<longleftrightarrow>
     2000 \<le> tm_year t \<and> tm_year t < 6000 \<and> tm_mon t < 20 \<and> tm_mday t < 40 \<and>
     tm_hour t < 30 \<and> tm_min t < 60 \<and> tm_sec t < 60"

lemma scan_rfc3339:
  assumes "frisk_tm t" and "nsec < 1000000000"
  shows "scan_rfc399nano (rfc3339 t nsec @ TAB # s) = Inr ((), s)"
proof -
  have n: "length (pad0 9 nsec) = 9" "list_all (strchr digits) (pad0 9 nsec)"
    using assms(2) pad0_length [of nsec 9] pad0_digits [of _ 9 nsec]
    by (auto simp: list_all_iff strchr_def digits_isdigit)
  have r: "in_range 9 1 digits (pad0 9 nsec @ c # s) = Inr ((), c # s)" for c s
    unfolding in_range_def by (rule in_range_loop_field) (use n in auto)
  have s: "andthen (in_set 3 digits) g (a # b # c # s) = g () s"
    "andthen (in_set 2 digits) g (a # b # s) = g () s"
    if "a \<in> set digits" "b \<in> set digits" "c \<in> set digits" for a b c g s
    using in_set_digits [of "[a, b, c]" 3 s] in_set_digits [of "[a, b]" 2 s] that
    by (simp_all add: andthen_def)
  have z: "andthen (in_set 2 digits) g (CHR ''0'' # CHR ''0'' # s) = g () s" for g s
    using s(2) [of "CHR ''0''" "CHR ''0''" "CHR ''0''"] by (simp add: digits_def)
  have r1: "andthen (in_range 9 1 digits) g (pad0 9 nsec @ CHR ''+'' # s) = g () (CHR ''+'' # s)" for g s
    by (rule andthen_Inr) (rule r)
  have m: "n mod 10 \<le> 9" for n :: nat using mod_less_divisor [of 10 n] by linarith
  have b: "2000 \<le> tm_year t" "tm_year t < 6000" "tm_mon t < 20" "tm_mday t < 40"
    "tm_hour t < 30" "tm_min t < 60" "tm_sec t < 60"
    using assms(1) by (simp_all add: frisk_tm_def)
  then have d: "tm_year t div 1000 < 6" "2 \<le> tm_year t div 1000" "tm_mon t div 10 < 2"
    "tm_mday t div 10 < 4" "tm_hour t div 10 < 3" "tm_min t div 10 < 6" "tm_sec t div 10 < 6"
    by simp_all
  have y: "\<exists>a b c. pad0 4 (tm_year t) = dec_digit (tm_year t div 1000) # [a, b, c] \<and>
      a \<in> set digits \<and> b \<in> set digits \<and> c \<in> set digits"
    using b by (simp add: pad0_4 dec_digit_in)
  then obtain a e c where y: "pad0 4 (tm_year t) = [dec_digit (tm_year t div 1000), a, e, c]"
    and yd: "a \<in> set digits" "e \<in> set digits" "c \<in> set digits" by blast
  show ?thesis
    using b d
    by (simp add: rfc3339_def pad0_2 y s [OF yd] scan_rfc399nano_def scan_steps expect_Cons r1 z m
        del: One_nat_def expects.simps)
qed

text \<open>A transport \<open>c p~q\<close>, where the protocol \<open>c p\<close> starts with the letter \<open>c\<close>.\<close>

definition frisk_transport :: "char \<Rightarrow> bytes \<Rightarrow> bytes \<Rightarrow> bool" where
  "frisk_transport c p q \<longleftrightarrow>
     c_islower c \<and> (p = [] \<or> set_field lower_alnum 7 p) \<and> set_field graph_set 128 q"

lemma scan_transport_field:
  assumes "frisk_transport c p q"
  shows "scan_transport (c # p @ CHR ''~'' # q @ TAB # s) = Inr ((), s)"
proof -
  have q: "scan_set 128 graph_set TAB (q @ TAB # s) = Inr ((), s)"
    using assms set_plain(5) by (intro scan_set_field) (simp_all add: frisk_transport_def)
  have c: "97 \<le> code c" "code c \<le> 122"
    using assms by (auto simp: frisk_transport_def c_islower_def)
  show ?thesis
  proof (cases "p = []")
    case True
    with q c show ?thesis by (simp add: scan_transport_def andthen_def expect_Cons)
  next
    case False
    then have f: "set_field lower_alnum 7 p" using assms by (simp add: frisk_transport_def)
    with False obtain d p1 where p: "p = d # p1" and "d \<in> set lower_alnum"
      by (cases p) (auto simp: set_field_def)
    then have d: "d \<noteq> CHR ''~''" using set_plain(3) by (auto simp: list_all_iff)
    have "scan_set 7 lower_alnum (CHR ''~'') (p @ CHR ''~'' # q @ TAB # s) = Inr ((), q @ TAB # s)"
      using f set_plain(3) by (intro scan_set_field)
    with q c d p show ?thesis by (simp add: scan_transport_def andthen_def expect_Cons)
  qed
qed

lemma verb_rest_field: "verb_rest rest verb (rest @ TAB # s) = Inr (verb, s)"
  using expects_append [of "map (=) rest" rest "TAB # s"]
  by (simp add: verb_rest_def andthen_def expect_Cons ret_def list_all2_map1 list_all2_refl)

lemma scan_verb_field:
  assumes "verb \<in> {''get'', ''put'', ''give'', ''take'', ''eat'', ''wrap'', ''roll''}"
  shows "scan_verb (verb @ TAB # s) = Inr (verb, s)"
  using assms verb_rest_field [of "''t''" _ s] verb_rest_field [of "''ve''" _ s]
    verb_rest_field [of "''ut''" _ s] verb_rest_field [of "''ake''" _ s]
    verb_rest_field [of "''at''" _ s] verb_rest_field [of "''rap''" _ s]
    verb_rest_field [of "''oll''" _ s]
  by (auto simp: scan_verb_def andthen_def next_char_def)

lemma scan_verb_cat: "scan_verb (''cat'' @ s) = Inl Sexit"
  by (simp add: scan_verb_def andthen_def next_char_def)

definition frisk_udig_field :: "(bytes \<Rightarrow> bool) \<Rightarrow> bytes \<Rightarrow> bool" where
  "frisk_udig_field frisk_udig udig \<longleftrightarrow>
     udig = [] \<or> 34 \<le> length udig \<and> length udig \<le> 137 \<and> frisk_udig udig \<and>
       TAB \<notin> set udig \<and> NUL \<notin> set udig \<and> NL \<notin> set udig"

lemma tab_at_field: "TAB \<notin> set fld \<Longrightarrow> NUL \<notin> set fld \<Longrightarrow> tab_at (fld @ TAB # s) = Inr (fld, s)"
  by (induction fld) auto

lemma scan_udig_field:
  "frisk_udig_field frisk_udig udig \<Longrightarrow>
   scan_udig frisk_udig (udig @ TAB # s) = Inr (udig = [], s)"
  by (auto simp: frisk_udig_field_def scan_udig_def tab_at_field)

lemma scan_chat_field:
  assumes "set_field ''nok,'' 8 ch" and "length ch \<in> {2, 5, 8}"
  shows "scan_chat_history verb (ch @ TAB # s) =
    (if chat_of_verb verb ch then Inr (last ch = CHR ''o'', s) else Inl Sexit)"
proof -
  have "scan_set 8 ''nok,'' TAB (ch @ TAB # s) = Inr ((), s)"
    using assms(1) set_plain(4) by (intro scan_set_field)
  moreover have "ch \<noteq> []" using assms(1) by (simp add: set_field_def)
  ultimately show ?thesis
    using assms(2) by (auto simp: scan_chat_history_def Let_def last_conv_nth nth_append)
qed

lemma strtoll_value_dec: "\<not> c_isdigit c \<Longrightarrow> strtoll_value (dec_nat n @ c # s) = n"
  using dec_nat_isdigit [of _ n] by (simp add: strtoll_value_def takeWhile_append)

lemma set_field_dec:
  "set_field digits limit (dec_nat n) \<longleftrightarrow>
   length (dec_nat n) \<le> limit \<and> length (dec_nat n) \<noteq> limit - 1"
  using dec_nat_isdigit [of _ n] by (auto simp: set_field_def digits_isdigit)

lemma scan_byte_count_field:
  assumes "set_field digits 20 (dec_nat n)" and "n \<le> LLONG_MAX"
  shows "scan_byte_count (dec_nat n @ TAB # s) = Inr ((), s)"
  using scan_set_field [OF assms(1) set_plain(1)] assms(2)
  by (simp add: scan_byte_count_def strtoll_value_dec c_isdigit_def)

lemma scan_wall_duration_field:
  assumes "set_field digits 10 (dec_nat sec)" and "sec \<le> 2147483647"
    and "list_all (strchr digits) ds" and "length ds = 9"
  shows "scan_wall_duration (dec_nat sec @ CHR ''.'' # ds @ NL # s) = Inr ((), s)"
proof -
  have "in_range 9 1 digits (ds @ NL # s) = Inr ((), NL # s)"
    unfolding in_range_def using assms(3,4) by (intro in_range_loop_field) auto
  then show ?thesis
    using scan_set_field [OF assms(1) set_plain(2)] assms(2)
    by (simp add: scan_wall_duration_def strtoll_value_dec c_isdigit_def LLONG_MAX_def
        andthen_def expect_Cons)
qed

lemma pad0_9_digits:
  "n < 1000000000 \<Longrightarrow> list_all (strchr digits) (pad0 9 n) \<and> length (pad0 9 n) = 9"
  using pad0_length [of n 9] pad0_digits [of _ 9 n]
  by (auto simp: list_all_iff strchr_def digits_isdigit)

text \<open>The fields of a record, verb and chat history apart, that the scanners take.\<close>

record brr_fields =
  bf_time :: tm
  bf_nsec :: nat
  bf_proto :: char
  bf_protocol :: bytes
  bf_peer :: bytes
  bf_udig :: bytes
  bf_size :: nat
  bf_wall_sec :: nat
  bf_wall_nsec :: nat

definition frisk_fields :: "(bytes \<Rightarrow> bool) \<Rightarrow> brr_fields \<Rightarrow> bool" where
  "frisk_fields frisk_udig b \<longleftrightarrow>
     frisk_tm (bf_time b) \<and> bf_nsec b < 1000000000 \<and>
     frisk_transport (bf_proto b) (bf_protocol b) (bf_peer b) \<and>
     frisk_udig_field frisk_udig (bf_udig b) \<and>
     set_field digits 20 (dec_nat (bf_size b)) \<and> bf_size b \<le> LLONG_MAX \<and>
     set_field digits 10 (dec_nat (bf_wall_sec b)) \<and> bf_wall_sec b \<le> 2147483647 \<and>
     bf_wall_nsec b < 1000000000"

definition brr_of_fields :: "brr_fields \<Rightarrow> bytes \<Rightarrow> bytes \<Rightarrow> bytes" where
  "brr_of_fields b verb chat =
     brr_text (bf_time b) (bf_nsec b) (bf_proto b # bf_protocol b @ CHR ''~'' # bf_peer b) verb
       (bf_udig b) chat (bf_size b) (bf_wall_sec b) (bf_wall_nsec b)"

text \<open>A record up to the fraction of its duration, where a cut record is still told from a whole one.\<close>

definition brr_head :: "brr_fields \<Rightarrow> bytes \<Rightarrow> bytes \<Rightarrow> bytes" where
  "brr_head b verb chat =
     rfc3339 (bf_time b) (bf_nsec b) @ TAB # (bf_proto b # bf_protocol b @ CHR ''~'' # bf_peer b) @
     TAB # verb @ TAB # bf_udig b @ TAB # chat @ TAB # dec_nat (bf_size b) @
     TAB # dec_nat (bf_wall_sec b) @ [CHR ''.'']"

lemma brr_of_fields_head:
  "brr_of_fields b verb chat = brr_head b verb chat @ pad0 9 (bf_wall_nsec b) @ [NL]"
  by (simp add: brr_of_fields_def brr_text_def brr_head_def)

lemma frisk_line_head:
  assumes f: "frisk_fields frisk_udig b" and ch: "set_field ''nok,'' 8 chat" "length chat \<in> {2, 5, 8}"
    and v: "verb \<in> {''get'', ''put'', ''give'', ''take'', ''eat'', ''wrap'', ''roll''}"
    and ds: "list_all (strchr digits) ds" "length ds = 9"
  shows "frisk_line frisk_udig (brr_head b verb chat @ ds @ NL # s) =
    (if \<not> chat_of_verb verb chat then Inl Sexit
     else if (verb = ''wrap'' \<or> verb = ''roll'') \<and> (bf_udig b = [] \<longleftrightarrow> last chat \<noteq> CHR ''o'')
     then Inl Died else Inr ((), s))"
proof -
  let ?no = "last chat = CHR ''o''"
  have w: "cstr_at verb 0 = CHR ''w'' \<or> cstr_at verb 0 = CHR ''r'' \<longleftrightarrow>
      verb = ''wrap'' \<or> verb = ''roll''"
    using v by (elim insertE) (simp_all only: cstr_at_simps, simp_all)
  let ?tail = "dec_nat (bf_size b) @ TAB # dec_nat (bf_wall_sec b) @
      CHR ''.'' # ds @ NL # s"
  have last: "then_scan scan_byte_count scan_wall_duration ?tail = Inr ((), s)"
    using f ds by (simp add: frisk_fields_def andthen_def scan_byte_count_field scan_wall_duration_field)
  have "frisk_line frisk_udig (brr_head b verb chat @ ds @ NL # s) =
      andthen (scan_udig frisk_udig) (\<lambda>no_udig. andthen (scan_chat_history verb) (\<lambda>is_no.
        if (cstr_at verb 0 = CHR ''w'' \<or> cstr_at verb 0 = CHR ''r'') \<and>
           (\<not> no_udig \<and> is_no \<or> no_udig \<and> \<not> is_no)
        then (\<lambda>_. Inl Died)
        else then_scan scan_byte_count scan_wall_duration))
      (bf_udig b @ TAB # chat @ TAB # ?tail)"
    using f scan_verb_field [OF v]
    by (simp add: frisk_fields_def brr_head_def frisk_line_def andthen_Inr
        scan_rfc3339 scan_transport_field)
  also have "\<dots> = andthen (scan_chat_history verb) (\<lambda>is_no.
        if (cstr_at verb 0 = CHR ''w'' \<or> cstr_at verb 0 = CHR ''r'') \<and>
           (bf_udig b \<noteq> [] \<and> is_no \<or> bf_udig b = [] \<and> \<not> is_no)
        then (\<lambda>_. Inl Died)
        else then_scan scan_byte_count scan_wall_duration) (chat @ TAB # ?tail)"
    using f by (simp add: frisk_fields_def andthen_def scan_udig_field)
  also have "\<dots> = (if \<not> chat_of_verb verb chat then Inl Sexit
     else if (verb = ''wrap'' \<or> verb = ''roll'') \<and> (bf_udig b = [] \<longleftrightarrow> \<not> ?no)
     then Inl Died else Inr ((), s))"
    using scan_chat_field [OF ch, of verb "?tail"] last unfolding w by (simp add: andthen_def)
  finally show ?thesis .
qed

lemma frisk_line_fields:
  assumes "frisk_fields frisk_udig b" and "set_field ''nok,'' 8 chat" and "length chat \<in> {2, 5, 8}"
    and "verb \<in> {''get'', ''put'', ''give'', ''take'', ''eat'', ''wrap'', ''roll''}"
  shows "frisk_line frisk_udig (brr_of_fields b verb chat @ s) =
    (if \<not> chat_of_verb verb chat then Inl Sexit
     else if (verb = ''wrap'' \<or> verb = ''roll'') \<and> (bf_udig b = [] \<longleftrightarrow> last chat \<noteq> CHR ''o'')
     then Inl Died else Inr ((), s))"
  using frisk_line_head [OF assms, of "pad0 9 (bf_wall_nsec b)" s] pad0_9_digits assms(1)
  by (simp add: brr_of_fields_head frisk_fields_def)


section \<open>A cut log\<close>

lemma fgets_take_line:
  "NL \<notin> set l \<Longrightarrow> length l < n \<Longrightarrow> fgets_take n (l @ NL # r) = (l @ [NL], r)"
proof (induction l arbitrary: n)
  case Nil
  then show ?case by (cases n) auto
next
  case (Cons c l)
  then show ?case by (cases n) auto
qed

lemma fgets_take_all: "NL \<notin> set l \<Longrightarrow> length l < n \<Longrightarrow> fgets_take n l = (l, [])"
proof (induction l arbitrary: n)
  case Nil
  then show ?case by (cases n) auto
next
  case (Cons c l)
  then show ?case by (cases n) auto
qed

lemma digits_no_NL: "NL \<notin> set (pad0 k n)" "NL \<notin> set (dec_nat n)"
  using pad0_digits [of NL k n] dec_nat_isdigit [of NL n] by (auto simp: c_isdigit_def)

lemma brr_head_no_NL:
  assumes "frisk_fields frisk_udig b"
  shows "NL \<notin> set (brr_head b ''get'' ''ok'')"
proof -
  have 1: "frisk_transport (bf_proto b) (bf_protocol b) (bf_peer b)"
    "frisk_udig_field frisk_udig (bf_udig b)" using assms by (simp_all add: frisk_fields_def)
  have 2: "NL \<notin> set graph_set" "NL \<notin> set lower_alnum"
    by (simp_all add: graph_isgraph c_isgraph_def lower_alnum_def)
  have "NL \<notin> set (bf_protocol b)" "NL \<notin> set (bf_peer b)" "bf_proto b \<noteq> NL" "NL \<notin> set (bf_udig b)"
    using 1 2 by (auto simp: frisk_transport_def set_field_def c_islower_def frisk_udig_field_def)
  then show ?thesis by (auto simp: brr_head_def rfc3339_def digits_no_NL)
qed

lemma get_line:
  assumes "frisk_fields frisk_udig b" and "list_all (strchr digits) ds" and "length ds = 9"
  shows "frisk_line frisk_udig (brr_head b ''get'' ''ok'' @ ds @ NL # s) = Inr ((), s)"
  by (subst frisk_line_head [OF assms(1) _ _ _ assms(2,3)])
    (simp_all add: set_field_def chat_of_verb_def)

lemma brr_head_length:
  assumes "frisk_fields frisk_udig b"
  shows "length (brr_head b ''get'' ''ok'') \<le> 358"
proof -
  let ?l = "brr_head b ''get'' ''ok'' @ replicate 9 NUL @ [NL]"
  have "list_all (strchr digits) (replicate 9 NUL)" by (simp add: list_all_iff strchr_def)
  from get_line [OF assms this, of "replicate 400 NUL"]
  have "frisk_line frisk_udig (?l @ replicate 400 NUL) = Inr ((), replicate 400 NUL)" by simp
  moreover have "368 < length (?l @ replicate 400 NUL)" "last (?l @ replicate 400 NUL) = NUL"
    by simp_all
  ultimately have "\<exists>u. ?l @ replicate 400 NUL = u @ replicate 400 NUL \<and> length u \<le> 368"
    using eats_frisk_line [of frisk_udig, unfolded eats_def, rule_format, of "?l @ replicate 400 NUL"]
    by (simp del: append_assoc)
  then obtain u where "?l = u" "length u \<le> 368" by (metis append_same_eq)
  then show ?thesis by auto
qed

lemma frisk_loop_step:
  "fgets fails buf s = Some (line, rest) \<Longrightarrow> frisk_line frisk_udig line = Inr x \<Longrightarrow>
   frisk_loop frisk_udig fails b buf s = frisk_loop frisk_udig fails True line rest"
  by (simp add: frisk_loop.simps [of _ _ _ buf s])

lemma frisk_loop_end: "frisk_loop frisk_udig fails b buf [] = Inr b"
  by (simp add: frisk_loop.simps fgets_def LINE_SIZE_def numeral_eq_Suc)

text \<open>
  A log cut in the fraction of its last duration.  After a whole record, the same record without
  its last two to ten characters, the new-line and up to nine digits, is still a log: the line has
  no new-line of its own, but the scan of the digits takes the NUL of \<^verbatim>\<open>fgets\<close> for a digit and goes on
  in the rest of the line before.
\<close>

theorem frisk_takes_cut_log:
  assumes "frisk_fields frisk_udig b" and "2 \<le> k" and "k \<le> 10"
  shows "let rec = brr_of_fields b ''get'' ''ok'' in
    frisk_main frisk_udig []
      \<lparr>in_data = rec @ take (length rec - k) rec, in_fails = False, err_fails = False, close_ok = c\<rparr>
    = Some EXIT_IS_BRR"
proof -
  let ?h = "brr_head b ''get'' ''ok''"
  let ?ds = "pad0 9 (bf_wall_nsec b)"
  define m where "m = 10 - k"
  let ?cut = "?h @ take m ?ds"
  have m: "m \<le> 8" "length (?h @ ?ds @ [NL]) - k = length ?h + m"
    and d: "list_all (strchr digits) ?ds" "length ?ds = 9"
    using assms pad0_9_digits [of "bf_wall_nsec b"] by (auto simp: m_def frisk_fields_def)
  let ?z = "drop (Suc (length (?h @ ?ds @ [NL]))) (replicate LINE_SIZE NUL)"
  let ?b1 = "?h @ ?ds @ NL # NUL # ?z"
  have h: "length ?h \<le> 358" "NL \<notin> set ?h" "NL \<notin> set ?ds"
    using brr_head_length brr_head_no_NL assms(1) digits_no_NL by blast+
  have f1: "fgets False (replicate LINE_SIZE NUL) ((?h @ ?ds @ [NL]) @ ?cut) = Some (?b1, ?cut)"
    using fgets_take_line [of "?h @ ?ds" "LINE_SIZE - 1" ?cut] h d
    by (simp add: fgets_def LINE_SIZE_def)
  have l1: "frisk_line frisk_udig ?b1 = Inr ((), NUL # ?z)"
    using get_line [OF assms(1) d] by simp
  have n: "NL \<notin> set ?cut" using h by (auto dest: in_set_takeD)
  have e: "?h \<noteq> []" by (simp add: brr_head_def)
  have f2: "fgets False ?b1 ?cut = Some (?h @ (?ds[m := NUL]) @ NL # NUL # ?z, [])"
    using fgets_take_all [OF n, of "LINE_SIZE - 1"] h d m(1) e
    by (simp add: fgets_def LINE_SIZE_def upd_conv_take_nth_drop)
  have l2: "frisk_line frisk_udig (?h @ (?ds[m := NUL]) @ NL # NUL # ?z) = Inr ((), NUL # ?z)"
  proof (rule get_line [OF assms(1)])
    show "list_all (strchr digits) (?ds[m := NUL])"
      using d(1) set_update_subset_insert [of ?ds m NUL] by (auto simp: list_all_iff strchr_def)
  qed (use d in simp)
  have "frisk_loop frisk_udig False False (replicate LINE_SIZE NUL) ((?h @ ?ds @ [NL]) @ ?cut) = Inr True"
    unfolding frisk_loop_step [OF f1 l1] frisk_loop_step [OF f2 l2] frisk_loop_end ..
  moreover have "take (length (?h @ ?ds @ [NL]) - k) (?h @ ?ds @ [NL]) = ?cut"
    unfolding m(2) using m(1) d by simp
  ultimately show ?thesis
    by (simp add: frisk_main_def brr_of_fields_head Let_def del: append_assoc)
qed

section \<open>A record\<close>

definition a_brr :: brr_fields where
  "a_brr = \<lparr>bf_time = a_time\<lparr>tm_year := 2024\<rparr>, bf_nsec = 7, bf_proto = CHR ''t'', bf_protocol = ''cp4'',
     bf_peer = ''127.0.0.1:4921;127.0.0.1:1797'',
     bf_udig = ''sha:da39a3ee5e6b4b0d3255bfef95601890afd80709'',
     bf_size = 0, bf_wall_sec = 0, bf_wall_nsec = 4000\<rparr>"

lemma a_brr_fields: "frisk_fields (\<lambda>_. True) a_brr"
  by (simp add: frisk_fields_def a_brr_def frisk_tm_def a_time_def frisk_transport_def
      set_field_def frisk_udig_field_def graph_isgraph c_isgraph_def c_islower_def lower_alnum_def
      LLONG_MAX_def dec_text digits_def)


theorem frisk_takes_cut_log_witness:
  "let rec = brr_of_fields a_brr ''get'' ''ok'' in
    frisk_main (\<lambda>_. True) []
      \<lparr>in_data = rec @ take (length rec - 5) rec, in_fails = False, err_fails = False, close_ok = True\<rparr>
    = Some EXIT_IS_BRR"
  by (rule frisk_takes_cut_log [OF a_brr_fields]) simp_all

end
