(* ===== verification/Cli_Digest.thy ===== *)
theory Cli_Digest
  imports Fs_Sha Fs_Ripe
begin

text \<open>
  The digest modules of the client: \<^verbatim>\<open>cli/blobio/sha.c\<close>, \<^verbatim>\<open>bc160.c\<close>, \<^verbatim>\<open>btc20.c\<close> and the search in
  \<^verbatim>\<open>digest.c\<close>.  A context of OpenSSL is the bytes that it has been updated with.  That the
  functions of OpenSSL succeed is left to the reader; all else they may return is used.
\<close>

section \<open>What the client reads\<close>

text \<open>
  What a descriptor delivers: \<open>CData\<close> bytes, \<open>CErr\<close> an error, \<open>CLate\<close> nothing within the time of
  \<^verbatim>\<open>jmscott_read_timeout\<close>.  The end of the list is the end of the file.
\<close>

datatype cli_event = CData bytes | CErr errno | CLate

text \<open>An error is a text of the code or what \<^verbatim>\<open>strerror\<close> says of \<^verbatim>\<open>errno\<close>; success is \<open>None\<close>.\<close>

datatype cli_error = Msg bytes | Strerror errno

text \<open>\<^verbatim>\<open>jmscott_read\<close>, which waits.\<close>

fun cli_read :: "nat \<Rightarrow> cli_event list \<Rightarrow> bytes sysret \<times> cli_event list" where
  "cli_read n [] = (Inr [], [])"
| "cli_read n (ev # evs) =
     (case ev of
        CData bs \<Rightarrow>
          if bs = [] then cli_read n evs
          else (Inr (take n bs), if n < length bs then CData (drop n bs) # evs else evs)
      | CErr e \<Rightarrow> (Inl e, evs)
      | CLate \<Rightarrow> cli_read n evs)"

fun event_bytes :: "cli_event \<Rightarrow> nat" where
  "event_bytes (CData bs) = length bs"
| "event_bytes _ = 0"

definition events_left :: "cli_event list \<Rightarrow> nat" where
  "events_left evs = sum_list (map event_bytes evs)"

lemma cli_read_shrinks:
  "cli_read n evs = (Inr bs, evs') \<Longrightarrow> bs \<noteq> [] \<Longrightarrow> events_left evs' < events_left evs"
  by (induction evs) (auto simp: events_left_def split: cli_event.splits if_splits)

text \<open>The bytes that come before the first error.\<close>

fun event_data :: "cli_event list \<Rightarrow> bytes" where
  "event_data [] = []"
| "event_data (CData bs # evs) = bs @ event_data evs"
| "event_data (CErr e # evs) = []"
| "event_data (CLate # evs) = event_data evs"

section \<open>Contexts\<close>

text \<open>The static variables of a module.\<close>

record digest_state =
  ds_bin_digest :: "ui8 list"
  ds_sha :: bytes
  ds_sha_sha :: bytes
  ds_ripemd160 :: bytes

definition digest_state0 :: digest_state where
  "digest_state0 = \<lparr>ds_bin_digest = replicate 20 0, ds_sha = [], ds_sha_sha = [], ds_ripemd160 = []\<rparr>"

text \<open>The forty hexadecimal characters to twenty bytes, in each \<^verbatim>\<open>init\<close>.\<close>

definition cli_nib :: "char \<Rightarrow> ui8" where
  "cli_nib c =
     (if 48 \<le> code c \<and> code c \<le> 57 then of_nat (code c - 48) else of_nat (code c) - 97 + 10)"

fun bin_digest_loop :: "nat \<Rightarrow> nat \<Rightarrow> bytes \<Rightarrow> ui8 list \<Rightarrow> ui8 list" where
  "bin_digest_loop 0 i d40 d20 = d20"
| "bin_digest_loop (Suc n) i d40 d20 =
     (let nib = cli_nib (cstr_at d40 i);
          nib' = (if i mod 2 = 0 then push_bit 4 nib else nib)
      in bin_digest_loop n (i + 1) d40 (d20[i div 2 := or (d20 ! (i div 2)) nib']))"

definition cli_bin_digest :: "bytes \<Rightarrow> ui8 list" where
  "cli_bin_digest d40 = bin_digest_loop 40 0 d40 (replicate 20 0)"

text \<open>The other way, in each \<^verbatim>\<open>eat_input\<close>.\<close>

definition cli_nib2hex :: bytes where "cli_nib2hex = ''0123456789abcdef''"

definition cli_ascii_digest :: "ui8 list \<Rightarrow> bytes" where
  "cli_ascii_digest d20 =
     concat (map (\<lambda>q. [cli_nib2hex ! unat (drop_bit 4 (and q 0xf0)), cli_nib2hex ! unat (and q 0xf)]) d20)"

text \<open>The tests of each \<^verbatim>\<open>syntax\<close>: \<open>i\<close> characters have been read.\<close>

fun cli_syntax_loop :: "nat \<Rightarrow> bytes \<Rightarrow> bool" where
  "cli_syntax_loop i [] = (i + 1 = 41)"
| "cli_syntax_loop i (c # p) =
     (if i + 1 > 40 then False
      else if (48 > code c \<or> code c > 57) \<and> (97 > code c \<or> code c > 102) then False
      else cli_syntax_loop (i + 1) p)"

definition cli_syntax :: "bytes \<Rightarrow> bytes \<Rightarrow> nat" where
  "cli_syntax em ascii_digest =
     (if \<not> cli_syntax_loop 0 ascii_digest then 0 else if ascii_digest = em then 2 else 1)"

text \<open>The path of a blob below the directory of its module.\<close>

definition cli_dirs :: "bytes \<Rightarrow> bytes" where
  "cli_dirs digest = take 3 digest @ CHR ''/'' # take 3 (drop 3 digest)"

text \<open>The loop of \<^verbatim>\<open>eat_input\<close> over the chunks of a file.\<close>

function eat_loop :: "nat \<Rightarrow> bytes \<Rightarrow> cli_event list \<Rightarrow> bytes sysret \<times> cli_event list" where
  "eat_loop msg_size ctx evs =
     (case cli_read msg_size evs of
        (Inl e, evs') \<Rightarrow> (Inl e, evs')
      | (Inr bs, evs') \<Rightarrow> if bs = [] then (Inr ctx, evs') else eat_loop msg_size (ctx @ bs) evs')"
  by pat_completeness auto
termination
  by (relation "measure (\<lambda>(n, ctx, evs). events_left evs)") (auto dest: cli_read_shrinks [OF sym])

declare eat_loop.simps [simp del]

section \<open>The interface\<close>

text \<open>
  \<^verbatim>\<open>struct digest\<close>.  \<open>di_init\<close> gets the global \<^verbatim>\<open>ascii_digest\<close>; an update returns ''0'' when the digest
  has been seen and ''1'' when it has not; \<open>di_eat_input\<close> returns the new \<^verbatim>\<open>ascii_digest\<close>.  Sizes of
  buffers are those of the callers.
\<close>

record cli_digest =
  di_algorithm :: bytes
  di_init :: "bytes \<Rightarrow> digest_state \<Rightarrow> digest_state"
  di_get_update :: "bytes \<Rightarrow> digest_state \<Rightarrow> bytes \<times> digest_state"
  di_put_update :: "bytes \<Rightarrow> digest_state \<Rightarrow> bytes \<times> digest_state"
  di_take_update :: "bytes \<Rightarrow> digest_state \<Rightarrow> bytes \<times> digest_state"
  di_took :: "bytes \<Rightarrow> bytes option"
  di_give_update :: "bytes \<Rightarrow> digest_state \<Rightarrow> bytes \<times> digest_state"
  di_eat_input ::
    "nat \<Rightarrow> cli_event list \<Rightarrow> digest_state \<Rightarrow> bytes sysret \<times> cli_event list \<times> digest_state"
  di_syntax :: "bytes \<Rightarrow> nat"
  di_empty :: "bytes \<Rightarrow> bool"
  di_empty_digest :: bytes
  di_close :: int
  di_fs_name :: "bytes \<Rightarrow> nat \<Rightarrow> cli_error + bytes"
  di_fs_path :: "bytes \<Rightarrow> nat \<Rightarrow> cli_error + bytes"
  di_fs_dir_path :: "bytes \<Rightarrow> nat \<Rightarrow> cli_error + bytes"

section \<open>sha\<close>

definition cli_sha_empty :: bytes where
  "cli_sha_empty = ''da39a3ee5e6b4b0d3255bfef95601890afd80709''"

definition sha_init :: "bytes \<Rightarrow> digest_state \<Rightarrow> digest_state" where
  "sha_init ascii_digest d =
     (let d = d\<lparr>ds_sha := []\<rparr> in
      if ascii_digest = [] then d else d\<lparr>ds_bin_digest := cli_bin_digest ascii_digest\<rparr>)"

definition sha_chew :: "openssl \<Rightarrow> bytes \<Rightarrow> digest_state \<Rightarrow> bytes \<times> digest_state" where
  "sha_chew ssl chunk d =
     (let d = d\<lparr>ds_sha := ds_sha d @ chunk\<rparr>;
          tmp_digest = ossl_sha1 ssl (ds_sha d)
      in (if tmp_digest = ds_bin_digest d then ''0'' else ''1'', d))"

definition sha_get_update :: "openssl \<Rightarrow> bytes \<Rightarrow> digest_state \<Rightarrow> bytes \<times> digest_state" where
  "sha_get_update ssl src d = sha_chew ssl src d"

definition sha_take_update :: "openssl \<Rightarrow> bytes \<Rightarrow> digest_state \<Rightarrow> bytes \<times> digest_state" where
  "sha_take_update ssl src d = sha_chew ssl src d"

definition sha_took :: "bytes \<Rightarrow> bytes option" where "sha_took reply = None"

definition sha_put_update :: "openssl \<Rightarrow> bytes \<Rightarrow> digest_state \<Rightarrow> bytes \<times> digest_state" where
  "sha_put_update ssl src d = sha_chew ssl src d"

definition sha_give_update :: "openssl \<Rightarrow> bytes \<Rightarrow> digest_state \<Rightarrow> bytes \<times> digest_state" where
  "sha_give_update ssl src d = sha_put_update ssl src d"

definition sha_close :: int where "sha_close = 0"

definition sha_syntax :: "bytes \<Rightarrow> nat" where
  "sha_syntax ascii_digest = cli_syntax cli_sha_empty ascii_digest"

definition sha_empty :: "bytes \<Rightarrow> bool" where
  "sha_empty ascii_digest \<longleftrightarrow> cli_sha_empty = ascii_digest"

definition sha_eat_input ::
  "openssl \<Rightarrow> nat \<Rightarrow> cli_event list \<Rightarrow> digest_state \<Rightarrow> bytes sysret \<times> cli_event list \<times> digest_state" where
  "sha_eat_input ssl msg_size evs d =
     (case eat_loop msg_size (ds_sha d) evs of
        (Inl e, evs') \<Rightarrow> (Inl e, evs', d)
      | (Inr ctx, evs') \<Rightarrow>
          let bin = ossl_sha1 ssl ctx in
          (Inr (cli_ascii_digest bin), evs', d\<lparr>ds_bin_digest := bin, ds_sha := ctx\<rparr>))"

definition sha_fs_name :: "bytes \<Rightarrow> nat \<Rightarrow> cli_error + bytes" where
  "sha_fs_name ascii_digest size_n =
     (if size_n < 41 then Inl (Msg ''file name size too small: size < 41 bytes'')
      else Inr (take 40 ascii_digest))"

definition sha_fs_path :: "bytes \<Rightarrow> nat \<Rightarrow> cli_error + bytes" where
  "sha_fs_path ascii_digest size_n =
     (if size_n < 48 then Inl (Msg ''file path size too small: size < 49 bytes'')
      else Inr (cli_dirs ascii_digest @ CHR ''/'' # take 40 ascii_digest))"

definition sha_fs_dir_path :: "bytes \<Rightarrow> nat \<Rightarrow> cli_error + bytes" where
  "sha_fs_dir_path ascii_digest size_n =
     (if size_n < 8 then Inl (Msg ''file path size too small: size < 8 bytes'')
      else Inr (cli_dirs ascii_digest))"

definition sha_empty_digest :: bytes where "sha_empty_digest = cli_sha_empty"

definition sha_digest :: "openssl \<Rightarrow> cli_digest" where
  "sha_digest ssl =
     \<lparr>di_algorithm = ''sha'', di_init = sha_init, di_get_update = sha_get_update ssl,
      di_put_update = sha_put_update ssl, di_take_update = sha_take_update ssl, di_took = sha_took,
      di_give_update = sha_give_update ssl, di_eat_input = sha_eat_input ssl, di_syntax = sha_syntax,
      di_empty = sha_empty, di_empty_digest = sha_empty_digest, di_close = sha_close,
      di_fs_name = sha_fs_name, di_fs_path = sha_fs_path, di_fs_dir_path = sha_fs_dir_path\<rparr>"


section \<open>bc160\<close>

definition cli_bc160_empty :: bytes where
  "cli_bc160_empty = ''b472a266d0bd89c13706a4132ccfb16f7c3b9fcb''"

definition bc160_init :: "bytes \<Rightarrow> digest_state \<Rightarrow> digest_state" where
  "bc160_init ascii_digest d =
     (let d = d\<lparr>ds_sha := [], ds_ripemd160 := []\<rparr> in
      if ascii_digest = [] then d else d\<lparr>ds_bin_digest := cli_bin_digest ascii_digest\<rparr>)"

definition bc160_chew :: "openssl \<Rightarrow> bytes \<Rightarrow> digest_state \<Rightarrow> bytes \<times> digest_state" where
  "bc160_chew ssl chunk d =
     (let d = d\<lparr>ds_sha := ds_sha d @ chunk\<rparr>;
          tmp_sha_digest = ossl_sha256 ssl (ds_sha d);
          tmp_ripemd_digest = ossl_ripemd160 ssl tmp_sha_digest
      in (if tmp_ripemd_digest = ds_bin_digest d then ''0'' else ''1'', d))"

definition bc160_get_update :: "openssl \<Rightarrow> bytes \<Rightarrow> digest_state \<Rightarrow> bytes \<times> digest_state" where
  "bc160_get_update ssl src d = bc160_chew ssl src d"

definition bc160_take_update :: "openssl \<Rightarrow> bytes \<Rightarrow> digest_state \<Rightarrow> bytes \<times> digest_state" where
  "bc160_take_update ssl src d = bc160_chew ssl src d"

definition bc160_took :: "bytes \<Rightarrow> bytes option" where "bc160_took reply = Some ''0''"

definition bc160_put_update :: "openssl \<Rightarrow> bytes \<Rightarrow> digest_state \<Rightarrow> bytes \<times> digest_state" where
  "bc160_put_update ssl src d = bc160_chew ssl src d"

definition bc160_give_update :: "openssl \<Rightarrow> bytes \<Rightarrow> digest_state \<Rightarrow> bytes \<times> digest_state" where
  "bc160_give_update ssl src d = bc160_put_update ssl src d"

definition bc160_close :: int where "bc160_close = 0"

definition bc160_syntax :: "bytes \<Rightarrow> nat" where
  "bc160_syntax ascii_digest = cli_syntax cli_bc160_empty ascii_digest"

definition bc160_is_empty :: "bytes \<Rightarrow> bool" where
  "bc160_is_empty ascii_digest \<longleftrightarrow> cli_bc160_empty = ascii_digest"

definition bc160_eat_input ::
  "openssl \<Rightarrow> nat \<Rightarrow> cli_event list \<Rightarrow> digest_state \<Rightarrow> bytes sysret \<times> cli_event list \<times> digest_state" where
  "bc160_eat_input ssl msg_size evs d =
     (case eat_loop msg_size (ds_sha d) evs of
        (Inl e, evs') \<Rightarrow> (Inl e, evs', d)
      | (Inr ctx, evs') \<Rightarrow>
          let ripemd160 = ds_ripemd160 d @ ossl_sha256 ssl ctx;
              bin = ossl_ripemd160 ssl ripemd160 in
          (Inr (cli_ascii_digest bin), evs',
           d\<lparr>ds_bin_digest := bin, ds_sha := ctx, ds_ripemd160 := ripemd160\<rparr>))"

definition bc160_fs_name :: "bytes \<Rightarrow> nat \<Rightarrow> cli_error + bytes" where
  "bc160_fs_name ascii_digest size_n =
     (if size_n < 41 then Inl (Msg ''file name size too small: size < 41 bytes'')
      else Inr (take 40 ascii_digest))"

definition bc160_fs_path :: "bytes \<Rightarrow> nat \<Rightarrow> cli_error + bytes" where
  "bc160_fs_path ascii_digest size_n =
     (if size_n < 49 then Inl (Msg ''file path size too small: size < 49 bytes'')
      else Inr (CHR ''/'' # cli_dirs ascii_digest @ CHR ''/'' # take 40 ascii_digest))"

definition bc160_fs_dir_path :: "bytes \<Rightarrow> nat \<Rightarrow> cli_error + bytes" where
  "bc160_fs_dir_path ascii_digest size_n =
     (if size_n < 8 then Inl (Msg ''dir path size too small: size < 8 bytes'')
      else Inr (cli_dirs ascii_digest))"

definition bc160_empty_digest :: bytes where "bc160_empty_digest = cli_bc160_empty"

definition bc160_digest :: "openssl \<Rightarrow> cli_digest" where
  "bc160_digest ssl =
     \<lparr>di_algorithm = ''bc160'', di_init = bc160_init, di_get_update = bc160_get_update ssl,
      di_put_update = bc160_put_update ssl, di_take_update = bc160_take_update ssl,
      di_took = bc160_took, di_give_update = bc160_give_update ssl,
      di_eat_input = bc160_eat_input ssl, di_syntax = bc160_syntax, di_empty = bc160_is_empty,
      di_empty_digest = bc160_empty_digest, di_close = bc160_close, di_fs_name = bc160_fs_name,
      di_fs_path = bc160_fs_path, di_fs_dir_path = bc160_fs_dir_path\<rparr>"

section \<open>btc20\<close>

definition cli_btc20_empty :: bytes where
  "cli_btc20_empty = ''fd7b15dc5dc2039556693555c2b81b36c8deec15''"

definition btc20_init :: "bytes \<Rightarrow> digest_state \<Rightarrow> digest_state" where
  "btc20_init ascii_digest d =
     (let d = d\<lparr>ds_sha := [], ds_sha_sha := [], ds_ripemd160 := []\<rparr> in
      if ascii_digest = [] then d else d\<lparr>ds_bin_digest := cli_bin_digest ascii_digest\<rparr>)"

definition btc20_chew :: "openssl \<Rightarrow> bytes \<Rightarrow> digest_state \<Rightarrow> bytes \<times> digest_state" where
  "btc20_chew ssl chunk d =
     (let d = d\<lparr>ds_sha := ds_sha d @ chunk\<rparr>;
          tmp_sha_digest = ossl_sha256 ssl (ds_sha d);
          tmp_sha_sha_digest = ossl_sha256 ssl tmp_sha_digest;
          tmp_ripemd_digest = ossl_ripemd160 ssl tmp_sha_sha_digest
      in (if tmp_ripemd_digest = ds_bin_digest d then ''0'' else ''1'', d))"

definition btc20_get_update :: "openssl \<Rightarrow> bytes \<Rightarrow> digest_state \<Rightarrow> bytes \<times> digest_state" where
  "btc20_get_update ssl src d = btc20_chew ssl src d"

definition btc20_take_update :: "openssl \<Rightarrow> bytes \<Rightarrow> digest_state \<Rightarrow> bytes \<times> digest_state" where
  "btc20_take_update ssl src d = btc20_chew ssl src d"

definition btc20_took :: "bytes \<Rightarrow> bytes option" where "btc20_took reply = Some ''0''"

definition btc20_put_update :: "openssl \<Rightarrow> bytes \<Rightarrow> digest_state \<Rightarrow> bytes \<times> digest_state" where
  "btc20_put_update ssl src d = btc20_chew ssl src d"

definition btc20_give_update :: "openssl \<Rightarrow> bytes \<Rightarrow> digest_state \<Rightarrow> bytes \<times> digest_state" where
  "btc20_give_update ssl src d = btc20_put_update ssl src d"

definition btc20_close :: int where "btc20_close = 0"

definition btc20_syntax :: "bytes \<Rightarrow> nat" where
  "btc20_syntax ascii_digest = cli_syntax cli_btc20_empty ascii_digest"

definition btc20_is_empty :: "bytes \<Rightarrow> bool" where
  "btc20_is_empty ascii_digest \<longleftrightarrow> cli_btc20_empty = ascii_digest"

definition btc20_eat_input ::
  "openssl \<Rightarrow> nat \<Rightarrow> cli_event list \<Rightarrow> digest_state \<Rightarrow> bytes sysret \<times> cli_event list \<times> digest_state" where
  "btc20_eat_input ssl msg_size evs d =
     (case eat_loop msg_size (ds_sha d) evs of
        (Inl e, evs') \<Rightarrow> (Inl e, evs', d)
      | (Inr ctx, evs') \<Rightarrow>
          let sha_sha = ds_sha_sha d @ ossl_sha256 ssl ctx;
              ripemd160 = ds_ripemd160 d @ ossl_sha256 ssl sha_sha;
              ripe_digest = ossl_ripemd160 ssl ripemd160 in
          (Inr (cli_ascii_digest ripe_digest), evs',
           d\<lparr>ds_sha := ctx, ds_sha_sha := sha_sha, ds_ripemd160 := ripemd160\<rparr>))"

definition bct20_fs_name :: "bytes \<Rightarrow> nat \<Rightarrow> cli_error + bytes" where
  "bct20_fs_name ascii_digest size_n =
     (if size_n < 41 then Inl (Msg ''file name size too small: size < 41 bytes'')
      else Inr (take 40 ascii_digest))"

definition btc20_fs_path :: "bytes \<Rightarrow> nat \<Rightarrow> cli_error + bytes" where
  "btc20_fs_path ascii_digest size_n =
     (if size_n < 49 then Inl (Msg ''file path size too small: size < 49 bytes'')
      else Inr (cli_dirs ascii_digest @ CHR ''/'' # take 40 ascii_digest))"

definition btc20_fs_dir_path :: "bytes \<Rightarrow> nat \<Rightarrow> cli_error + bytes" where
  "btc20_fs_dir_path ascii_digest size_n =
     (if size_n < 8 then Inl (Msg ''file path size too small: size < 49 bytes'')
      else Inr (cli_dirs ascii_digest))"

definition btc20_empty_digest :: bytes where "btc20_empty_digest = cli_btc20_empty"

definition btc20_digest :: "openssl \<Rightarrow> cli_digest" where
  "btc20_digest ssl =
     \<lparr>di_algorithm = ''btc20'', di_init = btc20_init, di_get_update = btc20_get_update ssl,
      di_put_update = btc20_put_update ssl, di_take_update = btc20_take_update ssl,
      di_took = btc20_took, di_give_update = btc20_give_update ssl,
      di_eat_input = btc20_eat_input ssl, di_syntax = btc20_syntax, di_empty = btc20_is_empty,
      di_empty_digest = btc20_empty_digest, di_close = btc20_close, di_fs_name = bct20_fs_name,
      di_fs_path = btc20_fs_path, di_fs_dir_path = btc20_fs_dir_path\<rparr>"

section \<open>digest.c\<close>

text \<open>All modules are compiled in.\<close>

definition cli_digests :: "openssl \<Rightarrow> cli_digest list" where
  "cli_digests ssl = [btc20_digest ssl, sha_digest ssl, bc160_digest ssl]"

definition find_digest :: "openssl \<Rightarrow> bytes \<Rightarrow> cli_digest option" where
  "find_digest ssl algorithm = List.find (\<lambda>d. algorithm = di_algorithm d) (cli_digests ssl)"

section \<open>Digests of client and server\<close>

lemma cli_nib_of: "cli_nib c = nib_of c"
  by (simp add: cli_nib_def nib_of_def)

lemma bin_digest_loop_pairs:
  "length a = m \<Longrightarrow> bin_digest_loop (2 * n) (2 * m) d40 (a @ replicate n 0) =
   a @ map (\<lambda>i. or (push_bit 4 (nib_of (cstr_at d40 (2 * i)))) (nib_of (cstr_at d40 (2 * i + 1))))
     [m..<m + n]"
proof (induction n arbitrary: a m)
  case (Suc n)
  let ?x = "or (push_bit 4 (nib_of (cstr_at d40 (2 * m)))) (nib_of (cstr_at d40 (2 * m + 1)))"
  have "bin_digest_loop (2 * Suc n) (2 * m) d40 (a @ replicate (Suc n) 0) =
      bin_digest_loop (2 * n) (2 * Suc m) d40 ((a @ [?x]) @ replicate n 0)"
    using Suc.prems by (simp add: Let_def cli_nib_of nth_append list_update_append)
  also have "\<dots> = (a @ [?x]) @ map (\<lambda>i. or (push_bit 4 (nib_of (cstr_at d40 (2 * i))))
      (nib_of (cstr_at d40 (2 * i + 1)))) [Suc m..<Suc m + n]"
    using Suc.prems by (intro Suc.IH) simp
  finally show ?case by (simp add: upt_rec)
qed simp

lemma cli_bin_digest_nibs: "cli_bin_digest d = nib2digest d"
  using bin_digest_loop_pairs [of "[]" 0 20 d] by (simp add: cli_bin_digest_def nib2digest_def)

lemma cli_ascii_digest_text: "cli_ascii_digest d = concat (map encode_byte d)"
proof -
  have "[cli_nib2hex ! unat (drop_bit 4 (and q 0xf0)), cli_nib2hex ! unat (and q 0xf)] = encode_byte q"
    for q :: ui8
    by (rule all_bytes [where P = "\<lambda>q. [cli_nib2hex ! unat (drop_bit 4 (and q 0xf0)),
          cli_nib2hex ! unat (and q 0xf)] = encode_byte q"]) code_simp
  then show ?thesis by (simp add: cli_ascii_digest_def)
qed

lemma cli_syntax_loop_iff:
  "cli_syntax_loop i p \<longleftrightarrow> i + length p = 40 \<and> set p \<subseteq> set hexchar"
proof (induction p arbitrary: i)
  case (Cons c p)
  have "c \<in> set hexchar \<longleftrightarrow> (48 \<le> code c \<and> code c \<le> 57) \<or> (97 \<le> code c \<and> code c \<le> 102)"
    unfolding sha_digit_hexchar [symmetric] by (auto simp: sha_digit_def ctype_defs)
  then show ?case using Cons.IH [of "i + 1"] by auto
qed auto

lemma cli_syntax_name:
  "cli_syntax em d = (if blob_name d then if d = em then 2 else 1 else 0)"
  by (simp add: cli_syntax_def cli_syntax_loop_iff blob_name_def)

text \<open>What \<^verbatim>\<open>eat_input\<close> digests, when no read fails.\<close>

lemma cli_read_data:
  assumes "list_all (\<lambda>ev. \<forall>e. ev \<noteq> CErr e) evs" and "0 < n"
  shows "\<exists>bs evs'. cli_read n evs = (Inr bs, evs') \<and> event_data evs = bs @ event_data evs' \<and>
    list_all (\<lambda>ev. \<forall>e. ev \<noteq> CErr e) evs' \<and> (bs = [] \<longrightarrow> event_data evs = [])"
  using assms
proof (induction evs)
  case (Cons ev evs)
  then show ?case by (cases ev) (auto simp: append_assoc [symmetric] simp del: append_assoc)
qed simp

lemma eat_loop_data:
  "list_all (\<lambda>ev. \<forall>e. ev \<noteq> CErr e) evs \<Longrightarrow> 0 < n \<Longrightarrow>
   \<exists>evs'. eat_loop n ctx evs = (Inr (ctx @ event_data evs), evs')"
proof (induction n ctx evs rule: eat_loop.induct)
  case (1 n ctx evs)
  obtain bs evs' where r: "cli_read n evs = (Inr bs, evs')" "event_data evs = bs @ event_data evs'"
    "list_all (\<lambda>ev. \<forall>e. ev \<noteq> CErr e) evs'" "bs = [] \<longrightarrow> event_data evs = []"
    using cli_read_data [OF "1.prems"] by blast
  show ?case
  proof (cases "bs = []")
    case False
    then show ?thesis using 1(1) [OF r(1) [symmetric] refl False r(3) "1.prems"(2)] r(1,2)
      by (subst eat_loop.simps) simp
  qed (use r in \<open>subst eat_loop.simps, simp\<close>)
qed

section \<open>The contract of a module\<close>

text \<open>
  What the services rely on: \<open>H\<close> is the digest, \<open>em\<close> the text of the digest of the empty blob,
  \<open>slash\<close> what is written before the path of a blob.
\<close>

locale client_digest =
  fixes di :: cli_digest and H :: "bytes \<Rightarrow> ui8 list" and em :: bytes and slash :: bytes
  assumes init_fed: "ds_sha (di_init di a d) = []"
    and init_bin: "a \<noteq> [] \<Longrightarrow> ds_bin_digest (di_init di a d) = cli_bin_digest a"
    and get_update: "di_get_update di chunk d =
      (if H (ds_sha d @ chunk) = ds_bin_digest d then ''0'' else ''1'', d\<lparr>ds_sha := ds_sha d @ chunk\<rparr>)"
    and eaten: "list_all (\<lambda>ev. \<forall>e. ev \<noteq> CErr e) evs \<Longrightarrow> 0 < n \<Longrightarrow>
      fst (di_eat_input di n evs (di_init di a d)) = Inr (concat (map encode_byte (H (event_data evs))))"
    and empty: "di_empty di a \<longleftrightarrow> a = em"
    and syn: "di_syntax di a = (if blob_name a then if a = em then 2 else 1 else 0)"
    and path: "blob_name a \<Longrightarrow> 49 \<le> n \<Longrightarrow> di_fs_path di a n =
      Inr (slash @ cli_dirs a @ CHR ''/'' # a)"
    and dir_path: "8 \<le> n \<Longrightarrow> di_fs_dir_path di a n = Inr (cli_dirs a)"
begin

text \<open>An initialised module, fed with a blob, knows its digest.\<close>

lemma init_then_update:
  assumes "blob_name a"
  shows "fst (di_get_update di bs (di_init di a d)) =
    (if concat (map encode_byte (H bs)) = a \<and> H bs = nib2digest a then ''0'' else ''1'')"
proof -
  have "a \<noteq> []" using assms by (auto simp: blob_name_def)
  then show ?thesis
    using nib2digest_name [OF assms] by (auto simp: get_update init_fed init_bin cli_bin_digest_nibs)
qed

end

lemmas cli_digest_defs =
  sha_digest_def bc160_digest_def btc20_digest_def sha_init_def bc160_init_def btc20_init_def
  sha_get_update_def bc160_get_update_def btc20_get_update_def sha_chew_def bc160_chew_def
  btc20_chew_def sha_empty_def bc160_is_empty_def btc20_is_empty_def sha_syntax_def
  bc160_syntax_def btc20_syntax_def sha_fs_path_def bc160_fs_path_def btc20_fs_path_def
  sha_fs_dir_path_def bc160_fs_dir_path_def btc20_fs_dir_path_def

lemma cli_empties:
  "cli_sha_empty = empty_ascii" "cli_bc160_empty = bc160_empty" "cli_btc20_empty = btc20_empty"
  by (simp_all add: cli_sha_empty_def empty_ascii_def cli_bc160_empty_def bc160_empty_def
      cli_btc20_empty_def btc20_empty_def)

lemma fed_eat:
  assumes "list_all (\<lambda>ev. \<forall>e. ev \<noteq> CErr e) evs" and "0 < n"
  obtains evs' where "eat_loop n [] evs = (Inr (event_data evs), evs')"
  using eat_loop_data [OF assms, of "[]"] by auto

interpretation cli_sha: client_digest "sha_digest ssl" "ossl_sha1 ssl" empty_ascii "[]"
  for ssl
proof
  fix a d evs and n :: nat
  assume "list_all (\<lambda>ev. \<forall>e. ev \<noteq> CErr e) evs" and "0 < n"
  then obtain evs' where "eat_loop n [] evs = (Inr (event_data evs), evs')" by (rule fed_eat)
  then show "fst (di_eat_input (sha_digest ssl) n evs (di_init (sha_digest ssl) a d)) =
      Inr (concat (map encode_byte (ossl_sha1 ssl (event_data evs))))"
    by (simp add: sha_digest_def sha_init_def sha_eat_input_def Let_def cli_ascii_digest_text)
qed (auto simp: cli_digest_defs Let_def cli_empties cli_syntax_name blob_name_def)

interpretation cli_bc160: client_digest "bc160_digest ssl" "bc160_hash ssl" bc160_empty "''/''"
  for ssl
proof
  fix a d evs and n :: nat
  assume "list_all (\<lambda>ev. \<forall>e. ev \<noteq> CErr e) evs" and "0 < n"
  then obtain evs' where "eat_loop n [] evs = (Inr (event_data evs), evs')" by (rule fed_eat)
  then show "fst (di_eat_input (bc160_digest ssl) n evs (di_init (bc160_digest ssl) a d)) =
      Inr (concat (map encode_byte (bc160_hash ssl (event_data evs))))"
    by (simp add: bc160_digest_def bc160_init_def bc160_eat_input_def Let_def cli_ascii_digest_text
        bc160_hash_def)
qed (auto simp: cli_digest_defs Let_def cli_empties cli_syntax_name blob_name_def bc160_hash_def)

interpretation cli_btc20: client_digest "btc20_digest ssl" "btc20_hash ssl" btc20_empty "[]"
  for ssl
proof
  fix a d evs and n :: nat
  assume "list_all (\<lambda>ev. \<forall>e. ev \<noteq> CErr e) evs" and "0 < n"
  then obtain evs' where "eat_loop n [] evs = (Inr (event_data evs), evs')" by (rule fed_eat)
  then show "fst (di_eat_input (btc20_digest ssl) n evs (di_init (btc20_digest ssl) a d)) =
      Inr (concat (map encode_byte (btc20_hash ssl (event_data evs))))"
    by (simp add: btc20_digest_def btc20_init_def btc20_eat_input_def Let_def cli_ascii_digest_text
        btc20_hash_def)
qed (auto simp: cli_digest_defs Let_def cli_empties cli_syntax_name blob_name_def btc20_hash_def)

end
