(* ===== verification/Cli_Bio4.thy ===== *)
theory Cli_Bio4
  imports Cli_Digest Brr_Record
begin

text \<open>
  The client's driver of the server, \<^verbatim>\<open>cli/blobio/bio4.c\<close>: the syntax of an end point, requests and
  replies, and the seven verbs.  The global variables of \<^verbatim>\<open>blobio.c\<close> that a service reads or writes
  are the record \<open>cli\<close>, which the file service shares.
\<close>

section \<open>The state of the client\<close>

text \<open>
  What becomes of a write: \<open>WFail k e\<close> fails after \<open>k\<close> bytes, \<open>WStall k\<close> stops after \<open>k\<close> bytes without
  an end, and a write with no event left is complete.
\<close>

datatype write_event = WFail nat errno | WStall nat | WAll

text \<open>
  \<open>cl_server\<close> is what the socket delivers and \<open>cl_sent\<close> what has been written to it; \<open>cl_input\<close> and
  \<open>cl_output\<close> are the descriptors of the blob.  \<open>cl_unlink\<close> is the answer of the kernel to the removal of
  the input file.  \<open>cl_ok_no\<close> is the variable of \<^verbatim>\<open>main\<close> that the services set.
\<close>

record cli =
  cl_verb :: bytes
  cl_algorithm :: bytes
  cl_algo :: bytes
  cl_fnp :: bytes
  cl_udig :: bytes
  cl_ascii_digest :: bytes
  cl_output_path :: "bytes option"
  cl_input_path :: "bytes option"
  cl_brr_mask :: ui8
  cl_chat_history :: bytes
  cl_io_timeout :: int
  cl_blob_size :: int
  cl_trust_fs :: int
  cl_digest :: "cli_digest option"
  cl_digest_state :: digest_state
  cl_ok_no :: int
  cl_server :: "cli_event list"
  cl_sent :: bytes
  cl_server_writes :: "write_event list"
  cl_input :: "cli_event list"
  cl_output :: bytes
  cl_output_writes :: "write_event list"
  cl_unlink :: "unit sysret"
  cl_exit :: nat

text \<open>
  The external library: \<^verbatim>\<open>JMSCOTT_ATOMIC_WRITE_SIZE\<close>, \<^verbatim>\<open>jmscott_frisk_udig\<close> with the error it finds,
  and what an uninitialised buffer holds.
\<close>

record cli_lib =
  lib_msg_size :: nat
  lib_frisk_udig :: "bytes \<Rightarrow> bytes option"
  lib_stack :: "nat \<Rightarrow> char"

type_synonym 'a cli_run = "('a, cli) outcome"

text \<open>Most functions return an error, and a caller returns it at once.\<close>

definition unless_err :: "cli_error option cli_run \<Rightarrow> (cli \<Rightarrow> cli_error option cli_run) \<Rightarrow> cli_error option cli_run" where
  "unless_err m k = proceed m (\<lambda>err s. case err of Some e \<Rightarrow> Ret (Some e) s | None \<Rightarrow> k s)"

section \<open>End points\<close>

text \<open>\<^verbatim>\<open>bio4_end_point_syntax\<close>: the host up to the colon, with what follows it.\<close>

fun end_point_host :: "bytes \<Rightarrow> cli_error + bytes" where
  "end_point_host [] = Inl (Msg ''no colon at after hostname or ip4'')"
| "end_point_host (c # ep) =
     (if c = CHR '':'' then Inr ep
      else if \<not> c_isascii c then Inl (Msg ''non ascii character in host'')
      else if \<not> c_isalnum c \<and> c \<noteq> CHR ''.'' \<and> c \<noteq> CHR ''-''
      then Inl (Msg ''non alpha numeric or . char in host'')
      else end_point_host ep)"

text \<open>
  The digits of the port in \<open>buf\<close>, which has room for five of them and a NUL; the loop writes up
  to six and a NUL.
\<close>

fun end_point_port :: "bytes \<Rightarrow> bytes \<Rightarrow> cli_error + bytes" where
  "end_point_port [] buf = Inr buf"
| "end_point_port (c # ep) buf =
     (if c_isdigit c then
        (if length buf > 5 then Inl (Msg ''> 5 chars in port number'')
         else end_point_port ep (buf @ [c]))
      else Inr buf)"

definition bio4_end_point_syntax :: "bytes \<Rightarrow> cli_error option" where
  "bio4_end_point_syntax endp =
     (case end_point_host endp of
        Inl e \<Rightarrow> Some e
      | Inr ep \<Rightarrow>
          if cstr_at ep 0 = CHR ''?'' then Some (Msg ''no port number before query argument'')
          else
            (case end_point_port ep [] of
               Inl e \<Rightarrow> Some e
             | Inr buf \<Rightarrow>
                 if buf = [] then Some (Msg ''no port number after colon'')
                 else if undec buf = 0 then Some (Msg ''port number can not be 0'')
                 else if undec buf > 65535 then Some (Msg ''port number > 65535'')
                 else None))"

section \<open>Requests and replies\<close>

definition make_request :: "cli \<Rightarrow> bytes" where
  "make_request s =
     [cstr_at (cl_verb s) 0, cstr_at (cl_verb s) 1, cstr_at (cl_verb s) 2] @
     (if cstr_at (cl_verb s) 3 \<noteq> NUL then [cstr_at (cl_verb s) 3] else []) @
     (if cl_algorithm s \<noteq> [] then
        CHR '' '' # cl_algorithm s @
        (if cl_ascii_digest s \<noteq> [] then CHR '':'' # cl_ascii_digest s else [])
      else []) @ [NL]"

text \<open>
  \<^verbatim>\<open>_write\<close>: the result with what was written and the events left.  The alarm is on when there is a
  timeout, and its handler ends the process.
\<close>

datatype written = Written (wr_error: "cli_error option") | WrAlarm | WrHang

fun bio4_write :: "int \<Rightarrow> bytes \<Rightarrow> write_event list \<Rightarrow> written \<times> bytes \<times> write_event list" where
  "bio4_write io_timeout buf [] = (Written None, buf, [])"
| "bio4_write io_timeout buf (ev # evs) =
     (case ev of
        WAll \<Rightarrow> (Written None, buf, evs)
      | WFail k e \<Rightarrow> (Written (Some (Strerror e)), take k buf, evs)
      | WStall k \<Rightarrow> (if io_timeout > 0 then WrAlarm else WrHang, take k buf, evs))"

definition write_server :: "bytes \<Rightarrow> cli \<Rightarrow> cli_error option cli_run" where
  "write_server buf s =
     (case bio4_write (cl_io_timeout s) buf (cl_server_writes s) of
        (w, done, evs) \<Rightarrow>
          let s = s\<lparr>cl_sent := cl_sent s @ done, cl_server_writes := evs\<rparr> in
          case w of Written err \<Rightarrow> Ret err s
          | WrAlarm \<Rightarrow> Exited (s\<lparr>cl_exit := 2\<rparr>)
          | WrHang \<Rightarrow> Blocked s)"

definition write_output :: "bytes \<Rightarrow> cli \<Rightarrow> cli_error option cli_run" where
  "write_output buf s =
     (case bio4_write (cl_io_timeout s) buf (cl_output_writes s) of
        (w, done, evs) \<Rightarrow>
          let s = s\<lparr>cl_output := cl_output s @ done, cl_output_writes := evs\<rparr> in
          case w of Written err \<Rightarrow> Ret err s
          | WrAlarm \<Rightarrow> Exited (s\<lparr>cl_exit := 2\<rparr>)
          | WrHang \<Rightarrow> Blocked s)"

text \<open>\<^verbatim>\<open>_read\<close>: at most \<open>n\<close> bytes.\<close>

fun bio4_read :: "nat \<Rightarrow> cli_event list \<Rightarrow> (cli_error + bytes) \<times> cli_event list" where
  "bio4_read n [] = (Inr [], [])"
| "bio4_read n (ev # evs) =
     (case ev of
        CData bs \<Rightarrow>
          if bs = [] then bio4_read n evs
          else (Inr (take n bs), if n < length bs then CData (drop n bs) # evs else evs)
      | CErr e \<Rightarrow> (Inl (Strerror e), evs)
      | CLate \<Rightarrow> (Inl (Msg ''i/o read() timeout''), evs))"

lemma bio4_read_shrinks:
  "bio4_read n evs = (Inr bs, evs') \<Longrightarrow> bs \<noteq> [] \<Longrightarrow> events_left evs' < events_left evs"
  by (induction evs) (auto simp: events_left_def split: cli_event.splits if_splits)

definition read_server :: "nat \<Rightarrow> cli \<Rightarrow> (cli_error + bytes) \<times> cli" where
  "read_server n s = (case bio4_read n (cl_server s) of (x, evs) \<Rightarrow> (x, s\<lparr>cl_server := evs\<rparr>))"

definition read_input :: "nat \<Rightarrow> cli \<Rightarrow> (cli_error + bytes) \<times> cli" where
  "read_input n s = (case bio4_read n (cl_input s) of (x, evs) \<Rightarrow> (x, s\<lparr>cl_input := evs\<rparr>))"

text \<open>
  \<^verbatim>\<open>read_ok_no\<close>: every read is stored at the start of \<open>buf\<close>.
\<close>

function reply_bytes :: "nat \<Rightarrow> bytes \<Rightarrow> cli_event list \<Rightarrow> (cli_error + bytes) \<times> cli_event list" where
  "reply_bytes nread buf evs =
     (if nread \<ge> 3 then (Inr buf, evs)
      else
        case bio4_read (3 - nread) evs of
          (Inl e, evs') \<Rightarrow> (Inl e, evs')
        | (Inr bs, evs') \<Rightarrow>
            if bs = [] then (Inl (Msg ''unexpected end of stream reading reply''), evs')
            else reply_bytes (nread + length bs) (bs @ drop (length bs) buf) evs')"
  by pat_completeness auto
termination
  by (relation "measure (\<lambda>(n, buf, evs). events_left evs)") (auto dest: bio4_read_shrinks [OF sym])

declare reply_bytes.simps [simp del]

definition read_ok_no :: "cli_lib \<Rightarrow> cli \<Rightarrow> cli_error option cli_run" where
  "read_ok_no lib s =
     (case reply_bytes 0 (map (lib_stack lib) [0..<3]) (cl_server s) of
        (Inl e, evs) \<Rightarrow> Ret (Some e) (s\<lparr>cl_server := evs\<rparr>)
      | (Inr buf, evs) \<Rightarrow>
          let s = s\<lparr>cl_server := evs\<rparr> in
          if buf ! 2 = NL then
            (if buf ! 0 = CHR ''o'' \<and> buf ! 1 = CHR ''k'' then Ret None (s\<lparr>cl_ok_no := 0\<rparr>)
             else if buf ! 0 = CHR ''n'' \<and> buf ! 1 = CHR ''o'' then Ret None (s\<lparr>cl_ok_no := 1\<rparr>)
             else Ret (Some (Msg ''server reply not \"ok\" or \"no\"'')) s)
          else Ret (Some (Msg ''server reply missing new-line'')) s)"

definition bio4_request :: "cli_lib \<Rightarrow> cli \<Rightarrow> cli_error option cli_run" where
  "bio4_request lib s = unless_err (write_server (make_request s) s) (read_ok_no lib)"

definition bio4_set_brr :: "bytes \<Rightarrow> cli \<Rightarrow> cli_error option cli_run" where
  "bio4_set_brr hist s = Ret None (s\<lparr>cl_chat_history := hist\<rparr>)"

section \<open>The verbs\<close>

text \<open>The module of the digest; \<open>the\<close> stands for the pointer that \<^verbatim>\<open>main\<close> has set.\<close>

definition digest_update :: "bytes \<Rightarrow> cli \<Rightarrow> bytes \<times> cli" where
  "digest_update buf s =
     (case di_get_update (the (cl_digest s)) buf (cl_digest_state s) of
        (status, d) \<Rightarrow> (status, s\<lparr>cl_digest_state := d\<rparr>))"

lemma unless_err_cong [fundef_cong]:
  "m = m' \<Longrightarrow> (\<And>s. m' = Ret None s \<Longrightarrow> k s = k' s) \<Longrightarrow> unless_err m k = unless_err m' k'"
  by (cases m') (auto simp: unless_err_def split: option.split)

lemma write_output_keeps: "write_output buf s = Ret err s1 \<Longrightarrow>
    cl_server s1 = cl_server s \<and> cl_input s1 = cl_input s"
  by (auto simp: write_output_def Let_def split: prod.splits written.splits)

lemma write_server_keeps: "write_server buf s = Ret err s1 \<Longrightarrow>
    cl_server s1 = cl_server s \<and> cl_input s1 = cl_input s"
  by (auto simp: write_server_def Let_def split: prod.splits written.splits)

lemma digest_update_keeps [simp]:
  "digest_update buf s = (status, s1) \<Longrightarrow> cl_server s1 = cl_server s \<and> cl_input s1 = cl_input s"
  by (auto simp: digest_update_def split: prod.splits)

text \<open>The loop of \<^verbatim>\<open>_bio4_get\<close> from its head.\<close>

function get_loop :: "cli_lib \<Rightarrow> cli \<Rightarrow> cli_error option cli_run" where
  "get_loop lib s =
     (case read_server (lib_msg_size lib) s of
        (Inl e, s) \<Rightarrow> Ret (Some e) s
      | (Inr buf, s) \<Rightarrow>
          (case digest_update buf s of
             (status, s) \<Rightarrow>
               let more = (cstr_at status 0 \<noteq> CHR ''0'') in
               if more \<and> cstr_at status 0 \<noteq> CHR ''1'' then Ret (Some (Msg status)) s
               else if buf = [] then
                 Ret (if more then Some (Msg ''blob does not match digest'') else None) s
               else
                 unless_err (write_output buf s)
                   (\<lambda>s. if more then get_loop lib s else Ret None s)))"
  by pat_completeness auto
termination
  by (relation "measure (\<lambda>(lib, s). events_left (cl_server s))")
    (auto simp: read_server_def split: prod.splits
      dest!: bio4_read_shrinks write_output_keeps digest_update_keeps [OF sym])

declare get_loop.simps [simp del]

definition bio4_get_or_take :: "cli_lib \<Rightarrow> bool \<Rightarrow> cli \<Rightarrow> cli_error option cli_run" where
  "bio4_get_or_take lib in_take s =
     unless_err (bio4_request lib s) (\<lambda>s.
       if cl_ok_no s = 1 \<or> in_take \<and> di_empty (the (cl_digest s)) (cl_ascii_digest s) then Ret None s
       else unless_err (get_loop lib s) (bio4_set_brr ''ok''))"

definition bio4_get :: "cli_lib \<Rightarrow> cli \<Rightarrow> cli_error option cli_run" where
  "bio4_get lib s = bio4_get_or_take lib False s"

definition bio4_eat :: "cli_lib \<Rightarrow> cli \<Rightarrow> cli_error option cli_run" where
  "bio4_eat lib s =
     unless_err (bio4_request lib s)
       (\<lambda>s. bio4_set_brr (if cl_ok_no s = 0 then ''ok'' else ''no'') s)"

text \<open>The loops that send a blob, with and without the test of its digest.\<close>

function put_untrusted :: "cli_lib \<Rightarrow> cli \<Rightarrow> cli_error option cli_run" where
  "put_untrusted lib s =
     (case read_input (lib_msg_size lib) s of
        (Inl e, s) \<Rightarrow> Ret (Some e) s
      | (Inr buf, s) \<Rightarrow>
          (case digest_update buf s of
             (status, s) \<Rightarrow>
               let more = (cstr_at status 0 \<noteq> CHR ''0'') in
               if more \<and> cstr_at status 0 \<noteq> CHR ''1'' then Ret (Some (Msg status)) s
               else if buf = [] then
                 Ret (if more then Some (Msg ''blob does not match digest'') else None) s
               else
                 unless_err (write_server buf s)
                   (\<lambda>s. if more then put_untrusted lib s else Ret None s)))"
  by pat_completeness auto
termination
  by (relation "measure (\<lambda>(lib, s). events_left (cl_input s))")
    (auto simp: read_input_def split: prod.splits
      dest!: bio4_read_shrinks write_server_keeps digest_update_keeps [OF sym])

declare put_untrusted.simps [simp del]

function put_trusted :: "cli_lib \<Rightarrow> cli \<Rightarrow> cli_error option cli_run" where
  "put_trusted lib s =
     (case read_input (lib_msg_size lib) s of
        (Inl e, s) \<Rightarrow> Ret (Some e) s
      | (Inr buf, s) \<Rightarrow>
          unless_err (write_server buf s)
            (\<lambda>s. if buf = [] then Ret None s else put_trusted lib s))"
  by pat_completeness auto
termination
  by (relation "measure (\<lambda>(lib, s). events_left (cl_input s))")
    (auto simp: read_input_def split: prod.splits
      dest!: bio4_read_shrinks write_server_keeps)

declare put_trusted.simps [simp del]

definition bio4_put :: "cli_lib \<Rightarrow> cli \<Rightarrow> cli_error option cli_run" where
  "bio4_put lib s =
     unless_err (write_server (make_request s) s) (\<lambda>s.
     unless_err (read_ok_no lib s) (\<lambda>s.
       if cl_ok_no s = 1 then Ret None s
       else
         unless_err (if cl_trust_fs s = 0 then put_untrusted lib s else put_trusted lib s) (\<lambda>s.
         unless_err (read_ok_no lib s) (\<lambda>s.
           bio4_set_brr (if cl_ok_no s = 0 then ''ok'' else ''no'') s))))"

text \<open>
  \<^verbatim>\<open>bio4_take\<close> and \<^verbatim>\<open>bio4_give\<close>: when the last write fails the error is \<^verbatim>\<open>strerror(errno)\<close>, which the
  text of the write's own error stands for.
\<close>

definition bio4_take :: "cli_lib \<Rightarrow> cli \<Rightarrow> cli_error option cli_run" where
  "bio4_take lib s =
     unless_err (bio4_get_or_take lib True s) (\<lambda>s.
       if cl_ok_no s = 1 then Ret None s
       else
         unless_err (write_server (''ok'' @ [NL]) s) (\<lambda>s.
         unless_err (read_ok_no lib s) (bio4_set_brr ''ok,ok,ok'')))"

definition bio4_give :: "cli_lib \<Rightarrow> cli \<Rightarrow> cli_error option cli_run" where
  "bio4_give lib s =
     unless_err (bio4_put lib s) (\<lambda>s.
       if cl_ok_no s = 1 then Ret None s
       else
         (case (cl_input_path s, cl_unlink s) of
            (Some _, Inl e) \<Rightarrow>
              if e \<noteq> ENOENT
              then proceed (write_server (''no'' @ [NL]) s) (\<lambda>_. Ret (Some (Strerror e)))
              else unless_err (write_server (''ok'' @ [NL]) s) (bio4_set_brr ''ok,ok,ok'')
          | _ \<Rightarrow> unless_err (write_server (''ok'' @ [NL]) s) (bio4_set_brr ''ok,ok,ok'')))"

definition bio4_roll :: "cli_lib \<Rightarrow> cli \<Rightarrow> cli_error option cli_run" where
  "bio4_roll lib s = unless_err (bio4_request lib s) (bio4_set_brr ''ok'')"

text \<open>
  \<^verbatim>\<open>bio4_wrap\<close>: the udig that the server answers with, up to its new-line.  The array \<^verbatim>\<open>udig\<close> has 138
  characters.
\<close>

definition UDIG_SIZE :: nat where "UDIG_SIZE = 138"

function wrap_read :: "bytes \<Rightarrow> cli_event list \<Rightarrow> (cli_error + bytes) \<times> cli_event list" where
  "wrap_read got evs =
     (if length got \<ge> UDIG_SIZE - 1 then (Inr got, evs)
      else
        case bio4_read (UDIG_SIZE - 1 - length got) evs of
          (Inl e, evs') \<Rightarrow> (Inl e, evs')
        | (Inr bs, evs') \<Rightarrow>
            if bs = [] then (Inl (Msg ''read() returned unexpected 0 bytes''), evs')
            else if last bs = NL then (Inr (got @ bs), evs')
            else wrap_read (got @ bs) evs')"
  by pat_completeness auto
termination
  by (relation "measure (\<lambda>(got, evs). events_left evs)") (auto dest: bio4_read_shrinks [OF sym])

declare wrap_read.simps [simp del]

text \<open>\<^verbatim>\<open>memccpy(to, from, c, n)\<close>: what it copies, up to and with the character \<open>c\<close>.\<close>

fun memccpy :: "bytes \<Rightarrow> char \<Rightarrow> nat \<Rightarrow> bytes option" where
  "memccpy from c 0 = None"
| "memccpy [] c (Suc n) = (if c = NUL then Some [NUL] else None)"
| "memccpy (b # from) c (Suc n) =
     (if b = c then Some [b] else map_option (\<lambda>bs. b # bs) (memccpy from c n))"

definition bio4_wrap :: "cli_lib \<Rightarrow> cli \<Rightarrow> cli_error option cli_run" where
  "bio4_wrap lib s =
     unless_err (bio4_request lib s) (\<lambda>s.
       if cl_ok_no s \<noteq> 0 then Ret None s
       else
         (case wrap_read [] (cl_server s) of
            (Inl e, evs) \<Rightarrow> Ret (Some e) (s\<lparr>cl_server := evs\<rparr>)
          | (Inr got, evs) \<Rightarrow>
              let s = s\<lparr>cl_server := evs, cl_udig := got\<rparr> in
              if length got < 1 + 1 + 32 + 1 then Ret (Some (Msg ''udig from server < 35 chars'')) s
              else if length got \<ge> UDIG_SIZE - 1
              then Ret (Some (Msg ''failed to read udig from server'')) s
              else
                let udig = cstr (butlast got); s = s\<lparr>cl_udig := udig\<rparr> in
                (case lib_frisk_udig lib udig of
                   Some e \<Rightarrow> Ret (Some (Msg e)) s
                 | None \<Rightarrow>
                     if \<not> cli_brr_mask_is_set (cl_verb s) (cl_brr_mask s) then bio4_set_brr ''ok'' s
                     else
                       (case memccpy udig (CHR '':'') 8 of
                          None \<Rightarrow> Ret (Some (Msg ''memccpy(algo) return unexpected null'')) s
                        | Some alg \<Rightarrow>
                            bio4_set_brr ''ok'' (s\<lparr>
                              cl_algorithm := alg @ drop (length alg) (cl_algorithm s),
                              cl_ascii_digest := tl (dropWhile (\<lambda>c. c \<noteq> CHR '':'') udig)\<rparr>)))))"

end
