(* ===== verification/Cli_Talk.thy ===== *)
theory Cli_Talk
  imports Cli_Bio4 Server
begin

text \<open>
  The client's driver and the server: what the client checks on its own, how it reads replies, and
  what client and server do together.
\<close>

section \<open>What the client checks\<close>

lemma after_unless_err:
  "after Q E (unless_err m k) =
   after (\<lambda>err s. case err of Some e \<Rightarrow> Q (Some e) s | None \<Rightarrow> after Q E (k s)) E m"
  by (cases m) (auto simp: unless_err_def split: option.splits)

lemma after_write_server:
  "(\<And>err w u. Q err (s\<lparr>cl_sent := w, cl_server_writes := u\<rparr>)) \<Longrightarrow> (\<And>t. E t) \<Longrightarrow>
   after Q E (write_server buf s)"
  by (auto simp: write_server_def Let_def split: prod.splits written.splits)

lemma bio4_write_done: "bio4_write n buf evs = (Written None, d, evs') \<Longrightarrow> d = buf"
  by (cases evs) (auto split: write_event.splits if_splits)

lemma write_output_Ret:
  "write_output buf s = Ret err t \<Longrightarrow>
   \<exists>d u. t = s\<lparr>cl_output := cl_output s @ d, cl_output_writes := u\<rparr> \<and> (err = None \<longrightarrow> d = buf)"
  unfolding write_output_def Let_def
  by (auto split: prod.splits written.splits) (metis bio4_write_done)

lemma after_write_output:
  "(\<And>err d u. (err = None \<Longrightarrow> d = buf) \<Longrightarrow> Q err (s\<lparr>cl_output := cl_output s @ d, cl_output_writes := u\<rparr>)) \<Longrightarrow>
   (\<And>t. E t) \<Longrightarrow> after Q E (write_output buf s)"
  unfolding write_output_def Let_def
  by (auto split: prod.splits written.splits) (metis bio4_write_done)

lemma after_read_ok_no:
  "(\<And>err n evs. Q err (s\<lparr>cl_server := evs, cl_ok_no := n\<rparr>)) \<Longrightarrow> after Q E (read_ok_no lib s)"
proof -
  assume Q: "\<And>err n evs. Q err (s\<lparr>cl_server := evs, cl_ok_no := n\<rparr>)"
  have "Q err (s\<lparr>cl_server := evs\<rparr>)" for err evs using Q [of err "cl_ok_no s" evs] by simp
  with Q show ?thesis by (auto simp: read_ok_no_def Let_def split: prod.splits sum.splits)
qed

lemma after_request:
  assumes "\<And>e t. Q (Some e) t" and "\<And>t. E t"
    and "\<And>w u n evs. after Q E (k (s\<lparr>cl_sent := w, cl_server_writes := u, cl_server := evs, cl_ok_no := n\<rparr>))"
  shows "after Q E (unless_err (bio4_request lib s) k)"
  unfolding bio4_request_def after_unless_err
  by (intro after_write_server)
    (auto split: option.split intro!: after_read_ok_no assms)

text \<open>
  What a transfer that succeeds has written: bytes which, with those digested before, have the
  digest that is asked for.
\<close>

definition transferred :: "(bytes \<Rightarrow> ui8 list) \<Rightarrow> cli \<Rightarrow> cli_error option \<Rightarrow> cli \<Rightarrow> bool" where
  "transferred H s err t \<longleftrightarrow> cl_ok_no t = cl_ok_no s \<and>
     (err = None \<longrightarrow> (\<exists>bs. cl_output t = cl_output s @ bs \<and>
        H (ds_sha (cl_digest_state s) @ bs) = ds_bin_digest (cl_digest_state s)))"

text \<open>What \<^verbatim>\<open>main\<close> has prepared: the digest of the command line, and a fresh context.\<close>

definition prepared :: "cli_digest \<Rightarrow> cli \<Rightarrow> bool" where
  "prepared di s \<longleftrightarrow>
     cl_digest s = Some di \<and> blob_name (cl_ascii_digest s) \<and>
     (\<exists>d. cl_digest_state s = di_init di (cl_ascii_digest s) d)"

definition has_digest :: "(bytes \<Rightarrow> ui8 list) \<Rightarrow> bytes \<Rightarrow> bytes \<Rightarrow> bool" where
  "has_digest H d bs \<longleftrightarrow> concat (map encode_byte (H bs)) = d"

definition fetched :: "(bytes \<Rightarrow> ui8 list) \<Rightarrow> cli \<Rightarrow> cli \<Rightarrow> bool" where
  "fetched H s t \<longleftrightarrow>
     (\<exists>bs. cl_output t = cl_output s @ bs \<and> has_digest H (cl_ascii_digest s) bs)"

lemma fetched_upd [simp]:
  "fetched H s (t\<lparr>cl_server := a\<rparr>) = fetched H s t" "fetched H s (t\<lparr>cl_ok_no := b\<rparr>) = fetched H s t"
  "fetched H s (t\<lparr>cl_sent := c\<rparr>) = fetched H s t" "fetched H s (t\<lparr>cl_server_writes := d\<rparr>) = fetched H s t"
  "fetched H s (t\<lparr>cl_chat_history := e\<rparr>) = fetched H s t"
  by (simp_all add: fetched_def)

context client_digest begin

lemma digest_update_eq:
  "cl_digest s = Some di \<Longrightarrow>
   digest_update buf s =
     (if H (ds_sha (cl_digest_state s) @ buf) = ds_bin_digest (cl_digest_state s) then ''0'' else ''1'',
      s\<lparr>cl_digest_state := (cl_digest_state s)\<lparr>ds_sha := ds_sha (cl_digest_state s) @ buf\<rparr>\<rparr>)"
  by (simp add: digest_update_def get_update)

lemma get_loop_transfers:
  "cl_digest s = Some di \<Longrightarrow> after (transferred H s) (\<lambda>_. True) (get_loop lib s)"
proof (induction lib s rule: get_loop.induct)
  case (1 lib s)
  obtain x evs where r: "bio4_read (lib_msg_size lib) (cl_server s) = (x, evs)" by fastforce
  show ?case
  proof (cases x)
    case (Inl e)
    with r show ?thesis by (subst get_loop.simps) (simp add: read_server_def transferred_def)
  next
    case (Inr buf)
    let ?d = "cl_digest_state s"
    let ?s = "s\<lparr>cl_server := evs, cl_digest_state := ?d\<lparr>ds_sha := ds_sha ?d @ buf\<rparr>\<rparr>"
    define more where "more \<longleftrightarrow> H (ds_sha ?d @ buf) \<noteq> ds_bin_digest ?d"
    have rd: "read_server (lib_msg_size lib) s = (Inr buf, s\<lparr>cl_server := evs\<rparr>)"
      using r Inr by (simp add: read_server_def)
    have up: "digest_update buf (s\<lparr>cl_server := evs\<rparr>) = (if more then ''1'' else ''0'', ?s)"
      using 1(2) by (simp add: digest_update_eq more_def)
    have loop: "get_loop lib s =
        (if buf = [] then Ret (if more then Some (Msg ''blob does not match digest'') else None) ?s
         else unless_err (write_output buf ?s) (\<lambda>s. if more then get_loop lib s else Ret None s))"
      by (subst get_loop.simps) (simp add: rd up Let_def)
    show ?thesis
    proof (cases "buf = []")
      case True
      then show ?thesis unfolding loop by (auto simp: transferred_def more_def)
    next
      case False
      have ih: "after (transferred H t) (\<lambda>_. True) (get_loop lib t)"
        if "more" "write_output buf ?s = Ret None t" "cl_digest t = Some di" for t
        by (rule 1(1) [OF rd [symmetric] refl up [symmetric] refl _ False that(2) _ that(3)])
          (use that(1) in simp_all)
      have step: "after (transferred H s) (\<lambda>_. True) (if more then get_loop lib t else Ret None t)"
        if w: "write_output buf ?s = Ret None t" for t
      proof -
        obtain u where t: "t = ?s\<lparr>cl_output := cl_output s @ buf, cl_output_writes := u\<rparr>"
          using write_output_Ret [OF w] by auto
        show ?thesis
        proof (cases more)
          case True
          have "cl_digest t = Some di" using 1(2) t by simp
          then have "after (transferred H t) (\<lambda>_. True) (get_loop lib t)" by (rule ih [OF True w])
          then show ?thesis using True
            by (auto elim!: after_mono simp: transferred_def t)
        qed (auto simp: transferred_def t more_def)
      qed
      show ?thesis
      proof (cases "write_output buf ?s")
        case (Ret err t)
        show ?thesis
        proof (cases err)
          case None
          then show ?thesis using False Ret step [of t] by (simp add: loop unless_err_def)
        next
          case (Some e)
          then show ?thesis using False write_output_Ret [OF Ret] Ret
            by (auto simp: loop unless_err_def transferred_def)
        qed
      qed (use False in \<open>simp_all add: loop unless_err_def\<close>)
    qed
  qed
qed

lemma prepared_digest:
  assumes "prepared di s" and "H (ds_sha (cl_digest_state s) @ bs) = ds_bin_digest (cl_digest_state s)"
  shows "has_digest H (cl_ascii_digest s) bs"
proof -
  have "cl_ascii_digest s \<noteq> []" using assms(1) by (auto simp: prepared_def blob_name_def)
  with assms show ?thesis
    by (auto simp: prepared_def has_digest_def init_fed init_bin cli_bin_digest_nibs nib2digest_name)
qed

text \<open>The two transfers, with the digest of the empty blob known.\<close>

lemma get_or_take_checked:
  assumes "prepared di s" and "has_digest H em []"
  shows "after (\<lambda>err t. err = None \<and> cl_ok_no t \<noteq> 1 \<longrightarrow> fetched H s t) (\<lambda>_. True)
    (bio4_get_or_take lib in_take s)"
proof -
  have loop: "after (\<lambda>err t. err = None \<longrightarrow> fetched H s t) (\<lambda>_. True) (get_loop lib t)"
    if "cl_digest t = cl_digest s" "cl_digest_state t = cl_digest_state s" "cl_output t = cl_output s" for t
  proof -
    have "after (transferred H t) (\<lambda>_. True) (get_loop lib t)"
      using assms(1) that(1) by (intro get_loop_transfers) (simp add: prepared_def)
    then show ?thesis
      by (rule after_mono) (use prepared_digest [OF assms(1)] that in \<open>auto simp: transferred_def fetched_def\<close>)
  qed
  have di: "the (cl_digest s) = di" using assms(1) by (simp add: prepared_def)
  have tail: "after (\<lambda>err t. err = None \<and> cl_ok_no t \<noteq> 1 \<longrightarrow> fetched H s t) (\<lambda>_. True)
      (if cl_ok_no u = 1 \<or> in_take \<and> di_empty (the (cl_digest u)) (cl_ascii_digest u) then Ret None u
       else unless_err (get_loop lib u) (bio4_set_brr ''ok''))"
    if "cl_digest u = cl_digest s" "cl_digest_state u = cl_digest_state s"
      "cl_output u = cl_output s" "cl_ascii_digest u = cl_ascii_digest s" for u
  proof (cases "cl_ok_no u = 1 \<or> in_take \<and> di_empty (the (cl_digest u)) (cl_ascii_digest u)")
    case True
    with that assms(2) show ?thesis
      by (auto simp: di empty fetched_def)
  next
    case False
    then have "(cl_ok_no u = 1 \<or> in_take \<and> di_empty (the (cl_digest u)) (cl_ascii_digest u)) = False"
      by simp
    then show ?thesis
      unfolding after_unless_err if_False
      by (simp only: if_False after_unless_err)
        (rule after_mono [OF loop [OF that(1-3)]], auto simp: bio4_set_brr_def split: option.split)
  qed
  show ?thesis
    unfolding bio4_get_or_take_def
    by (rule after_request) (simp_all only: option.distinct simp_thms, rule tail, simp_all)
qed

lemma take_checked:
  assumes "prepared di s" and "has_digest H em []"
  shows "after (\<lambda>err t. err = None \<and> cl_ok_no t = 0 \<longrightarrow> fetched H s t) (\<lambda>_. True) (bio4_take lib s)"
  unfolding bio4_take_def after_unless_err
  by (rule after_mono [OF get_or_take_checked [OF assms]])
    (auto split: option.split simp: after_unless_err bio4_set_brr_def
      intro!: after_write_server after_read_ok_no)

end

text \<open>The digest of the blobs that an algorithm names.\<close>

definition name_hash :: "openssl \<Rightarrow> bytes \<Rightarrow> bytes \<Rightarrow> ui8 list" where
  "name_hash ssl name =
     (if name = ''sha'' then ossl_sha1 ssl
      else if name = ''bc160'' then bc160_hash ssl else btc20_hash ssl)"

text \<open>
  C7: a client never takes the wrong blob.  When \<^verbatim>\<open>get\<close> or \<^verbatim>\<open>take\<close> of any of the three algorithms
  reports success, the bytes written to the output have the digest that was asked for, whatever
  the server sent, in whatever pieces.
\<close>

theorem client_fetch_is_checked:
  assumes "openssl_ok ssl" and "find_digest ssl (cl_algorithm s) = Some di" and "prepared di s"
  shows "after (\<lambda>err t. err = None \<and> cl_ok_no t = 0 \<longrightarrow>
      fetched (name_hash ssl (cl_algorithm s)) s t) (\<lambda>_. True) (bio4_get lib s) \<and>
    after (\<lambda>err t. err = None \<and> cl_ok_no t = 0 \<longrightarrow>
      fetched (name_hash ssl (cl_algorithm s)) s t) (\<lambda>_. True) (bio4_take lib s)"
proof -
  consider "cl_algorithm s = ''sha''" "di = sha_digest ssl"
    | "cl_algorithm s = ''bc160''" "di = bc160_digest ssl"
    | "cl_algorithm s = ''btc20''" "di = btc20_digest ssl"
    using assms(2)
    by (auto simp: find_digest_def cli_digests_def sha_digest_def bc160_digest_def btc20_digest_def
        split: if_splits)
  then show ?thesis
  proof cases
    case 1
    with assms(1,3) cli_sha.get_or_take_checked [of ssl s lib False] cli_sha.take_checked [of ssl s lib]
    show ?thesis by (auto simp: openssl_ok_def has_digest_def name_hash_def bio4_get_def elim!: after_mono)
  next
    case 2
    with assms(1,3) cli_bc160.get_or_take_checked [of ssl s lib False] cli_bc160.take_checked [of ssl s lib]
    show ?thesis by (auto simp: openssl_ok_def has_digest_def name_hash_def bio4_get_def elim!: after_mono)
  next
    case 3
    with assms(1,3) cli_btc20.get_or_take_checked [of ssl s lib False] cli_btc20.take_checked [of ssl s lib]
    show ?thesis by (auto simp: openssl_ok_def has_digest_def name_hash_def bio4_get_def elim!: after_mono)
  qed
qed

text \<open>A client of the module of sha.\<close>

definition a_lib :: cli_lib where
  "a_lib = \<lparr>lib_msg_size = 4096, lib_frisk_udig = (\<lambda>_. None), lib_stack = (\<lambda>_. NUL)\<rparr>"

definition a_client :: "bytes \<Rightarrow> bytes \<Rightarrow> cli_event list \<Rightarrow> cli" where
  "a_client verb d evs =
     \<lparr>cl_verb = verb, cl_algorithm = ''sha'', cl_algo = [], cl_fnp = [], cl_udig = ''sha:'' @ d,
      cl_ascii_digest = d, cl_output_path = None, cl_input_path = None, cl_brr_mask = 0,
      cl_chat_history = [], cl_io_timeout = 20, cl_blob_size = 0, cl_trust_fs = -1,
      cl_digest = Some (sha_digest an_openssl),
      cl_digest_state = di_init (sha_digest an_openssl) d digest_state0, cl_ok_no = 0,
      cl_server = evs, cl_sent = [], cl_server_writes = [], cl_input = [], cl_output = [],
      cl_output_writes = [], cl_unlink = Inr (), cl_exit = 0\<rparr>"

lemma a_client_prepared: "blob_name d \<Longrightarrow> prepared (sha_digest an_openssl) (a_client verb d evs)"
  by (auto simp: prepared_def a_client_def)

lemma a_client_digest: "find_digest ssl (cl_algorithm (a_client verb d evs)) = Some (sha_digest ssl)"
  by (simp add: a_client_def find_digest_def cli_digests_def sha_digest_def btc20_digest_def)

theorem client_fetch_is_checked_witness:
  "after (\<lambda>err t. err = None \<and> cl_ok_no t = 0 \<longrightarrow>
       fetched (ossl_sha1 an_openssl) (a_client ''take'' empty_ascii [CData (''ok'' @ [NL])]) t) (\<lambda>_. True)
     (bio4_take a_lib (a_client ''take'' empty_ascii [CData (''ok'' @ [NL])]))"
  using client_fetch_is_checked [OF an_openssl_ok a_client_digest a_client_prepared [OF empty_names(1)]]
  by (simp add: a_client_def name_hash_def)

section \<open>Replies\<close>

definition plain :: "cli_event list \<Rightarrow> bool" where
  "plain evs \<longleftrightarrow> list_all (\<lambda>ev. case ev of CData bs \<Rightarrow> True | _ \<Rightarrow> False) evs"

lemma plain_simps [simp]:
  "plain []" "plain (CData bs # evs) = plain evs" "\<not> plain (CErr e # evs)" "\<not> plain (CLate # evs)"
  by (simp_all add: plain_def)

lemma bio4_read_plain:
  "plain evs \<Longrightarrow> 0 < n \<Longrightarrow> \<exists>bs evs'. bio4_read n evs = (Inr bs, evs') \<and>
    event_data evs = bs @ event_data evs' \<and> plain evs' \<and> length bs \<le> n \<and>
    (bs = [] \<longrightarrow> event_data evs = [])"
proof (induction evs)
  case (Cons ev evs)
  then show ?case by (cases ev) (auto simp: append_assoc [symmetric] simp del: append_assoc)
qed simp

text \<open>A reply whose first piece is too short ends in the buffer from its start.\<close>

lemma reply_bytes_cut:
  assumes "plain evs" and "0 < nread" and "nread < 3" and "length w = 3" and "length buf = 3"
    and "event_data evs = drop nread w @ rest"
  shows "\<exists>k buf' evs'. reply_bytes nread buf evs = (Inr buf', evs') \<and>
    0 < k \<and> k < 3 \<and> length buf' = 3 \<and> take (3 - k) buf' = drop k w"
  using assms
proof (induction nread buf evs rule: reply_bytes.induct)
  case (1 nread buf evs)
  have "0 < 3 - nread" using "1.prems" by simp
  then obtain bs evs' where r: "bio4_read (3 - nread) evs = (Inr bs, evs')"
    "event_data evs = bs @ event_data evs'" "plain evs'" "length bs \<le> 3 - nread"
    "bs = [] \<longrightarrow> event_data evs = []"
    using bio4_read_plain [OF "1.prems"(1)] by blast
  have ne: "bs \<noteq> []" using r(5) "1.prems" by auto
  have bs: "bs = take (length bs) (drop nread w)" "event_data evs' = drop (nread + length bs) w @ rest"
    using "1.prems"(4,6) r(2,4)
    by (auto simp: append_eq_append_conv_if min_def split: if_splits)
      (metis drop_drop add.commute)
  let ?buf = "bs @ drop (length bs) buf"
  have step: "reply_bytes nread buf evs = reply_bytes (nread + length bs) ?buf evs'"
    using "1.prems"(3) ne r(1) by (subst reply_bytes.simps) simp
  show ?case
  proof (cases "nread + length bs < 3")
    case True
    have "\<exists>k buf' evs''. reply_bytes (nread + length bs) ?buf evs' = (Inr buf', evs'') \<and>
        0 < k \<and> k < 3 \<and> length buf' = 3 \<and> take (3 - k) buf' = drop k w"
      using 1(1) [OF _ r(1) [symmetric] refl ne r(3) _ True "1.prems"(4) _ bs(2)] "1.prems" r(4)
      by simp
    then show ?thesis by (simp add: step)
  next
    case False
    then have "nread + length bs = 3" using r(4) "1.prems"(3) by linarith
    moreover have "reply_bytes 3 ?buf evs' = (Inr ?buf, evs')" by (subst reply_bytes.simps) simp
    ultimately show ?thesis
      using step "1.prems" bs(1) r(4)
      by (intro exI [of _ nread] exI [of _ ?buf] exI [of _ evs']) (simp add: take_Cons' drop_Cons')
  qed
qed

text \<open>A reply whose first piece holds all of it.\<close>

lemma read_ok_no_whole:
  assumes "w = ''ok'' @ [NL] \<or> w = ''no'' @ [NL]" and "cl_server s = CData c # evs"
    and "plain evs" and "c @ event_data evs = w @ rest" and "3 \<le> length c"
  shows "\<exists>es. plain es \<and> event_data es = rest \<and>
    read_ok_no lib s = Ret None (s\<lparr>cl_server := es, cl_ok_no := if w = ''ok'' @ [NL] then 0 else 1\<rparr>)"
proof -
  have "take 3 (c @ event_data evs) = take 3 (w @ rest)" using assms(4) by simp
  then have "take 3 c = w" using assms(1,5) by auto
  then obtain c' where c: "c = w @ c'" "rest = c' @ event_data evs"
    using assms(4) append_take_drop_id [of 3 c] by (metis append.assoc same_append_eq)
  let ?left = "if 3 < length c then CData c' # evs else evs"
  have w: "length w = 3" using assms(1) by auto
  have "bio4_read 3 (CData c # evs) = (Inr w, ?left)" using c w by auto
  then have "reply_bytes 0 buf (CData c # evs) = (Inr (w @ drop 3 buf), ?left)" for buf
    using w by (subst reply_bytes.simps) (auto simp: reply_bytes.simps [of "Suc _"] reply_bytes.simps [of 3])
  then have "reply_bytes 0 (map (lib_stack lib) [0..<3]) (cl_server s) = (Inr w, ?left)"
    using assms(2) by simp
  then have "read_ok_no lib s =
      Ret None (s\<lparr>cl_server := ?left, cl_ok_no := if w = ''ok'' @ [NL] then 0 else 1\<rparr>)"
    using assms(1) by (elim disjE) (simp_all add: read_ok_no_def Let_def)
  moreover have "plain ?left" "event_data ?left = rest" using assms(3) c w by simp_all
  ultimately show ?thesis by blast
qed

text \<open>
  C39: a reply must come in one piece.  However the server's \<^verbatim>\<open>ok\<close> or \<^verbatim>\<open>no\<close> is cut on its way, the
  client understands it exactly when the first piece holds all three characters: the next pieces
  are stored over the first, and the client gives up with an error, whatever was in the buffer.
\<close>

theorem reply_in_one_piece:
  assumes "w = ''ok'' @ [NL] \<or> w = ''no'' @ [NL]" and "cl_server s = CData c # evs"
    and "c \<noteq> []" and "plain evs" and "c @ event_data evs = w @ rest"
  shows "after (\<lambda>err t. (err = None \<longleftrightarrow> 3 \<le> length c) \<and>
      (err = None \<longrightarrow> cl_ok_no t = (if w = ''ok'' @ [NL] then 0 else 1) \<and>
         event_data (cl_server t) = rest \<and> plain (cl_server t))) (\<lambda>_. False)
    (read_ok_no lib s)"
proof (cases "3 \<le> length c")
  case True
  then obtain es where "plain es" "event_data es = rest"
    "read_ok_no lib s = Ret None (s\<lparr>cl_server := es, cl_ok_no := if w = ''ok'' @ [NL] then 0 else 1\<rparr>)"
    using read_ok_no_whole [OF assms(1,2,4,5), of lib] by blast
  then show ?thesis using True by simp
next
  case False
  have w: "length w = 3" using assms(1) by auto
  have d: "event_data evs = drop (length c) w @ rest"
    using assms(5) False w by (auto simp: append_eq_append_conv2)
  let ?buf = "map (lib_stack lib) [0..<3]"
  have "bio4_read 3 (CData c # evs) = (Inr c, evs)" using assms(3) False by simp
  then have "reply_bytes 0 ?buf (CData c # evs) = reply_bytes (length c) (c @ drop (length c) ?buf) evs"
    using assms(3) by (subst reply_bytes.simps) simp
  moreover obtain k buf' evs' where
    "reply_bytes (length c) (c @ drop (length c) ?buf) evs = (Inr buf', evs')"
    "0 < k" "k < 3" "length buf' = 3" "take (3 - k) buf' = drop k w"
    using reply_bytes_cut [OF assms(4) _ _ w _ d, of "c @ drop (length c) ?buf"] assms(3) False by auto
  moreover have "k = 1 \<or> k = 2" using calculation by auto
  ultimately show ?thesis
    using assms(1,2) False
    by (auto simp: read_ok_no_def Let_def numeral_eq_Suc take_Suc_conv_app_nth)
qed

theorem reply_in_one_piece_witness:
  "after (\<lambda>err t. err \<noteq> None) (\<lambda>_. False)
     (read_ok_no a_lib (a_client ''get'' empty_ascii [CData ''o'', CData ''k'', CData [NL]]))"
  using reply_in_one_piece [of "''ok'' @ [NL]" "a_client ''get'' empty_ascii [CData ''o'', CData ''k'', CData [NL]]"
      "''o''" "[CData ''k'', CData [NL]]" "[]" a_lib]
  by (auto simp: a_client_def elim: after_mono)

end
