(* ===== verification/Cli_Server.thy ===== *)
theory Cli_Server
  imports Cli_Talk
begin

text \<open>
  The client's driver and the server together: a blob in the store of the server reaches the
  client.
\<close>

section \<open>The server sends a stored blob\<close>

lemma digest_text_inj:
  assumes "concat (map encode_byte xs) = concat (map encode_byte ys)"
  shows "xs = ys"
proof -
  have l: "length (concat (map encode_byte zs)) = 2 * length zs" for zs
    by (induction zs) (auto simp: encode_byte_def)
  have n: "length xs = length ys" using assms l [of xs] l [of ys] by simp
  show ?thesis
    using decode_hex_loop_encode [of xs "[]"] decode_hex_loop_encode [of ys "[]"] assms n by simp
qed

lemma fs_touch_calm: "fs_faults w = [] \<Longrightarrow> fs_touch w = (Inr (), w)"
  by (simp add: fs_touch_def fs_call_def)

lemma stream_read_calm:
  "fs_faults w = [] \<Longrightarrow> stream_read n got rest w = (Some (got @ take n rest, drop n rest), w)"
proof (induction n got rest w rule: stream_read.induct)
  case (1 n got rest w)
  show ?case
  proof (cases "n = 0 \<or> rest = []")
    case False
    then show ?thesis
      using 1(1) [OF _ fs_touch_calm [OF 1(2), symmetric] refl _ 1(2)] fs_touch_calm [OF 1(2)]
      by (subst stream_read.simps) (auto simp: min_def)
  qed (subst stream_read.simps, auto simp: fs_touch_calm [OF 1(2)])
qed

lemma net_write_calm: "net_write buf n sent [] = (NetOk (), sent @ buf, [])"
  by (simp add: net_write_def net_write_loop.simps)

text \<open>A request served without a failure of the file system or the client.\<close>

definition calm :: "blob_fs request \<Rightarrow> bool" where
  "calm r \<longleftrightarrow> rq_peer r = [] \<and> fs_faults (rq_module r) = []"

lemma blob_write_calm:
  "calm r \<Longrightarrow> blob_write r buf = Ret 0 (r\<lparr>rq_sent := rq_sent r @ buf,
     rq_blob_size := rq_blob_size r + of_nat (length buf)\<rparr>)"
  by (simp add: calm_def blob_write_def req_write_def net_write_calm)

lemma blob_loop_calm:
  "calm r \<Longrightarrow> blob_loop (\<lambda>chunk r. blob_write r chunk) ctx rest r =
     Ret (Some (ctx @ rest)) (r\<lparr>rq_sent := rq_sent r @ rest,
       rq_blob_size := rq_blob_size r + of_nat (length rest)\<rparr>)"
proof (induction "length rest" arbitrary: ctx rest r rule: less_induct)
  case less
  have c: "0 < CHUNK_SIZE" by (simp add: CHUNK_SIZE_def)
  have rd: "stream_read CHUNK_SIZE [] rest (rq_module r) =
      (Some (take CHUNK_SIZE rest, drop CHUNK_SIZE rest), rq_module r)"
    using less.prems by (simp add: calm_def stream_read_calm)
  show ?case
  proof (cases "rest = []")
    case False
    let ?r = "r\<lparr>rq_sent := rq_sent r @ take CHUNK_SIZE rest,
        rq_blob_size := rq_blob_size r + of_nat (length (take CHUNK_SIZE rest))\<rparr>"
    have "length (drop CHUNK_SIZE rest) < length rest" using False c by simp
    moreover have "calm ?r" using less.prems by (simp add: calm_def)
    ultimately have ih: "blob_loop (\<lambda>chunk r. blob_write r chunk) (ctx @ take CHUNK_SIZE rest)
        (drop CHUNK_SIZE rest) ?r =
      Ret (Some ((ctx @ take CHUNK_SIZE rest) @ drop CHUNK_SIZE rest))
        (?r\<lparr>rq_sent := rq_sent ?r @ drop CHUNK_SIZE rest,
          rq_blob_size := rq_blob_size ?r + of_nat (length (drop CHUNK_SIZE rest))\<rparr>)"
      by (rule less.hyps)
    have s: "of_nat (length (take CHUNK_SIZE rest)) + of_nat (length (drop CHUNK_SIZE rest)) =
        (of_nat (length rest) :: ui64)"
      by (metis append_take_drop_id length_append of_nat_add)
    show ?thesis
      using False c rd ih
      by (subst blob_loop.simps)
        (simp add: blob_write_calm [OF less.prems] add.assoc s del: of_nat_add length_take length_drop)
  next
    case True
    with rd show ?thesis by (subst blob_loop.simps) simp
  qed
qed

lemma blob_close_calm:
  "fs_faults (rq_module r) = [] \<Longrightarrow>
   blob_close r = Ret 0 (r\<lparr>rq_module := (rq_module r)\<lparr>fr_blob_fd := NoFd\<rparr>\<rparr>)"
  by (cases "fr_blob_fd (rq_module r)")
    (simp_all add: blob_close_def on_module_def fs_touch_calm)

text \<open>What has been sent when \<^verbatim>\<open>get_bytes\<close> returns.\<close>

definition served :: "bytes \<Rightarrow> blob_fs request \<Rightarrow> int \<Rightarrow> blob_fs request \<Rightarrow> bool" where
  "served bs r st t \<longleftrightarrow> st = 0 \<and> rq_sent t = rq_sent r @ bs \<and>
     rq_chat_history t = rq_chat_history r \<and> calm t"

lemma get_bytes_serves:
  assumes "calm r" and "fr_blob_fd (rq_module r) = Reading bs"
  shows "after (served bs r) (\<lambda>_. False) (get_bytes_trusted r)"
    and "H bs = fr_digest (rq_module r) \<Longrightarrow>
      after (served bs r) (\<lambda>_. False) (get_bytes_checked H r)"
  using assms
  by (simp_all add: get_bytes_trusted_def get_bytes_checked_def reading_def blob_loop_calm
      blob_close_calm served_def calm_def)

lemma get_request_opens:
  assumes "calm r" and "map_of (fs_nodes (rq_module r)) (blob_path root (rq_digest r)) = Some (File bs)"
  shows "get_request root r =
    (let r = make_path root (rq_digest r) r
     in Ret 0 (r\<lparr>rq_module := (rq_module r)\<lparr>fr_blob_fd := Reading bs\<rparr>\<rparr>))"
  using assms
  by (simp add: get_request_def make_path_def blob_open_def on_module_def io_fs_open_def fs_call_def
      calm_def blob_path_def Let_def)

lemma write_ok_calm:
  "calm r \<Longrightarrow> rq_chat_history r = [] \<Longrightarrow>
   write_ok r = Ret 0 (r\<lparr>rq_sent := rq_sent r @ ''ok'' @ [NL], rq_chat_history := ''ok''\<rparr>)"
  by (simp add: write_ok_def req_write_def calm_def net_write_calm add_chat_history_def CHAT_SIZE_def Let_def)

text \<open>The verb on any module that opens and sends like the three.\<close>

lemma get_serves:
  assumes "calm r" and "rq_chat_history r = []"
    and "map_of (fs_nodes (rq_module r)) (blob_path root (rq_digest r)) = Some (File bs)"
    and "dm_get_request mp = get_request root" and "dm_is_digest mp (rq_digest r) = 1"
    and "\<And>s. calm s \<Longrightarrow> fr_blob_fd (rq_module s) = Reading bs \<Longrightarrow>
      fr_digest (rq_module s) = fr_digest (rq_module r) \<Longrightarrow>
      after (served bs s) (\<lambda>_. False) (dm_get_bytes mp s)"
  shows "after (\<lambda>st t. rq_sent t = rq_sent r @ (''ok'' @ [NL]) @ bs \<and> rq_chat_history t = ''ok'' \<and> calm t)
    (\<lambda>_. False) (get sv mp r)"
proof -
  have c: "calm ((set_verb REQUEST_EXIT_STATUS_GET r)\<lparr>rq_step := ''request''\<rparr>)"
    using assms(1) by (simp add: calm_def set_verb_def)
  show ?thesis
    using assms(1-3,5) c
    by (simp add: get_def Let_def assms(4) get_request_opens set_verb_def make_path_def calm_def
        write_ok_calm)
      (rule after_mono [OF assms(6)], auto simp: served_def calm_def)
qed

text \<open>The stores of the three algorithms.\<close>

definition algorithm_root :: "bytes \<Rightarrow> bytes" where
  "algorithm_root name = ''data/fs_'' @ name"

lemma algorithm_roots:
  "algorithm_root ''sha'' = fs_sha_root" "algorithm_root ''bc160'' = fs_bc160_root"
  "algorithm_root ''btc20'' = fs_btc20_root"
  by (simp_all add: algorithm_root_def fs_sha_root_def fs_bc160_root_def fs_btc20_root_def)

lemma name_hash_root:
  "name \<in> {''sha'', ''bc160'', ''btc20''} \<Longrightarrow> store_hash ssl (algorithm_root name) = name_hash ssl name"
  by (auto simp: algorithm_roots name_hash_def)

lemma open_calm:
  assumes "calm r" and "rq_verb r \<noteq> ''wrap''" and "blob_name (rq_digest r)"
    and "open \<in> {fs_sha_open, fs_bc160_open, fs_btc20_open}"
  shows "after (\<lambda>st t. st = 0 \<and> calm t \<and> rq_sent t = rq_sent r \<and>
      rq_chat_history t = rq_chat_history r \<and> rq_digest t = rq_digest r \<and>
      fs_nodes (rq_module t) = fs_nodes (rq_module r) \<and>
      concat (map encode_byte (fr_digest (rq_module t))) = rq_digest r) (\<lambda>_. False) (open r)"
proof -
  obtain want where "decode_hex (rq_digest r) (replicate 20 0) = Some want"
    "concat (map encode_byte want) = rq_digest r" using assms(3) by (rule blob_name_decode)
  with assms nib2digest_name [OF assms(3)] show ?thesis
    by (auto simp: fs_sha_open_def fs_bc160_open_def fs_btc20_open_def ripe_open_def Let_def calm_def)
qed

lemma close_calm:
  assumes "calm r" and "close \<in> {fs_sha_close, fs_bc160_close, fs_btc20_close}"
  shows "after (\<lambda>_ t. rq_sent t = rq_sent r \<and> rq_chat_history t = rq_chat_history r) (\<lambda>_. False) (close st r)"
  using assms
  by (auto simp: fs_sha_close_def fs_bc160_close_def fs_btc20_close_def blob_close_calm calm_def)


text \<open>The request of a client that gets a blob, in a server with all modules.\<close>

lemma module_serves:
  assumes "name \<in> {''sha'', ''bc160'', ''btc20''}"
  obtains mp where "module_get (bio4d_modules ssl trust) name = Some mp"
    and "dm_open mp \<in> {fs_sha_open, fs_bc160_open, fs_btc20_open}"
    and "dm_close mp \<in> {fs_sha_close, fs_bc160_close, fs_btc20_close}"
    and "dm_get_request mp = get_request (algorithm_root name)"
    and "\<forall>s bs. calm s \<longrightarrow> fr_blob_fd (rq_module s) = Reading bs \<longrightarrow>
      name_hash ssl name bs = fr_digest (rq_module s) \<longrightarrow>
      after (served bs s) (\<lambda>_. False) (dm_get_bytes mp s)"
    and "\<forall>d. blob_name d \<longrightarrow> dm_is_digest mp d = 1 \<or>
      dm_is_digest mp d = 2 \<and> (openssl_ok ssl \<longrightarrow> has_digest (name_hash ssl name) d [])"
proof -
  consider "name = ''sha''" | "name = ''bc160''" | "name = ''btc20''" using assms by auto
  then show thesis
  proof cases
    case 1
    show ?thesis
      by (rule that [of "fs_sha_module (ossl_sha1 ssl)"])
        (use 1 get_bytes_serves(2) in \<open>auto simp: modules_names fs_sha_module_def fs_sha_get_request_def
          algorithm_roots fs_sha_get_bytes_def name_hash_def fs_sha_is_digest_def sha_scan_iff
          blob_name_def openssl_ok_def has_digest_def fun_eq_iff\<close>)
  next
    case 2
    show ?thesis
      by (rule that [of "fs_bc160_module ssl trust"])
        (use 2 get_bytes_serves in \<open>auto simp: modules_names fs_bc160_module_def fs_bc160_get_request_def
          algorithm_roots fs_bc160_get_bytes_def name_hash_def bc160_is_digest_name fun_eq_iff\<close>)
  next
    case 3
    show ?thesis
      by (rule that [of "fs_btc20_module ssl trust"])
        (use 3 get_bytes_serves in \<open>auto simp: modules_names fs_btc20_module_def fs_btc20_get_request_def
          algorithm_roots fs_btc20_get_bytes_def name_hash_def btc20_is_digest_name openssl_ok_def
          has_digest_def fun_eq_iff\<close>)
  qed
qed


text \<open>
  The blob \<open>bs\<close> in the store of its algorithm.  To \<^verbatim>\<open>get\<close> with the digest of the empty blob the server
  answers without a look at the store, so that \<open>bs\<close> must then be empty.
\<close>

definition stored :: "openssl \<Rightarrow> bytes \<Rightarrow> bytes \<Rightarrow> bytes \<Rightarrow> blob_fs request \<Rightarrow> bool" where
  "stored ssl name d bs r \<longleftrightarrow>
     name \<in> {''sha'', ''bc160'', ''btc20''} \<and> blob_name d \<and>
     map_of (fs_nodes (rq_module r)) (blob_path (algorithm_root name) d) = Some (File bs) \<and>
     has_digest (name_hash ssl name) d bs"

lemma bio4d_gets:
  assumes "openssl_ok ssl" and "stored ssl name d bs r" and "calm r"
    and "rq_chat_history r = []" and "rq_sent r = []"
    and "sc_verb s = ''get''" and "sc_algorithm s = name" and "sc_digest s = d"
    and "has_digest (name_hash ssl name) d [] \<Longrightarrow> bs = []"
  shows "after (\<lambda>_ t. rq_sent t = (''ok'' @ [NL]) @ bs \<and> rq_chat_history t = ''ok'') (\<lambda>_. False)
    (bio4d (bio4d_server ssl trust alg exists stack) s b r)"
proof -
  let ?sv = "bio4d_server ssl trust alg exists stack"
  have n: "name \<in> {''sha'', ''bc160'', ''btc20''}" and d: "blob_name d"
    and node: "map_of (fs_nodes (rq_module r)) (blob_path (algorithm_root name) d) = Some (File bs)"
    and dig: "has_digest (name_hash ssl name) d bs"
    using assms(2) by (auto simp: stored_def)
  note em = assms(9)
  obtain mp where mp: "module_get (bio4d_modules ssl trust) name = Some mp"
    "dm_open mp \<in> {fs_sha_open, fs_bc160_open, fs_btc20_open}"
    "dm_close mp \<in> {fs_sha_close, fs_bc160_close, fs_btc20_close}"
    "dm_get_request mp = get_request (algorithm_root name)"
    "\<forall>s bs. calm s \<longrightarrow> fr_blob_fd (rq_module s) = Reading bs \<longrightarrow>
      name_hash ssl name bs = fr_digest (rq_module s) \<longrightarrow>
      after (served bs s) (\<lambda>_. False) (dm_get_bytes mp s)"
    "\<forall>d. blob_name d \<longrightarrow> dm_is_digest mp d = 1 \<or>
      dm_is_digest mp d = 2 \<and> (openssl_ok ssl \<longrightarrow> has_digest (name_hash ssl name) d [])"
    by (rule module_serves [OF n, of ssl trust])
  let ?Q = "\<lambda>t. rq_sent t = (''ok'' @ [NL]) @ bs \<and> rq_chat_history t = ''ok'' \<and> calm t"
  have g: "after (\<lambda>_. ?Q) (\<lambda>_. False) (get ?sv mp t)"
    if "calm t" "rq_sent t = []" "rq_chat_history t = []" "rq_digest t = d"
      "fs_nodes (rq_module t) = fs_nodes (rq_module r)"
      "concat (map encode_byte (fr_digest (rq_module t))) = d" for t
  proof (cases "dm_is_digest mp d = 1")
    case True
    have "fr_digest (rq_module t) = name_hash ssl name bs"
      using that(6) dig by (intro digest_text_inj) (simp add: has_digest_def)
    then show ?thesis
      using get_serves [of t "algorithm_root name" bs mp ?sv] that node True mp(4,5)
      by (simp add: after_mono)
  next
    case False
    then have "dm_is_digest mp d = 2" "bs = []" using mp(6) d em assms(1) by auto
    moreover have "calm ((set_verb REQUEST_EXIT_STATUS_GET t)\<lparr>rq_step := ''request''\<rparr>)"
      using that(1) by (simp add: calm_def set_verb_def)
    ultimately show ?thesis
      using that by (simp add: get_def Let_def set_verb_def write_ok_calm calm_def)
  qed
  have c: "after (\<lambda>_ t. rq_sent t = (''ok'' @ [NL]) @ bs \<and> rq_chat_history t = ''ok'') (\<lambda>_. False)
      (bio4d_close mp st t)" if "?Q t" for st t
    unfolding bio4d_close_def after_proceed
    by (rule after_mono [OF close_calm [OF _ mp(3)]]) (use that in simp_all)
  let ?r = "r\<lparr>rq_verb := ''get'', rq_step := [], rq_algorithm := name,
      rq_blob_size := of_nat (length b), rq_digest := d\<rparr>"
  have "name \<noteq> []" "d \<noteq> []" "dm_is_digest mp d \<noteq> 0" using n d mp(6) d by (auto simp: blob_name_def)
  moreover have "verb_callback ?sv ''get'' = Some (get ?sv)" by (simp add: verb_callback_def)
  ultimately have "bio4d ?sv s b r =
      proceed (dm_open mp ?r) (\<lambda>status r.
        if status \<noteq> 0 then
          proceed (dm_close mp status r) (\<lambda>st r. die_NO (if st \<noteq> 0 then log_error r else r))
        else proceed (get ?sv mp (r\<lparr>rq_scan_buf := b\<rparr>)) (\<lambda>status r. bio4d_close mp status r))"
    using assms(6-8) mp(1) by (simp add: bio4d_def Let_def)
  moreover have "after (\<lambda>st t. st = 0 \<and> calm t \<and> rq_sent t = rq_sent ?r \<and>
      rq_chat_history t = rq_chat_history ?r \<and> rq_digest t = rq_digest ?r \<and>
      fs_nodes (rq_module t) = fs_nodes (rq_module ?r) \<and>
      concat (map encode_byte (fr_digest (rq_module t))) = rq_digest ?r) (\<lambda>_. False) (dm_open mp ?r)"
    using assms(3) d by (intro open_calm mp(2)) (simp_all add: calm_def)
  ultimately show ?thesis
    using assms(4,5)
    by (simp only: after_proceed)
      (erule after_mono, auto simp: calm_def intro!: after_mono [OF g] after_mono [OF c])
qed


lemma brr_send_sent:
  "after (\<lambda>_ t. rq_sent t = rq_sent r) (\<lambda>t. rq_sent t = rq_sent r) (brr_send gmtime brr_mask r)"
  by (auto simp: brr_send_def Let_def split: prod.splits sum.splits)

lemma request_gets:
  assumes "openssl_ok ssl" and "stored ssl name d bs r" and "calm r"
    and "rq_chat_history r = []" and "rq_sent r = []"
    and "quiet (rq_in r)" and "net_data (rq_in r) = ''get '' @ name @ CHR '':'' # d @ [NL]"
    and "has_digest (name_hash ssl name) d [] \<Longrightarrow> bs = []"
  shows "after (\<lambda>_ _. False) (\<lambda>t. rq_sent t = ''ok'' @ NL # bs)
    (request_child (bio4d_server ssl trust alg exists stack) gmtime brr_mask end_time r)"
proof -
  let ?go = "bio4d (bio4d_server ssl trust alg exists stack)"
  let ?s = "scan_start\<lparr>sc_verb := ''get'', sc_algorithm := name, sc_digest := d\<rparr>"
  have n: "name \<in> {''sha'', ''bc160'', ''btc20''}" and d: "blob_name d"
    using assms(2) by (auto simp: stored_def)
  have hex: "\<forall>c \<in> set hexchar. c_isgraph c" by code_simp
  have ok: "scan_ok ?s"
    using n d hex
    by (auto simp: scan_ok_def scan_start_def MAX_VERB_SIZE_def MAX_ALGORITHM_SIZE_def
        MAX_DIGEST_SIZE_def blob_name_def ctype_defs)
  have line: "request_line ?s (''get '' @ name @ CHR '':'' # d)" by (simp add: request_line_def)
  obtain st where "scan_chunk scan_start ((''get '' @ name @ CHR '':'' # d) @ [NL] @ []) =
      Go (?s\<lparr>sc_state := st\<rparr>) []"
    using scan_complete [OF line ok, of "[NL]" "[]"] by auto
  then obtain b evs where loop: "request_loop ?go scan_start r =
      proceed (?go (?s\<lparr>sc_state := st\<rparr>) b (r\<lparr>rq_in := evs\<rparr>)) (\<lambda>_ r. Ret True r)"
    using request_loop_go [OF assms(6), of scan_start _ "[]" ?go] assms(7) by auto
  have "after (\<lambda>_ t. rq_sent t = (''ok'' @ [NL]) @ bs \<and> rq_chat_history t = ''ok'') (\<lambda>_. False)
      (?go (?s\<lparr>sc_state := st\<rparr>) b (r\<lparr>rq_in := evs\<rparr>))"
    by (rule bio4d_gets [OF assms(1)]) (use assms(2-5,8) in \<open>simp_all add: stored_def calm_def\<close>)
  then show ?thesis
    unfolding request_child_def loop after_proceed
    by (rule after_mono)
      (auto simp: encode_chat_def intro!: after_mono [OF brr_send_sent])
qed

section \<open>The client takes what the server sends\<close>

context client_digest begin

lemma get_loop_completes:
  assumes "0 < lib_msg_size lib"
  shows "cl_digest s = Some di \<Longrightarrow> cl_output_writes s = [] \<Longrightarrow> plain (cl_server s) \<Longrightarrow>
    H (ds_sha (cl_digest_state s) @ event_data (cl_server s)) = ds_bin_digest (cl_digest_state s) \<Longrightarrow>
    (\<And>k. k < length (event_data (cl_server s)) \<Longrightarrow>
      H (ds_sha (cl_digest_state s) @ take k (event_data (cl_server s))) \<noteq> ds_bin_digest (cl_digest_state s)) \<Longrightarrow>
    after (\<lambda>err t. err = None \<and> cl_ok_no t = cl_ok_no s \<and> cl_sent t = cl_sent s \<and>
      cl_output t = cl_output s @ event_data (cl_server s)) (\<lambda>_. False) (get_loop lib s)"
proof (induction "events_left (cl_server s)" arbitrary: s rule: less_induct)
  case less
  let ?d = "cl_digest_state s" and ?data = "event_data (cl_server s)"
  obtain buf evs where r: "bio4_read (lib_msg_size lib) (cl_server s) = (Inr buf, evs)"
    "?data = buf @ event_data evs" "plain evs" "buf = [] \<longrightarrow> ?data = []"
    using bio4_read_plain [OF less.prems(3) assms] by blast
  let ?s = "s\<lparr>cl_server := evs, cl_digest_state := ?d\<lparr>ds_sha := ds_sha ?d @ buf\<rparr>\<rparr>"
  let ?t = "?s\<lparr>cl_output := cl_output s @ buf, cl_output_writes := []\<rparr>"
  define more where "more \<longleftrightarrow> H (ds_sha ?d @ buf) \<noteq> ds_bin_digest ?d"
  have rd: "read_server (lib_msg_size lib) s = (Inr buf, s\<lparr>cl_server := evs\<rparr>)"
    using r by (simp add: read_server_def)
  have up: "digest_update buf (s\<lparr>cl_server := evs\<rparr>) = (if more then ''1'' else ''0'', ?s)"
    using less.prems(1) by (simp add: digest_update_eq more_def)
  have loop: "get_loop lib s =
      (if buf = [] then Ret (if more then Some (Msg ''blob does not match digest'') else None) ?s
       else if more then get_loop lib ?t else Ret None ?t)"
    using less.prems(2)
    by (subst get_loop.simps) (simp add: rd up Let_def write_output_def unless_err_def)
  have m: "more \<longleftrightarrow> event_data evs \<noteq> []"
  proof
    assume "event_data evs \<noteq> []"
    then show "more" using less.prems(5) [of "length buf"] r(2) by (simp add: more_def)
  next
    assume more
    then show "event_data evs \<noteq> []" using less.prems(4) r(2) by (auto simp: more_def)
  qed
  show ?case
  proof (cases "buf = [] \<or> \<not> more")
    case True
    then show ?thesis using r(2,4) m by (auto simp: loop)
  next
    case False
    then have "after (\<lambda>err t. err = None \<and> cl_ok_no t = cl_ok_no ?t \<and> cl_sent t = cl_sent ?t \<and>
        cl_output t = cl_output ?t @ event_data (cl_server ?t)) (\<lambda>_. False) (get_loop lib ?t)"
      using less.prems r(2,3) less.prems(5) [of "length buf + k" for k]
      by (intro less.hyps) (auto dest: bio4_read_shrinks [OF r(1)])
    with False r(2) show ?thesis by (auto simp: loop elim: after_mono)
  qed
qed


lemma get_completes:
  assumes "prepared di s" and "cl_server_writes s = []" and "cl_output_writes s = []"
    and "0 < lib_msg_size lib" and "3 \<le> length c" and "plain evs"
    and "c @ event_data evs = ''ok'' @ NL # bs"
    and "has_digest H (cl_ascii_digest s) bs"
    and "\<forall>k<length bs. \<not> has_digest H (cl_ascii_digest s) (take k bs)"
  shows "after (\<lambda>err t. err = None \<and> cl_ok_no t = 0 \<and> cl_output t = cl_output s @ bs \<and>
      cl_sent t = cl_sent s @ make_request s) (\<lambda>_. False)
    (bio4_get lib (s\<lparr>cl_server := CData c # evs\<rparr>))"
proof -
  let ?s = "s\<lparr>cl_server := CData c # evs, cl_sent := cl_sent s @ make_request s, cl_server_writes := []\<rparr>"
  have w: "write_server (make_request (s\<lparr>cl_server := CData c # evs\<rparr>)) (s\<lparr>cl_server := CData c # evs\<rparr>) =
      Ret None ?s"
    using assms(2) by (simp add: write_server_def make_request_def)
  have ne: "cl_ascii_digest s \<noteq> []" using assms(1) by (auto simp: prepared_def blob_name_def)
  have st: "ds_sha (cl_digest_state s) = []"
    "ds_bin_digest (cl_digest_state s) = nib2digest (cl_ascii_digest s)"
    using assms(1) ne by (auto simp: prepared_def init_fed init_bin cli_bin_digest_nibs)
  have name: "concat (map encode_byte (nib2digest (cl_ascii_digest s))) = cl_ascii_digest s"
    using assms(1) by (intro nib2digest_name) (simp add: prepared_def)
  have dig: "H x = nib2digest (cl_ascii_digest s) \<longleftrightarrow> has_digest H (cl_ascii_digest s) x" for x
    using name digest_text_inj [of "H x" "nib2digest (cl_ascii_digest s)"] by (auto simp: has_digest_def)
  have rest: "after (\<lambda>err t. err = None \<and> cl_ok_no t = 0 \<and> cl_output t = cl_output s @ bs \<and>
      cl_sent t = cl_sent s @ make_request s) (\<lambda>_. False)
      (unless_err (get_loop lib (?s\<lparr>cl_server := es, cl_ok_no := 0\<rparr>)) (bio4_set_brr ''ok''))"
    if "plain es" "event_data es = bs" for es
    unfolding after_unless_err
    by (rule after_mono [OF get_loop_completes [OF assms(4)]])
      (use assms(1,3,8,9) that in \<open>auto simp: prepared_def st dig bio4_set_brr_def\<close>)
  obtain es where es: "plain es" "event_data es = bs"
    "read_ok_no lib ?s = Ret None (?s\<lparr>cl_server := es, cl_ok_no := 0\<rparr>)"
    using read_ok_no_whole [of "''ok'' @ [NL]" ?s c evs bs lib] assms(5-7) by auto
  have "bio4_get lib (s\<lparr>cl_server := CData c # evs\<rparr>) =
      unless_err (get_loop lib (?s\<lparr>cl_server := es, cl_ok_no := 0\<rparr>)) (bio4_set_brr ''ok'')"
    by (simp add: bio4_get_def bio4_get_or_take_def bio4_request_def w unless_err_def es(3))
  then show ?thesis using rest [OF es(1,2)] by (simp only:)
qed

end


lemma digests_of_names:
  assumes "find_digest ssl name = Some di"
  shows "name = ''sha'' \<and> di = sha_digest ssl \<or> name = ''bc160'' \<and> di = bc160_digest ssl \<or>
    name = ''btc20'' \<and> di = btc20_digest ssl"
  using assms
  by (auto simp: find_digest_def cli_digests_def sha_digest_def bc160_digest_def btc20_digest_def
      split: if_splits)

text \<open>
  C23: a stored blob reaches the client.  When a client asks with \<^verbatim>\<open>get\<close> for a blob of a sound store,
  with any of the three algorithms, its request reaches the server in any pieces and the answer
  the client in any pieces of which the first holds the reply, and no call fails, then the server
  ends, and the client succeeds with exactly the bytes of the blob.  No shorter beginning of the
  blob may have the same digest, for the client would stop there.
\<close>

theorem blob_reaches_client:
  assumes "openssl_ok ssl" and "child_ok ssl r" and "calm r" and "rq_sent r = []"
    and "quiet (rq_in r)" and "net_data (rq_in r) = make_request s"
    and "cl_verb s = ''get''" and "find_digest ssl (cl_algorithm s) = Some di" and "prepared di s"
    and "cl_server_writes s = []" and "cl_output_writes s = []" and "0 < lib_msg_size lib"
    and "map_of (fs_nodes (rq_module r))
      (blob_path (algorithm_root (cl_algorithm s)) (cl_ascii_digest s)) = Some (File bs)"
    and "\<forall>k<length bs. \<not> has_digest (name_hash ssl (cl_algorithm s)) (cl_ascii_digest s) (take k bs)"
  shows "after (\<lambda>_ _. False)
    (\<lambda>t. \<forall>c evs. 3 \<le> length c \<and> plain evs \<and> c @ event_data evs = rq_sent t \<longrightarrow>
      after (\<lambda>err u. err = None \<and> cl_ok_no u = 0 \<and> cl_output u = cl_output s @ bs \<and>
          cl_sent u = cl_sent s @ net_data (rq_in r)) (\<lambda>_. False)
        (bio4_get lib (s\<lparr>cl_server := CData c # evs\<rparr>)))
    (request_child (bio4d_server ssl trust alg exists stack) gmtime brr_mask end_time r)"
proof -
  let ?name = "cl_algorithm s" and ?d = "cl_ascii_digest s"
  have d: "blob_name ?d" using assms(9) by (simp add: prepared_def)
  have n: "?name \<in> {''sha'', ''bc160'', ''btc20''}" using digests_of_names [OF assms(8)] by auto
  then have root: "algorithm_root ?name \<in> set store_roots"
    by (auto simp: algorithm_root_def store_roots_def)
  have dig: "has_digest (name_hash ssl ?name) ?d bs"
    using assms(2,13) d root name_hash_root [OF n, of ssl]
    by (auto simp: child_ok_def store_ok_def has_digest_def)
  have em: "bs = []" if "has_digest (name_hash ssl ?name) ?d []"
    using assms(14) that by (auto dest: spec [of _ 0])
  have client: "after (\<lambda>err u. err = None \<and> cl_ok_no u = 0 \<and> cl_output u = cl_output s @ bs \<and>
      cl_sent u = cl_sent s @ net_data (rq_in r)) (\<lambda>_. False)
      (bio4_get lib (s\<lparr>cl_server := CData c # evs\<rparr>))"
    if "3 \<le> length c" "plain evs" "c @ event_data evs = ''ok'' @ NL # bs" for c evs
    using digests_of_names [OF assms(8)] assms(6,9-12,14) that dig
      cli_sha.get_completes [of ssl s lib c evs bs] cli_bc160.get_completes [of ssl s lib c evs bs]
      cli_btc20.get_completes [of ssl s lib c evs bs]
    by (auto simp: name_hash_def)
  have req: "net_data (rq_in r) = ''get '' @ ?name @ CHR '':'' # ?d @ [NL]"
    using assms(6,7) n d by (auto simp: make_request_def blob_name_def cstr_at_def)
  have st: "stored ssl ?name ?d bs r" using n d assms(13) dig by (simp add: stored_def)
  show ?thesis
    by (rule after_mono [OF request_gets [OF assms(1) st assms(3) _ assms(4,5) req em]])
      (use client assms(2) in \<open>auto simp: child_ok_def\<close>)
qed


text \<open>A server with a blob of one byte.\<close>

definition a_digest :: bytes where "a_digest = concat (map encode_byte (replicate 20 1))"

definition an_x_child :: "net_event list \<Rightarrow> blob_fs request" where
  "an_x_child evs = req_init evs \<lparr>tv_sec = 0, tv_nsec = 0\<rparr> []
     (a_sha_fs\<lparr>fs_nodes := [(blob_path fs_sha_root a_digest, File ''x'')]\<rparr>)"

lemma a_digest_name: "blob_name a_digest" by code_simp

lemma an_x_child_ok: "child_ok an_openssl (an_x_child evs)"
proof -
  have "blob_name d \<Longrightarrow> blob_path root d = blob_path fs_sha_root a_digest \<longleftrightarrow>
      root = fs_sha_root \<and> d = a_digest" for root d
    using blob_path_inj a_digest_name by blast
  then have "store_ok (store_hash an_openssl) (rq_module (an_x_child evs))"
    by (auto simp: store_ok_def an_x_child_def req_init_def an_openssl_def a_digest_def split: if_splits)
  then show ?thesis
    by (simp add: child_ok_def an_x_child_def req_init_def a_sha_fs_def tmp_apart_def tmp_get_def one_device_def)
qed

theorem blob_reaches_client_witness:
  "after (\<lambda>_ _. False)
    (\<lambda>t. \<forall>c evs. 3 \<le> length c \<and> plain evs \<and> c @ event_data evs = rq_sent t \<longrightarrow>
      after (\<lambda>err u. err = None \<and> cl_output u = ''x'') (\<lambda>_. False)
        (bio4_get a_lib (a_client ''get'' a_digest (CData c # evs))))
    (request_child (bio4d_server an_openssl False ''sha'' (\<lambda>_ _. 0) (\<lambda>_. NUL))
       (\<lambda>_. \<lparr>tm_year = 1970, tm_mon = 1, tm_mday = 1, tm_hour = 0, tm_min = 0, tm_sec = 0\<rparr>) 0
       \<lparr>tv_sec = 1, tv_nsec = 0\<rparr>
       (an_x_child [NData ''get sh'', NSignal, NData (CHR ''a'' # CHR '':'' # a_digest), NData [NL]]))"
proof -
  let ?evs = "[NData ''get sh'', NSignal, NData (CHR ''a'' # CHR '':'' # a_digest), NData [NL]]"
  let ?s = "a_client ''get'' a_digest []"
  have d: "a_digest \<noteq> []" using a_digest_name by (auto simp: blob_name_def)
  have r: "calm (an_x_child ?evs)" "rq_sent (an_x_child ?evs) = []" "quiet (rq_in (an_x_child ?evs))"
    by (simp_all add: an_x_child_def calm_def req_init_def a_sha_fs_def)
  have s: "cl_verb ?s = ''get''" "cl_server_writes ?s = []" "cl_output_writes ?s = []"
    "cl_algorithm ?s = ''sha''" "cl_ascii_digest ?s = a_digest" "cl_output ?s = []"
    "?s\<lparr>cl_server := es\<rparr> = a_client ''get'' a_digest es" for es
    by (simp_all add: a_client_def)
  have net: "net_data (rq_in (an_x_child ?evs)) = make_request ?s"
    using d by (simp add: an_x_child_def req_init_def make_request_def s cstr_at_def)
  have node: "map_of (fs_nodes (rq_module (an_x_child ?evs)))
      (blob_path (algorithm_root (cl_algorithm ?s)) (cl_ascii_digest ?s)) = Some (File ''x'')"
    unfolding s by (simp add: an_x_child_def req_init_def algorithm_roots)
  have "\<not> has_digest (ossl_sha1 an_openssl) a_digest []" by code_simp
  then have prefix: "\<forall>k<length ''x''. \<not> has_digest (name_hash an_openssl (cl_algorithm ?s))
      (cl_ascii_digest ?s) (take k ''x'')"
    unfolding s by (simp add: name_hash_def)
  have lib: "0 < lib_msg_size a_lib" by (simp add: a_lib_def)
  note main = blob_reaches_client [OF an_openssl_ok an_x_child_ok r net s(1) a_client_digest
      a_client_prepared [OF a_digest_name] s(2,3) lib node prefix]
  show ?thesis
    by (rule after_mono [OF main]) (auto simp only: s append_Nil elim!: after_mono)
qed


section \<open>Client and server agree on digests\<close>

lemma fed_known:
  assumes "blob_name a"
  shows "H bs = nib2digest a \<longleftrightarrow> has_digest H a bs"
  using nib2digest_name [OF assms] digest_text_inj [of "H bs" "nib2digest a"] by (auto simp: has_digest_def)



end
