(* ===== verification/Cli_Store.thy ===== *)
theory Cli_Store
  imports Cli_Server
begin

text \<open>
  The way of a blob from the client into the store: \<^verbatim>\<open>put\<close> of client, server and arborist together,
  when no call fails.
\<close>

section \<open>The arborist makes a path and renames\<close>

definition standing :: "(bytes \<times> node) list \<Rightarrow> bytes \<Rightarrow> bool" where
  "standing ns p \<longleftrightarrow> map_of ns p = Some Dir \<or> map_of ns p = Some Link"

text \<open>Directories in an order in which each one's parent comes before it.\<close>

fun parents_first :: "bytes set \<Rightarrow> bytes list \<Rightarrow> bool" where
  "parents_first seen [] = True"
| "parents_first seen (d # ds) \<longleftrightarrow>
     d \<noteq> [] \<and> (dir_of d = None \<or> dir_of d \<in> Some ` seen) \<and> parents_first (insert d seen) ds"

lemma dir_of_snoc: "dir_of (p @ [c]) = (if c = CHR ''/'' then Some p else dir_of p)"
  by (auto simp: dir_of_def)

lemma slash_prefixes_parents:
  assumes "dir_of acc = None \<or> dir_of acc \<in> Some ` seen" and "acc = [] \<Longrightarrow> take 1 p \<noteq> ''/''"
  shows "parents_first seen (slash_prefixes acc p) \<and>
    (dir_of (acc @ p) = None \<or> dir_of (acc @ p) \<in> Some ` (seen \<union> set (slash_prefixes acc p)))"
  using assms
proof (induction acc p arbitrary: seen rule: slash_prefixes.induct)
  case (2 acc c p)
  show ?case
  proof (cases "c = CHR ''/''")
    case True
    then have "parents_first (insert acc seen) (slash_prefixes (acc @ [c]) p) \<and>
        (dir_of ((acc @ [c]) @ p) = None \<or>
         dir_of ((acc @ [c]) @ p) \<in> Some ` (insert acc seen \<union> set (slash_prefixes (acc @ [c]) p)))"
      by (intro "2.IH"(1)) (auto simp: dir_of_snoc)
    with True 2(3,4) show ?thesis by auto
  next
    case False
    then have "parents_first seen (slash_prefixes (acc @ [c]) p) \<and>
        (dir_of ((acc @ [c]) @ p) = None \<or>
         dir_of ((acc @ [c]) @ p) \<in> Some ` (seen \<union> set (slash_prefixes (acc @ [c]) p)))"
      using 2(3) by (intro "2.IH"(2)) (auto simp: dir_of_snoc)
    with False show ?thesis by simp
  qed
qed auto

lemma make_path_calm:
  assumes "fs_faults w = []" and "d \<noteq> []" and "dir_of d = None \<or> dir_of d \<in> Some ` seen"
    and "\<forall>p \<in> seen. standing (fs_nodes w) p" and "\<forall>bs. map_of (fs_nodes w) d \<noteq> Some (File bs)"
  shows "\<exists>ns. arbor_make_path d w = (False, w\<lparr>fs_nodes := ns\<rparr>) \<and> standing ns d \<and>
    (\<forall>p. p \<noteq> d \<longrightarrow> map_of ns p = map_of (fs_nodes w) p)"
proof (cases "map_of (fs_nodes w) d")
  case None
  have "parent_there d (fs_nodes w)"
    using assms(3,4) by (auto simp: parent_there_def standing_def)
  then show ?thesis
    using assms(1,2) None
    by (intro exI [of _ "set_node d Dir (fs_nodes w)"])
      (simp add: arbor_make_path_def io_fs_mkdir_def fs_call_def standing_def)
next
  case (Some n)
  then have "standing (fs_nodes w) d" using assms(5) by (cases n) (auto simp: standing_def)
  then show ?thesis
    using assms(1,2) Some
    by (intro exI [of _ "fs_nodes w"])
      (simp add: arbor_make_path_def io_fs_mkdir_def fs_call_def)
qed

lemma make_dirs_calm:
  "fs_faults w = [] \<Longrightarrow> parents_first seen ds \<Longrightarrow> \<forall>p \<in> seen. standing (fs_nodes w) p \<Longrightarrow>
   \<forall>d \<in> set ds. \<forall>bs. map_of (fs_nodes w) d \<noteq> Some (File bs) \<Longrightarrow>
   \<exists>ns. make_dirs ds w = (False, w\<lparr>fs_nodes := ns\<rparr>) \<and>
     (\<forall>p \<in> seen \<union> set ds. standing ns p) \<and>
     (\<forall>p. p \<notin> set ds \<longrightarrow> map_of ns p = map_of (fs_nodes w) p)"
proof (induction ds arbitrary: w seen)
  case Nil
  then show ?case by (intro exI [of _ "fs_nodes w"]) simp
next
  case (Cons d ds)
  obtain ns where ns: "arbor_make_path d w = (False, w\<lparr>fs_nodes := ns\<rparr>)" "standing ns d"
    "\<forall>p. p \<noteq> d \<longrightarrow> map_of ns p = map_of (fs_nodes w) p"
    using make_path_calm [of w d seen] Cons.prems by auto
  let ?w = "w\<lparr>fs_nodes := ns\<rparr>"
  have "\<exists>ns'. make_dirs ds ?w = (False, ?w\<lparr>fs_nodes := ns'\<rparr>) \<and>
      (\<forall>p \<in> insert d seen \<union> set ds. standing ns' p) \<and>
      (\<forall>p. p \<notin> set ds \<longrightarrow> map_of ns' p = map_of (fs_nodes ?w) p)"
  proof (rule Cons.IH)
    show "\<forall>p \<in> insert d seen. standing (fs_nodes ?w) p"
      using ns(2,3) Cons.prems(3) by (auto simp: standing_def) metis+
    show "\<forall>e \<in> set ds. \<forall>bs. map_of (fs_nodes ?w) e \<noteq> Some (File bs)"
    proof (intro ballI allI)
      fix e bs
      assume "e \<in> set ds"
      then show "map_of (fs_nodes ?w) e \<noteq> Some (File bs)"
        using ns(2,3) Cons.prems(4) by (cases "e = d") (auto simp: standing_def)
    qed
  qed (use Cons.prems in simp_all)
  then show ?case using ns by (auto simp: standing_def)
qed

lemma rename_blob_calm:
  assumes "fs_faults w = []" and "one_device w" and "map_of (fs_nodes w) src = Some (File bs)"
    and "take 1 tgt \<noteq> ''/''" and "src \<notin> set (slash_prefixes [] tgt)" and "src \<noteq> tgt"
    and "tgt \<notin> set (slash_prefixes [] tgt)"
    and "\<forall>d \<in> set (slash_prefixes [] tgt). \<forall>bs. map_of (fs_nodes w) d \<noteq> Some (File bs)"
    and "map_of (fs_nodes w) tgt \<noteq> Some Dir"
  shows "\<exists>ns. rename_blob src tgt w = (False, w\<lparr>fs_nodes := ns\<rparr>) \<and> map_of ns tgt = Some (File bs) \<and>
    map_of ns src = None"
proof -
  let ?ds = "slash_prefixes [] tgt"
  have "parents_first {} ?ds \<and> (dir_of ([] @ tgt) = None \<or> dir_of ([] @ tgt) \<in> Some ` ({} \<union> set ?ds))"
    by (rule slash_prefixes_parents) (use assms(4) in \<open>simp_all add: dir_of_def\<close>)
  then have p: "parents_first {} ?ds" "dir_of tgt = None \<or> dir_of tgt \<in> Some ` set ?ds" by simp_all
  obtain ns where ns: "make_dirs ?ds w = (False, w\<lparr>fs_nodes := ns\<rparr>)"
    "\<forall>p \<in> set ?ds. standing ns p" "\<forall>p. p \<notin> set ?ds \<longrightarrow> map_of ns p = map_of (fs_nodes w) p"
    using make_dirs_calm [OF assms(1) p(1)] assms(8) by auto
  have t: "parent_there tgt ns" using p(2) ns(2) by (auto simp: parent_there_def standing_def)
  have "io_fs_rename src tgt (w\<lparr>fs_nodes := ns\<rparr>) =
      (Inr (), w\<lparr>fs_nodes := set_node tgt (File bs) (del_node src ns)\<rparr>)"
    using assms(1-3,5,6,7,9) ns(3) t
    by (simp add: io_fs_rename_def fs_call_def one_device_def)
  then show ?thesis
    using ns(1) assms(1,6)
    by (intro exI [of _ "set_node tgt (File bs) (del_node src ns)"]) (simp add: rename_blob_def fs_touch_calm)
qed

lemma arbor_rename_calm:
  assumes "fs_faults w = []" and "one_device w" and "map_of (fs_nodes w) src = Some (File bs)"
    and "take 1 tgt \<noteq> ''/''" and "src \<notin> set (slash_prefixes [] tgt)" and "src \<noteq> tgt"
    and "tgt \<notin> set (slash_prefixes [] tgt)"
    and "\<forall>d \<in> set (slash_prefixes [] tgt). \<forall>bs. map_of (fs_nodes w) d \<noteq> Some (File bs)"
    and "map_of (fs_nodes w) tgt \<noteq> Some Dir"
    and "NUL \<notin> set src" and "NUL \<notin> set tgt"
    and "length (arbor_fifo pid) + length src + length tgt \<le> 251"
  shows "\<exists>ns. arbor_rename pid src tgt w = (ArborDone, w\<lparr>fs_nodes := ns\<rparr>) \<and>
    map_of ns tgt = Some (File bs) \<and> map_of ns src = None"
proof -
  obtain ns where ns: "rename_blob src tgt w = (False, w\<lparr>fs_nodes := ns\<rparr>)"
    "map_of ns tgt = Some (File bs)" "map_of ns src = None" using rename_blob_calm [OF assms(1-9)] by blast
  obtain msg where msg: "arbor_message (CHR ''R'') (arbor_fifo pid) src tgt = Some msg"
    using assms(12) by (simp add: arbor_message_def Let_def MSG_SIZE_def)
  have "arbor_parse msg = Rename (arbor_fifo pid) src tgt"
    using arbor_parse_message [OF fifo_no_nul assms(10,11) msg] by simp
  then show ?thesis
    using ns assms(1) msg
    by (intro exI [of _ ns])
      (simp add: arbor_rename_def arbor_send_def arborist_serve_def arbor_reply_def fs_touch_calm)
qed


section \<open>The bytes arrive\<close>

text \<open>A request whose temporary file has the bytes read so far.\<close>

definition collecting :: "bytes \<Rightarrow> bytes \<Rightarrow> blob_fs request \<Rightarrow> blob_fs request \<Rightarrow> bool" where
  "collecting tmp ctx r t \<longleftrightarrow>
     calm t \<and> rq_sent t = rq_sent r \<and> rq_chat_history t = rq_chat_history r \<and>
     rq_digest t = rq_digest r \<and>
     fr_digest (rq_module t) = fr_digest (rq_module r) \<and> fr_pid (rq_module t) = fr_pid (rq_module r) \<and>
     fs_dev (rq_module t) = fs_dev (rq_module r) \<and>
     map_of (fs_nodes (rq_module t)) tmp = Some (File ctx) \<and>
     (\<forall>p. p \<noteq> tmp \<longrightarrow> map_of (fs_nodes (rq_module t)) p = map_of (fs_nodes (rq_module r)) p)"

lemma eat_chunk_calm:
  assumes "collecting tmp ctx r t"
  shows "\<exists>u. eat_chunk H tmp ctx chunk t = Ret (fr_digest (rq_module r) = H (ctx @ chunk)) u \<and>
    collecting tmp (ctx @ chunk) r u \<and> rq_in u = rq_in t \<and> rq_scan_buf u = rq_scan_buf t"
  using assms
  by (auto simp: eat_chunk_def on_module_def io_fs_append_def fs_call_def collecting_def calm_def)

lemma collecting_in [simp]:
  "collecting tmp ctx r (t\<lparr>rq_in := evs\<rparr>) = collecting tmp ctx r t"
  "collecting tmp ctx r (t\<lparr>rq_blob_size := n\<rparr>) = collecting tmp ctx r t"
  by (simp_all add: collecting_def calm_def)

lemma put_loop_calm:
  "collecting tmp ctx r t \<Longrightarrow> quiet (rq_in t) \<Longrightarrow> net_data (rq_in t) \<noteq> [] \<Longrightarrow>
   fr_digest (rq_module r) = H (ctx @ net_data (rq_in t)) \<Longrightarrow>
   (\<And>k. k < length (net_data (rq_in t)) \<Longrightarrow> fr_digest (rq_module r) \<noteq> H (ctx @ take k (net_data (rq_in t)))) \<Longrightarrow>
   after (\<lambda>digested u. digested \<and> collecting tmp (ctx @ net_data (rq_in t)) r u) (\<lambda>_. False)
     (put_loop H tmp cp ctx t)"
proof (induction "net_size (rq_in t)" arbitrary: cp ctx t rule: less_induct)
  case less
  let ?n = "if cp < CHUNK_SIZE then CHUNK_SIZE - cp else CHUNK_SIZE"
  have n: "0 < ?n" by (simp add: CHUNK_SIZE_def)
  obtain bs evs where rd: "req_read t ?n = Ret (RqBytes bs) (t\<lparr>rq_in := evs\<rparr>)" "quiet evs"
    "net_data (rq_in t) = bs @ net_data evs" "bs = [] \<longrightarrow> net_data (rq_in t) = []"
    using req_read_quiet [OF less.prems(2) n] by blast
  have ne: "bs \<noteq> []" using rd(4) less.prems(3) by auto
  then obtain b bs' where bs: "bs = b # bs'" by (cases bs) auto
  let ?t = "t\<lparr>rq_in := evs, rq_blob_size := rq_blob_size t + of_nat (length bs)\<rparr>"
  have br: "blob_read t ?n = Ret (RqBytes (b # bs')) ?t"
    using rd(1) ne bs by (simp add: blob_read_def)
  obtain u where u: "eat_chunk H tmp ctx bs ?t = Ret (fr_digest (rq_module r) = H (ctx @ bs)) u"
    "collecting tmp (ctx @ bs) r u" "rq_in u = evs"
    using eat_chunk_calm [of tmp ctx r ?t H bs] less.prems(1) by auto
  show ?case
  proof (cases "net_data evs = []")
    case True
    then have "fr_digest (rq_module r) = H (ctx @ bs)" using less.prems(4) rd(3) by simp
    then show ?thesis
      using br u bs True rd(3) by (subst put_loop.simps) simp
  next
    case False
    then have d: "fr_digest (rq_module r) \<noteq> H (ctx @ bs)"
      using less.prems(5) [of "length bs"] rd(3) by simp
    have "net_size evs < net_size (rq_in t)"
      using req_read_size [OF rd(1) ne n] by simp
    moreover have "fr_digest (rq_module r) \<noteq> H ((ctx @ bs) @ take k (net_data evs))"
      if "k < length (net_data evs)" for k
      using less.prems(5) [of "length bs + k"] rd(3) that by simp
    ultimately have "after (\<lambda>digested v. digested \<and> collecting tmp ((ctx @ bs) @ net_data (rq_in u)) r v) (\<lambda>_. False)
        (put_loop H tmp ((if cp < CHUNK_SIZE then cp else 0) + length bs) (ctx @ bs) u)"
      using less.prems(4) rd(2,3) u False by (intro less.hyps) simp_all
    then show ?thesis
      using br u bs d rd(3) by (subst put_loop.simps) simp
  qed
qed


text \<open>The whole blob, read with the request and after it.\<close>

lemma put_chunks_calm:
  assumes "collecting tmp [] r t" and "quiet (rq_in t)" and "rq_scan_buf t @ net_data (rq_in t) = bs"
    and "rq_blob_size t = of_nat (length (rq_scan_buf t))" and "length (rq_scan_buf t) < MSG_SIZE"
    and "fr_digest (rq_module r) = H bs"
    and "\<forall>k<length bs. fr_digest (rq_module r) \<noteq> H (take k bs)"
    and "rq_digest r = em \<longleftrightarrow> bs = []"
  shows "after (\<lambda>digested u. digested \<and> collecting tmp bs r u) (\<lambda>_. False) (ripe_put_chunks em H tmp t)"
proof -
  have d: "rq_digest t = rq_digest r" using assms(1) by (simp add: collecting_def)
  show ?thesis
  proof (cases "bs = []")
    case True
    then show ?thesis using assms(1,8) d by (simp add: ripe_put_chunks_def)
  next
    case ne: False
    show ?thesis
    proof (cases "rq_scan_buf t = []")
      case True
      have "after (\<lambda>digested u. digested \<and> collecting tmp ([] @ net_data (rq_in t)) r u) (\<lambda>_. False)
          (put_loop H tmp 0 [] t)"
        using assms(1-3,6,7) True ne by (intro put_loop_calm) simp_all
      then show ?thesis using assms(3,8) True ne d by (simp add: ripe_put_chunks_def)
    next
      case False
      let ?sb = "rq_scan_buf t" and ?rest = "net_data (rq_in t)"
      obtain u where u: "eat_chunk H tmp [] ?sb t = Ret (fr_digest (rq_module r) = H ?sb) u"
        "collecting tmp ?sb r u" "rq_in u = rq_in t"
        using eat_chunk_calm [OF assms(1), of H ?sb] by auto
      have scanned: "after (\<lambda>digested u. digested \<and> collecting tmp bs r u) (\<lambda>_. False) (put_scanned H tmp t)"
      proof (cases "?rest = []")
        case True
        then show ?thesis using u assms(3,6) by (simp add: put_scanned_def)
      next
        case rest: False
        then have "fr_digest (rq_module r) \<noteq> H ?sb"
          using assms(3,7) by (auto dest: spec [of _ "length ?sb"])
        moreover have "after (\<lambda>digested v. digested \<and> collecting tmp (?sb @ net_data (rq_in u)) r v) (\<lambda>_. False)
            (put_loop H tmp 0 ?sb u)"
        proof (rule put_loop_calm [OF u(2)])
          fix k
          assume "k < length (net_data (rq_in u))"
          then show "fr_digest (rq_module r) \<noteq> H (?sb @ take k (net_data (rq_in u)))"
            using assms(3,7) u(3) by (auto dest: spec [of _ "length ?sb + k"])
        qed (use assms(2,3,6) u(3) rest in simp_all)
        ultimately show ?thesis using u(1,3) assms(3) by (simp add: put_scanned_def)
      qed
      show ?thesis
        using scanned assms(4,5,8) False ne d
        by (simp add: ripe_put_chunks_def MSG_SIZE_def CHUNK_SIZE_def)
    qed
  qed
qed

lemma sha_chunks_calm:
  assumes "rq_blob_size t = of_nat (length (rq_scan_buf t))" and "length (rq_scan_buf t) < MSG_SIZE"
  shows "sha_put_chunks H tmp t = ripe_put_chunks empty_ascii H tmp t"
  using assms by (auto simp: sha_put_chunks_def ripe_put_chunks_def MSG_SIZE_def CHUNK_SIZE_def)

section \<open>The blob moves to its place\<close>

lemma prefix_shape:
  "d \<in> set (slash_prefixes acc p) \<Longrightarrow> (\<exists>t. d = acc @ t) \<and> length d < length acc + length p"
  by (induction acc p rule: slash_prefixes.induct) (auto split: if_splits)

lemma blob_path_prefixes:
  assumes "root \<in> set store_roots" and "p \<in> set (slash_prefixes [] (blob_path root d))"
  shows "take 4 p = ''data''" "p \<noteq> blob_path root d"
proof -
  show "p \<noteq> blob_path root d" using prefix_shape [OF assms(2)] by auto
  obtain q where "blob_path root d = ''data/'' @ q"
    using assms(1) by (auto simp: store_roots_def blob_path_def blob_dir_def)
  then consider "p = ''data''" | "p \<in> set (slash_prefixes ''data/'' q)" using assms(2) by auto
  then show "take 4 p = ''data''"
  proof cases
    case 2
    then show ?thesis using prefix_shape [of p "''data/''" q] by auto
  qed simp
qed

text \<open>
  There is room for a blob: the temporary path is free and its directory is there, no file stands in
  the way of the directories and no directory in the place of the blob, and the message to the
  arborist fits.
\<close>

definition room_for :: "bytes \<Rightarrow> bytes \<Rightarrow> blob_fs \<Rightarrow> bool" where
  "room_for tmp tgt w \<longleftrightarrow>
     map_of (fs_nodes w) tmp = None \<and> parent_there tmp (fs_nodes w) \<and>
     (\<forall>d \<in> set (slash_prefixes [] tgt). \<forall>bs. map_of (fs_nodes w) d \<noteq> Some (File bs)) \<and>
     map_of (fs_nodes w) tgt \<noteq> Some Dir \<and>
     length (arbor_fifo (fr_pid w)) + length tmp + length tgt \<le> 251"

definition put_done :: "bytes \<Rightarrow> bytes \<Rightarrow> bytes \<Rightarrow> blob_fs request \<Rightarrow> int \<Rightarrow> blob_fs request \<Rightarrow> bool" where
  "put_done root d bs r st v \<longleftrightarrow>
     st = 0 \<and> calm v \<and> rq_sent v = rq_sent r \<and> rq_chat_history v = rq_chat_history r \<and>
     map_of (fs_nodes (rq_module v)) (blob_path root d) = Some (File bs)"

lemma put_finish_calm:
  assumes "collecting tmp bs r u" and "room_for tmp (blob_path root (rq_digest r)) (rq_module r)"
    and "one_device (rq_module r)" and "root \<in> set store_roots" and "blob_name (rq_digest r)"
    and "take 4 tmp \<noteq> ''data''" and "NUL \<notin> set tmp"
  shows "after (put_done root (rq_digest r) bs r) (\<lambda>_. False) (put_finish root tmp True u)"
proof -
  let ?tgt = "blob_path root (rq_digest r)"
  let ?u = "make_path root (rq_digest u) u"
  have u: "fs_faults (rq_module ?u) = []" "one_device (rq_module ?u)"
    "map_of (fs_nodes (rq_module ?u)) tmp = Some (File bs)" "fr_blob_path (rq_module ?u) = ?tgt"
    "fr_pid (rq_module ?u) = fr_pid (rq_module r)" "rq_sent ?u = rq_sent r"
    "rq_chat_history ?u = rq_chat_history r" "rq_peer ?u = []"
    "\<forall>p. p \<noteq> tmp \<longrightarrow> map_of (fs_nodes (rq_module ?u)) p = map_of (fs_nodes (rq_module r)) p"
    using assms(1,3) by (auto simp: collecting_def calm_def make_path_def one_device_def blob_path_def)
  have t4: "take 4 ?tgt = ''data''" "take 1 ?tgt \<noteq> ''/''"
    using assms(4) by (auto simp: store_roots_def blob_path_def blob_dir_def)
  note pre = blob_path_prefixes [OF assms(4), of _ "rq_digest r"]
  have free: "\<forall>d \<in> set (slash_prefixes [] ?tgt). \<forall>bs. map_of (fs_nodes (rq_module ?u)) d \<noteq> Some (File bs)"
    and notdir: "map_of (fs_nodes (rq_module ?u)) ?tgt \<noteq> Some Dir"
    using assms(2,6) u(9) pre(1) t4(1) unfolding room_for_def by metis+
  have fits: "length (arbor_fifo (fr_pid (rq_module r))) + length tmp + length ?tgt \<le> 251"
    using assms(2) by (simp add: room_for_def)
  have nul: "NUL \<notin> set ?tgt" by (rule blob_path_no_nul [OF assms(5,4)])
  have apart: "tmp \<notin> set (slash_prefixes [] ?tgt)" "tmp \<noteq> ?tgt" "?tgt \<notin> set (slash_prefixes [] ?tgt)"
    using assms(6) pre t4(1) by blast+
  obtain ns where ns: "arbor_rename (fr_pid (rq_module r)) tmp ?tgt (rq_module ?u) =
      (ArborDone, (rq_module ?u)\<lparr>fs_nodes := ns\<rparr>)" "map_of ns ?tgt = Some (File bs)" "map_of ns tmp = None"
    using arbor_rename_calm [OF u(1-3) t4(2) apart free notdir assms(7) nul fits] by blast
  have un: "io_fs_unlink tmp m = (Inr (), m)" if "fs_faults m = []" "fs_nodes m = ns" for m :: blob_fs
    using ns(3) that by (simp add: io_fs_unlink_def fs_call_def)
  show ?thesis
    using ns u(1,4-8)
    by (simp add: put_finish_def Let_def on_module_def arbor_done_def put_cleanup_def blob_close_calm
        blob_unlink_def un put_done_def calm_def)
qed


text \<open>What the bytes of a \<^verbatim>\<open>put\<close> must be: the first of their beginnings with the digest.\<close>

definition blob_bytes :: "(bytes \<Rightarrow> ui8 list) \<Rightarrow> bytes \<Rightarrow> bytes \<Rightarrow> bool" where
  "blob_bytes H d bs \<longleftrightarrow> has_digest H d bs \<and> (\<forall>k<length bs. \<not> has_digest H d (take k bs))"

lemma put_stream_calm:
  assumes "calm r" and "quiet (rq_in r)" and "rq_scan_buf r @ net_data (rq_in r) = bs"
    and "rq_blob_size r = of_nat (length (rq_scan_buf r))" and "length (rq_scan_buf r) < MSG_SIZE"
    and "root \<in> set store_roots" and "blob_name (rq_digest r)" and "NUL \<notin> set (rq_verb r)"
    and "tmp_apart (rq_module r)" and "one_device (rq_module r)"
    and "room_for (put_tmp_path r) (blob_path root (rq_digest r)) (rq_module r)"
    and "concat (map encode_byte (fr_digest (rq_module r))) = rq_digest r"
    and "blob_bytes H (rq_digest r) bs" and "has_digest H em []"
    and "\<And>tmp t. rq_blob_size t = rq_blob_size r \<Longrightarrow> rq_scan_buf t = rq_scan_buf r \<Longrightarrow>
      chunks tmp t = ripe_put_chunks em H tmp t"
  shows "after (put_done root (rq_digest r) bs r) (\<lambda>_. False) (put_stream chunks root r)"
proof -
  let ?tmp = "put_tmp_path r"
  let ?t = "r\<lparr>rq_module := (rq_module r)\<lparr>fs_nodes := set_node ?tmp (File []) (fs_nodes (rq_module r)),
      fr_blob_fd := Writing ?tmp\<rparr>\<rparr>"
  have create: "on_module (io_fs_create ?tmp) r =
      (Inr (), r\<lparr>rq_module := (rq_module r)\<lparr>fs_nodes := set_node ?tmp (File []) (fs_nodes (rq_module r))\<rparr>\<rparr>)"
    using assms(1,11) by (simp add: on_module_def io_fs_create_def fs_call_def calm_def room_for_def)
  have t: "collecting ?tmp [] r ?t" using assms(1) by (simp add: collecting_def calm_def)
  have dig: "fr_digest (rq_module r) = H x \<longleftrightarrow> has_digest H (rq_digest r) x" for x
    using assms(12) digest_text_inj [of "H x" "fr_digest (rq_module r)"] by (auto simp: has_digest_def)
  have em: "rq_digest r = em \<longleftrightarrow> bs = []"
  proof
    assume "rq_digest r = em"
    then show "bs = []" using assms(13,14) by (auto simp: blob_bytes_def dest: spec [of _ 0])
  next
    assume "bs = []"
    then show "rq_digest r = em" using assms(13,14) by (simp add: blob_bytes_def has_digest_def)
  qed
  have chunk: "after (\<lambda>digested u. digested \<and> collecting ?tmp bs r u) (\<lambda>_. False) (chunks ?tmp ?t)"
    unfolding assms(15) [of ?t, simplified]
    by (rule put_chunks_calm [OF t])
      (use assms(2-5,13) em in \<open>simp_all add: dig blob_bytes_def\<close>)
  have t4: "take 4 ?tmp \<noteq> ''data''"
    unfolding put_tmp_path_def Let_def
    by (rule tmp_path_not_data [OF assms(9) refl]) (simp add: MAX_FILE_PATH_LEN_def)
  have "NUL \<notin> set (rq_digest r)" using assms(7) hexchar_no_nul by (auto simp: blob_name_def)
  then have nul: "NUL \<notin> set ?tmp" using put_tmp_path_ok(2) [OF assms(9,8)] by blast
  show ?thesis
    unfolding put_stream_def Let_def create prod.case sum.case after_proceed
    by (simp, rule after_mono [OF chunk])
      (auto intro!: put_finish_calm [OF _ assms(11,10,6,7) t4 nul])
qed


section \<open>The server serves a put\<close>

lemma open_ret:
  assumes "rq_verb r \<noteq> ''wrap''" and "blob_name (rq_digest r)"
    and "open \<in> {fs_sha_open, fs_bc160_open, fs_btc20_open}"
  obtains want where "open r = Ret 0 (r\<lparr>rq_module := (rq_module r)\<lparr>fr_blob_dir_path := [],
      fr_blob_path := [], fr_digest := want, fr_blob_fd := NoFd\<rparr>\<rparr>)"
    and "concat (map encode_byte want) = rq_digest r"
proof -
  obtain want where "decode_hex (rq_digest r) (replicate 20 0) = Some want"
    "concat (map encode_byte want) = rq_digest r" using assms(2) by (rule blob_name_decode)
  with assms nib2digest_name [OF assms(2)] show ?thesis
    by (intro that [of "if open r = fs_sha_open r then want else nib2digest (rq_digest r)"])
      (auto simp: fs_sha_open_def fs_bc160_open_def fs_btc20_open_def ripe_open_def Let_def)
qed

lemma close_keeps:
  assumes "calm r" and "close \<in> {fs_sha_close, fs_bc160_close, fs_btc20_close}"
  shows "after (\<lambda>_ t. rq_sent t = rq_sent r \<and> rq_chat_history t = rq_chat_history r \<and>
    fs_nodes (rq_module t) = fs_nodes (rq_module r)) (\<lambda>_. False) (close st r)"
  using assms
  by (auto simp: fs_sha_close_def fs_bc160_close_def fs_btc20_close_def blob_close_calm calm_def)

lemma write_ok_again:
  "calm r \<Longrightarrow> rq_chat_history r = ''ok'' \<Longrightarrow>
   write_ok r = Ret 0 (r\<lparr>rq_sent := rq_sent r @ ''ok'' @ [NL], rq_chat_history := ''ok,ok''\<rparr>)"
  by (simp add: write_ok_def req_write_def calm_def net_write_calm add_chat_history_def CHAT_SIZE_def Let_def)

definition name_empty :: "bytes \<Rightarrow> bytes" where
  "name_empty name =
     (if name = ''sha'' then empty_ascii else if name = ''bc160'' then bc160_empty else btc20_empty)"

lemma module_stores:
  assumes "name \<in> {''sha'', ''bc160'', ''btc20''}"
  obtains mp chunks where "module_get (bio4d_modules ssl trust) name = Some mp"
    and "dm_open mp \<in> {fs_sha_open, fs_bc160_open, fs_btc20_open}"
    and "dm_close mp \<in> {fs_sha_close, fs_bc160_close, fs_btc20_close}"
    and "\<forall>r. dm_put_request mp r = Ret 0 r"
    and "\<forall>r. dm_put_bytes mp r = put_stream chunks (algorithm_root name) r"
    and "\<forall>tmp t. rq_blob_size t = of_nat (length (rq_scan_buf t)) \<longrightarrow> length (rq_scan_buf t) < MSG_SIZE \<longrightarrow>
      chunks tmp t = ripe_put_chunks (name_empty name) (name_hash ssl name) tmp t"
    and "\<forall>d. blob_name d \<longrightarrow> dm_is_digest mp d \<noteq> 0"
proof -
  consider "name = ''sha''" | "name = ''bc160''" | "name = ''btc20''" using assms by auto
  then show thesis
  proof cases
    case 1
    show ?thesis
      by (rule that [of "fs_sha_module (ossl_sha1 ssl)" "sha_put_chunks (ossl_sha1 ssl)"])
        (use 1 in \<open>auto simp: modules_names fs_sha_module_def fs_sha_put_request_def algorithm_roots
          fs_sha_put_bytes_def name_hash_def name_empty_def sha_chunks_calm fs_sha_is_digest_def
          sha_scan_iff blob_name_def\<close>)
  next
    case 2
    show ?thesis
      by (rule that [of "fs_bc160_module ssl trust" "ripe_put_chunks bc160_empty (bc160_hash ssl)"])
        (use 2 in \<open>auto simp: modules_names fs_bc160_module_def fs_bc160_put_request_def algorithm_roots
          fs_bc160_put_bytes_def name_hash_def name_empty_def bc160_is_digest_name\<close>)
  next
    case 3
    show ?thesis
      by (rule that [of "fs_btc20_module ssl trust" "ripe_put_chunks btc20_empty (btc20_hash ssl)"])
        (use 3 in \<open>auto simp: modules_names fs_btc20_module_def fs_btc20_put_request_def algorithm_roots
          fs_btc20_put_bytes_def name_hash_def name_empty_def btc20_is_digest_name\<close>)
  qed
qed

lemma name_empty_digest:
  "openssl_ok ssl \<Longrightarrow> name \<in> {''sha'', ''bc160'', ''btc20''} \<Longrightarrow>
   has_digest (name_hash ssl name) (name_empty name) []"
  by (auto simp: openssl_ok_def has_digest_def name_hash_def name_empty_def)

text \<open>The request as the handler finds it.\<close>

definition put_room :: "bytes \<Rightarrow> bytes \<Rightarrow> blob_fs request \<Rightarrow> bool" where
  "put_room name d r \<longleftrightarrow>
     room_for (put_tmp_path (r\<lparr>rq_verb := ''put'', rq_algorithm := name, rq_digest := d\<rparr>))
       (blob_path (algorithm_root name) d) (rq_module r)"

lemma bio4d_puts:
  assumes "openssl_ok ssl" and "name \<in> {''sha'', ''bc160'', ''btc20''}" and "blob_name d"
    and "child_ok ssl r" and "calm r" and "rq_sent r = []" and "put_room name d r"
    and "quiet (rq_in r)" and "b @ net_data (rq_in r) = bs" and "length b < MSG_SIZE"
    and "blob_bytes (name_hash ssl name) d bs"
    and "sc_verb s = ''put''" and "sc_algorithm s = name" and "sc_digest s = d"
  shows "after (\<lambda>_ t. rq_sent t = (''ok'' @ [NL]) @ ''ok'' @ [NL] \<and> rq_chat_history t = ''ok,ok'' \<and>
      map_of (fs_nodes (rq_module t)) (blob_path (algorithm_root name) d) = Some (File bs)) (\<lambda>_. False)
    (bio4d (bio4d_server ssl trust alg exists stack) s b r)"
proof -
  let ?sv = "bio4d_server ssl trust alg exists stack" and ?root = "algorithm_root name"
  obtain mp chunks where mp: "module_get (bio4d_modules ssl trust) name = Some mp"
    "dm_open mp \<in> {fs_sha_open, fs_bc160_open, fs_btc20_open}"
    "dm_close mp \<in> {fs_sha_close, fs_bc160_close, fs_btc20_close}"
    "\<forall>r. dm_put_request mp r = Ret 0 r"
    "\<forall>r. dm_put_bytes mp r = put_stream chunks ?root r"
    "\<forall>tmp t. rq_blob_size t = of_nat (length (rq_scan_buf t)) \<longrightarrow> length (rq_scan_buf t) < MSG_SIZE \<longrightarrow>
      chunks tmp t = ripe_put_chunks (name_empty name) (name_hash ssl name) tmp t"
    "\<forall>d. blob_name d \<longrightarrow> dm_is_digest mp d \<noteq> 0"
    by (rule module_stores [OF assms(2), of ssl trust])
  let ?r = "r\<lparr>rq_verb := ''put'', rq_step := [], rq_algorithm := name,
      rq_blob_size := of_nat (length b), rq_digest := d\<rparr>"
  obtain want where op: "dm_open mp ?r = Ret 0 (?r\<lparr>rq_module := (rq_module ?r)\<lparr>fr_blob_dir_path := [],
      fr_blob_path := [], fr_digest := want, fr_blob_fd := NoFd\<rparr>\<rparr>)"
    "concat (map encode_byte want) = d"
    using open_ret [OF _ _ mp(2), of ?r] assms(3) by auto
  let ?m = "(rq_module r)\<lparr>fr_blob_dir_path := [], fr_blob_path := [], fr_digest := want, fr_blob_fd := NoFd\<rparr>"
  let ?o = "?r\<lparr>rq_module := ?m, rq_scan_buf := b\<rparr>"
  let ?p = "(set_verb REQUEST_EXIT_STATUS_PUT ?o)\<lparr>rq_sent := ''ok'' @ [NL], rq_chat_history := ''ok'',
      rq_step := ''bytes''\<rparr>"
  have chat: "rq_chat_history r = []" and ok: "tmp_apart (rq_module r)" "one_device (rq_module r)"
    using assms(4) by (simp_all add: child_ok_def)
  have root: "?root \<in> set store_roots" using assms(2) by (auto simp: algorithm_root_def store_roots_def)
  have path: "put_tmp_path ?p = put_tmp_path (r\<lparr>rq_verb := ''put'', rq_algorithm := name, rq_digest := d\<rparr>)"
    by (simp add: put_tmp_path_def Let_def set_verb_def)
  have bytes: "after (put_done ?root (rq_digest ?p) bs ?p) (\<lambda>_. False) (put_stream chunks ?root ?p)"
  proof (rule put_stream_calm [OF _ _ _ _ _ root, where H = "name_hash ssl name" and em = "name_empty name"])
    show "room_for (put_tmp_path ?p) (blob_path ?root (rq_digest ?p)) (rq_module ?p)"
      unfolding path using assms(7) by (simp add: put_room_def room_for_def set_verb_def)
    show "has_digest (name_hash ssl name) (name_empty name) []"
      by (rule name_empty_digest [OF assms(1,2)])
  qed (use assms(3,5,8-11) ok op(2) mp(6) in
    \<open>simp_all add: set_verb_def calm_def tmp_apart_def one_device_def\<close>)
  have put: "after (\<lambda>_ t. calm t \<and> rq_sent t = (''ok'' @ [NL]) @ ''ok'' @ [NL] \<and> rq_chat_history t = ''ok,ok'' \<and>
      map_of (fs_nodes (rq_module t)) (blob_path ?root d) = Some (File bs)) (\<lambda>_. False) (put ?sv mp ?o)"
  proof -
    have w: "write_ok ((set_verb REQUEST_EXIT_STATUS_PUT ?o)\<lparr>rq_step := ''request''\<rparr>) =
        Ret 0 (?p\<lparr>rq_step := ''request''\<rparr>)"
      using assms(5,6) chat by (subst write_ok_calm) (simp_all add: set_verb_def calm_def)
    have "after (\<lambda>st t. put_done ?root d bs ?p st t) (\<lambda>_. False) (dm_put_bytes mp ?p)"
      using bytes mp(5) by (simp add: set_verb_def)
    then show ?thesis
      unfolding put_def Let_def
      by (simp add: mp(4) w, elim after_mono)
        (auto simp: put_done_def write_ok_again set_verb_def calm_def)
  qed
  have "name \<noteq> []" "d \<noteq> []" "dm_is_digest mp d \<noteq> 0"
    using assms(2,3) mp(7) by (auto simp: blob_name_def)
  moreover have "verb_callback ?sv ''put'' = Some (put ?sv)" by (simp add: verb_callback_def)
  ultimately have run: "bio4d ?sv s b r =
      proceed (put ?sv mp ?o) (\<lambda>status r. bio4d_close mp status r)"
    using assms(12-14) mp(1) op(1) by (simp add: bio4d_def Let_def)
  show ?thesis
    unfolding run bio4d_close_def after_proceed
    by (rule after_mono [OF put]) (auto intro!: after_mono [OF close_keeps [OF _ mp(3)]])
qed

lemma brr_send_keeps:
  "after (\<lambda>_ t. rq_sent t = rq_sent r \<and> rq_module t = rq_module r)
     (\<lambda>t. rq_sent t = rq_sent r \<and> rq_module t = rq_module r) (brr_send gmtime brr_mask r)"
  by (auto simp: brr_send_def Let_def split: prod.splits sum.splits)

lemma request_puts:
  assumes "openssl_ok ssl" and "name \<in> {''sha'', ''bc160'', ''btc20''}" and "blob_name d"
    and "child_ok ssl r" and "calm r" and "rq_sent r = []" and "put_room name d r"
    and "quiet (rq_in r)" and "net_data (rq_in r) = (''put '' @ name @ CHR '':'' # d @ [NL]) @ bs"
    and "blob_bytes (name_hash ssl name) d bs"
  shows "after (\<lambda>_ _. False)
    (\<lambda>t. rq_sent t = (''ok'' @ [NL]) @ ''ok'' @ [NL] \<and>
      map_of (fs_nodes (rq_module t)) (blob_path (algorithm_root name) d) = Some (File bs))
    (request_child (bio4d_server ssl trust alg exists stack) gmtime brr_mask end_time r)"
proof -
  let ?go = "bio4d (bio4d_server ssl trust alg exists stack)"
  let ?s = "scan_start\<lparr>sc_verb := ''put'', sc_algorithm := name, sc_digest := d\<rparr>"
  have hex: "\<forall>c \<in> set hexchar. c_isgraph c" by code_simp
  have ok: "scan_ok ?s"
    using assms(2,3) hex
    by (auto simp: scan_ok_def scan_start_def MAX_VERB_SIZE_def MAX_ALGORITHM_SIZE_def
        MAX_DIGEST_SIZE_def blob_name_def ctype_defs)
  have line: "request_line ?s (''put '' @ name @ CHR '':'' # d)" by (simp add: request_line_def)
  obtain st where "scan_chunk scan_start ((''put '' @ name @ CHR '':'' # d) @ [NL] @ bs) =
      Go (?s\<lparr>sc_state := st\<rparr>) bs"
    using scan_complete [OF line ok, of "[NL]" bs] by auto
  then obtain b evs where loop: "request_loop ?go scan_start r =
      proceed (?go (?s\<lparr>sc_state := st\<rparr>) b (r\<lparr>rq_in := evs\<rparr>)) (\<lambda>_ r. Ret True r)"
    "quiet evs" "b @ net_data evs = bs" "length b < MSG_SIZE"
    using request_loop_go [OF assms(8), of scan_start _ bs ?go] assms(9) by auto
  have "after (\<lambda>_ t. rq_sent t = (''ok'' @ [NL]) @ ''ok'' @ [NL] \<and> rq_chat_history t = ''ok,ok'' \<and>
      map_of (fs_nodes (rq_module t)) (blob_path (algorithm_root name) d) = Some (File bs)) (\<lambda>_. False)
      (?go (?s\<lparr>sc_state := st\<rparr>) b (r\<lparr>rq_in := evs\<rparr>))"
  proof (rule bio4d_puts [OF assms(1-3)])
    show "put_room name d (r\<lparr>rq_in := evs\<rparr>)" using assms(7) by (simp add: put_room_def put_tmp_path_def)
  qed (use assms(4-6,10) loop(2-4) in \<open>simp_all add: child_ok_def calm_def\<close>)
  then show ?thesis
    unfolding request_child_def loop(1) after_proceed
    by (rule after_mono)
      (auto simp: encode_chat_def intro!: after_mono [OF brr_send_keeps])
qed

section \<open>The client sends a blob\<close>

lemma put_trusted_sends:
  "0 < lib_msg_size lib \<Longrightarrow> plain (cl_input s) \<Longrightarrow> cl_server_writes s = [] \<Longrightarrow>
   \<exists>evs. put_trusted lib s =
     Ret None (s\<lparr>cl_sent := cl_sent s @ event_data (cl_input s), cl_input := evs\<rparr>)"
proof (induction "events_left (cl_input s)" arbitrary: s rule: less_induct)
  case less
  obtain buf evs where r: "bio4_read (lib_msg_size lib) (cl_input s) = (Inr buf, evs)"
    "event_data (cl_input s) = buf @ event_data evs" "plain evs" "buf = [] \<longrightarrow> event_data (cl_input s) = []"
    using bio4_read_plain [OF less.prems(2,1)] by blast
  let ?s = "s\<lparr>cl_input := evs, cl_sent := cl_sent s @ buf\<rparr>"
  have w: "write_server buf (s\<lparr>cl_input := evs\<rparr>) = Ret None ?s"
    using less.prems(3) by (simp add: write_server_def)
  have step: "put_trusted lib s = (if buf = [] then Ret None ?s else put_trusted lib ?s)"
    by (subst put_trusted.simps) (simp add: read_input_def r(1) w unless_err_def)
  show ?case
  proof (cases "buf = []")
    case True
    then show ?thesis using r(2,4) step by (intro exI [of _ evs]) simp
  next
    case False
    then have "events_left evs < events_left (cl_input s)" using bio4_read_shrinks [OF r(1)] by simp
    then obtain evs' where "put_trusted lib ?s =
        Ret None (?s\<lparr>cl_sent := cl_sent ?s @ event_data evs, cl_input := evs'\<rparr>)"
      using less.hyps [of ?s] less.prems r(3) by auto
    then show ?thesis using False r(2) step by (intro exI [of _ evs']) simp
  qed
qed

text \<open>The two replies of the server, each in one piece.\<close>

definition two_replies :: "cli_event list \<Rightarrow> bool" where
  "two_replies evs \<longleftrightarrow>
     evs = [CData (''ok'' @ [NL]), CData (''ok'' @ [NL])] \<or> evs = [CData ((''ok'' @ [NL]) @ ''ok'' @ [NL])]"

lemma put_completes:
  assumes "0 < lib_msg_size lib" and "plain (cl_input s)" and "cl_server_writes s = []"
    and "two_replies (cl_server s)" and "cl_trust_fs s = -1"
  shows "after (\<lambda>err t. err = None \<and> cl_ok_no t = 0 \<and> cl_chat_history t = ''ok'' \<and>
      cl_sent t = cl_sent s @ make_request s @ event_data (cl_input s)) (\<lambda>_. False) (bio4_put lib s)"
proof -
  let ?s = "s\<lparr>cl_sent := cl_sent s @ make_request s\<rparr>" and ?ok = "''ok'' @ [NL]"
  have w: "write_server (make_request s) s = Ret None ?s"
    using assms(3) by (simp add: write_server_def)
  have rd: "reply_bytes 0 buf (CData (?ok @ x) # evs) =
      (Inr (?ok @ drop 3 buf), if x = [] then evs else CData x # evs)" for buf x evs
    by (subst reply_bytes.simps)
      (simp add: reply_bytes.simps [of "Suc _"] reply_bytes.simps [of 3] numeral_3_eq_3)
  have one: "\<exists>evs. read_ok_no lib ?s = Ret None (?s\<lparr>cl_server := evs, cl_ok_no := 0\<rparr>) \<and> evs = [CData ?ok]"
    using assms(4) rd [of "map (lib_stack lib) [0..<3]" "[]" "[CData ?ok]"]
      rd [of "map (lib_stack lib) [0..<3]" ?ok "[]"]
    by (auto simp: two_replies_def read_ok_no_def Let_def)
  let ?t = "?s\<lparr>cl_server := [CData ?ok], cl_ok_no := 0\<rparr>"
  obtain evs where p: "put_trusted lib ?t =
      Ret None (?t\<lparr>cl_sent := cl_sent ?t @ event_data (cl_input ?t), cl_input := evs\<rparr>)"
    using put_trusted_sends [of lib ?t] assms(1-3) by auto
  have two: "read_ok_no lib u = Ret None (u\<lparr>cl_server := [], cl_ok_no := 0\<rparr>)"
    if "cl_server u = [CData ?ok]" for u
    using rd [of "map (lib_stack lib) [0..<3]" "[]" "[]"] that by (simp add: read_ok_no_def Let_def)
  show ?thesis
    using one p assms(5) by (simp add: bio4_put_def w unless_err_def two bio4_set_brr_def)
qed

text \<open>
  C24: a blob that a client puts is stored.  The client sends a blob with the digest it names, and no
  beginning of which has the digest; the server reads it in any pieces, the arborist moves it into
  place, and no call fails.  Then the server answers twice and has the blob as a file under its
  name, and the client, whose bytes are what the server read, reports success.
\<close>

theorem blob_reaches_store:
  assumes "openssl_ok ssl" and "child_ok ssl r" and "calm r" and "rq_sent r = []"
    and "quiet (rq_in r)" and "net_data (rq_in r) = make_request s @ bs"
    and "cl_verb s = ''put''" and "find_digest ssl (cl_algorithm s) = Some di" and "prepared di s"
    and "cl_server_writes s = []" and "cl_trust_fs s = -1" and "0 < lib_msg_size lib"
    and "plain (cl_input s)" and "event_data (cl_input s) = bs"
    and "blob_bytes (name_hash ssl (cl_algorithm s)) (cl_ascii_digest s) bs"
    and "put_room (cl_algorithm s) (cl_ascii_digest s) r"
  shows "after (\<lambda>_ _. False)
      (\<lambda>t. rq_sent t = (''ok'' @ [NL]) @ ''ok'' @ [NL] \<and>
        map_of (fs_nodes (rq_module t))
          (blob_path (algorithm_root (cl_algorithm s)) (cl_ascii_digest s)) = Some (File bs))
      (request_child (bio4d_server ssl trust alg exists stack) gmtime brr_mask end_time r) \<and>
    (\<forall>evs. two_replies evs \<longrightarrow>
      after (\<lambda>err u. err = None \<and> cl_ok_no u = 0 \<and> cl_sent u = cl_sent s @ net_data (rq_in r)) (\<lambda>_. False)
        (bio4_put lib (s\<lparr>cl_server := evs\<rparr>)))"
proof -
  let ?name = "cl_algorithm s" and ?d = "cl_ascii_digest s"
  have d: "blob_name ?d" using assms(9) by (simp add: prepared_def)
  have n: "?name \<in> {''sha'', ''bc160'', ''btc20''}" using digests_of_names [OF assms(8)] by auto
  have req: "net_data (rq_in r) = (''put '' @ ?name @ CHR '':'' # ?d @ [NL]) @ bs"
    using assms(6,7) n d by (auto simp: make_request_def blob_name_def cstr_at_def)
  have "after (\<lambda>err u. err = None \<and> cl_ok_no u = 0 \<and> cl_sent u = cl_sent s @ net_data (rq_in r)) (\<lambda>_. False)
      (bio4_put lib (s\<lparr>cl_server := evs\<rparr>))" if "two_replies evs" for evs
    by (rule after_mono [OF put_completes])
      (use assms(6,10-14) that in \<open>auto simp: make_request_def\<close>)
  then show ?thesis
    using request_puts [OF assms(1) n d assms(2-4,16,5) req assms(15)] by blast
qed


section \<open>A blob of one byte\<close>

definition a_put_child :: "net_event list \<Rightarrow> blob_fs request" where
  "a_put_child evs = req_init evs \<lparr>tv_sec = 0, tv_nsec = 0\<rparr> [] (a_sha_fs\<lparr>fs_nodes := [(''tmp'', Dir)]\<rparr>)"

definition a_put_client :: cli where
  "a_put_client = (a_client ''put'' a_digest [])\<lparr>cl_input := [CData ''x'']\<rparr>"

lemma a_put_child_ok: "child_ok an_openssl (a_put_child evs)"
proof -
  have "CHR ''/'' \<in> set (blob_path root d)" for root d by (simp add: blob_path_def blob_dir_def)
  moreover have "CHR ''/'' \<notin> set ''tmp''" by simp
  ultimately have "blob_path root d \<noteq> ''tmp''" for root d by metis
  then show ?thesis
    by (auto simp: child_ok_def a_put_child_def req_init_def a_sha_fs_def tmp_apart_def tmp_get_def
        one_device_def store_ok_def split: if_splits)
qed

lemma a_put_room: "put_room ''sha'' a_digest (a_put_child evs)"
proof -
  have a: "a_digest = ''0101010101010101010101010101010101010101''" by code_simp
  have n: "dec_nat 7 = ''7''" "time_text 0 = ''0''" "arbor_fifo 7 = ''run/arborist-7.fifo''" by code_simp+
  have t: "put_tmp_path ((a_put_child evs)\<lparr>rq_verb := ''put'', rq_algorithm := ''sha'', rq_digest := a_digest\<rparr>) =
      ''tmp/put-0-7-'' @ a_digest"
    by (simp add: put_tmp_path_def a_put_child_def req_init_def a_sha_fs_def tmp_get_def n a
        MAX_FILE_PATH_LEN_def)
  have p: "blob_path (algorithm_root ''sha'') a_digest = ''data/fs_sha/010/101/'' @ a_digest"
    by (simp add: blob_path_def blob_dir_def algorithm_root_def a)
  have d: "slash_prefixes [] (''data/fs_sha/010/101/'' @ a_digest) =
      [''data'', ''data/fs_sha'', ''data/fs_sha/010'', ''data/fs_sha/010/101'']"
    by (simp add: a)
  have o: "parent_there (''tmp/put-0-7-'' @ a_digest) [(''tmp'', Dir)]" by code_simp
  show ?thesis
    unfolding put_room_def t p room_for_def d
    using o by (simp add: a_put_child_def req_init_def a_sha_fs_def n a)
qed

theorem blob_reaches_store_witness:
  "after (\<lambda>_ _. False)
      (\<lambda>t. rq_sent t = (''ok'' @ [NL]) @ ''ok'' @ [NL] \<and>
        map_of (fs_nodes (rq_module t)) (''data/fs_sha/010/101/'' @ a_digest) = Some (File ''x''))
      (request_child (bio4d_server an_openssl False ''sha'' (\<lambda>_ _. 0) (\<lambda>_. NUL))
         (\<lambda>_. \<lparr>tm_year = 1970, tm_mon = 1, tm_mday = 1, tm_hour = 0, tm_min = 0, tm_sec = 0\<rparr>) 0
         \<lparr>tv_sec = 1, tv_nsec = 0\<rparr>
         (a_put_child [NData (''put sha:'' @ a_digest), NSignal, NData [NL], NData ''x'']))"
proof -
  let ?evs = "[NData (''put sha:'' @ a_digest), NSignal, NData [NL], NData ''x'']"
  let ?s = a_put_client
  have s: "cl_verb ?s = ''put''" "cl_server_writes ?s = []" "cl_trust_fs ?s = -1" "plain (cl_input ?s)"
    "event_data (cl_input ?s) = ''x''" "cl_algorithm ?s = ''sha''" "cl_ascii_digest ?s = a_digest"
    by (simp_all add: a_put_client_def a_client_def)
  have r: "calm (a_put_child ?evs)" "rq_sent (a_put_child ?evs) = []" "quiet (rq_in (a_put_child ?evs))"
    by (simp_all add: a_put_child_def calm_def req_init_def a_sha_fs_def)
  have net: "net_data (rq_in (a_put_child ?evs)) = make_request ?s @ ''x''"
    using a_digest_name
    by (auto simp: a_put_child_def req_init_def make_request_def s cstr_at_def blob_name_def)
  have di: "find_digest an_openssl (cl_algorithm ?s) = Some (sha_digest an_openssl)"
    using a_client_digest by (simp add: a_put_client_def)
  have pr: "prepared (sha_digest an_openssl) ?s"
    using a_client_prepared [OF a_digest_name, of "''put''" "[]"] by (simp add: a_put_client_def prepared_def)
  have lib: "0 < lib_msg_size a_lib" by (simp add: a_lib_def)
  have "\<not> has_digest (ossl_sha1 an_openssl) a_digest []" "has_digest (ossl_sha1 an_openssl) a_digest ''x''"
    by code_simp+
  then have bytes: "blob_bytes (name_hash an_openssl (cl_algorithm ?s)) (cl_ascii_digest ?s) ''x''"
    unfolding s by (simp add: blob_bytes_def name_hash_def)
  have room: "put_room (cl_algorithm ?s) (cl_ascii_digest ?s) (a_put_child ?evs)"
    unfolding s by (rule a_put_room)
  have "blob_path (algorithm_root (cl_algorithm ?s)) (cl_ascii_digest ?s) = ''data/fs_sha/010/101/'' @ a_digest"
    unfolding s by code_simp
  then show ?thesis
    using blob_reaches_store [OF an_openssl_ok a_put_child_ok r net s(1) di pr s(2,3) lib s(4,5) bytes room]
    by simp
qed

end
