(* ===== verification/Cli_Qarg.thy ===== *)
theory Cli_Qarg
  imports Blobio_Prelude
begin

text \<open>
  The query arguments of a service, \<^verbatim>\<open>cli/blobio/qarg.c\<close>: the frisker, which remembers where the
  values are, and the three functions that copy the values out.
\<close>

section \<open>The frisker\<close>

text \<open>
  A pointer into the query is the rest of the text from it; an error is its text.  \<^verbatim>\<open>frisk_qarg\<close>
  gives the rest from the first character of the value.
\<close>

fun qarg_name :: "bytes \<Rightarrow> bytes \<Rightarrow> bytes + bytes" where
  "qarg_name [] g = Inr g"
| "qarg_name (ce # e) [] = Inl ''unexpected null char in value''"
| "qarg_name (ce # e) (cg # g) =
     (if \<not> c_isascii cg then Inl ''char in value is not ascii''
      else if cg \<noteq> ce then Inl ''unexpected char in arg''
      else qarg_name e g)"

text \<open>The loop over the value, \<open>n\<close> characters of which have been read: how many there are, or an error.\<close>

fun qarg_value :: "nat \<Rightarrow> nat \<Rightarrow> bytes \<Rightarrow> bytes + nat" where
  "qarg_value max_vlen n [] = Inr n"
| "qarg_value max_vlen n (cg # g) =
     (if cg = CHR ''&'' then Inr n
      else if n + 1 > max_vlen then Inl ''value too large''
      else if \<not> c_isascii cg then Inl ''char in value is not ascii''
      else if \<not> c_isgraph cg then Inl ''char in value is not graphic''
      else qarg_value max_vlen (n + 1) g)"

text \<open>The last test compares the pointer behind the value with the start of the argument.\<close>

definition frisk_qarg :: "bytes \<Rightarrow> bytes \<Rightarrow> nat \<Rightarrow> bytes + bytes" where
  "frisk_qarg expct given max_vlen =
     (case qarg_name expct given of
        Inl err \<Rightarrow> Inl err
      | Inr g \<Rightarrow>
          if cstr_at g 0 \<noteq> CHR ''='' then Inl ''no \"=\" at end of arg''
          else
            (let equal = tl g in
             case qarg_value max_vlen 0 equal of
               Inl err \<Rightarrow> Inl err
             | Inr n \<Rightarrow>
                 if length expct + 1 + n + 1 = 1 then Inl ''empty value'' else Inr equal))"

definition qae :: "bytes \<Rightarrow> bytes \<Rightarrow> bytes" where
  "qae qarg err = qarg @ '': '' @ err"

text \<open>The static variables of the file; -1 is not set.\<close>

record qargs =
  algo_offset :: int
  algo_length :: int
  brr_mask_offset :: int
  fnp_offset :: int
  fnp_length :: int

definition qargs0 :: qargs where
  "qargs0 = \<lparr>algo_offset = -1, algo_length = -1, brr_mask_offset = -1, fnp_offset = -1, fnp_length = -1\<rparr>"

text \<open>The loops over the rest of a value: the text from the \<^verbatim>\<open>&\<close> or the end that stops them.\<close>

fun algo_scan :: "bytes \<Rightarrow> bytes option" where
  "algo_scan [] = Some []"
| "algo_scan (c # q) =
     (if c = CHR ''&'' then Some (c # q)
      else if \<not> c_islower c \<and> \<not> c_isdigit c then None
      else algo_scan q)"

fun fnp_scan :: "bytes \<Rightarrow> bytes option" where
  "fnp_scan [] = Some []"
| "fnp_scan (c # q) =
     (if c = CHR ''&'' then Some (c # q) else if \<not> c_isgraph c then None else fnp_scan q)"

text \<open>
  One argument: an error, the end of the text, or the character read last with the rest behind it.
\<close>

datatype qarg_step = QErr bytes | QEnd | QNext char bytes

definition algo_arg :: "bytes \<Rightarrow> bytes \<Rightarrow> qargs \<Rightarrow> qarg_step \<times> qargs" where
  "algo_arg query q st =
     (case frisk_qarg ''algo'' q 8 of
        Inl err \<Rightarrow> (QErr (qae ''algo'' err), st)
      | Inr equal \<Rightarrow>
          if algo_offset st > -1 then (QErr (qae ''algo'' ''arg specified more than once''), st)
          else
            let off = length query - length equal; st = st\<lparr>algo_offset := int off\<rparr> in
            if \<not> c_islower (cstr_at equal 0)
            then (QErr (qae ''algo'' ''first char not lower alpha''), st)
            else
              (case algo_scan (tl equal) of
                 None \<Rightarrow> (QErr (qae ''algo'' ''char not lower alpha or digit''), st)
               | Some rest \<Rightarrow>
                   let len = int (length query - length rest + 1) - int off in
                   if rest = [] then (QEnd, st\<lparr>algo_length := len\<rparr>)
                   else (QNext (hd rest) (tl rest), st\<lparr>algo_length := len - 1\<rparr>)))"

definition brr_arg :: "bytes \<Rightarrow> bytes \<Rightarrow> qargs \<Rightarrow> qarg_step \<times> qargs" where
  "brr_arg query q st =
     (case frisk_qarg ''brr'' q 2 of
        Inl err \<Rightarrow> (QErr (qae ''brr'' err), st)
      | Inr equal \<Rightarrow>
          if brr_mask_offset st > -1 then (QErr (qae ''brr'' ''arg specified more than once''), st)
          else
            let st = st\<lparr>brr_mask_offset := int (length query - length equal)\<rparr>;
                c = cstr_at equal 0; c2 = cstr_at equal 1; c3 = cstr_at equal 2 in
            if \<not> c_isxdigit c \<or> c_isalpha c \<and> \<not> c_islower c
            then (QErr (qae ''brr'' ''first digit is not lower hex''), st)
            else if c2 = NUL then (QErr (qae ''brr'' ''no second hex char''), st)
            else if \<not> c_isxdigit c2 \<or> \<not> c_islower c2
            then (QErr (qae ''brr'' ''second digit is not lower hex''), st)
            else if c3 = NUL then (QEnd, st)
            else (QNext c3 (drop 3 equal), st))"

definition fnp_arg :: "bytes \<Rightarrow> bytes \<Rightarrow> qargs \<Rightarrow> qarg_step \<times> qargs" where
  "fnp_arg query q st =
     (case frisk_qarg ''fnp'' q 32 of
        Inl err \<Rightarrow> (QErr (qae ''fnp'' err), st)
      | Inr equal \<Rightarrow>
          if fnp_offset st > -1 then (QErr (qae ''fnp'' ''arg specified more than once''), st)
          else
            let off = length query - length equal; st = st\<lparr>fnp_offset := int off\<rparr> in
            (case fnp_scan equal of
               None \<Rightarrow> (QErr (qae ''fnp'' ''non graph char in path''), st)
             | Some rest \<Rightarrow>
                 let len = int (length query - length rest + 1) - int off;
                     len = (if rest = [] then len else len - 1);
                     st = st\<lparr>fnp_length := len\<rparr> in
                 if len = 0 then (QErr (qae ''fnp'' ''no path after =''), st)
                 else if len > 32 then (QErr (qae ''fnp'' ''path length > 32 chars''), st)
                 else if rest = [] then (QEnd, st)
                 else (QNext (hd rest) (tl rest), st)))"

definition any_arg :: "bytes \<Rightarrow> bytes \<Rightarrow> qargs \<Rightarrow> qarg_step \<times> qargs" where
  "any_arg query q st =
     (let c = hd q in
      if c = CHR ''a'' then algo_arg query q st
      else if c = CHR ''b'' then brr_arg query q st
      else if c = CHR ''f'' then fnp_arg query q st
      else (QErr ''unexpected char in query arg'', st))"


lemma qarg_name_iff:
  "list_all c_isascii e \<Longrightarrow> qarg_name e g = Inr r \<longleftrightarrow> g = e @ r"
  by (induction e g rule: qarg_name.induct) auto

text \<open>A value, and what follows it.\<close>

abbreviation value_of :: "bytes \<Rightarrow> bytes" where "value_of \<equiv> takeWhile (\<lambda>c. c \<noteq> CHR ''&'')"
abbreviation after_value :: "bytes \<Rightarrow> bytes" where "after_value \<equiv> dropWhile (\<lambda>c. c \<noteq> CHR ''&'')"

lemma graph_ascii: "c_isgraph c \<Longrightarrow> c_isascii c"
  by (simp add: ctype_defs)

lemma qarg_value_iff:
  "qarg_value m n g = Inr k \<longleftrightarrow>
   list_all c_isgraph (value_of g) \<and> k = n + length (value_of g) \<and> (value_of g = [] \<or> k \<le> m)"
  by (induction m n g rule: qarg_value.induct) (auto simp: graph_ascii)

lemma frisk_qarg_iff:
  assumes "list_all c_isascii e"
  shows "frisk_qarg e q n = Inr equal \<longleftrightarrow>
    q = e @ CHR ''='' # equal \<and> list_all c_isgraph (value_of equal) \<and> length (value_of equal) \<le> n"
proof -
  have eq: "cstr_at g 0 = CHR ''='' \<longleftrightarrow> (\<exists>t. g = CHR ''='' # t)" for g by (cases g) auto
  have "frisk_qarg e q n = Inr equal \<longleftrightarrow>
      (\<exists>g. qarg_name e q = Inr g \<and> g = CHR ''='' # equal \<and> (\<exists>k. qarg_value n 0 equal = Inr k))"
    unfolding frisk_qarg_def Let_def
    by (cases "qarg_name e q"; cases "qarg_value n 0 equal") (auto simp: eq split: sum.splits if_splits)
  then show ?thesis
    by (auto simp: qarg_name_iff [OF assms] qarg_value_iff)
qed

lemma algo_scan_iff:
  "algo_scan q = Some r \<longleftrightarrow>
   list_all (\<lambda>c. c_islower c \<or> c_isdigit c) (value_of q) \<and> r = after_value q"
  by (induction q) auto

lemma fnp_scan_iff:
  "fnp_scan q = Some r \<longleftrightarrow> list_all c_isgraph (value_of q) \<and> r = after_value q"
  by (induction q) auto

text \<open>An argument shortens the text.\<close>

lemma after_value_length: "after_value q = c # r \<Longrightarrow> c = CHR ''&'' \<and> length r < length q"
proof -
  assume a: "after_value q = c # r"
  then have "c = CHR ''&''" using hd_dropWhile [of "\<lambda>c. c \<noteq> CHR ''&''" q] by simp
  moreover have "length (after_value q) \<le> length q" by (rule length_dropWhile_le)
  ultimately show ?thesis using a by simp
qed


section \<open>The language of arguments\<close>

text \<open>
  An argument, its text, and what the frisker asks of it; \<open>fin\<close> says that nothing follows.
\<close>

datatype qarg = Algo bytes | Brr char char | Fnp bytes

fun qarg_text :: "qarg \<Rightarrow> bytes" where
  "qarg_text (Algo v) = ''algo='' @ v"
| "qarg_text (Brr h l) = ''brr='' @ [h, l]"
| "qarg_text (Fnp v) = ''fnp='' @ v"

definition lower_hex :: "char \<Rightarrow> bool" where
  "lower_hex c \<longleftrightarrow> c_isxdigit c \<and> \<not> (c_isalpha c \<and> \<not> c_islower c)"

fun qarg_ok :: "bool \<Rightarrow> qarg \<Rightarrow> bool" where
  "qarg_ok fin (Algo v) \<longleftrightarrow>
     v \<noteq> [] \<and> c_islower (hd v) \<and> list_all (\<lambda>c. c_islower c \<or> c_isdigit c) v \<and> length v \<le> 8"
| "qarg_ok fin (Brr h l) \<longleftrightarrow> lower_hex h \<and> c_isxdigit l \<and> c_islower l"
| "qarg_ok fin (Fnp v) \<longleftrightarrow>
     list_all (\<lambda>c. c_isgraph c \<and> c \<noteq> CHR ''&'') v \<and>
     (if fin then length v \<le> 31 else v \<noteq> [] \<and> length v \<le> 32)"

text \<open>
  What is remembered of an argument at an offset: the length of the last one counts the \<^verbatim>\<open>NUL\<close>.
\<close>

fun qarg_put :: "nat \<Rightarrow> bool \<Rightarrow> qarg \<Rightarrow> qargs \<Rightarrow> qargs" where
  "qarg_put i fin (Algo v) st =
     st\<lparr>algo_offset := int i + 5, algo_length := int (length v) + (if fin then 1 else 0)\<rparr>"
| "qarg_put i fin (Brr h l) st = st\<lparr>brr_mask_offset := int i + 4\<rparr>"
| "qarg_put i fin (Fnp v) st =
     st\<lparr>fnp_offset := int i + 4, fnp_length := int (length v) + (if fin then 1 else 0)\<rparr>"

fun qarg_unset :: "qarg \<Rightarrow> qargs \<Rightarrow> bool" where
  "qarg_unset (Algo v) st \<longleftrightarrow> \<not> algo_offset st > -1"
| "qarg_unset (Brr h l) st \<longleftrightarrow> \<not> brr_mask_offset st > -1"
| "qarg_unset (Fnp v) st \<longleftrightarrow> \<not> fnp_offset st > -1"

definition value_end :: "bytes \<Rightarrow> bool" where
  "value_end r \<longleftrightarrow> r = [] \<or> hd r = CHR ''&''"

definition step_of :: "bytes \<Rightarrow> qarg_step" where
  "step_of r = (if r = [] then QEnd else QNext (hd r) (tl r))"

definition takes_arg :: "bytes \<Rightarrow> bytes \<Rightarrow> qargs \<Rightarrow> qarg_step \<Rightarrow> qargs \<Rightarrow> qarg \<Rightarrow> bool" where
  "takes_arg p q st x st' a \<longleftrightarrow>
     (\<exists>r. q = qarg_text a @ r \<and> value_end r \<and> qarg_ok (r = []) a \<and> qarg_unset a st \<and>
        x = step_of r \<and> st' = qarg_put (length p) (r = []) a st)"

lemma value_split:
  "CHR ''&'' \<notin> set v \<Longrightarrow> value_end r \<Longrightarrow> value_of (v @ r) = v \<and> after_value (v @ r) = r"
  by (cases r) (auto simp: value_end_def takeWhile_append dropWhile_append)

lemma after_value_end: "value_end (after_value q)"
  by (induction q) (auto simp: value_end_def)

lemma value_no_amp: "CHR ''&'' \<notin> set (value_of q)"
  by (auto dest: set_takeWhileD)

lemma no_amp:
  "list_all (\<lambda>c. c_islower c \<or> c_isdigit c) v \<Longrightarrow> CHR ''&'' \<notin> set v"
  by (auto simp: list_all_iff ctype_defs)

lemma lower_graph: "c_islower c \<or> c_isdigit c \<Longrightarrow> c_isgraph c"
  by (auto simp: ctype_defs)

lemma algo_arg_iff:
  "(algo_arg (p @ q) q st = (x, st') \<and> (\<forall>e. x \<noteq> QErr e)) \<longleftrightarrow> (\<exists>v. takes_arg p q st x st' (Algo v))"
proof
  assume l: "algo_arg (p @ q) q st = (x, st') \<and> (\<forall>e. x \<noteq> QErr e)"
  then obtain equal where q: "q = ''algo='' @ equal" "length (value_of equal) \<le> 8"
    by (auto simp: algo_arg_def frisk_qarg_iff c_isascii_def split: sum.splits)
  let ?v = "value_of equal" and ?r = "after_value equal"
  have f: "frisk_qarg ''algo'' q 8 = Inr equal"
    using l q by (auto simp: algo_arg_def frisk_qarg_iff c_isascii_def split: sum.splits)
  have u: "\<not> algo_offset st > -1" using l f by (auto simp: algo_arg_def)
  have low: "c_islower (cstr_at equal 0)" using l f u by (auto simp: algo_arg_def Let_def split: if_splits)
  then obtain c t where "equal = c # t" by (cases equal) (auto simp: ctype_defs)
  moreover from this have "c \<noteq> CHR ''&''" using low by (auto simp: ctype_defs)
  ultimately have e: "equal = c # t" "c \<noteq> CHR ''&''" .
  have sc: "list_all (\<lambda>c. c_islower c \<or> c_isdigit c) (value_of t)"
    using l f u low e by (cases "algo_scan t") (auto simp: algo_arg_def Let_def algo_scan_iff split: if_splits)
  then have scan: "algo_scan t = Some (after_value t)" by (simp add: algo_scan_iff)
  have len: "length t = length (value_of t) + length (after_value t)"
    by (metis length_append takeWhile_dropWhile_id)
  have r: "?r = after_value t" "length ?v = Suc (length (value_of t))" using e by simp_all
  have "algo_arg (p @ q) q st = (step_of ?r, qarg_put (length p) (?r = []) (Algo ?v) st)"
    unfolding algo_arg_def f sum.case Let_def qarg_put.simps r step_of_def
    using u low e(1) scan q(1) len by auto
  then have "x = step_of ?r \<and> st' = qarg_put (length p) (?r = []) (Algo ?v) st" using l by simp
  moreover have "q = qarg_text (Algo ?v) @ ?r" using q(1) by simp
  moreover have "qarg_ok (?r = []) (Algo ?v)" using q(2) e low sc by simp
  ultimately have "takes_arg p q st x st' (Algo ?v)"
    unfolding takes_arg_def using u after_value_end [of equal] by (intro exI [of _ ?r]) simp
  then show "\<exists>v. takes_arg p q st x st' (Algo v)" ..
next
  assume "\<exists>v. takes_arg p q st x st' (Algo v)"
  then obtain v r where q: "q = ''algo='' @ v @ r" "value_end r" and ok: "qarg_ok (r = []) (Algo v)"
    and u: "qarg_unset (Algo v) st" and x: "x = step_of r"
      "st' = qarg_put (length p) (r = []) (Algo v) st" by (auto simp: takes_arg_def)
  obtain c t where v: "v = c # t" using ok by (cases v) auto
  have "CHR ''&'' \<notin> set v" using ok no_amp by simp
  then have s: "value_of (v @ r) = v" "value_of (t @ r) = t" "after_value (t @ r) = r"
    using value_split [of v r] value_split [of t r] q(2) v by auto
  have "frisk_qarg ''algo'' q 8 = Inr (v @ r)"
    using ok s(1) q lower_graph by (auto simp: frisk_qarg_iff c_isascii_def list_all_iff)
  moreover have "algo_scan (t @ r) = Some r" using ok s v by (simp add: algo_scan_iff)
  ultimately show "algo_arg (p @ q) q st = (x, st') \<and> (\<forall>e. x \<noteq> QErr e)"
    using ok u x v q(1) by (auto simp: algo_arg_def Let_def step_of_def)
qed


lemma fnp_arg_iff:
  "(fnp_arg (p @ q) q st = (x, st') \<and> (\<forall>e. x \<noteq> QErr e)) \<longleftrightarrow> (\<exists>v. takes_arg p q st x st' (Fnp v))"
proof
  assume l: "fnp_arg (p @ q) q st = (x, st') \<and> (\<forall>e. x \<noteq> QErr e)"
  then obtain equal where f: "frisk_qarg ''fnp'' q 32 = Inr equal"
    by (auto simp: fnp_arg_def split: sum.splits)
  let ?v = "value_of equal" and ?r = "after_value equal"
  have q: "q = ''fnp='' @ equal" "length ?v \<le> 32" "list_all c_isgraph ?v"
    using f by (auto simp: frisk_qarg_iff c_isascii_def)
  have scan: "fnp_scan equal = Some ?r" using q(3) by (simp add: fnp_scan_iff)
  have u: "\<not> fnp_offset st > -1" using l f by (auto simp: fnp_arg_def)
  have len: "length equal = length ?v + length ?r"
    by (metis length_append takeWhile_dropWhile_id)
  have arg: "fnp_arg (p @ q) q st =
      (let st = qarg_put (length p) (?r = []) (Fnp ?v) st; n = length ?v + (if ?r = [] then 1 else 0) in
       if n = 0 then (QErr (qae ''fnp'' ''no path after =''), st)
       else if n > 32 then (QErr (qae ''fnp'' ''path length > 32 chars''), st)
       else (step_of ?r, st))"
    unfolding fnp_arg_def f sum.case scan option.case Let_def qarg_put.simps step_of_def
    using u q(1) len by (simp del: dropWhile_eq_Nil_conv takeWhile_eq_Nil_iff)
  have "(if ?r = [] then length ?v \<le> 31 else ?v \<noteq> []) \<and> x = step_of ?r \<and>
      st' = qarg_put (length p) (?r = []) (Fnp ?v) st"
    using l unfolding arg Let_def by (cases "?r = []") (auto simp del: dropWhile_eq_Nil_conv split: if_splits)
  moreover have "q = qarg_text (Fnp ?v) @ ?r" using q(1) by simp
  moreover have "list_all (\<lambda>c. c_isgraph c \<and> c \<noteq> CHR ''&'') ?v"
    using q(3) value_no_amp [of equal] by (auto simp: list_all_iff)
  ultimately have "takes_arg p q st x st' (Fnp ?v)"
    unfolding takes_arg_def using u q(2) after_value_end [of equal]
    by (intro exI [of _ ?r]) (simp del: dropWhile_eq_Nil_conv)
  then show "\<exists>v. takes_arg p q st x st' (Fnp v)" ..
next
  assume "\<exists>v. takes_arg p q st x st' (Fnp v)"
  then obtain v r where q: "q = ''fnp='' @ v @ r" "value_end r" and ok: "qarg_ok (r = []) (Fnp v)"
    and u: "qarg_unset (Fnp v) st" and x: "x = step_of r"
      "st' = qarg_put (length p) (r = []) (Fnp v) st" by (auto simp: takes_arg_def)
  have "CHR ''&'' \<notin> set v" using ok by (auto simp: list_all_iff)
  then have s: "value_of (v @ r) = v" "after_value (v @ r) = r" using value_split [of v r] q(2) by auto
  have "frisk_qarg ''fnp'' q 32 = Inr (v @ r)"
    using ok s q(1) by (auto simp: frisk_qarg_iff c_isascii_def list_all_iff split: if_splits)
  moreover have "fnp_scan (v @ r) = Some r" using ok s by (auto simp: fnp_scan_iff list_all_iff)
  ultimately show "fnp_arg (p @ q) q st = (x, st') \<and> (\<forall>e. x \<noteq> QErr e)"
    using ok u x q(1) by (cases "r = []") (auto simp: fnp_arg_def Let_def step_of_def)
qed

lemma hex_graph: "c_isxdigit c \<Longrightarrow> c_isgraph c \<and> c \<noteq> CHR ''&'' \<and> c \<noteq> NUL"
  by (auto simp: ctype_defs)

lemma brr_arg_iff:
  "(brr_arg (p @ q) q st = (x, st') \<and> (\<forall>e. x \<noteq> QErr e)) \<longleftrightarrow> (\<exists>h l. takes_arg p q st x st' (Brr h l))"
proof
  assume a: "brr_arg (p @ q) q st = (x, st') \<and> (\<forall>e. x \<noteq> QErr e)"
  then obtain equal where f: "frisk_qarg ''brr'' q 2 = Inr equal"
    by (auto simp: brr_arg_def split: sum.splits)
  have q: "q = ''brr='' @ equal" "length (value_of equal) \<le> 2"
    using f by (auto simp: frisk_qarg_iff c_isascii_def)
  have u: "\<not> brr_mask_offset st > -1" using a f by (auto simp: brr_arg_def)
  have h: "lower_hex (cstr_at equal 0)" "c_isxdigit (cstr_at equal 1)" "c_islower (cstr_at equal 1)"
    using a f u by (auto simp: brr_arg_def Let_def lower_hex_def split: if_splits)
  have nul: "\<not> c_isxdigit NUL" by (simp add: ctype_defs)
  obtain c d r where e: "equal = c # d # r"
    using h(2) nul by (cases equal; cases "tl equal") (auto simp: cstr_at_def)
  have cd: "c \<noteq> CHR ''&''" "d \<noteq> CHR ''&''" "d \<noteq> NUL"
    using h e hex_graph [of c] hex_graph [of d] by (auto simp: lower_hex_def)
  have r: "value_end r" using q(2) e cd by (cases r) (auto simp: value_end_def split: if_splits)
  have "x = step_of r \<and> st' = qarg_put (length p) (r = []) (Brr c d) st"
    using a f u h e cd q(1) r
    by (cases r) (auto simp: brr_arg_def Let_def step_of_def lower_hex_def value_end_def)
  then show "\<exists>h l. takes_arg p q st x st' (Brr h l)"
    using q(1) e h u r by (intro exI [of _ c] exI [of _ d]) (auto simp: takes_arg_def intro!: exI [of _ r])
next
  assume "\<exists>h l. takes_arg p q st x st' (Brr h l)"
  then obtain h l r where q: "q = ''brr='' @ h # l # r" "value_end r" and ok: "qarg_ok (r = []) (Brr h l)"
    and u: "qarg_unset (Brr h l) st" and x: "x = step_of r"
      "st' = qarg_put (length p) (r = []) (Brr h l) st" by (auto simp: takes_arg_def)
  have hl: "c_isgraph h" "c_isgraph l" "h \<noteq> CHR ''&''" "l \<noteq> CHR ''&''" "l \<noteq> NUL"
    using ok hex_graph [of h] hex_graph [of l] by (auto simp: lower_hex_def)
  have "value_of (h # l # r) = [h, l]" using hl value_split [of "[h, l]" r] q(2) by simp
  then have "frisk_qarg ''brr'' q 2 = Inr (h # l # r)"
    using hl q(1) by (auto simp: frisk_qarg_iff c_isascii_def)
  then show "brr_arg (p @ q) q st = (x, st') \<and> (\<forall>e. x \<noteq> QErr e)"
    using ok u x q hl by (cases r) (auto simp: brr_arg_def Let_def step_of_def lower_hex_def value_end_def)
qed

lemma any_arg_iff:
  assumes "q \<noteq> []"
  shows "(any_arg (p @ q) q st = (x, st') \<and> (\<forall>e. x \<noteq> QErr e)) \<longleftrightarrow> (\<exists>a. takes_arg p q st x st' a)"
proof -
  have "hd q = CHR ''a''" if "takes_arg p q st x st' (Algo v)" for v
    using that by (auto simp: takes_arg_def)
  moreover have "hd q = CHR ''b''" if "takes_arg p q st x st' (Brr h l)" for h l
    using that by (auto simp: takes_arg_def)
  moreover have "hd q = CHR ''f''" if "takes_arg p q st x st' (Fnp v)" for v
    using that by (auto simp: takes_arg_def)
  ultimately have hd: "takes_arg p q st x st' a \<Longrightarrow>
      hd q = (case a of Algo v \<Rightarrow> CHR ''a'' | Brr h l \<Rightarrow> CHR ''b'' | Fnp v \<Rightarrow> CHR ''f'')" for a
    by (cases a) auto
  consider "hd q = CHR ''a''" | "hd q = CHR ''b''" | "hd q = CHR ''f''"
    | "hd q \<notin> {CHR ''a'', CHR ''b'', CHR ''f''}" by blast
  then show ?thesis
  proof cases
    case 1
    then have "(\<exists>a. takes_arg p q st x st' a) \<longleftrightarrow> (\<exists>v. takes_arg p q st x st' (Algo v))"
      using hd by (fastforce split: qarg.splits)
    with 1 show ?thesis by (simp add: any_arg_def algo_arg_iff)
  next
    case 2
    then have "(\<exists>a. takes_arg p q st x st' a) \<longleftrightarrow> (\<exists>h l. takes_arg p q st x st' (Brr h l))"
      using hd by (fastforce split: qarg.splits)
    with 2 show ?thesis by (simp add: any_arg_def brr_arg_iff)
  next
    case 3
    then have "(\<exists>a. takes_arg p q st x st' a) \<longleftrightarrow> (\<exists>v. takes_arg p q st x st' (Fnp v))"
      using hd by (fastforce split: qarg.splits)
    with 3 show ?thesis by (simp add: any_arg_def fnp_arg_iff)
  next
    case 4
    then show ?thesis using hd by (auto simp: any_arg_def split: qarg.splits)
  qed
qed


section \<open>All arguments\<close>

lemma step_of_rest: "step_of r = QNext c rest \<Longrightarrow> value_end r \<Longrightarrow> r = CHR ''&'' # rest \<and> c = CHR ''&''"
  by (cases r) (auto simp: step_of_def value_end_def split: if_splits)

lemma any_arg_shorter: "any_arg query q st = (QNext c rest, st') \<Longrightarrow> length rest < length q"
proof -
  assume a: "any_arg query q st = (QNext c rest, st')"
  have "length (tl (after_value t)) \<le> length t" for t
    using length_dropWhile_le [of "\<lambda>c. c \<noteq> CHR ''&''" t] by simp
  moreover have "length (tl (after_value (tl t))) \<le> length t" for t
    using calculation [of "tl t"] by simp
  ultimately show ?thesis
    using a
    by (auto simp: any_arg_def algo_arg_def brr_arg_def fnp_arg_def Let_def frisk_qarg_iff c_isascii_def
        algo_scan_iff fnp_scan_iff less_Suc_eq_le le_SucI split: sum.splits option.splits if_splits)
qed

function frisk_args :: "bytes \<Rightarrow> bytes \<Rightarrow> qargs \<Rightarrow> bytes option \<times> qargs" where
  "frisk_args query q st =
     (if q = [] then (None, st)
      else
        (case any_arg query q st of
           (QErr err, st) \<Rightarrow> (Some err, st)
         | (QEnd, st) \<Rightarrow> (None, st)
         | (QNext c rest, st) \<Rightarrow>
             if c = CHR ''&'' \<and> rest = [] then (Some ''no query argument after \"&\"'', st)
             else frisk_args query rest st))"
  by pat_completeness auto
termination
  by (relation "measure (\<lambda>(query, q, st). length q)") (auto dest: any_arg_shorter [OF sym])

declare frisk_args.simps [simp del]

text \<open>The function with the static variables before and after.\<close>

definition BLOBIO_SERVICE_frisk_qargs :: "bytes \<Rightarrow> qargs \<Rightarrow> bytes option \<times> qargs" where
  "BLOBIO_SERVICE_frisk_qargs query st =
     (if query = [] then (None, st) else frisk_args query query st)"

fun args_text :: "qarg list \<Rightarrow> bytes" where
  "args_text [] = []"
| "args_text (a # as) = qarg_text a @ (if as = [] then [] else CHR ''&'' # args_text as)"

fun qarg_kind :: "qarg \<Rightarrow> nat" where
  "qarg_kind (Algo v) = 0" | "qarg_kind (Brr h l) = 1" | "qarg_kind (Fnp v) = 2"

fun args_ok :: "qarg list \<Rightarrow> bool" where
  "args_ok [] = True"
| "args_ok (a # as) = (qarg_ok (as = []) a \<and> qarg_kind a \<notin> qarg_kind ` set as \<and> args_ok as)"

fun args_put :: "nat \<Rightarrow> qarg list \<Rightarrow> qargs \<Rightarrow> qargs" where
  "args_put i [] st = st"
| "args_put i (a # as) st = args_put (i + length (qarg_text a) + 1) as (qarg_put i (as = []) a st)"

lemma args_text_empty [simp]: "args_text as = [] \<longleftrightarrow> as = []"
  by (cases as; cases "hd as") auto

lemma unset_put:
  "qarg_unset b (qarg_put i fin a st) \<longleftrightarrow> qarg_kind b \<noteq> qarg_kind a \<and> qarg_unset b st"
  by (cases a; cases b) auto

lemma frisk_args_iff:
  "q \<noteq> [] \<Longrightarrow> frisk_args (p @ q) q st = (None, st') \<longleftrightarrow>
   (\<exists>as. q = args_text as \<and> args_ok as \<and> (\<forall>a \<in> set as. qarg_unset a st) \<and>
      st' = args_put (length p) as st)"
proof (induction "length q" arbitrary: p q st rule: less_induct)
  case less
  have tail: "frisk_args (p @ q) rest s = (None, st') \<longleftrightarrow>
      (\<exists>as. rest = args_text as \<and> args_ok as \<and> (\<forall>b \<in> set as. qarg_unset b s) \<and>
        st' = args_put (length p + length (qarg_text a) + 1) as s)"
    if "q = qarg_text a @ CHR ''&'' # rest" "rest \<noteq> []" for a rest s
    using less.hyps [of rest "p @ qarg_text a @ [CHR ''&'']" s] that by (simp add: add.assoc)
  show ?case
  proof
    assume l: "frisk_args (p @ q) q st = (None, st')"
    obtain x s where x: "any_arg (p @ q) q st = (x, s)" by fastforce
    have "\<forall>e. x \<noteq> QErr e" using l x less.prems by (auto simp: frisk_args.simps [of "p @ q"])
    then obtain a r where a: "q = qarg_text a @ r" "value_end r" "qarg_ok (r = []) a" "qarg_unset a st"
      "x = step_of r" "s = qarg_put (length p) (r = []) a st"
      using any_arg_iff [OF less.prems, of p st x s] x by (auto simp: takes_arg_def)
    show "\<exists>as. q = args_text as \<and> args_ok as \<and> (\<forall>a \<in> set as. qarg_unset a st) \<and>
        st' = args_put (length p) as st"
    proof (cases r)
      case Nil
      then have "s = st'" using l x a(5) less.prems by (simp add: frisk_args.simps [of "p @ q"] step_of_def)
      with a Nil show ?thesis by (intro exI [of _ "[a]"]) simp
    next
      case (Cons c rest)
      then have c: "c = CHR ''&''" using a(2) by (simp add: value_end_def)
      then have r: "rest \<noteq> []" "frisk_args (p @ q) rest s = (None, st')"
        using l x a(5) Cons less.prems by (auto simp: frisk_args.simps [of "p @ q" q] step_of_def split: if_splits)
      have q: "q = qarg_text a @ CHR ''&'' # rest" using a(1) Cons c by simp
      from tail [OF q r(1), of s] r(2) obtain as where as: "rest = args_text as" "args_ok as"
        "\<forall>b \<in> set as. qarg_unset b s" "st' = args_put (length p + length (qarg_text a) + 1) as s" by auto
      with r(1) have "as \<noteq> []" by auto
      with as a q Cons show ?thesis
        by (intro exI [of _ "a # as"]) (auto simp: unset_put)
    qed
  next
    assume "\<exists>as. q = args_text as \<and> args_ok as \<and> (\<forall>a \<in> set as. qarg_unset a st) \<and>
        st' = args_put (length p) as st"
    then obtain a as where as: "q = args_text (a # as)" "args_ok (a # as)"
      "\<forall>b \<in> set (a # as). qarg_unset b st" "st' = args_put (length p) (a # as) st"
      using less.prems by (metis args_text.simps(1) list.exhaust)
    let ?r = "if as = [] then [] else CHR ''&'' # args_text as"
    let ?s = "qarg_put (length p) (as = []) a st"
    have "takes_arg p q st (step_of ?r) ?s a"
      using as(1-3) by (auto simp: takes_arg_def value_end_def)
    then have x: "any_arg (p @ q) q st = (step_of ?r, ?s)"
      using any_arg_iff [OF less.prems, of p st "step_of ?r" ?s] by blast
    show "frisk_args (p @ q) q st = (None, st')"
    proof (cases "as = []")
      case True
      then show ?thesis using x less.prems as(4) by (simp add: frisk_args.simps [of "p @ q"] step_of_def)
    next
      case False
      have q: "q = qarg_text a @ CHR ''&'' # args_text as" using as(1) False by simp
      have "frisk_args (p @ q) (args_text as) ?s = (None, st')"
      proof (rule tail [OF q, THEN iffD2])
        have "qarg_unset b ?s" if "b \<in> set as" for b
        proof -
          have "qarg_kind b \<noteq> qarg_kind a" using as(2) imageI [OF that, of qarg_kind] by auto
          then show ?thesis using as(3) that by (simp add: unset_put)
        qed
        then show "\<exists>bs. args_text as = args_text bs \<and> args_ok bs \<and> (\<forall>b \<in> set bs. qarg_unset b ?s) \<and>
            st' = args_put (length p + length (qarg_text a) + 1) bs ?s"
          using as(2,4) by (intro exI [of _ as]) simp
      qed (use False in simp)
      then show ?thesis
        using x less.prems False by (simp add: frisk_args.simps [of "p @ q" q] step_of_def)
    qed
  qed
qed


section \<open>The values\<close>

text \<open>
  Copying \<open>len\<close> characters and a \<^verbatim>\<open>NUL\<close> into an array of \<open>room\<close>; \<open>None\<close> is a write outside of it.
\<close>

definition copy_out :: "nat \<Rightarrow> bytes \<Rightarrow> int \<Rightarrow> int \<Rightarrow> bytes option" where
  "copy_out room query off len =
     (if len < 0 \<or> len \<ge> int room then None
      else Some (cstr (take (nat len) (drop (nat off) (query @ [NUL])))))"

definition BLOBIO_SERVICE_get_algo :: "bytes \<Rightarrow> qargs \<Rightarrow> bytes \<Rightarrow> bytes option" where
  "BLOBIO_SERVICE_get_algo query st algo =
     (if algo_offset st = -1 then Some algo else copy_out 9 query (algo_offset st) (algo_length st))"

definition BLOBIO_SERVICE_get_fnp :: "bytes \<Rightarrow> qargs \<Rightarrow> bytes \<Rightarrow> bytes option" where
  "BLOBIO_SERVICE_get_fnp query st fnp =
     (if fnp_offset st = -1 then Some fnp else copy_out 33 query (fnp_offset st) (fnp_length st))"

definition qarg_nib :: "char \<Rightarrow> ui8" where
  "qarg_nib c = (if c_islower c then of_nat (code c) - 97 + 10 else of_nat (code c) - 48)"

definition BLOBIO_SERVICE_get_brr_mask :: "bytes \<Rightarrow> qargs \<Rightarrow> ui8 \<Rightarrow> ui8" where
  "BLOBIO_SERVICE_get_brr_mask query st brr_mask =
     (if brr_mask_offset st = -1 then brr_mask
      else
        let q = drop (nat (brr_mask_offset st)) query;
            cu = qarg_nib (cstr_at q 0); cl = qarg_nib (cstr_at q 1)
        in or (push_bit 4 cu) cl)"

lemma put_other:
  "(0 \<notin> qarg_kind ` set as \<longrightarrow> algo_offset (args_put i as st) = algo_offset st \<and>
      algo_length (args_put i as st) = algo_length st) \<and>
   (1 \<notin> qarg_kind ` set as \<longrightarrow> brr_mask_offset (args_put i as st) = brr_mask_offset st) \<and>
   (2 \<notin> qarg_kind ` set as \<longrightarrow> fnp_offset (args_put i as st) = fnp_offset st \<and>
      fnp_length (args_put i as st) = fnp_length st)"
proof (induction as arbitrary: i st)
  case (Cons a as)
  then show ?case by (cases a) simp_all
qed simp

text \<open>Where an argument is, and what is remembered of it.\<close>

definition args_before :: "qarg list \<Rightarrow> bytes" where
  "args_before as = concat (map (\<lambda>a. qarg_text a @ ''&'') as)"

lemma text_split:
  "args_text (xs @ a # ys) =
   args_before xs @ qarg_text a @ (if ys = [] then [] else CHR ''&'' # args_text ys)"
  by (induction xs) (auto simp: args_before_def)

lemma put_split:
  "\<exists>s. args_put i (xs @ a # ys) st =
    args_put (i + length (args_before xs) + length (qarg_text a) + 1) ys
      (qarg_put (i + length (args_before xs)) (ys = []) a s)"
proof (induction xs arbitrary: i st)
  case (Cons x xs)
  show ?case
    using Cons [of "i + length (qarg_text x) + 1" "qarg_put i False x st"]
    by (simp add: args_before_def ac_simps)
qed (auto simp: args_before_def)

lemma ok_split: "args_ok (xs @ a # ys) \<Longrightarrow> qarg_ok (ys = []) a \<and> qarg_kind a \<notin> qarg_kind ` set ys"
  by (induction xs) auto

lemma frisk_qargs_iff:
  "BLOBIO_SERVICE_frisk_qargs query qargs0 = (None, st) \<longleftrightarrow>
   (\<exists>as. args_ok as \<and> query = args_text as \<and> st = args_put 0 as qargs0)"
proof (cases "query = []")
  case True
  then show ?thesis by (auto simp: BLOBIO_SERVICE_frisk_qargs_def dest: sym intro!: exI [of _ "[]"])
next
  case False
  have "qarg_unset a qargs0" for a by (cases a) (simp_all add: qargs0_def)
  then show ?thesis
    using False frisk_args_iff [OF False, of "[]" qargs0 st]
    by (auto simp: BLOBIO_SERVICE_frisk_qargs_def)
qed


lemma frisked_state: "args_ok as \<Longrightarrow> snd (BLOBIO_SERVICE_frisk_qargs (args_text as) qargs0) = args_put 0 as qargs0"
  using frisk_qargs_iff [of "args_text as" "args_put 0 as qargs0"] by auto

lemma copy_value:
  assumes "NUL \<notin> set v"
  shows "copy_out room (pre @ v @ r) (int (length pre)) (int (length v) + (if r = [] then 1 else 0)) =
    (if room \<le> length v + (if r = [] then 1 else 0) then None else Some v)"
  using assms by (cases r) (auto simp: copy_out_def nat_add_distrib)


lemma put0_missing:
  "(\<forall>a \<in> set as. qarg_kind a \<noteq> 0) \<Longrightarrow> algo_offset (args_put 0 as qargs0) = -1"
  "(\<forall>a \<in> set as. qarg_kind a \<noteq> 1) \<Longrightarrow> brr_mask_offset (args_put 0 as qargs0) = -1"
  "(\<forall>a \<in> set as. qarg_kind a \<noteq> 2) \<Longrightarrow> fnp_offset (args_put 0 as qargs0) = -1"
proof -
  have "k \<notin> qarg_kind ` set as" if "\<forall>a \<in> set as. qarg_kind a \<noteq> k" for k using that by auto
  then show "(\<forall>a \<in> set as. qarg_kind a \<noteq> 0) \<Longrightarrow> algo_offset (args_put 0 as qargs0) = -1"
    "(\<forall>a \<in> set as. qarg_kind a \<noteq> 1) \<Longrightarrow> brr_mask_offset (args_put 0 as qargs0) = -1"
    "(\<forall>a \<in> set as. qarg_kind a \<noteq> 2) \<Longrightarrow> fnp_offset (args_put 0 as qargs0) = -1"
    using put_other [of as 0 qargs0] by (simp_all add: qargs0_def)
qed

text \<open>What is remembered of the argument \<open>a\<close> of an accepted text.\<close>

lemma put0_at:
  assumes "args_ok as" and "a \<in> set as"
  obtains pre r where "args_text as = pre @ qarg_text a @ r" and "r = [] \<longleftrightarrow> a = last as"
    and "qarg_ok (r = []) a"
    and "case a of
      Algo v \<Rightarrow> algo_offset (args_put 0 as qargs0) = int (length pre) + 5 \<and>
        algo_length (args_put 0 as qargs0) = int (length v) + (if r = [] then 1 else 0)
    | Brr h l \<Rightarrow> brr_mask_offset (args_put 0 as qargs0) = int (length pre) + 4
    | Fnp v \<Rightarrow> fnp_offset (args_put 0 as qargs0) = int (length pre) + 4 \<and>
        fnp_length (args_put 0 as qargs0) = int (length v) + (if r = [] then 1 else 0)"
proof -
  obtain xs ys where as: "as = xs @ a # ys" using split_list [OF assms(2)] by blast
  have ok: "qarg_ok (ys = []) a" "qarg_kind a \<notin> qarg_kind ` set ys"
    using ok_split [of xs a ys] assms(1) as by auto
  let ?r = "if ys = [] then [] else CHR ''&'' # args_text ys"
  obtain s where s: "args_put 0 as qargs0 =
      args_put (0 + length (args_before xs) + length (qarg_text a) + 1) ys
        (qarg_put (0 + length (args_before xs)) (ys = []) a s)"
    using put_split [of 0 xs a ys qargs0] as by blast
  have "ys \<noteq> [] \<Longrightarrow> last ys \<in> set ys" by simp
  then have "?r = [] \<longleftrightarrow> a = last as" using ok(2) as by (auto simp: image_iff)
  moreover have "args_text as = args_before xs @ qarg_text a @ ?r" unfolding as by (rule text_split)
  moreover have "case a of
      Algo v \<Rightarrow> algo_offset (args_put 0 as qargs0) = int (length (args_before xs)) + 5 \<and>
        algo_length (args_put 0 as qargs0) = int (length v) + (if ?r = [] then 1 else 0)
    | Brr h l \<Rightarrow> brr_mask_offset (args_put 0 as qargs0) = int (length (args_before xs)) + 4
    | Fnp v \<Rightarrow> fnp_offset (args_put 0 as qargs0) = int (length (args_before xs)) + 4 \<and>
        fnp_length (args_put 0 as qargs0) = int (length v) + (if ?r = [] then 1 else 0)"
    using put_other [of ys "0 + length (args_before xs) + length (qarg_text a) + 1"
        "qarg_put (0 + length (args_before xs)) (ys = []) a s"] ok(2)
    unfolding s by (cases a) auto
  moreover have "qarg_ok (?r = []) a" using ok(1) by (cases "ys = []") simp_all
  ultimately show thesis using that by blast
qed

text \<open>
  C37: the values of an accepted text.  \<^verbatim>\<open>get_algo\<close> copies the algorithm, but writes outside of its array
  of nine characters when the algorithm has eight characters and is the last argument; \<^verbatim>\<open>get_fnp\<close>
  copies the prefix and stays inside its array, and \<^verbatim>\<open>get_brr_mask\<close> gives the two digits.
  A variable whose argument is missing is left alone.
\<close>

theorem qargs_values:
  assumes "args_ok as" and "query = args_text as"
    and "st = snd (BLOBIO_SERVICE_frisk_qargs query qargs0)"
  shows "(\<forall>v. Algo v \<in> set as \<longrightarrow> BLOBIO_SERVICE_get_algo query st algo =
      (if last as = Algo v \<and> length v = 8 then None else Some v)) \<and>
    (\<forall>v. Fnp v \<in> set as \<longrightarrow> BLOBIO_SERVICE_get_fnp query st fnp = Some v) \<and>
    (\<forall>h l. Brr h l \<in> set as \<longrightarrow> BLOBIO_SERVICE_get_brr_mask query st brr =
      or (push_bit 4 (qarg_nib h)) (qarg_nib l)) \<and>
    ((\<forall>a \<in> set as. qarg_kind a \<noteq> 0) \<longrightarrow> BLOBIO_SERVICE_get_algo query st algo = Some algo) \<and>
    ((\<forall>a \<in> set as. qarg_kind a \<noteq> 1) \<longrightarrow> BLOBIO_SERVICE_get_brr_mask query st brr = brr) \<and>
    ((\<forall>a \<in> set as. qarg_kind a \<noteq> 2) \<longrightarrow> BLOBIO_SERVICE_get_fnp query st fnp = Some fnp)"
proof -
  have st: "st = args_put 0 as qargs0" using assms by (simp add: frisked_state)
  have nul: "\<not> c_isgraph NUL" "\<not> c_islower NUL" "\<not> c_isdigit NUL" by (simp_all add: ctype_defs)
  have algo: "BLOBIO_SERVICE_get_algo query st algo = (if last as = Algo v \<and> length v = 8 then None else Some v)"
    if m: "Algo v \<in> set as" for v
  proof -
    obtain pre r where r: "args_text as = pre @ ''algo='' @ v @ r" "r = [] \<longleftrightarrow> Algo v = last as"
      "qarg_ok (r = []) (Algo v)" "algo_offset st = int (length pre) + 5"
      "algo_length st = int (length v) + (if r = [] then 1 else 0)"
      by (rule put0_at [OF assms(1) m], rule that) (auto simp: st)
    have "NUL \<notin> set v" using r(3) nul by (auto simp: list_all_iff)
    then show ?thesis
      using copy_value [of v 9 "pre @ ''algo=''" r] r assms(2)
      by (auto simp: BLOBIO_SERVICE_get_algo_def add.commute [of "int (length pre)"])
  qed
  have fnp: "BLOBIO_SERVICE_get_fnp query st fnp = Some v" if m: "Fnp v \<in> set as" for v
  proof -
    obtain pre r where r: "args_text as = pre @ ''fnp='' @ v @ r"
      "qarg_ok (r = []) (Fnp v)" "fnp_offset st = int (length pre) + 4"
      "fnp_length st = int (length v) + (if r = [] then 1 else 0)"
      by (rule put0_at [OF assms(1) m], rule that) (auto simp: st)
    have "NUL \<notin> set v" using r(2) nul by (auto simp: list_all_iff)
    then show ?thesis
      using copy_value [of v 33 "pre @ ''fnp=''" r] r assms(2)
      by (auto simp: BLOBIO_SERVICE_get_fnp_def add.commute [of "int (length pre)"] split: if_splits)
  qed
  have brr: "BLOBIO_SERVICE_get_brr_mask query st brr = or (push_bit 4 (qarg_nib h)) (qarg_nib l)"
    if m: "Brr h l \<in> set as" for h l
  proof -
    obtain pre r where "args_text as = pre @ ''brr='' @ h # l # r"
      "brr_mask_offset st = int (length pre) + 4"
      by (rule put0_at [OF assms(1) m], rule that) (auto simp: st)
    then show ?thesis
      using assms(2) by (simp add: BLOBIO_SERVICE_get_brr_mask_def Let_def nat_add_distrib)
  qed
  show ?thesis
    using algo fnp brr put0_missing [of as]
    by (auto simp: st BLOBIO_SERVICE_get_algo_def BLOBIO_SERVICE_get_fnp_def BLOBIO_SERVICE_get_brr_mask_def)
qed

theorem qargs_values_witness:
  "BLOBIO_SERVICE_get_algo ''brr=1f&algo=abcdefg7''
     (snd (BLOBIO_SERVICE_frisk_qargs ''brr=1f&algo=abcdefg7'' qargs0)) [] = None \<and>
   BLOBIO_SERVICE_get_brr_mask ''brr=1f&algo=abcdefg7''
     (snd (BLOBIO_SERVICE_frisk_qargs ''brr=1f&algo=abcdefg7'' qargs0)) 0 = 0x1f"
proof -
  have "args_ok [Brr (CHR ''1'') (CHR ''f''), Algo ''abcdefg7'']" by code_simp
  moreover have "or (push_bit 4 (qarg_nib (CHR ''1''))) (qarg_nib (CHR ''f'')) = 0x1f" by code_simp
  ultimately show ?thesis
    using qargs_values [of "[Brr (CHR ''1'') (CHR ''f''), Algo ''abcdefg7'']" "''brr=1f&algo=abcdefg7''" _ "[]" "[]" 0]
    by simp
qed

end
