(* ===== verification/Cli_Fs.thy ===== *)
theory Cli_Fs
  imports Cli_Store Wrap_Roll
begin

text \<open>
  The client's file service, \<^verbatim>\<open>cli/blobio/fs.c\<close>, which works on the directory of a server without the
  server.  Functions of libjmscott that only restart one system call are that call; every other one is
  a field of the record \<open>jmscott\<close>, and what the code relies on is the predicate \<open>jmscott_ok\<close>.
\<close>

section \<open>The state\<close>

text \<open>
  \<open>fc_cli\<close> has the globals of \<^verbatim>\<open>blobio.c\<close>; \<open>fc_data\<close> and \<open>fc_wrap_set\<close> are the static buffers \<^verbatim>\<open>fs_data\<close>
  and \<^verbatim>\<open>wrap_set_path\<close>, and \<open>fc_open\<close> says whether \<^verbatim>\<open>end_point_fd\<close> is set.  A path below the end point is
  its own node; \<open>fc_cwd\<close> gives the node of a path below the current directory, which may be another
  name for one of the end point.  \<open>fc_pid\<close> and \<open>fc_epoch\<close> are the texts of the process id and the time,
  \<open>fc_file_writes\<close> what becomes of writes to files, \<open>fc_log\<close> the log that is open for records.
\<close>

record client = fs +
  fc_cli :: cli
  fc_data :: bytes
  fc_wrap_set :: bytes
  fc_open :: bool
  fc_end_point :: bytes
  fc_cwd :: "bytes \<Rightarrow> bytes"
  fc_pid :: bytes
  fc_epoch :: bytes
  fc_file_writes :: "write_event list"
  fc_log :: "bytes option"

abbreviation on_cli :: "(cli \<Rightarrow> cli) \<Rightarrow> client \<Rightarrow> client" where
  "on_cli f w \<equiv> w\<lparr>fc_cli := f (fc_cli w)\<rparr>"

text \<open>
  libjmscott: \<open>jm_strcat size target sources\<close> is the new target; the functions on directories and files
  get a path below the end point; \<open>jm_send_file\<close> gets what its source delivers, what becomes of the
  writes and the old size, and gives the error, the bytes it wrote and the new size; \<open>jm_split\<close> gives
  offsets of a character, up to a number of them.
\<close>

record jmscott = cli_lib +
  jm_strcat :: "nat \<Rightarrow> bytes \<Rightarrow> bytes list \<Rightarrow> bytes"
  jm_mkdirat_path :: "bytes \<Rightarrow> client \<Rightarrow> cli_error option \<times> client"
  jm_mkdirat_EEXIST :: "bytes \<Rightarrow> client \<Rightarrow> unit sysret \<times> client"
  jm_fsizeat :: "bytes \<Rightarrow> client \<Rightarrow> ((errno \<times> cli_error) + nat) \<times> client"
  jm_send_file ::
    "cli_event list \<Rightarrow> write_event list \<Rightarrow> int \<Rightarrow>
      (cli_error option \<times> bytes \<times> int) \<times> cli_event list \<times> write_event list"
  jm_rewind :: "client \<Rightarrow> cli_error option \<times> client"
  jm_write_all :: "bytes \<Rightarrow> write_event list \<Rightarrow> unit sysret \<times> bytes \<times> write_event list"
  jm_read_exact :: "nat \<Rightarrow> bytes \<Rightarrow> client \<Rightarrow> bytes sysret \<times> client"
  jm_split :: "bytes \<Rightarrow> char \<Rightarrow> nat \<Rightarrow> cli_error + nat list"

type_synonym fs_run = "client \<Rightarrow> cli_error option \<times> client"

definition BLOBIO_MAX_FS_PATH :: nat where "BLOBIO_MAX_FS_PATH = 255"

section \<open>Calls and errors\<close>

text \<open>The kernel takes repeated slashes for one.\<close>

fun one_slash :: "bytes \<Rightarrow> bytes" where
  "one_slash (a # b # p) =
     (if a = CHR ''/'' \<and> b = CHR ''/'' then one_slash (b # p) else a # one_slash (b # p))"
| "one_slash p = p"

definition sys_link :: "bytes \<Rightarrow> bytes \<Rightarrow> 's fs_scheme \<Rightarrow> unit sysret \<times> 's fs_scheme" where
  "sys_link p q = fs_call (\<lambda>w.
     case map_of (fs_nodes w) p of
       None \<Rightarrow> (Inl ENOENT, w)
     | Some n \<Rightarrow>
         if map_of (fs_nodes w) q \<noteq> None then (Inl EEXIST, w)
         else if \<not> parent_there q (fs_nodes w) then (Inl ENOENT, w)
         else if fs_dev w p \<noteq> fs_dev w q then (Inl EXDEV, w)
         else if n = Dir then (Inl EOTHER, w)
         else (Inr (), w\<lparr>fs_nodes := set_node q n (fs_nodes w)\<rparr>))"

definition sys_unlink :: "bytes \<Rightarrow> 's fs_scheme \<Rightarrow> unit sysret \<times> 's fs_scheme" where
  "sys_unlink p = fs_call (\<lambda>w.
     case map_of (fs_nodes w) p of
       None \<Rightarrow> (Inl ENOENT, w)
     | Some Dir \<Rightarrow> (Inl EOTHER, w)
     | Some _ \<Rightarrow> (Inr (), w\<lparr>fs_nodes := del_node p (fs_nodes w)\<rparr>))"

text \<open>An error of a call that is returned as \<^verbatim>\<open>strerror(errno)\<close>, and one that is a text.\<close>

definition sys :: "'a sysret \<times> client \<Rightarrow> ('a \<Rightarrow> fs_run) \<Rightarrow> cli_error option \<times> client" where
  "sys m k = (case m of (Inl e, w) \<Rightarrow> (Some (Strerror e), w) | (Inr x, w) \<Rightarrow> k x w)"

definition lib :: "cli_error option \<times> client \<Rightarrow> fs_run \<Rightarrow> cli_error option \<times> client" where
  "lib m k = (case m of (Some e, w) \<Rightarrow> (Some e, w) | (None, w) \<Rightarrow> k w)"

definition val_or :: "cli_error + 'a \<Rightarrow> ('a \<Rightarrow> fs_run) \<Rightarrow> fs_run" where
  "val_or m k w = (case m of Inl e \<Rightarrow> (Some e, w) | Inr x \<Rightarrow> k x w)"

text \<open>A call in the clean up of a function: its error is kept when there is none yet.\<close>

definition sys_else :: "cli_error option \<Rightarrow> 'a sysret \<times> client \<Rightarrow> cli_error option \<times> client" where
  "sys_else err m = (case m of (Inl e, w) \<Rightarrow> (if err = None then Some (Strerror e) else err, w) | (Inr x, w) \<Rightarrow> (err, w))"

text \<open>What \<^verbatim>\<open>jmscott_send_file\<close> does to the client: the file or the descriptor gets the bytes.\<close>

definition send_stdout :: "jmscott \<Rightarrow> bytes \<Rightarrow> fs_run" where
  "send_stdout J bs w =
     (let s = fc_cli w in
      case jm_send_file J [CData bs] (cl_output_writes s) (cl_blob_size s) of
        ((err, out, n), src, evs) \<Rightarrow>
          (err, w\<lparr>fc_cli := s\<lparr>cl_output := cl_output s @ out, cl_output_writes := evs, cl_blob_size := n\<rparr>\<rparr>))"

definition append_node :: "bytes \<Rightarrow> bytes \<Rightarrow> client \<Rightarrow> client" where
  "append_node p bs w =
     (case map_of (fs_nodes w) p of
        Some (File old) \<Rightarrow> w\<lparr>fs_nodes := set_node p (File (old @ bs)) (fs_nodes w)\<rparr>
      | _ \<Rightarrow> w)"

definition send_file :: "jmscott \<Rightarrow> cli_event list \<Rightarrow> bytes \<Rightarrow> client \<Rightarrow> (cli_error option \<times> cli_event list) \<times> client" where
  "send_file J src path w =
     (case jm_send_file J src (fc_file_writes w) (cl_blob_size (fc_cli w)) of
        ((err, out, n), src', evs) \<Rightarrow>
          ((err, src'), on_cli (\<lambda>s. s\<lparr>cl_blob_size := n\<rparr>) (append_node path out (w\<lparr>fc_file_writes := evs\<rparr>))))"

section \<open>Opening and closing\<close>

definition fs_end_point_syntax :: "bytes \<Rightarrow> fs_run" where
  "fs_end_point_syntax root_dir w =
     (if length root_dir > BLOBIO_MAX_FS_PATH - 1 then (Some (Msg ''too many chars in root directory path''), w)
      else (None, if cl_fnp (fc_cli w) = [] then on_cli (\<lambda>s. s\<lparr>cl_fnp := ''fs''\<rparr>) w else w))"

text \<open>\<^verbatim>\<open>fs_open\<close> behind the tests of the verb wrap.\<close>

definition fs_open_dirs :: "jmscott \<Rightarrow> fs_run" where
  "fs_open_dirs J w =
     (if cl_input_path (fc_cli w) = Some ''/dev/null''
      then (Some (Msg ''/dev/null can not be input device for fs service''), w)
      else sys (fs_touch w) (\<lambda>_ w.
        let s = fc_cli w;
            v = cstr_at (cl_verb s) 0;
            w = w\<lparr>fc_open := True, fc_data := jm_strcat J 17 [] [''data/fs_'', cl_algorithm s]\<rparr>
        in lib (jm_mkdirat_path J (fc_data w) w) (\<lambda>w.
          if v = CHR ''g'' \<and> cstr_at (cl_verb s) 1 = CHR ''e'' \<or> v = CHR ''t'' \<or> v = CHR ''e'' then (None, w)
          else jm_mkdirat_path J
            (if v = CHR ''w'' then ''spool/wrap'' else if v = CHR ''r'' then ''spool/roll'' else ''spool'') w)))"

definition fs_open :: "openssl \<Rightarrow> jmscott \<Rightarrow> fs_run" where
  "fs_open ssl J w =
     (let s = fc_cli w in
      if cstr_at (cl_verb s) 0 = CHR ''w'' then
        if cl_algo s = [] then (Some (Msg ''wrap requires algo query arg in service uri''), w)
        else
          let w = w\<lparr>fc_cli := s\<lparr>cl_digest := find_digest ssl (cl_algo s)\<rparr>\<rparr> in
          if cl_digest (fc_cli w) = None then (Some (Msg ''unknown digest module in query arg \"algo\"''), w)
          else fs_open_dirs J (on_cli (\<lambda>s. s\<lparr>cl_algorithm := jm_strcat J 9 [] [cl_algo s]\<rparr>) w)
      else fs_open_dirs J w)"

definition close_end_point :: fs_run where
  "close_end_point w = (if fc_open w then sys (fs_touch w) (\<lambda>_ w. (None, w)) else (None, w))"

definition fs_close :: fs_run where
  "fs_close w =
     (if fc_wrap_set w = [] then close_end_point w
      else if fc_open w then
        sys (sys_unlink (one_slash (fc_wrap_set w)) w) (\<lambda>_ w. close_end_point (w\<lparr>fc_wrap_set := []\<rparr>))
      else close_end_point (w\<lparr>fc_wrap_set := []\<rparr>))"

section \<open>Links, paths and chats\<close>

text \<open>
  \<^verbatim>\<open>fs_hard_link\<close> between two nodes.  An error comes with \<^verbatim>\<open>errno\<close>, which \<^verbatim>\<open>fs_put\<close> reads; the empty
  error asks for a copy.
\<close>

definition link_size :: "jmscott \<Rightarrow> bytes \<Rightarrow> client \<Rightarrow> (errno \<times> cli_error) option \<times> client" where
  "link_size J tgt w =
     (case jm_fsizeat J tgt w of
        (Inl e, w1) \<Rightarrow> (Some e, w1)
      | (Inr n, w1) \<Rightarrow> (None, on_cli (\<lambda>s. s\<lparr>cl_blob_size := int n, cl_ok_no := 0\<rparr>) w1))"

definition fs_hard_link :: "jmscott \<Rightarrow> bytes \<Rightarrow> bytes \<Rightarrow> client \<Rightarrow> (errno \<times> cli_error) option \<times> client" where
  "fs_hard_link J src tgt w =
     (case sys_link src tgt w of
        (Inr _, w1) \<Rightarrow> link_size J tgt w1
      | (Inl e, w1) \<Rightarrow>
          if e = ENOENT then (None, on_cli (\<lambda>s. s\<lparr>cl_ok_no := 1\<rparr>) w1)
          else if e = EEXIST then link_size J tgt w1
          else if e = EXDEV then (Some (e, Msg ''''), w1)
          else (Some (e, Strerror e), w1))"

definition fs_blob_path :: "jmscott \<Rightarrow> nat \<Rightarrow> client \<Rightarrow> cli_error + bytes" where
  "fs_blob_path J path_size w =
     (let p = jm_strcat J path_size [] [fc_data w, ''/''] in
      case di_fs_path (the (cl_digest (fc_cli w))) (cl_ascii_digest (fc_cli w)) (path_size - length p) of
        Inl e \<Rightarrow> Inl e
      | Inr q \<Rightarrow> Inr (p @ q))"

definition fs_add_chat :: "jmscott \<Rightarrow> bytes \<Rightarrow> client \<Rightarrow> client" where
  "fs_add_chat J chat =
     on_cli (\<lambda>s. s\<lparr>cl_chat_history :=
       jm_strcat J 9 (cl_chat_history s) (if cl_chat_history s \<noteq> [] then ['','', chat] else [chat])\<rparr>)"

text \<open>A function that ends well: the value of \<^verbatim>\<open>*ok_no\<close> and the chat.\<close>

definition answer :: "jmscott \<Rightarrow> int \<Rightarrow> bytes \<Rightarrow> fs_run" where
  "answer J ok_no chat w = (None, fs_add_chat J chat (on_cli (\<lambda>s. s\<lparr>cl_ok_no := ok_no\<rparr>) w))"

section \<open>The verb get\<close>

text \<open>The clean up at \<^verbatim>\<open>BYE\<close>: the blob is closed, and the output when it is a file that is open.\<close>

definition get_bye :: "bool \<Rightarrow> cli_error option \<Rightarrow> fs_run" where
  "get_bye output_open err w =
     (case sys_else err (fs_touch w) of
        (err, w1) \<Rightarrow> if output_open then sys_else err (fs_touch w1) else (err, w1))"

text \<open>\<^verbatim>\<open>fs_get\<close> from the copy on; \<open>err\<close> is what \<^verbatim>\<open>fs_hard_link\<close> has left in \<^verbatim>\<open>err\<close>.\<close>

definition get_copy :: "jmscott \<Rightarrow> bytes \<Rightarrow> cli_error option \<Rightarrow> fs_run" where
  "get_copy J bp err w =
     (case io_fs_open (one_slash bp) w of
        (Inl e, w1) \<Rightarrow> if e = ENOENT then answer J 1 ''no'' w1 else (Some (Strerror e), w1)
      | (Inr bs, w1) \<Rightarrow>
          let w2 = snd (answer J 0 ''ok'' w1);
              size0 = on_cli (\<lambda>s. s\<lparr>cl_blob_size := 0\<rparr>)
          in case cl_output_path (fc_cli w2) of
            None \<Rightarrow> (case send_stdout J bs (size0 w2) of (err, w3) \<Rightarrow> get_bye False err w3)
          | Some p \<Rightarrow>
              (case io_fs_create (fc_cwd w2 p) w2 of
                 (Inl e, w3) \<Rightarrow> get_bye False (if err = None then Some (Strerror e) else err) w3
               | (Inr _, w3) \<Rightarrow>
                   (case send_file J [CData bs] (fc_cwd w2 p) (size0 w3) of
                      (sent, w4) \<Rightarrow> get_bye True (fst sent) w4)))"

definition fs_get :: "jmscott \<Rightarrow> fs_run" where
  "fs_get J w = val_or (fs_blob_path J (BLOBIO_MAX_FS_PATH + 1) w) (\<lambda>bp w.
     case cl_output_path (fc_cli w) of
       None \<Rightarrow> get_copy J bp None w
     | Some p \<Rightarrow>
         if p = ''/dev/null'' then
           (case jm_fsizeat J (one_slash bp) w of
              (Inl (e, err), w1) \<Rightarrow> if e \<noteq> ENOENT then (Some err, w1) else answer J 1 ''no'' w1
            | (Inr n, w1) \<Rightarrow> answer J 0 ''ok'' (on_cli (\<lambda>s. s\<lparr>cl_blob_size := int n\<rparr>) w1))
         else
           (case fs_hard_link J (one_slash bp) (fc_cwd w p) w of
              (Some (e, err), w1) \<Rightarrow>
                if err \<noteq> Msg '''' then (Some err, w1) else get_copy J bp (Some err) w1
            | (None, w1) \<Rightarrow> (None, fs_add_chat J ''ok'' w1))) w"

definition fs_take :: "jmscott \<Rightarrow> fs_run" where
  "fs_take J w = lib (fs_get J w) (\<lambda>w.
     if cl_ok_no (fc_cli w) = 1 then (None, fs_add_chat J ''no'' w)
     else val_or (fs_blob_path J (BLOBIO_MAX_FS_PATH + 1) w) (\<lambda>bp w.
       case sys_unlink (one_slash bp) w of
         (Inl e, w1) \<Rightarrow>
           if e \<noteq> ENOENT then (Some (Strerror e), w1)
           else answer J 0 ''ok,ok,ok'' (fs_add_chat J ''ok'' w1)
       | (Inr _, w1) \<Rightarrow> answer J 0 ''ok,ok,ok'' w1) (fs_add_chat J ''ok'' w))"

section \<open>The verbs put, give and eat\<close>

definition wrap_set_udig :: "jmscott \<Rightarrow> client \<Rightarrow> bytes" where
  "wrap_set_udig J w = jm_strcat J UDIG_SIZE [] [cl_algorithm (fc_cli w), '':'', cl_ascii_digest (fc_cli w)]"

definition fs_put_tmp :: "jmscott \<Rightarrow> client \<Rightarrow> bytes" where
  "fs_put_tmp J w =
     jm_strcat J (BLOBIO_MAX_FS_PATH + 1) []
       [''tmp/put-'', cl_udig (fc_cli w), ''-'', fc_epoch w, ''-'', fc_pid w, ''.blob'']"

text \<open>At \<^verbatim>\<open>BYE\<close> with the temporary file open; a rename has removed its name already.\<close>

definition put_bye :: "bytes \<Rightarrow> cli_error option \<Rightarrow> fs_run" where
  "put_bye tmp err w =
     (let (err, w) =
        (case sys_unlink (one_slash tmp) w of
           (Inl e, w1) \<Rightarrow> (if err = None \<and> e \<noteq> ENOENT then Some (Strerror e) else err, w1)
         | (Inr _, w1) \<Rightarrow> (err, w1))
      in case sys_else err (fs_touch w) of
        (err, w) \<Rightarrow> (err, if err = None then on_cli (\<lambda>s. s\<lparr>cl_ok_no := 0\<rparr>) w else w))"

definition put_copy :: "jmscott \<Rightarrow> bytes \<Rightarrow> fs_run" where
  "put_copy J bp w = lib (jm_mkdirat_path J ''tmp'' w) (\<lambda>w.
     let tmp = fs_put_tmp J w in
     case io_fs_create (one_slash tmp) w of
       (Inl e, w1) \<Rightarrow> (Some (Strerror e), w1)
     | (Inr _, w1) \<Rightarrow>
         (case send_file J (cl_input (fc_cli w1)) (one_slash tmp) w1 of
            (sent, w2) \<Rightarrow>
              let err = fst sent; w2 = on_cli (\<lambda>s. s\<lparr>cl_input := snd sent\<rparr>) w2 in
              if err \<noteq> None then put_bye tmp err w2
              else case io_fs_rename (one_slash tmp) (one_slash bp) w2 of
                (Inl e, w3) \<Rightarrow> put_bye tmp (Some (Strerror e)) w3
              | (Inr _, w3) \<Rightarrow> put_bye tmp None (fs_add_chat J ''ok'' w3)))"

definition blob_dir_path :: "jmscott \<Rightarrow> nat \<Rightarrow> client \<Rightarrow> cli_error + bytes" where
  "blob_dir_path J path_size w =
     (let p = jm_strcat J path_size [] [fc_data w, ''/''] in
      case di_fs_dir_path (the (cl_digest (fc_cli w))) (cl_ascii_digest (fc_cli w)) (path_size - length p) of
        Inl e \<Rightarrow> Inl e
      | Inr q \<Rightarrow> Inr (p @ q))"

definition fs_put :: "jmscott \<Rightarrow> fs_run" where
  "fs_put J w =
     val_or (fs_blob_path J (BLOBIO_MAX_FS_PATH + 1) w) (\<lambda>bp w.
     val_or (blob_dir_path J (BLOBIO_MAX_FS_PATH + 1) w) (\<lambda>dir w.
     lib (jm_mkdirat_path J dir w) (\<lambda>w.
       let w = fs_add_chat J ''ok'' w in
       case cl_input_path (fc_cli w) of
         None \<Rightarrow> put_copy J bp w
       | Some p \<Rightarrow>
           (case fs_hard_link J (fc_cwd w p) (one_slash bp) w of
              (Some (e, err), w1) \<Rightarrow>
                if e = EEXIST then (None, fs_add_chat J ''ok'' w1)
                else if err \<noteq> Msg '''' then (Some err, w1)
                else put_copy J bp w1
            | (None, w1) \<Rightarrow> (None, fs_add_chat J ''ok'' w1)))) w) w"

definition fs_give :: "jmscott \<Rightarrow> fs_run" where
  "fs_give J w = lib (fs_put J w) (\<lambda>w.
     if cl_ok_no (fc_cli w) = 1 then (None, fs_add_chat J ''no'' w)
     else case cl_input_path (fc_cli w) of
       None \<Rightarrow> (None, fs_add_chat J ''ok'' w)
     | Some p \<Rightarrow>
         (case sys_unlink (fc_cwd w p) w of
            (Inl e, w1) \<Rightarrow> if e \<noteq> ENOENT then (Some (Strerror e), w1) else (None, fs_add_chat J ''ok'' w1)
          | (Inr _, w1) \<Rightarrow> (None, fs_add_chat J ''ok'' w1)))"

text \<open>\<^verbatim>\<open>faccessat\<close> for reading: that a file may not be read is one of the failures of the kernel.\<close>

definition fs_eat :: "jmscott \<Rightarrow> fs_run" where
  "fs_eat J w =
     (let p = jm_strcat J (BLOBIO_MAX_FS_PATH + 1) [] [''data/fs_'', cl_algorithm (fc_cli w), ''/''] in
      val_or (di_fs_path (the (cl_digest (fc_cli w))) (cl_ascii_digest (fc_cli w)) (BLOBIO_MAX_FS_PATH + 1 - length p))
        (\<lambda>q w. case io_fs_lstat (one_slash (p @ q)) w of
           (Inl e, w1) \<Rightarrow> if e = ENOENT then answer J 1 ''no'' w1 else (Some (Strerror e), w1)
         | (Inr _, w1) \<Rightarrow> answer J 0 ''ok'' w1) w)"

text \<open>\<^verbatim>\<open>fs_eat_input\<close> of a file with the bytes \<open>bs\<close>, which is read from its beginning again afterwards.\<close>

definition fs_eat_input :: "jmscott \<Rightarrow> bytes \<Rightarrow> fs_run" where
  "fs_eat_input J bs w =
     (let s = fc_cli w;
          di = the (cl_digest s);
          s = s\<lparr>cl_ascii_digest := [], cl_digest_state := di_init di [] (cl_digest_state s)\<rparr>
      in case di_eat_input di (lib_msg_size J) [CData bs] (cl_digest_state s) of
        (Inl e, _, d) \<Rightarrow> (Some (Strerror e), w\<lparr>fc_cli := s\<lparr>cl_digest_state := d\<rparr>\<rparr>)
      | (Inr a, _, d) \<Rightarrow> jm_rewind J (w\<lparr>fc_cli := s\<lparr>cl_ascii_digest := a, cl_digest_state := d\<rparr>\<rparr>))"

section \<open>The verb wrap\<close>

definition node_bytes :: "bytes \<Rightarrow> 's fs_scheme \<Rightarrow> bytes" where
  "node_bytes p w = (case map_of (fs_nodes w) p of Some (File bs) \<Rightarrow> bs | _ \<Rightarrow> [])"

text \<open>A put of the bytes of an open file under the digest that they have just been found to have.\<close>

definition put_digested :: "jmscott \<Rightarrow> bytes \<Rightarrow> fs_run" where
  "put_digested J bs w =
     fs_put J (on_cli (\<lambda>s. s\<lparr>cl_udig := wrap_set_udig J w, cl_input := [CData bs]\<rparr>) w)"

text \<open>The udig of an entry of \<^verbatim>\<open>spool/wrap\<close>: its name, and whether it is a regular file.\<close>

definition wrap_udig :: "jmscott \<Rightarrow> bytes \<times> bool \<Rightarrow> bytes option" where
  "wrap_udig J ep =
     (let nm = fst ep; nlen = length nm in
      if nm = ''.'' \<or> nm = ''..'' then None
      else if \<not> snd ep then None
      else if nlen < 38 \<or> nlen > 141 then None
      else if drop (nlen - 4) nm \<noteq> ''.brr'' then None
      else if lib_frisk_udig J (take (nlen - 4) nm) \<noteq> None then None
      else Some (take (nlen - 4) nm))"

fun fs_wrap_scan :: "jmscott \<Rightarrow> (bytes \<times> bool) list \<Rightarrow> fs_run" where
  "fs_wrap_scan J [] w = (None, w)"
| "fs_wrap_scan J (ep # eps) w =
     (case wrap_udig J ep of
        None \<Rightarrow> fs_wrap_scan J eps w
      | Some u \<Rightarrow>
          (case jm_write_all J (u @ [NL]) (fc_file_writes w) of
             (r, out, evs) \<Rightarrow>
               let w = append_node (one_slash (fc_wrap_set w)) out (w\<lparr>fc_file_writes := evs\<rparr>)
               in (case r of Inl e \<Rightarrow> (Some (Strerror e), w) | Inr _ \<Rightarrow> fs_wrap_scan J eps w)))"

text \<open>
  The set of the udigs: \<^verbatim>\<open>tmp/wrap-set-<epoch>-<pid>.uset\<close> is made by a scan of \<^verbatim>\<open>spool/wrap\<close>, digested,
  put, and removed.  The calls without a value are the open of the directory, the end of the scan
  and the close.
\<close>

definition wrap_set_put :: "jmscott \<Rightarrow> fs_run" where
  "wrap_set_put J w =
     (let ws = jm_strcat J (BLOBIO_MAX_FS_PATH + 1) []
                 [''tmp/wrap-set-'', fc_epoch w, ''-'', fc_pid w, ''.uset''];
          w = w\<lparr>fc_wrap_set := ws\<rparr>
      in sys (io_fs_create (one_slash ws) w) (\<lambda>_ w.
         sys (fs_touch w) (\<lambda>_ w.
         sys (io_fs_opendir ''spool/wrap'' w) (\<lambda>eps w.
         lib (fs_wrap_scan J eps w) (\<lambda>w.
         sys (fs_touch w) (\<lambda>_ w.
         sys (fs_touch w) (\<lambda>_ w.
         lib (jm_rewind J w) (\<lambda>w.
         lib (fs_eat_input J (node_bytes (one_slash ws) w) w) (\<lambda>w.
         lib (put_digested J (node_bytes (one_slash ws) w) w) (\<lambda>w.
         case sys_unlink (one_slash ws) w of
           (Inl e, w1) \<Rightarrow> (Some (Strerror e), w1\<lparr>fc_wrap_set := []\<rparr>)
         | (Inr _, w1) \<Rightarrow> answer J 0 ''ok'' w1))))))))))"

definition fs_brr_path :: "jmscott \<Rightarrow> client \<Rightarrow> bytes" where
  "fs_brr_path J w = jm_strcat J (BLOBIO_MAX_FS_PATH + 1) [] [''spool/'', cl_fnp (fc_cli w), ''.brr'']"

definition fs_frozen_path :: "jmscott \<Rightarrow> client \<Rightarrow> bytes" where
  "fs_frozen_path J w =
     jm_strcat J (BLOBIO_MAX_FS_PATH + 1) []
       [''spool/FROZEN-'', cl_fnp (fc_cli w), ''-'', fc_epoch w, ''-'', fc_pid w, ''.brr'']"

definition fs_wrap_path :: "jmscott \<Rightarrow> client \<Rightarrow> bytes" where
  "fs_wrap_path J w =
     jm_strcat J (BLOBIO_MAX_FS_PATH + 1) []
       [''spool/wrap/'', cl_algorithm (fc_cli w), '':'', cl_ascii_digest (fc_cli w), ''.brr'']"

text \<open>From the open of the frozen log to its move into \<^verbatim>\<open>spool/wrap\<close>.\<close>

definition wrap_frozen :: "jmscott \<Rightarrow> bytes \<Rightarrow> fs_run" where
  "wrap_frozen J frozen w =
     sys (io_fs_open (one_slash frozen) w) (\<lambda>bs w.
     lib (fs_eat_input J bs w) (\<lambda>w.
     sys (jm_mkdirat_EEXIST J ''spool/wrap'' w) (\<lambda>_ w.
     lib (case put_digested J bs w of (err, w) \<Rightarrow> sys_else err (fs_touch w)) (\<lambda>w.
       if cl_ok_no (fc_cli w) = 1 then (None, w)
       else sys (io_fs_rename (one_slash frozen) (one_slash (fs_wrap_path J w)) w) (\<lambda>_ w. wrap_set_put J w)))))"

definition fs_wrap :: "jmscott \<Rightarrow> fs_run" where
  "fs_wrap J w = sys (jm_mkdirat_EEXIST J ''spool'' w) (\<lambda>_ w.
     let frozen = fs_frozen_path J w in
     case io_fs_rename (one_slash (fs_brr_path J w)) (one_slash frozen) w of
       (Inl e, w1) \<Rightarrow> if e \<noteq> ENOENT then (Some (Strerror e), w1) else answer J 1 ''no'' w1
     | (Inr _, w1) \<Rightarrow> wrap_frozen J frozen w1)"

section \<open>The verb roll\<close>

text \<open>
  The loop over the offsets of the newlines; \<open>roll_blob\<close> has a NUL behind the bytes of the blob, and
  \<open>prev_o\<close> is where the next udig begins.
\<close>

fun fs_roll_loop :: "jmscott \<Rightarrow> nat list \<Rightarrow> nat \<Rightarrow> bytes \<Rightarrow> fs_run" where
  "fs_roll_loop J [] prev_o roll_blob w = (None, w)"
| "fs_roll_loop J (o' # os) prev_o roll_blob w =
     (if roll_blob ! o' \<noteq> NL then (Some (Msg ''udig set: char at offset not 0x0a''), w)
      else
        let roll_blob = roll_blob[o' := NUL];
            ud = cstr (drop prev_o roll_blob)
        in if ud = [] then (Some (Msg ''empty udig''), w)
        else if length ud < 34 then (Some (Msg ''wrap udig < 34 chars''), w)
        else
          let path = jm_strcat J (BLOBIO_MAX_FS_PATH + 1) [] [''spool/wrap/'', ud, ''.brr'']
          in case sys_unlink (one_slash path) w of
            (Inl e, w1) \<Rightarrow>
              if e \<noteq> ENOENT then (Some (Strerror e), w1) else fs_roll_loop J os (o' + 1) roll_blob w1
          | (Inr _, w1) \<Rightarrow> fs_roll_loop J os (o' + 1) roll_blob w1)"

definition node_size :: "node \<Rightarrow> nat" where
  "node_size n = (case n of File bs \<Rightarrow> length bs | _ \<Rightarrow> 0)"

definition fs_roll :: "jmscott \<Rightarrow> fs_run" where
  "fs_roll J w =
     val_or (fs_blob_path J (BLOBIO_MAX_FS_PATH + 1) w) (\<lambda>roll_path w.
       case io_fs_lstat (one_slash roll_path) w of
         (Inl e, w1) \<Rightarrow> (Some (if e = ENOENT then Msg ''roll blob does not exist'' else Strerror e), w1)
       | (Inr st, w1) \<Rightarrow>
           sys (io_fs_open (one_slash roll_path) w1) (\<lambda>bs w.
           sys (jm_read_exact J (node_size st) bs w) (\<lambda>roll_blob w.
           sys (fs_touch w) (\<lambda>_ w.
           val_or (jm_split J roll_blob NL (16 * 1024)) (\<lambda>roll_offset w.
             if roll_offset = [] then (Some (Msg ''no udigs in roll set''), w)
             else lib (fs_roll_loop J roll_offset 0 (roll_blob @ [NUL]) w) (answer J 0 ''ok'')) w))))
       (on_cli (\<lambda>s. s\<lparr>cl_ok_no := 1\<rparr>) w)"

section \<open>The log of the service\<close>

text \<open>\<^verbatim>\<open>struct brr\<close> of the client; its \<^verbatim>\<open>log_fd\<close> is \<open>fc_log\<close>.\<close>

record cli_brr =
  cb_transport :: bytes
  cb_verb :: bytes
  cb_udig :: bytes
  cb_chat_history :: bytes
  cb_blob_size :: int

definition fs_brr_frisk :: "jmscott \<Rightarrow> cli_brr \<Rightarrow> client \<Rightarrow> cli_error option \<times> cli_brr \<times> client" where
  "fs_brr_frisk J brr w =
     (let brr = brr\<lparr>cb_chat_history := jm_strcat J 9 [] [cl_chat_history (fc_cli w)],
                    cb_transport := jm_strcat J 138 [] [''fs~'', fc_end_point w, ''#'', fc_pid w]\<rparr>
      in case jm_mkdirat_EEXIST J ''spool'' w of
        (Inl e, w1) \<Rightarrow> (Some (Strerror e), brr, w1)
      | (Inr _, w1) \<Rightarrow>
          let p = fs_brr_path J w1 in
          (case io_fs_open_append (one_slash p) w1 of
             (Inl e, w2) \<Rightarrow> (Some (Strerror e), brr, w2)
           | (Inr _, w2) \<Rightarrow> (None, brr, w2\<lparr>fc_log := Some (one_slash p)\<rparr>)))"

end
