(* ===== verification/Cli_Fs_Frame.thy ===== *)
theory Cli_Fs_Frame
  imports Cli_Fs
begin

text \<open>
  What the file service leaves alone: the files that a verb may change and the globals that it never
  changes, for every failure of the kernel.  The interface to libjmscott is the locale \<open>libjmscott\<close>.
\<close>

section \<open>The interface to libjmscott\<close>

text \<open>What is at a path when a directory is.\<close>

abbreviation dir_at :: "bytes \<Rightarrow> 's fs_scheme \<Rightarrow> bool" where
  "dir_at p w \<equiv> standing (fs_nodes w) p"

definition room_at :: "bytes \<Rightarrow> 's fs_scheme \<Rightarrow> bool" where
  "room_at p w \<longleftrightarrow> map_of (fs_nodes w) p = None \<or> dir_at p w"

text \<open>
  Concatenation is exact when the result fits; directories are made without other changes, and are made
  when nothing is in the way and the kernel fails nowhere; a size is that of the file; a copy without an
  error is complete; and splits and reads are what their names say.
\<close>

locale libjmscott =
  fixes J :: jmscott
  assumes strcat: "length t + length (concat ss) < n \<Longrightarrow> jm_strcat J n t ss = t @ concat ss"
    and mkdir_only: "jm_mkdirat_path J p w = (r, w') \<Longrightarrow> only_dirs_added w w' \<and> fs_only w w'"
    and mkdir_where: "jm_mkdirat_path J p w = (r, w') \<Longrightarrow> map_of (fs_nodes w') q \<noteq> map_of (fs_nodes w) q \<Longrightarrow>
      q \<in> set (slash_prefixes [] (one_slash p @ ''/''))"
    and mkdir_done: "jm_mkdirat_path J p w = (None, w') \<Longrightarrow> dir_at (one_slash p) w'"
    and mkdir_calm: "jm_mkdirat_path J p w = (r, w') \<Longrightarrow> fs_faults w = [] \<Longrightarrow> take 1 p \<notin> {[], ''/''} \<Longrightarrow>
      \<forall>q \<in> set (slash_prefixes [] (one_slash p @ ''/'')). room_at q w \<Longrightarrow> r = None \<and> fs_faults w' = []"
    and mkdir1_only: "jm_mkdirat_EEXIST J p w = (s, w') \<Longrightarrow> only_dirs_added w w' \<and> fs_only w w'"
    and mkdir1_where: "jm_mkdirat_EEXIST J p w = (s, w') \<Longrightarrow> map_of (fs_nodes w') q \<noteq> map_of (fs_nodes w) q \<Longrightarrow>
      q = one_slash p"
    and mkdir1_done: "jm_mkdirat_EEXIST J p w = (Inr u, w') \<Longrightarrow> map_of (fs_nodes w') (one_slash p) \<noteq> None"
    and mkdir1_calm: "jm_mkdirat_EEXIST J p w = (s, w') \<Longrightarrow> fs_faults w = [] \<Longrightarrow> p \<noteq> [] \<Longrightarrow>
      parent_there (one_slash p) (fs_nodes w) \<Longrightarrow> s = Inr () \<and> fs_faults w' = []"
    and fsize_only: "jm_fsizeat J p w = (z, w') \<Longrightarrow> fs_nodes w' = fs_nodes w \<and> fs_only w w'"
    and fsize_error: "jm_fsizeat J p w = (Inl (e, err), w') \<Longrightarrow> err \<noteq> Msg '''' \<and> e \<noteq> EEXIST"
    and fsize_file: "jm_fsizeat J p w = (Inr n, w') \<Longrightarrow>
      \<exists>node. map_of (fs_nodes w) p = Some node \<and> (\<forall>bs. node = File bs \<longrightarrow> n = length bs)"
    and fsize_none: "jm_fsizeat J p w = (Inl (ENOENT, err), w') \<Longrightarrow> fs_faults w = [] \<Longrightarrow> map_of (fs_nodes w) p = None"
    and fsize_calm: "jm_fsizeat J p w = (z, w') \<Longrightarrow> fs_faults w = [] \<Longrightarrow>
      fs_faults w' = [] \<and> (map_of (fs_nodes w) p \<noteq> None \<longrightarrow> (\<exists>n. z = Inr n)) \<and>
      (map_of (fs_nodes w) p = None \<longrightarrow> (\<exists>err. z = Inl (ENOENT, err)))"
    and send_whole: "jm_send_file J evs ws m = ((None, out, m'), evs', ws') \<Longrightarrow>
      out = event_data evs \<and> (m = 0 \<longrightarrow> m' = int (length out))"
    and send_prefix: "jm_send_file J evs ws m = ((er, out, m'), evs', ws') \<Longrightarrow> \<exists>tl. event_data evs = out @ tl"
    and send_calm: "jm_send_file J evs [] m = ((er, out, m'), evs', ws') \<Longrightarrow> plain evs \<Longrightarrow> er = None \<and> ws' = []"
    and rewind_only: "jm_rewind J w = (r, w') \<Longrightarrow> fs_nodes w' = fs_nodes w \<and> fs_only w w'"
    and rewind_calm: "jm_rewind J w = (r, w') \<Longrightarrow> fs_faults w = [] \<Longrightarrow> r = None \<and> fs_faults w' = []"
    and write_whole: "jm_write_all J bs ws = (Inr u, out, ws') \<Longrightarrow> out = bs"
    and write_calm: "jm_write_all J bs [] = (s, out, ws') \<Longrightarrow> s = Inr () \<and> ws' = []"
    and read_exact: "jm_read_exact J n bs w = (Inr buf, w') \<Longrightarrow> n \<le> length bs \<and> buf = take n bs"
    and read_only: "jm_read_exact J n bs w = (b, w') \<Longrightarrow> fs_nodes w' = fs_nodes w \<and> fs_only w w'"
    and read_calm: "jm_read_exact J n bs w = (b, w') \<Longrightarrow> fs_faults w = [] \<Longrightarrow> n \<le> length bs \<Longrightarrow>
      b = Inr (take n bs) \<and> fs_faults w' = []"
    and split_at: "jm_split J bs c n = Inr os \<Longrightarrow> os = filter (\<lambda>i. bs ! i = c) [0..<length bs]"
    and split_room: "length (filter (\<lambda>i. bs ! i = c) [0..<length bs]) \<le> n \<Longrightarrow> \<exists>os. jm_split J bs c n = Inr os"

section \<open>Frames\<close>

text \<open>\<open>w'\<close> has the files of \<open>w\<close> but for those with \<open>P\<close>, and perhaps more directories.\<close>

definition same_but :: "(bytes \<Rightarrow> bool) \<Rightarrow> 's fs_scheme \<Rightarrow> 't fs_scheme \<Rightarrow> bool" where
  "same_but P w w' \<longleftrightarrow>
     (\<forall>q. \<not> P q \<longrightarrow> map_of (fs_nodes w') q = map_of (fs_nodes w) q \<or>
            map_of (fs_nodes w) q = None \<and> map_of (fs_nodes w') q = Some Dir)"

text \<open>The globals that paths are made from.\<close>

definition cli_names where
  "cli_names s = (cl_verb s, cl_algorithm s, cl_fnp s, cl_udig s, cl_ascii_digest s, cl_digest s, cl_input_path s,
      cl_output_path s, cl_brr_mask s)"

definition names where
  "names w = (fc_data w, fc_end_point w, fc_cwd w, fc_pid w, fc_epoch w, fs_dev w, cli_names (fc_cli w))"

definition stays :: "(bytes \<Rightarrow> bool) \<Rightarrow> client \<Rightarrow> client \<Rightarrow> bool" where
  "stays P w w' \<longleftrightarrow> same_but P w w' \<and> names w' = names w"

definition keeps :: "(bytes \<Rightarrow> bool) \<Rightarrow> client \<Rightarrow> 'a \<times> client \<Rightarrow> bool" where
  "keeps P w m \<longleftrightarrow> stays P w (snd m)"

lemma same_but_trans: "same_but P w w1 \<Longrightarrow> same_but P w1 w2 \<Longrightarrow> same_but P w w2"
  unfolding same_but_def by (metis option.distinct(1))

lemma stays_refl [simp]: "stays P w w"
  by (simp add: stays_def same_but_def)

lemma stays_trans: "stays P w w1 \<Longrightarrow> stays P w1 w2 \<Longrightarrow> stays P w w2"
  by (auto simp: stays_def intro: same_but_trans)

lemma stays_mono: "stays P w w' \<Longrightarrow> (\<And>q. P q \<Longrightarrow> Q q) \<Longrightarrow> stays Q w w'"
  unfolding stays_def same_but_def by metis

lemma names_only: "fs_only w w' \<Longrightarrow> names w' = names w"
proof -
  assume "fs_only w w'"
  then have "names w' = names (w\<lparr>fs_faults := fs_faults w', fs_nodes := fs_nodes w'\<rparr>)"
    unfolding fs_only_def by metis
  then show ?thesis by (simp add: names_def)
qed

lemma stays_only:
  assumes "fs_only v w'" and "same_but P v w'"
  shows "stays P v w'"
  using assms by (simp add: stays_def names_only)

lemma stays_dirs: "only_dirs_added v w' \<Longrightarrow> fs_only v w' \<Longrightarrow> stays P v w'"
  by (intro stays_only) (auto simp: same_but_def only_dirs_added_def)

lemma stays_nodes: "fs_nodes w' = fs_nodes v \<Longrightarrow> fs_only v w' \<Longrightarrow> stays P v w'"
  by (intro stays_only) (auto simp: same_but_def)

text \<open>The rules that take a function apart, and those for the calls it is made of.\<close>

named_theorems frame \<open>frames of the functions of the file service\<close>

lemma keeps_pair [frame]: "stays P w w' \<Longrightarrow> keeps P w (x, w')"
  by (simp add: keeps_def)

lemma keeps_prod [frame]:
  "keeps P w m \<Longrightarrow> (\<And>x w1. m = (x, w1) \<Longrightarrow> stays P w w1 \<Longrightarrow> keeps P w (f x w1)) \<Longrightarrow> keeps P w (case_prod f m)"
  by (cases m) (auto simp: keeps_def)

lemma keeps_sum [frame]:
  "(\<And>e. s = Inl e \<Longrightarrow> keeps P w (f e)) \<Longrightarrow> (\<And>x. s = Inr x \<Longrightarrow> keeps P w (g x)) \<Longrightarrow> keeps P w (case_sum f g s)"
  by (cases s) auto

lemma keeps_sum_fun [frame]:
  "(\<And>e. s = Inl e \<Longrightarrow> keeps P w (f e v)) \<Longrightarrow> (\<And>x. s = Inr x \<Longrightarrow> keeps P w (g x v)) \<Longrightarrow> keeps P w (case_sum f g s v)"
  by (cases s) auto

lemma keeps_option [frame]:
  "(s = None \<Longrightarrow> keeps P w f) \<Longrightarrow> (\<And>x. s = Some x \<Longrightarrow> keeps P w (g x)) \<Longrightarrow> keeps P w (case_option f g s)"
  by (cases s) auto

lemma keeps_option_fun [frame]:
  "(s = None \<Longrightarrow> keeps P w (f v)) \<Longrightarrow> (\<And>x. s = Some x \<Longrightarrow> keeps P w (g x v)) \<Longrightarrow> keeps P w (case_option f g s v)"
  by (cases s) auto

lemma keeps_if [frame]:
  "(b \<Longrightarrow> keeps P w m) \<Longrightarrow> (\<not> b \<Longrightarrow> keeps P w n) \<Longrightarrow> keeps P w (if b then m else n)"
  by simp

lemma keeps_error [frame]:
  "(\<And>a b. x = (a, b) \<Longrightarrow> keeps P w (f a b)) \<Longrightarrow> keeps P w (case_prod f (x :: 'a \<times> cli_error))"
  by (cases x) simp

lemma keeps_case [frame]: "keeps P w (f (fst x) (snd x) v) \<Longrightarrow> keeps P w (case_prod f x v)"
  by (cases x) simp

lemma stays_if [frame]:
  "(b \<Longrightarrow> stays P w v) \<Longrightarrow> (\<not> b \<Longrightarrow> stays P w v') \<Longrightarrow> stays P w (if b then v else v')"
  by simp

lemma keeps_let [frame]: "keeps P w (f x) \<Longrightarrow> keeps P w (Let x f)"
  by simp

lemma keeps_sys [frame]:
  "keeps P w m \<Longrightarrow> (\<And>x w1. stays P w w1 \<Longrightarrow> keeps P w (k x w1)) \<Longrightarrow> keeps P w (sys m k)"
  by (cases m) (auto simp: keeps_def sys_def split: sum.splits)

lemma keeps_lib [frame]:
  "keeps P w m \<Longrightarrow> (\<And>w1. m = (None, w1) \<Longrightarrow> stays P w w1 \<Longrightarrow> keeps P w (k w1)) \<Longrightarrow> keeps P w (lib m k)"
  by (cases m) (auto simp: keeps_def lib_def split: option.splits)

lemma keeps_val [frame]:
  "(\<And>x. m = Inr x \<Longrightarrow> keeps P w (k x v)) \<Longrightarrow> stays P w v \<Longrightarrow> keeps P w (val_or m k v)"
  by (cases m) (auto simp: keeps_def val_or_def)

lemma keeps_else [frame]: "keeps P w m \<Longrightarrow> keeps P w (sys_else err m)"
  by (cases m) (auto simp: keeps_def sys_else_def split: sum.splits)

lemma stays_cli [frame]:
  "stays P w v \<Longrightarrow> cli_names s = cli_names (fc_cli v) \<Longrightarrow> stays P w (v\<lparr>fc_cli := s\<rparr>)"
  by (simp add: stays_def names_def same_but_def)

lemma stays_writes [frame]: "stays P w v \<Longrightarrow> stays P w (v\<lparr>fc_file_writes := evs\<rparr>)"
  by (simp add: stays_def names_def same_but_def)

lemma stays_chat [frame]: "stays P w v \<Longrightarrow> stays P w (fs_add_chat J c v)"
  by (simp add: fs_add_chat_def stays_def names_def same_but_def cli_names_def)

lemma keeps_answer [frame]: "stays P w v \<Longrightarrow> keeps P w (answer J n c v)"
  by (simp add: answer_def keeps_def fs_add_chat_def stays_def names_def same_but_def cli_names_def)

lemma keeps_call:
  assumes "stays P w v" and "\<And>r w1. m = (r, w1) \<Longrightarrow> stays P v w1"
  shows "keeps P w m"
  using assms by (cases m) (auto simp: keeps_def intro: stays_trans)

lemma keeps_touch [frame]: "stays P w v \<Longrightarrow> keeps P w (fs_touch v)"
  by (erule keeps_call) (rule stays_nodes [OF fs_touch_nodes fs_only_touch])

lemma keeps_open [frame]: "stays P w v \<Longrightarrow> keeps P w (io_fs_open p v)"
  by (erule keeps_call, rule stays_nodes [OF _ fs_only_open])
    (auto simp: io_fs_open_def fs_call_def split: prod.splits option.splits node.splits)

lemma keeps_lstat [frame]: "stays P w v \<Longrightarrow> keeps P w (io_fs_lstat p v)"
  by (erule keeps_call) (rule stays_nodes [OF lstat_nodes fs_only_lstat])

lemma same_but_set: "P p \<Longrightarrow> same_but P w v \<Longrightarrow> same_but P w (v\<lparr>fs_nodes := set_node p n (fs_nodes v)\<rparr>)"
  by (simp add: same_but_def)

lemma keeps_create [frame]: "stays P w v \<Longrightarrow> P p \<Longrightarrow> keeps P w (io_fs_create p v)"
  by (erule keeps_call, rule stays_only [OF fs_only_create])
    (auto simp: io_fs_create_def fs_call_def same_but_def split: prod.splits option.splits if_splits)

lemma fs_only_link: "sys_link p q w = (r, w') \<Longrightarrow> fs_only w w'"
  unfolding sys_link_def by (erule fs_only_call) (simp add: fs_only_upd split: option.split)

lemma fs_only_sys_unlink: "sys_unlink p w = (r, w') \<Longrightarrow> fs_only w w'"
  unfolding sys_unlink_def by (erule fs_only_call) (simp add: fs_only_upd split: option.split node.split)

lemma keeps_link [frame]: "stays P w v \<Longrightarrow> P q \<Longrightarrow> keeps P w (sys_link p q v)"
  by (erule keeps_call, rule stays_only [OF fs_only_link])
    (auto simp: sys_link_def fs_call_def same_but_def split: prod.splits option.splits if_splits)

lemma keeps_sys_unlink [frame]: "stays P w v \<Longrightarrow> P p \<Longrightarrow> keeps P w (sys_unlink p v)"
  by (erule keeps_call, rule stays_only [OF fs_only_sys_unlink])
    (auto simp: sys_unlink_def fs_call_def same_but_def split: prod.splits option.splits node.splits if_splits)

lemma keeps_rename [frame]: "stays P w v \<Longrightarrow> P p \<Longrightarrow> P q \<Longrightarrow> keeps P w (io_fs_rename p q v)"
  by (erule keeps_call, rule stays_only [OF fs_only_rename])
    (auto simp: io_fs_rename_def fs_call_def same_but_def split: prod.splits option.splits if_splits)

lemma stays_append [frame]: "stays P w v \<Longrightarrow> P p \<Longrightarrow> stays P w (append_node p bs v)"
  by (auto simp: append_node_def stays_def same_but_def names_def split: option.splits node.splits)

lemma append_names [simp]: "cli_names (fc_cli (append_node p bs v)) = cli_names (fc_cli v)"
  by (auto simp: append_node_def split: option.splits node.splits)

lemma keeps_send [frame]: "stays P w v \<Longrightarrow> P p \<Longrightarrow> keeps P w (send_file J src p v)"
  by (auto simp: send_file_def cli_names_def split: prod.splits intro!: frame)

lemma keeps_stdout [frame]: "stays P w v \<Longrightarrow> keeps P w (send_stdout J bs v)"
  by (auto simp: send_stdout_def Let_def cli_names_def split: prod.splits intro!: frame)

section \<open>The functions\<close>

text \<open>What a put may change, and a get.\<close>

definition put_path :: "jmscott \<Rightarrow> client \<Rightarrow> bytes option" where
  "put_path J w =
     (case fs_blob_path J (BLOBIO_MAX_FS_PATH + 1) w of Inl e \<Rightarrow> None | Inr p \<Rightarrow> Some (one_slash p))"

definition put_area :: "jmscott \<Rightarrow> client \<Rightarrow> bytes \<Rightarrow> bool" where
  "put_area J w q \<longleftrightarrow> put_path J w = Some q \<or> q = one_slash (fs_put_tmp J w)"

definition out_area :: "client \<Rightarrow> bytes \<Rightarrow> bool" where
  "out_area w q \<longleftrightarrow> map_option (fc_cwd w) (cl_output_path (fc_cli w)) = Some q"

lemma names_eqs:
  assumes "stays P w v"
  shows "fc_data v = fc_data w" "fc_cwd v = fc_cwd w" "fc_pid v = fc_pid w" "fc_epoch v = fc_epoch w"
    "cl_udig (fc_cli v) = cl_udig (fc_cli w)" "cl_digest (fc_cli v) = cl_digest (fc_cli w)"
    "cl_ascii_digest (fc_cli v) = cl_ascii_digest (fc_cli w)" "cl_algorithm (fc_cli v) = cl_algorithm (fc_cli w)"
    "cl_input_path (fc_cli v) = cl_input_path (fc_cli w)" "cl_output_path (fc_cli v) = cl_output_path (fc_cli w)"
    "fs_dev v = fs_dev w" "fc_end_point v = fc_end_point w" "cl_fnp (fc_cli v) = cl_fnp (fc_cli w)"
  using assms by (auto simp: stays_def names_def cli_names_def)

lemma stays_paths:
  assumes "stays P w v"
  shows "fs_blob_path J n v = fs_blob_path J n w" "fs_put_tmp J v = fs_put_tmp J w"
    "blob_dir_path J n v = blob_dir_path J n w"
  using names_eqs [OF assms] by (simp_all add: fs_blob_path_def fs_put_tmp_def blob_dir_path_def)

lemma out_areaI [frame]:
  "stays P w v \<Longrightarrow> cl_output_path (fc_cli v) = Some p \<Longrightarrow> out_area w (fc_cwd v p)"
  using names_eqs [of P w v] by (simp add: out_area_def)

lemma put_pathI [frame]:
  "fs_blob_path J (BLOBIO_MAX_FS_PATH + 1) v = Inr x \<Longrightarrow> stays P w v \<Longrightarrow> put_path J w = Some (one_slash x)"
  using stays_paths [of P w v] by (simp add: put_path_def)

lemma put_areaI [frame]:
  "stays P w v \<Longrightarrow> put_area J w (one_slash (fs_put_tmp J v))"
  "fs_blob_path J (BLOBIO_MAX_FS_PATH + 1) w = Inr x \<Longrightarrow> put_area J w (one_slash x)"
  using stays_paths [of P w v] by (simp_all add: put_area_def put_path_def)

lemma cwd_chat [simp]: "fc_cwd (fs_add_chat J c v) = fc_cwd v"
  by (simp add: fs_add_chat_def)

context libjmscott begin

lemma keeps_mkdir [frame]: "stays P w v \<Longrightarrow> keeps P w (jm_mkdirat_path J p v)"
  by (erule keeps_call) (use mkdir_only in \<open>blast intro: stays_dirs\<close>)

lemma keeps_mkdir1 [frame]: "stays P w v \<Longrightarrow> keeps P w (jm_mkdirat_EEXIST J p v)"
  by (erule keeps_call) (use mkdir1_only in \<open>blast intro: stays_dirs\<close>)

lemma keeps_fsize [frame]: "stays P w v \<Longrightarrow> keeps P w (jm_fsizeat J p v)"
  by (erule keeps_call) (use fsize_only in \<open>blast intro: stays_nodes\<close>)

lemma keeps_rewind [frame]: "stays P w v \<Longrightarrow> keeps P w (jm_rewind J v)"
  by (erule keeps_call) (use rewind_only in \<open>blast intro: stays_nodes\<close>)

lemma keeps_read [frame]: "stays P w v \<Longrightarrow> keeps P w (jm_read_exact J n bs v)"
  by (erule keeps_call) (use read_only in \<open>blast intro: stays_nodes\<close>)

lemma keeps_hard_link [frame]: "stays P w v \<Longrightarrow> P tgt \<Longrightarrow> keeps P w (fs_hard_link J src tgt v)"
  unfolding fs_hard_link_def link_size_def by (auto intro!: frame simp: cli_names_def)

lemma keeps_get_bye [frame]: "stays P w v \<Longrightarrow> keeps P w (get_bye b err v)"
  unfolding get_bye_def by (intro frame)

lemma stays_snd [frame]: "stays P w v \<Longrightarrow> stays P w (snd (answer J n c v))"
  using keeps_answer [of P w v] by (simp add: keeps_def)

lemma keeps_get_copy [frame]:
  assumes "stays P w v" and "\<And>q. out_area w q \<Longrightarrow> P q"
  shows "keeps P w (get_copy J bp err v)"
  unfolding get_copy_def
  by (intro frame assms; (assumption | simp add: cli_names_def)?)

lemma keeps_get: "keeps (out_area w) w (fs_get J w)"
  unfolding fs_get_def
  by (intro frame stays_refl; (assumption | (simp add: cli_names_def; fail))?)

lemma keeps_take: "keeps (\<lambda>q. out_area w q \<or> put_path J w = Some q) w (fs_take J w)"
  unfolding fs_take_def
  apply (intro frame disjI2; (assumption | (simp add: cli_names_def; fail))?)
  subgoal using keeps_get [of w] by (auto simp: keeps_def intro: stays_mono)
  done

lemma keeps_put_bye [frame]: "stays P w v \<Longrightarrow> P (one_slash tmp) \<Longrightarrow> keeps P w (put_bye tmp err v)"
  unfolding put_bye_def by (intro frame; (assumption | (simp add: cli_names_def; fail))?)

lemma keeps_put_copy [frame]:
  assumes "stays P w v" and "P (one_slash bp)" and "\<And>u. stays P w u \<Longrightarrow> P (one_slash (fs_put_tmp J u))"
  shows "keeps P w (put_copy J bp v)"
  unfolding put_copy_def by (intro frame assms; (assumption | (simp add: cli_names_def; fail))?)

lemma keeps_put: "keeps (put_area J w) w (fs_put J w)"
  unfolding fs_put_def
  by (intro frame stays_refl; (assumption | (simp add: cli_names_def; fail))?)

lemma keeps_put_at [frame]:
  assumes "stays P w v" and "\<And>q. put_area J v q \<Longrightarrow> P q"
  shows "keeps P w (fs_put J v)"
proof -
  have "stays P v (snd (fs_put J v))"
    by (rule stays_mono [OF keeps_put [unfolded keeps_def]]) (rule assms(2))
  then show ?thesis unfolding keeps_def by (rule stays_trans [OF assms(1)])
qed

lemma in_pathI:
  "stays P w v \<Longrightarrow> cl_input_path (fc_cli v) = Some p \<Longrightarrow>
    b \<or> map_option (fc_cwd w) (cl_input_path (fc_cli w)) = Some (fc_cwd v p)"
  using names_eqs [of P w v] by simp

lemma keeps_give:
  "keeps (\<lambda>q. put_area J w q \<or> map_option (fc_cwd w) (cl_input_path (fc_cli w)) = Some q) w (fs_give J w)"
  unfolding fs_give_def
  by (intro frame in_pathI stays_refl; (assumption | erule disjI1 | (simp add: cli_names_def; fail))?)

lemma keeps_fs_eat: "keeps (\<lambda>q. False) w (fs_eat J w)"
  unfolding fs_eat_def
  by (intro frame stays_refl; (assumption | (simp add: cli_names_def; fail))?)

end

end
