(* ===== verification/Cli_Fs_Store.thy ===== *)
theory Cli_Fs_Store
  imports Cli_Fs_Frame
begin

text \<open>
  The file service on the store of a server: the path of a blob is the server's, a put brings the bytes
  there and nothing else, and a get of a store that the server has kept delivers the digest that was
  asked for.
\<close>

section \<open>Paths\<close>

lemma one_slash_Cons [simp]:
  "c \<noteq> CHR ''/'' \<Longrightarrow> one_slash (c # p) = c # one_slash p"
  "c \<noteq> CHR ''/'' \<Longrightarrow> one_slash (CHR ''/'' # c # p) = CHR ''/'' # c # one_slash p"
  "one_slash (CHR ''/'' # CHR ''/'' # p) = one_slash (CHR ''/'' # p)"
  by (cases p; cases "tl p"; simp)+

lemma one_slash_append [simp]: "CHR ''/'' \<notin> set a \<Longrightarrow> one_slash (a @ p) = a @ one_slash p"
  by (induction a) auto

lemma one_slash_part [simp]:
  assumes "CHR ''/'' \<notin> set a" and "a \<noteq> []"
  shows "one_slash (CHR ''/'' # a @ p) = CHR ''/'' # a @ one_slash p"
proof -
  obtain c b where a: "a = c # b" using assms(2) by (cases a) auto
  then have "c \<noteq> CHR ''/''" "CHR ''/'' \<notin> set b" using assms(1) by auto
  then show ?thesis using a by simp
qed

lemma one_slash_no [simp]: "CHR ''/'' \<notin> set a \<Longrightarrow> one_slash a = a"
  using one_slash_append [of a "[]"] by simp

lemma one_slash_tail [simp]:
  "CHR ''/'' \<notin> set a \<Longrightarrow> a \<noteq> [] \<Longrightarrow> one_slash (CHR ''/'' # a) = CHR ''/'' # a"
  using one_slash_part [of a "[]"] by simp

text \<open>What \<^verbatim>\<open>main\<close> and \<^verbatim>\<open>fs_open\<close> have set up for a verb with a udig.\<close>

definition fs_ready :: "openssl \<Rightarrow> client \<Rightarrow> bool" where
  "fs_ready ssl w \<longleftrightarrow>
     (let s = fc_cli w in
      cl_digest s \<noteq> None \<and> cl_digest s = find_digest ssl (cl_algorithm s) \<and>
      blob_name (cl_ascii_digest s) \<and> fc_data w = algorithm_root (cl_algorithm s))"

abbreviation store_path :: "client \<Rightarrow> bytes" where
  "store_path w \<equiv> blob_path (algorithm_root (cl_algorithm (fc_cli w))) (cl_ascii_digest (fc_cli w))"

text \<open>What a put reads: its input descriptor, and the file of that name when it is given.\<close>

definition source :: "client \<Rightarrow> bytes \<Rightarrow> bool" where
  "source w bs \<longleftrightarrow>
     event_data (cl_input (fc_cli w)) = bs \<and>
     (\<forall>p. cl_input_path (fc_cli w) = Some p \<longrightarrow> map_of (fs_nodes w) (fc_cwd w p) = Some (File bs))"

text \<open>
  Names that are short enough for the path of the temporary file, which then has no other directory
  than \<^verbatim>\<open>tmp\<close>; a kernel and a disk that fail nowhere; and a store with room for a blob.
\<close>

definition fs_tidy :: "client \<Rightarrow> bool" where
  "fs_tidy w \<longleftrightarrow>
     length (cl_udig (fc_cli w)) \<le> 137 \<and> length (fc_epoch w) \<le> 20 \<and> length (fc_pid w) \<le> 20 \<and>
     CHR ''/'' \<notin> set (cl_udig (fc_cli w) @ fc_epoch w @ fc_pid w)"

definition fs_calm :: "client \<Rightarrow> bool" where
  "fs_calm w \<longleftrightarrow>
     fs_faults w = [] \<and> fc_file_writes w = [] \<and> cl_output_writes (fc_cli w) = [] \<and> one_device w"

definition put_tmp_file :: "client \<Rightarrow> bytes" where
  "put_tmp_file w =
     ''tmp/put-'' @ cl_udig (fc_cli w) @ ''-'' @ fc_epoch w @ ''-'' @ fc_pid w @ ''.blob''"

definition fs_room :: "client \<Rightarrow> bool" where
  "fs_room w \<longleftrightarrow>
     (\<forall>q \<in> set (slash_prefixes [] (store_path w)). room_at q w) \<and> room_at ''tmp'' w \<and>
     map_of (fs_nodes w) (put_tmp_file w) = None \<and> map_of (fs_nodes w) (store_path w) \<noteq> Some Dir"

lemma blob_name_parts:
  assumes "blob_name d"
  shows "CHR ''/'' \<notin> set d" "take 3 d \<noteq> []" "take 3 (drop 3 d) \<noteq> []" "d \<noteq> []" "NUL \<notin> set d"
  using assms by (auto simp: blob_name_def hexchar_def)

lemma blob_name_cut:
  assumes "blob_name d"
  shows "CHR ''/'' \<notin> set (take 3 d)" "CHR ''/'' \<notin> set (take 3 (drop 3 d))"
  using blob_name_parts(1) [OF assms] by (auto dest: in_set_takeD in_set_dropD)

lemma calm_call: "fs_faults w = [] \<Longrightarrow> fs_call call w = call w"
  by (cases w) (simp add: fs_call_def)

lemma unlink_at:
  "sys_unlink p w = (r, w1) \<Longrightarrow> q \<noteq> p \<Longrightarrow> map_of (fs_nodes w1) q = map_of (fs_nodes w) q"
  by (auto simp: sys_unlink_def fs_call_def split: prod.splits option.splits node.splits if_splits)

lemma open_value:
  "io_fs_open p w = (Inr bs, w1) \<Longrightarrow> map_of (fs_nodes w) p = Some (File bs) \<and> fs_nodes w1 = fs_nodes w \<and> fs_only w w1"
  by (auto simp: io_fs_open_def fs_call_def fs_only_def split: prod.splits option.splits node.splits)

lemma only_cli:
  assumes "fs_only w w'"
  shows "fc_cli w' = fc_cli w" "fc_cwd w' = fc_cwd w" "fc_file_writes w' = fc_file_writes w"
proof -
  obtain f n where "w' = w\<lparr>fs_faults := f, fs_nodes := n\<rparr>" using assms unfolding fs_only_def by blast
  then show "fc_cli w' = fc_cli w" "fc_cwd w' = fc_cwd w" "fc_file_writes w' = fc_file_writes w" by simp_all
qed

lemma touch_same: "fs_touch w = (r, w1) \<Longrightarrow> fs_nodes w1 = fs_nodes w \<and> fc_cli w1 = fc_cli w"
  using fs_touch_nodes [of w r w1] only_cli(1) [OF fs_only_touch, of w r w1] by blast

lemma bye_same:
  "get_bye b err w = (r, w1) \<Longrightarrow> fs_nodes w1 = fs_nodes w \<and> fc_cli w1 = fc_cli w \<and> (r = None \<longrightarrow> err = None)"
  by (auto simp: get_bye_def sys_else_def split: prod.splits sum.splits if_splits dest!: touch_same)

lemma create_value:
  "io_fs_create p w = (Inr u, w1) \<Longrightarrow> map_of (fs_nodes w1) p = Some (File []) \<and> fs_only w w1 \<and>
    map_of (fs_nodes w) p = None \<and> (\<forall>q. q \<noteq> p \<longrightarrow> map_of (fs_nodes w1) q = map_of (fs_nodes w) q)"
  by (frule fs_only_create)
    (auto simp: io_fs_create_def fs_call_def split: prod.splits option.splits if_splits)

lemma rename_value:
  assumes "io_fs_rename p q w = (r, w1)" and "p \<noteq> q"
  shows "r = Inr u \<Longrightarrow> map_of (fs_nodes w1) q = map_of (fs_nodes w) p"
    and "r = Inl e \<Longrightarrow> fs_nodes w1 = fs_nodes w"
  using assms by (auto simp: io_fs_rename_def fs_call_def split: prod.splits option.splits if_splits)

lemma link_value:
  assumes "sys_link p q w = (r, w1)"
  shows "fs_only w w1"
    and "r = Inr u \<Longrightarrow> map_of (fs_nodes w) p \<noteq> None \<and> map_of (fs_nodes w) p \<noteq> Some Dir \<and>
      map_of (fs_nodes w1) q = map_of (fs_nodes w) p"
    and "r = Inl e \<Longrightarrow> fs_nodes w1 = fs_nodes w"
    and "x \<noteq> q \<Longrightarrow> map_of (fs_nodes w1) x = map_of (fs_nodes w) x"
  using fs_only_link [OF assms] assms
  by (auto simp: sys_link_def fs_call_def split: prod.splits option.splits if_splits)

lemma dirs_file: "only_dirs_added w w' \<Longrightarrow> map_of (fs_nodes w) p = Some n \<Longrightarrow> map_of (fs_nodes w') p = Some n"
  unfolding only_dirs_added_def by (metis option.distinct(1))

lemma slash_prefixes_shorter: "q \<in> set (slash_prefixes acc p) \<Longrightarrow> length q < length acc + length p"
  by (induction acc p rule: slash_prefixes.induct) (fastforce split: if_splits)+

lemma slash_prefixes_prefix: "q \<in> set (slash_prefixes acc p) \<Longrightarrow> \<exists>r. acc @ p = q @ CHR ''/'' # r"
  by (induction acc p rule: slash_prefixes.induct) (auto split: if_splits)

lemma slash_prefixes_last: "CHR ''/'' \<notin> set d \<Longrightarrow> slash_prefixes acc (p @ d) = slash_prefixes acc p"
proof (induction acc p rule: slash_prefixes.induct)
  case (1 acc)
  then show ?case by (induction d arbitrary: acc) auto
qed auto

lemma dir_at_parent: "dir_of p = Some d \<Longrightarrow> dir_at d w \<Longrightarrow> parent_there p (fs_nodes w)"
  by (simp add: parent_there_def standing_def)

lemma room_dirs: "only_dirs_added w w' \<Longrightarrow> room_at q w \<Longrightarrow> room_at q w'"
  unfolding only_dirs_added_def room_at_def standing_def by metis

lemma put_bye_at:
  "put_bye tmp err w = (r, w') \<Longrightarrow> b \<noteq> one_slash tmp \<Longrightarrow>
    map_of (fs_nodes w') b = map_of (fs_nodes w) b \<and> (r = None \<longrightarrow> err = None \<and> cl_ok_no (fc_cli w') = 0)"
  by (auto simp: put_bye_def sys_else_def split: prod.splits sum.splits if_splits
      dest!: touch_same unlink_at [of _ _ _ _ b])

lemma send_at:
  "send_file J src p w = (x, w1) \<Longrightarrow> q \<noteq> p \<Longrightarrow> map_of (fs_nodes w1) q = map_of (fs_nodes w) q"
  by (auto simp: send_file_def append_node_def split: prod.splits option.splits node.splits)

lemma ready_names:
  assumes "fs_ready ssl w"
  shows "cl_algorithm (fc_cli w) \<in> {''sha'', ''bc160'', ''btc20''}"
    and "algorithm_root (cl_algorithm (fc_cli w)) \<in> set store_roots"
  using assms digests_of_names [of ssl "cl_algorithm (fc_cli w)"]
  by (auto simp: fs_ready_def Let_def algorithm_root_def store_roots_def)

context libjmscott begin

lemma ready_module:
  assumes "fs_ready ssl w"
  obtains di sl where "cl_digest (fc_cli w) = Some di" and "sl = [] \<or> sl = ''/''"
    and "\<And>n. 49 \<le> n \<Longrightarrow> di_fs_path di (cl_ascii_digest (fc_cli w)) n =
      Inr (sl @ cli_dirs (cl_ascii_digest (fc_cli w)) @ CHR ''/'' # cl_ascii_digest (fc_cli w))"
    and "\<And>n. 8 \<le> n \<Longrightarrow> di_fs_dir_path di (cl_ascii_digest (fc_cli w)) n =
      Inr (cli_dirs (cl_ascii_digest (fc_cli w)))"
proof -
  obtain di where di: "cl_digest (fc_cli w) = Some di" "find_digest ssl (cl_algorithm (fc_cli w)) = Some di"
    using assms by (auto simp: fs_ready_def Let_def)
  have d: "blob_name (cl_ascii_digest (fc_cli w))" using assms by (simp add: fs_ready_def Let_def)
  consider "di = sha_digest ssl" | "di = bc160_digest ssl" | "di = btc20_digest ssl"
    using digests_of_names [OF di(2)] by auto
  then show ?thesis
    by cases (use that di(1) cli_sha.path [OF d] cli_sha.dir_path cli_bc160.path [OF d] cli_bc160.dir_path
        cli_btc20.path [OF d] cli_btc20.dir_path in \<open>metis append_Nil\<close>)+
qed

lemma ready_data:
  assumes "fs_ready ssl w"
  shows "jm_strcat J 256 [] [fc_data w, ''/''] = algorithm_root (cl_algorithm (fc_cli w)) @ ''/''"
    and "length (algorithm_root (cl_algorithm (fc_cli w))) \<le> 13"
  using strcat [of "[]" "[fc_data w, ''/'']" 256] ready_names(1) [OF assms] assms
  by (auto simp: fs_ready_def Let_def algorithm_root_def)

lemma ready_path:
  assumes "fs_ready ssl w"
  obtains p where "fs_blob_path J (BLOBIO_MAX_FS_PATH + 1) w = Inr p" "one_slash p = store_path w"
proof -
  let ?n = "cl_algorithm (fc_cli w)" and ?d = "cl_ascii_digest (fc_cli w)"
  have d: "blob_name ?d" using assms by (simp add: fs_ready_def Let_def)
  obtain di sl where di: "cl_digest (fc_cli w) = Some di" "sl = [] \<or> sl = ''/''"
    and path: "\<And>n. 49 \<le> n \<Longrightarrow> di_fs_path di ?d n = Inr (sl @ cli_dirs ?d @ CHR ''/'' # ?d)"
    using ready_module [OF assms] by metis
  have "fs_blob_path J (BLOBIO_MAX_FS_PATH + 1) w =
      Inr ((algorithm_root ?n @ ''/'') @ sl @ cli_dirs ?d @ CHR ''/'' # ?d)"
    using ready_data [OF assms] by (simp add: fs_blob_path_def BLOBIO_MAX_FS_PATH_def di path)
  moreover have "one_slash ((algorithm_root ?n @ ''/'') @ sl @ cli_dirs ?d @ CHR ''/'' # ?d) = store_path w"
    using di(2) ready_names(1) [OF assms] blob_name_parts [OF d] blob_name_cut [OF d]
    by (auto simp: cli_dirs_def blob_path_def blob_dir_def algorithm_root_def)
  ultimately show ?thesis by (rule that)
qed

lemma ready_dir:
  assumes "fs_ready ssl w"
  obtains p where "blob_dir_path J (BLOBIO_MAX_FS_PATH + 1) w = Inr p"
    and "one_slash p = algorithm_root (cl_algorithm (fc_cli w)) @ CHR ''/'' # cli_dirs (cl_ascii_digest (fc_cli w))"
    and "dir_of (store_path w) = Some (one_slash p)" and "take 1 p = ''d''"
proof -
  let ?n = "cl_algorithm (fc_cli w)" and ?d = "cl_ascii_digest (fc_cli w)"
  have d: "blob_name ?d" using assms by (simp add: fs_ready_def Let_def)
  obtain di where di: "cl_digest (fc_cli w) = Some di"
    and path: "\<And>n. 8 \<le> n \<Longrightarrow> di_fs_dir_path di ?d n = Inr (cli_dirs ?d)"
    using ready_module [OF assms] by metis
  let ?p = "(algorithm_root ?n @ ''/'') @ cli_dirs ?d"
  have "blob_dir_path J (BLOBIO_MAX_FS_PATH + 1) w = Inr ?p"
    using ready_data [OF assms] by (simp add: blob_dir_path_def BLOBIO_MAX_FS_PATH_def di path)
  moreover have p: "one_slash ?p = algorithm_root ?n @ CHR ''/'' # cli_dirs ?d"
    using ready_names(1) [OF assms] blob_name_parts [OF d] blob_name_cut [OF d]
    by (auto simp: cli_dirs_def algorithm_root_def)
  moreover have "dir_of (store_path w) = Some (one_slash ?p)"
  proof -
    have s: "store_path w = (algorithm_root ?n @ CHR ''/'' # cli_dirs ?d) @ CHR ''/'' # ?d"
      by (simp add: blob_path_def blob_dir_def cli_dirs_def)
    have "dropWhile (\<lambda>c. c \<noteq> CHR ''/'') (rev ?d @ CHR ''/'' # x) = CHR ''/'' # x" for x
      using blob_name_parts(1) [OF d] by (subst dropWhile_append2) auto
    then show ?thesis unfolding p s by (simp add: dir_of_def)
  qed
  moreover have "take 1 ?p = ''d''" by (simp add: algorithm_root_def)
  ultimately show ?thesis by (rule that)
qed

section \<open>Get\<close>

lemma send_value:
  assumes "send_file J src p w = ((None, evs), w1)" and "map_of (fs_nodes w) p = Some (File old)"
  shows "map_of (fs_nodes w1) p = Some (File (old @ event_data src))"
    and "q \<noteq> p \<Longrightarrow> map_of (fs_nodes w1) q = map_of (fs_nodes w) q"
  using assms send_whole
  by (fastforce simp: send_file_def append_node_def split: prod.splits)+

lemma get_copy_value:
  assumes "get_copy J p err v = (None, w')" and "cl_ok_no (fc_cli w') = 0"
  obtains bs where "map_of (fs_nodes v) (one_slash p) = Some (File bs)"
    and "cl_output_path (fc_cli v) = None \<Longrightarrow> cl_output (fc_cli w') = cl_output (fc_cli v) @ bs"
    and "\<And>q. cl_output_path (fc_cli v) = Some q \<Longrightarrow> map_of (fs_nodes w') (fc_cwd v q) = Some (File bs)"
proof -
  obtain r w1 where op: "io_fs_open (one_slash p) v = (r, w1)" by fastforce
  have "\<exists>bs. r = Inr bs"
    using assms op by (cases r) (auto simp: get_copy_def answer_def fs_add_chat_def split: if_splits)
  then obtain bs where r: "r = Inr bs" by blast
  note o1 = open_value [OF op [unfolded r]]
  note c1 = only_cli [OF o1 [THEN conjunct2, THEN conjunct2]]
  let ?w2 = "snd (answer J 0 ''ok'' w1)"
  have w2: "fs_nodes ?w2 = fs_nodes v" "fc_cwd ?w2 = fc_cwd v"
    "cl_output_path (fc_cli ?w2) = cl_output_path (fc_cli v)" "cl_output (fc_cli ?w2) = cl_output (fc_cli v)"
    using o1 c1 by (simp_all add: answer_def fs_add_chat_def)
  show ?thesis
  proof (rule that)
    show "map_of (fs_nodes v) (one_slash p) = Some (File bs)" using o1 by blast
  next
    assume "cl_output_path (fc_cli v) = None"
    then show "cl_output (fc_cli w') = cl_output (fc_cli v) @ bs"
      using assms(1) op r w2 send_whole
      by (fastforce simp: get_copy_def Let_def send_stdout_def dest!: bye_same split: prod.splits)
  next
    fix q
    assume q: "cl_output_path (fc_cli v) = Some q"
    obtain c w3 where cr: "io_fs_create (fc_cwd ?w2 q) ?w2 = (c, w3)" by fastforce
    show "map_of (fs_nodes w') (fc_cwd v q) = Some (File bs)"
    proof (cases c)
      case (Inl e)
      then show ?thesis using assms(1) op r q w2(3) cr by (auto simp: get_copy_def Let_def dest!: bye_same split: if_splits)
    next
      case (Inr u)
      let ?w3 = "on_cli (\<lambda>s. s\<lparr>cl_blob_size := 0\<rparr>) w3"
      obtain x w4 where sd: "send_file J [CData bs] (fc_cwd ?w2 q) ?w3 = (x, w4)" by fastforce
      have "get_bye True (fst x) w4 = (None, w')"
        using assms(1) op r q w2(3) cr Inr sd by (simp add: get_copy_def Let_def)
      then have "fst x = None" "fs_nodes w' = fs_nodes w4" by (auto dest: bye_same)
      then show ?thesis
        using send_value(1) [of "[CData bs]" "fc_cwd ?w2 q" ?w3 "snd x" w4 "[]"] sd create_value [OF cr [unfolded Inr]] w2(2)
        by (cases x) auto
    qed
  qed
qed

lemma size_value:
  assumes "link_size J q w = (None, w1)"
  shows "fs_nodes w1 = fs_nodes w" "map_of (fs_nodes w) q \<noteq> None"
    "fc_cwd w1 = fc_cwd w" "cl_output_path (fc_cli w1) = cl_output_path (fc_cli w)"
proof -
  obtain z v where s: "jm_fsizeat J q w = (z, v)" by fastforce
  then obtain n where n: "z = Inr n" using assms by (cases z) (simp_all add: link_size_def)
  have "fs_only w v" using fsize_only [OF s] by blast
  note o = only_cli [OF this]
  show "fs_nodes w1 = fs_nodes w" "map_of (fs_nodes w) q \<noteq> None"
    "fc_cwd w1 = fc_cwd w" "cl_output_path (fc_cli w1) = cl_output_path (fc_cli w)"
    using assms s n fsize_only [OF s] fsize_file [OF s [unfolded n]] o by (auto simp: link_size_def)
qed

lemma size_error:
  "link_size J q w = (Some (e, err), w1) \<Longrightarrow> err \<noteq> Msg '''' \<and> e \<noteq> EEXIST \<and> fs_nodes w1 = fs_nodes w"
  using fsize_error fsize_only by (auto simp: link_size_def split: prod.splits sum.splits)

text \<open>A link without an error, and the error that asks for a copy.\<close>

lemma hard_link_value:
  assumes "fs_hard_link J p q w = (None, w1)" and "cl_ok_no (fc_cli w1) = 0"
  shows "map_of (fs_nodes w1) q \<noteq> None \<and>
    (map_of (fs_nodes w1) q = map_of (fs_nodes w) q \<or> map_of (fs_nodes w1) q = map_of (fs_nodes w) p \<and>
      map_of (fs_nodes w) p \<noteq> Some Dir)"
proof -
  obtain r v where l: "sys_link p q w = (r, v)" by fastforce
  show ?thesis
  proof (cases r)
    case (Inr u)
    then have s: "link_size J q v = (None, w1)" using assms(1) l by (simp add: fs_hard_link_def)
    then show ?thesis using link_value(2) [OF l Inr] size_value(1,2) [OF s] by simp
  next
    case (Inl e)
    then have s: "link_size J q v = (None, w1)"
      using assms l by (auto simp: fs_hard_link_def split: if_splits)
    then show ?thesis using link_value(3) [OF l Inl] size_value(1,2) [OF s] by simp
  qed
qed

lemma hard_link_copy:
  assumes "fs_hard_link J p q w = (Some (e, Msg ''''), w1)"
  shows "fs_nodes w1 = fs_nodes w \<and> fc_cwd w1 = fc_cwd w \<and> fc_cli w1 = fc_cli w \<and> fs_only w w1"
proof -
  obtain r v where l: "sys_link p q w = (r, v)" by fastforce
  have "r = Inl EXDEV \<and> v = w1"
    using assms l by (auto simp: fs_hard_link_def dest: size_error split: sum.splits if_splits)
  then show ?thesis
    using link_value(1,3) [OF l] only_cli [OF link_value(1) [OF l]] by auto
qed

text \<open>Every way to a get without an error.\<close>

lemma get_value:
  assumes "fs_ready ssl w" and "fs_get J w = (None, w')" and "cl_ok_no (fc_cli w') = 0"
  shows "map_of (fs_nodes w) (store_path w) \<noteq> None \<or> cl_output_path (fc_cli w) \<notin> {None, Some ''/dev/null''}"
    and "cl_output_path (fc_cli w) = None \<Longrightarrow>
      \<exists>bs. map_of (fs_nodes w) (store_path w) = Some (File bs) \<and> cl_output (fc_cli w') = cl_output (fc_cli w) @ bs"
    and "cl_output_path (fc_cli w) = Some q \<Longrightarrow> q \<noteq> ''/dev/null'' \<Longrightarrow> map_of (fs_nodes w) (fc_cwd w q) = None \<Longrightarrow>
      map_of (fs_nodes w') (fc_cwd w q) = map_of (fs_nodes w) (store_path w) \<and>
      map_of (fs_nodes w) (store_path w) \<notin> {None, Some Dir}"
proof -
  obtain p where p: "fs_blob_path J (BLOBIO_MAX_FS_PATH + 1) w = Inr p" "one_slash p = store_path w"
    using ready_path [OF assms(1)] by blast
  note g = assms(2) [unfolded fs_get_def val_or_def p(1) sum.case]
  show "\<exists>bs. map_of (fs_nodes w) (store_path w) = Some (File bs) \<and> cl_output (fc_cli w') = cl_output (fc_cli w) @ bs"
    if "cl_output_path (fc_cli w) = None"
    using g that get_copy_value [of p None w w'] assms(3) p(2) by auto
  then show "map_of (fs_nodes w) (store_path w) \<noteq> None \<or> cl_output_path (fc_cli w) \<notin> {None, Some ''/dev/null''}"
    using g assms(3) fsize_file [of "store_path w" w]
    by (fastforce simp: p(2) answer_def fs_add_chat_def split: prod.splits sum.splits if_splits)
  show "map_of (fs_nodes w') (fc_cwd w q) = map_of (fs_nodes w) (store_path w) \<and>
      map_of (fs_nodes w) (store_path w) \<notin> {None, Some Dir}"
    if q: "cl_output_path (fc_cli w) = Some q" "q \<noteq> ''/dev/null''" "map_of (fs_nodes w) (fc_cwd w q) = None"
  proof -
    obtain r w1 where h: "fs_hard_link J (one_slash p) (fc_cwd w q) w = (r, w1)" by fastforce
    show ?thesis
    proof (cases r)
      case None
      then have "w' = fs_add_chat J ''ok'' w1" using g q h by simp
      then show ?thesis
        using hard_link_value [OF h [unfolded None]] q(3) assms(3) p(2) by (auto simp: fs_add_chat_def)
    next
      case (Some er)
      then obtain e where er: "er = (e, Msg '''')" using g q h by (cases er) (auto split: if_splits)
      note c = hard_link_copy [OF h [unfolded Some er]]
      have "get_copy J p (Some (Msg '''')) w1 = (None, w')" using g q h Some er by simp
      then obtain bs where "map_of (fs_nodes w1) (one_slash p) = Some (File bs)"
        and "map_of (fs_nodes w') (fc_cwd w1 q) = Some (File bs)"
        using c q(1) by (elim get_copy_value [OF _ assms(3)]) simp
      then show ?thesis using c p(2) by simp
    qed
  qed
qed

section \<open>Put\<close>

lemma put_copy_value:
  assumes "put_copy J bp v = (err, w')" and "one_slash (fs_put_tmp J v) \<noteq> one_slash bp"
    and "one_slash bp \<noteq> ''tmp''"
  shows "err = None \<Longrightarrow> map_of (fs_nodes w') (one_slash bp) = Some (File (event_data (cl_input (fc_cli v)))) \<and>
      cl_ok_no (fc_cli w') = 0"
    and "map_of (fs_nodes w') (one_slash bp) \<in>
      {map_of (fs_nodes v) (one_slash bp), Some (File (event_data (cl_input (fc_cli v))))}"
proof -
  let ?b = "one_slash bp" and ?t = "one_slash (fs_put_tmp J v)" and ?data = "event_data (cl_input (fc_cli v))"
  obtain m w1 where mk: "jm_mkdirat_path J ''tmp'' v = (m, w1)" by fastforce
  note o1 = mkdir_only [OF mk]
  have b1: "map_of (fs_nodes w1) ?b = map_of (fs_nodes v) ?b"
    using mkdir_where [OF mk, of ?b] assms(3) by (auto split: if_splits)
  have t1: "fs_put_tmp J w1 = fs_put_tmp J v"
    using stays_paths(2) [OF stays_dirs] o1 by blast
  have c1: "cl_input (fc_cli w1) = cl_input (fc_cli v)" using only_cli(1) o1 by fastforce
  obtain c w2 where cr: "io_fs_create ?t w1 = (c, w2)" by fastforce
  have "(err = None \<longrightarrow> map_of (fs_nodes w') ?b = Some (File ?data) \<and> cl_ok_no (fc_cli w') = 0) \<and>
    map_of (fs_nodes w') ?b \<in> {map_of (fs_nodes v) ?b, Some (File ?data)}"
  proof (cases "m = None \<and> (\<exists>u. c = Inr u)")
    case False
    then have "err \<noteq> None \<and> (w' = w1 \<or> w' = w2 \<and> (\<exists>e. c = Inl e))"
      using assms(1) mk cr t1 by (auto simp: put_copy_def lib_def Let_def split: option.splits sum.splits)
    moreover have "\<exists>e. c = Inl e \<Longrightarrow> fs_nodes w2 = fs_nodes w1"
      using cr by (auto simp: io_fs_create_def fs_call_def split: prod.splits option.splits if_splits)
    ultimately show ?thesis using b1 by auto
  next
    case True
    then obtain u where ok: "m = None" "c = Inr u" by blast
    note k = create_value [OF cr [unfolded ok(2)]]
    have c2: "cl_input (fc_cli w2) = cl_input (fc_cli v)" using only_cli(1) k c1 by fastforce
    have b2: "map_of (fs_nodes w2) ?b = map_of (fs_nodes v) ?b" using k assms(2) b1 by metis
    obtain x w3 where sd: "send_file J (cl_input (fc_cli w2)) ?t w2 = (x, w3)" by fastforce
    have b3: "map_of (fs_nodes w3) ?b = map_of (fs_nodes v) ?b"
      using send_at [OF sd] assms(2) b2 by metis
    let ?w3 = "on_cli (\<lambda>s. s\<lparr>cl_input := snd x\<rparr>) w3"
    note run = assms(1) [unfolded put_copy_def mk lib_def prod.case ok option.case t1 Let_def cr sum.case sd]
    show ?thesis
    proof (cases "fst x = None")
      case False
      then have "put_bye (fs_put_tmp J v) (fst x) ?w3 = (err, w')" using run by simp
      then show ?thesis using put_bye_at [of "fs_put_tmp J v" "fst x" ?w3 err w' ?b] assms(2) False b3 by auto
    next
      case True
      then have t3: "map_of (fs_nodes w3) ?t = Some (File ?data)"
        using send_value(1) [of "cl_input (fc_cli w2)" ?t w2 "snd x" w3 "[]"] sd k c2 by (cases x) auto
      obtain r w4 where rn: "io_fs_rename ?t ?b ?w3 = (r, w4)" by fastforce
      note v = rename_value [OF rn assms(2)]
      show ?thesis
      proof (cases r)
        case (Inl e)
        then have "put_bye (fs_put_tmp J v) (Some (Strerror e)) w4 = (err, w')" using run True rn by simp
        then show ?thesis
          using put_bye_at [of "fs_put_tmp J v" _ w4 err w' ?b] assms(2) v(2) [OF Inl] b3 by auto
      next
        case (Inr u)
        then have "put_bye (fs_put_tmp J v) None (fs_add_chat J ''ok'' w4) = (err, w')" using run True rn by simp
        then show ?thesis
          using put_bye_at [of "fs_put_tmp J v" None "fs_add_chat J ''ok'' w4" err w' ?b] assms(2) v(1) [OF Inr] t3
          by (auto simp: fs_add_chat_def)
      qed
    qed
  qed
  then show "err = None \<Longrightarrow> map_of (fs_nodes w') ?b = Some (File ?data) \<and> cl_ok_no (fc_cli w') = 0"
    "map_of (fs_nodes w') ?b \<in> {map_of (fs_nodes v) ?b, Some (File ?data)}" by blast+
qed

lemma hard_link_nodes:
  assumes "fs_hard_link J p q w = (r, w1)" and "p \<noteq> q"
  shows "map_of (fs_nodes w1) q \<in> {map_of (fs_nodes w) q, map_of (fs_nodes w) p}"
    and "r \<noteq> None \<Longrightarrow> cl_input (fc_cli w1) = cl_input (fc_cli w)"
    and "fs_put_tmp J w1 = fs_put_tmp J w"
proof -
  have st: "stays (\<lambda>x. True) w w1"
    using keeps_hard_link [of "\<lambda>_. True" w w q p] assms(1) by (simp add: keeps_def)
  show "fs_put_tmp J w1 = fs_put_tmp J w" by (rule stays_paths(2) [OF st])
  obtain s v where l: "sys_link p q w = (s, v)" by fastforce
  note o1 = only_cli(1) [OF link_value(1) [OF l]]
  have n: "map_of (fs_nodes v) q \<in> {map_of (fs_nodes w) q, map_of (fs_nodes w) p}"
    using link_value(2,3) [OF l] by (cases s) auto
  have sz: "fs_nodes w1 = fs_nodes v \<and> (r \<noteq> None \<longrightarrow> cl_input (fc_cli w1) = cl_input (fc_cli v))"
    if "link_size J q v = (r, w1)"
    using that fsize_only only_cli(1) by (fastforce simp: link_size_def split: prod.splits sum.splits)
  have "fs_nodes w1 = fs_nodes v \<and> (r \<noteq> None \<longrightarrow> cl_input (fc_cli w1) = cl_input (fc_cli v))"
    using assms(1) l sz by (auto simp: fs_hard_link_def split: sum.splits if_splits)
  then show "map_of (fs_nodes w1) q \<in> {map_of (fs_nodes w) q, map_of (fs_nodes w) p}"
    "r \<noteq> None \<Longrightarrow> cl_input (fc_cli w1) = cl_input (fc_cli w)" using n o1 by auto
qed

lemma put_value:
  assumes "fs_ready ssl w" and "source w bs" and "one_slash (fs_put_tmp J w) \<noteq> store_path w"
    and "fs_put J w = (err, w')"
    and "\<forall>p. cl_input_path (fc_cli w) = Some p \<longrightarrow> fc_cwd w p \<noteq> store_path w"
  shows "map_of (fs_nodes w') (store_path w) \<in> {map_of (fs_nodes w) (store_path w), Some (File bs)}"
    and "err = None \<Longrightarrow> cl_ok_no (fc_cli w') = 0 \<Longrightarrow> map_of (fs_nodes w') (store_path w) \<noteq> None"
    and "err = None \<Longrightarrow> cl_input_path (fc_cli w) = None \<Longrightarrow>
      map_of (fs_nodes w') (store_path w) = Some (File bs) \<and> cl_ok_no (fc_cli w') = 0"
proof -
  let ?b = "store_path w"
  obtain bp where bp: "fs_blob_path J (BLOBIO_MAX_FS_PATH + 1) w = Inr bp" "one_slash bp = ?b"
    using ready_path [OF assms(1)] by blast
  obtain dir where dir: "blob_dir_path J (BLOBIO_MAX_FS_PATH + 1) w = Inr dir"
    "one_slash dir = algorithm_root (cl_algorithm (fc_cli w)) @ CHR ''/'' # cli_dirs (cl_ascii_digest (fc_cli w))"
    using ready_dir [OF assms(1)] by metis
  obtain m w1 where mk: "jm_mkdirat_path J dir w = (m, w1)" by fastforce
  note o1 = mkdir_only [OF mk]
  note c1 = only_cli [OF o1 [THEN conjunct2]]
  have b1: "map_of (fs_nodes w1) ?b = map_of (fs_nodes w) ?b"
  proof -
    have "length (one_slash dir @ ''/'') \<le> length ?b"
      using dir(2) by (simp add: blob_path_def blob_dir_def cli_dirs_def)
    then show ?thesis
      using mkdir_where [OF mk, of ?b] slash_prefixes_shorter [of ?b "[]" "one_slash dir @ ''/''"]
      by fastforce
  qed
  have tmp: "?b \<noteq> ''tmp''" by (simp add: blob_path_def blob_dir_def algorithm_root_def)
  have t1: "fs_put_tmp J (fs_add_chat J ''ok'' w1) = fs_put_tmp J w"
    using stays_paths(2) [OF stays_chat [OF stays_dirs]] o1 by blast
  let ?w1 = "fs_add_chat J ''ok'' w1"
  have w1: "fs_nodes ?w1 = fs_nodes w1" "cl_input (fc_cli ?w1) = cl_input (fc_cli w)"
    "cl_input_path (fc_cli ?w1) = cl_input_path (fc_cli w)" "fc_cwd ?w1 = fc_cwd w"
    using c1 by (simp_all add: fs_add_chat_def)
  note run = assms(4) [unfolded fs_put_def val_or_def bp(1) dir(1) sum.case mk lib_def prod.case]
  have data: "event_data (cl_input (fc_cli w)) = bs" using assms(2) by (simp add: source_def)
  have "map_of (fs_nodes w') ?b \<in> {map_of (fs_nodes w) ?b, Some (File bs)} \<and>
    (err = None \<longrightarrow> cl_ok_no (fc_cli w') = 0 \<longrightarrow> map_of (fs_nodes w') ?b \<noteq> None) \<and>
    (err = None \<longrightarrow> cl_input_path (fc_cli w) = None \<longrightarrow>
      map_of (fs_nodes w') ?b = Some (File bs) \<and> cl_ok_no (fc_cli w') = 0)"
  proof (cases m)
    case (Some e)
    then show ?thesis using run b1 by auto
  next
    case m: None
    show ?thesis
    proof (cases "cl_input_path (fc_cli w)")
      case None
      then have "put_copy J bp ?w1 = (err, w')" using run m w1 by (simp add: Let_def)
      from put_copy_value [OF this] show ?thesis
        using assms(3) t1 bp(2) w1 data b1 tmp by auto
    next
      case (Some p)
      have src: "map_of (fs_nodes w1) (fc_cwd w p) = Some (File bs)"
        using assms(2) Some dirs_file o1 by (auto simp: source_def)
      obtain r w2 where h: "fs_hard_link J (fc_cwd w p) ?b ?w1 = (r, w2)" by fastforce
      have "fc_cwd w p \<noteq> ?b" using assms(5) Some by blast
      note hn = hard_link_nodes [OF h this]
      have b2: "map_of (fs_nodes w2) ?b \<in> {map_of (fs_nodes w) ?b, Some (File bs)}"
        using hn(1) src w1 b1 by auto
      show ?thesis
      proof (cases r)
        case None
        then have "err = None \<and> w' = fs_add_chat J ''ok'' w2" using run m w1 Some h bp(2) by (simp add: Let_def)
        then show ?thesis
          using b2 Some hard_link_value [OF h [unfolded None]] by (auto simp: fs_add_chat_def)
      next
        case er: (Some er)
        obtain e x where ex: "er = (e, x)" by fastforce
        have ne: "e \<noteq> EEXIST"
          using h er ex by (auto simp: fs_hard_link_def dest: size_error split: prod.splits sum.splits if_splits)
        show ?thesis
        proof (cases "x = Msg ''''")
          case False
          then have "err = Some x \<and> w' = w2" using run m w1 Some h bp(2) er ex ne by (simp add: Let_def)
          then show ?thesis using b2 by simp
        next
          case True
          then have "put_copy J bp w2 = (err, w')" using run m w1 Some h bp(2) er ex ne by (simp add: Let_def)
          from put_copy_value [OF this] show ?thesis
            using assms(3) hn(2,3) er t1 bp(2) w1 data b2 Some tmp by auto
        qed
      qed
    qed
  qed
  then show "map_of (fs_nodes w') ?b \<in> {map_of (fs_nodes w) ?b, Some (File bs)}"
    "err = None \<Longrightarrow> cl_ok_no (fc_cli w') = 0 \<Longrightarrow> map_of (fs_nodes w') ?b \<noteq> None"
    "err = None \<Longrightarrow> cl_input_path (fc_cli w) = None \<Longrightarrow>
      map_of (fs_nodes w') ?b = Some (File bs) \<and> cl_ok_no (fc_cli w') = 0" by blast+
qed

section \<open>Success\<close>

lemma tidy_tmp:
  assumes "fs_tidy w"
  shows "fs_put_tmp J w = put_tmp_file w" "one_slash (fs_put_tmp J w) = put_tmp_file w"
    and "dir_of (put_tmp_file w) = Some ''tmp''" "put_tmp_file w \<noteq> store_path w"
proof -
  let ?t = "''put-'' @ cl_udig (fc_cli w) @ ''-'' @ fc_epoch w @ ''-'' @ fc_pid w @ ''.blob''"
  have t: "put_tmp_file w = ''tmp/'' @ ?t" by (simp add: put_tmp_file_def)
  have no: "CHR ''/'' \<notin> set ?t" using assms by (simp add: fs_tidy_def)
  show p: "fs_put_tmp J w = put_tmp_file w"
    using strcat [of "[]" "[''tmp/put-'', cl_udig (fc_cli w), ''-'', fc_epoch w, ''-'', fc_pid w, ''.blob'']" 256] assms
    by (simp add: fs_put_tmp_def BLOBIO_MAX_FS_PATH_def fs_tidy_def put_tmp_file_def)
  show "one_slash (fs_put_tmp J w) = put_tmp_file w"
    unfolding p t using one_slash_tail [OF no] by simp
  have "dropWhile (\<lambda>c. c \<noteq> CHR ''/'') (rev ?t @ CHR ''/'' # x) = CHR ''/'' # x" for x
    using no by (subst dropWhile_append2) auto
  from this [of "rev ''tmp''"] show "dir_of (put_tmp_file w) = Some ''tmp''"
    unfolding t dir_of_def by simp
  show "put_tmp_file w \<noteq> store_path w"
    by (simp add: put_tmp_file_def blob_path_def blob_dir_def algorithm_root_def)
qed

lemma bye_calm: "fs_faults w = [] \<Longrightarrow> get_bye b None w = (None, w)"
  by (simp add: get_bye_def sys_else_def fs_touch_calm)

lemma get_succeeds:
  assumes "fs_ready ssl w" and "fs_calm w" and "map_of (fs_nodes w) (store_path w) = Some (File bs)"
    and "cl_output_path (fc_cli w) = None"
  shows "fst (fs_get J w) = None \<and> cl_ok_no (fc_cli (snd (fs_get J w))) = 0"
proof -
  obtain p where p: "fs_blob_path J (BLOBIO_MAX_FS_PATH + 1) w = Inr p" "one_slash p = store_path w"
    using ready_path [OF assms(1)] by blast
  have op: "io_fs_open (one_slash p) w = (Inr bs, w)"
    using assms(2,3) p(2) by (simp add: io_fs_open_def calm_call fs_calm_def)
  let ?w = "on_cli (\<lambda>s. s\<lparr>cl_blob_size := 0\<rparr>) (snd (answer J 0 ''ok'' w))"
  obtain er out n src evs where sd: "jm_send_file J [CData bs] [] 0 = ((er, out, n), src, evs)"
    using prod.exhaust by metis
  have "er = None" using send_calm [OF sd] by simp
  moreover have "cl_output_writes (fc_cli ?w) = []" "cl_blob_size (fc_cli ?w) = 0" "fs_faults ?w = []"
    using assms(2) by (simp_all add: fs_calm_def answer_def fs_add_chat_def)
  ultimately show ?thesis
    using sd assms(4) op p(1)
    by (simp add: fs_get_def val_or_def get_copy_def Let_def send_stdout_def bye_calm answer_def fs_add_chat_def)
qed

lemma put_copy_succeeds:
  assumes "fs_faults v = []" and "fc_file_writes v = []" and "one_device v" and "fs_tidy v"
    and "plain (cl_input (fc_cli v))" and "room_at ''tmp'' v"
    and "map_of (fs_nodes v) (put_tmp_file v) = None" and "map_of (fs_nodes v) b \<noteq> Some Dir"
    and "dir_of b = Some d" and "dir_at d v" and "one_slash bp = b" and "b \<noteq> put_tmp_file v" and "b \<noteq> ''tmp''"
  shows "fst (put_copy J bp v) = None \<and> cl_ok_no (fc_cli (snd (put_copy J bp v))) = 0"
proof -
  let ?t = "put_tmp_file v"
  note tmp = tidy_tmp [OF assms(4)]
  obtain m w1 where mk: "jm_mkdirat_path J ''tmp'' v = (m, w1)" by fastforce
  note o1 = mkdir_only [OF mk] and c1 = only_cli [OF mkdir_only [OF mk, THEN conjunct2]]
  have calm1: "m = None" "fs_faults w1 = []" using mkdir_calm [OF mk assms(1)] assms(6) by simp_all
  have same1: "map_of (fs_nodes w1) q = map_of (fs_nodes v) q" if "q \<noteq> ''tmp''" for q
    using mkdir_where [OF mk, of q] that by (auto split: if_splits)
  have tt: "?t \<noteq> ''tmp''" by (simp add: put_tmp_file_def)
  have "dir_at ''tmp'' w1" using mkdir_done [OF mk [unfolded calm1]] by simp
  then have par: "parent_there ?t (fs_nodes w1)" by (rule dir_at_parent [OF tmp(3)])
  have d1: "dir_at d w1" using assms(10) o1 by (auto simp: standing_def dest: dirs_file)
  have t1: "fs_put_tmp J w1 = fs_put_tmp J v" using stays_paths(2) [OF stays_dirs] o1 by blast
  let ?w2 = "w1\<lparr>fs_nodes := set_node ?t (File []) (fs_nodes w1)\<rparr>"
  have cr: "io_fs_create ?t w1 = (Inr (), ?w2)"
    using calm1(2) par same1 [OF tt] assms(7) by (simp add: io_fs_create_def calm_call)
  obtain er out n evs ws where
    sd: "jm_send_file J (cl_input (fc_cli v)) [] (cl_blob_size (fc_cli w1)) = ((er, out, n), evs, ws)"
    using prod.exhaust by metis
  have er: "er = None" using send_calm [OF sd assms(5)] by simp
  let ?w3 = "on_cli (\<lambda>s. s\<lparr>cl_blob_size := n\<rparr>) (append_node ?t out (?w2\<lparr>fc_file_writes := ws\<rparr>))"
  have sf: "send_file J (cl_input (fc_cli ?w2)) ?t ?w2 = ((None, evs), ?w3)"
    using sd er c1 assms(2) by (simp add: send_file_def)
  let ?w4 = "on_cli (\<lambda>s. s\<lparr>cl_input := evs\<rparr>) ?w3"
  have n4: "fs_nodes ?w4 = set_node ?t (File out) (fs_nodes ?w2)" "fs_faults ?w4 = []" "fs_dev ?w4 = fs_dev v"
    using calm1(2) fs_only_dev [OF o1 [THEN conjunct2]] by (simp_all add: append_node_def)
  have "b \<noteq> ''tmp''" by (rule assms(13))
  then have b4: "map_of (fs_nodes ?w4) b \<noteq> Some Dir" "map_of (fs_nodes ?w4) ?t = Some (File out)"
    using n4(1) same1 assms(8,12) by (simp_all add: map_of_set)
  have "d \<noteq> ?t" using assms(7,10) by (auto simp: standing_def)
  then have "dir_at d ?w4" using d1 n4(1) by (simp add: standing_def)
  then have par4: "parent_there b (fs_nodes ?w4)" by (rule dir_at_parent [OF assms(9)])
  let ?w5 = "?w4\<lparr>fs_nodes := set_node b (File out) (del_node ?t (fs_nodes ?w4))\<rparr>"
  have rn: "io_fs_rename ?t b ?w4 = (Inr (), ?w5)"
    unfolding io_fs_rename_def calm_call [OF n4(2)]
    using b4 par4 assms(3,12) n4(3) by (simp add: one_device_def)
  let ?w6 = "fs_add_chat J ''ok'' ?w5"
  have f6: "fs_faults ?w6 = []" and n6: "map_of (fs_nodes ?w6) ?t = None"
    using n4(2) assms(12) by (simp_all add: fs_add_chat_def)
  have "sys_unlink ?t ?w6 = (Inl ENOENT, ?w6)"
    unfolding sys_unlink_def calm_call [OF f6] using n6 by simp
  then have bye: "put_bye (fs_put_tmp J v) None ?w6 = (None, on_cli (\<lambda>s. s\<lparr>cl_ok_no := 0\<rparr>) ?w6)"
    using f6 by (simp add: put_bye_def tmp(2) sys_else_def fs_touch_calm)
  have "put_copy J bp v = put_bye (fs_put_tmp J v) None ?w6"
    using mk calm1(1) t1 tmp(2) cr sf rn assms(11) by (simp add: put_copy_def lib_def Let_def)
  then show ?thesis unfolding bye by simp
qed

lemma put_succeeds:
  assumes "fs_ready ssl w" and "fs_calm w" and "fs_tidy w" and "fs_room w" and "plain (cl_input (fc_cli w))"
    and "cl_input_path (fc_cli w) = None"
  shows "fst (fs_put J w) = None \<and> cl_ok_no (fc_cli (snd (fs_put J w))) = 0"
proof -
  let ?b = "store_path w"
  have d: "blob_name (cl_ascii_digest (fc_cli w))" using assms(1) by (simp add: fs_ready_def Let_def)
  obtain bp where bp: "fs_blob_path J (BLOBIO_MAX_FS_PATH + 1) w = Inr bp" "one_slash bp = ?b"
    using ready_path [OF assms(1)] by blast
  obtain dir where dir: "blob_dir_path J (BLOBIO_MAX_FS_PATH + 1) w = Inr dir"
    "one_slash dir = algorithm_root (cl_algorithm (fc_cli w)) @ CHR ''/'' # cli_dirs (cl_ascii_digest (fc_cli w))"
    "dir_of ?b = Some (one_slash dir)" "take 1 dir = ''d''"
    using ready_dir [OF assms(1)] by metis
  have b: "?b = (one_slash dir @ ''/'') @ cl_ascii_digest (fc_cli w)"
    using dir(2) by (simp add: blob_path_def blob_dir_def cli_dirs_def)
  obtain m w1 where mk: "jm_mkdirat_path J dir w = (m, w1)" by fastforce
  note o1 = mkdir_only [OF mk]
  note c1 = only_cli [OF o1 [THEN conjunct2]]
  have room: "\<forall>q \<in> set (slash_prefixes [] (one_slash dir @ ''/'')). room_at q w"
    using assms(4) slash_prefixes_last [OF blob_name_parts(1) [OF d], of "[]" "one_slash dir @ ''/''"] b
    by (simp add: fs_room_def)
  have calm1: "m = None" "fs_faults w1 = []"
    using mkdir_calm [OF mk _ _ room] dir(4) assms(2) by (cases dir; simp add: fs_calm_def)+
  have same1: "map_of (fs_nodes w1) q = map_of (fs_nodes w) q" if "length (one_slash dir @ ''/'') \<le> length q" for q
    using mkdir_where [OF mk, of q] slash_prefixes_shorter [of q "[]" "one_slash dir @ ''/''"] that by fastforce
  let ?w1 = "fs_add_chat J ''ok'' w1"
  have names: "fc_epoch w1 = fc_epoch w" "fc_pid w1 = fc_pid w" "fs_dev w1 = fs_dev w"
    using names_eqs(4,3,11) [OF stays_dirs [of w w1 "\<lambda>_. True"]] o1 by blast+
  have t: "put_tmp_file ?w1 = put_tmp_file w" and tidy: "fs_tidy ?w1"
    using c1 names assms(3) by (simp_all add: put_tmp_file_def fs_tidy_def fs_add_chat_def)
  have tmp0: "map_of (fs_nodes w1) (put_tmp_file w) = None"
  proof -
    have "put_tmp_file w \<notin> set (slash_prefixes [] (one_slash dir @ ''/''))"
    proof
      assume "put_tmp_file w \<in> set (slash_prefixes [] (one_slash dir @ ''/''))"
      then obtain r where "one_slash dir @ ''/'' = put_tmp_file w @ CHR ''/'' # r"
        using slash_prefixes_prefix by fastforce
      then show False using dir(2) by (simp add: put_tmp_file_def algorithm_root_def)
    qed
    then show ?thesis using mkdir_where [OF mk, of "put_tmp_file w"] assms(4) unfolding fs_room_def by metis
  qed
  have "fs_put J w = put_copy J bp ?w1"
    using bp(1) dir(1) mk calm1(1) c1 assms(6)
    by (simp add: fs_put_def val_or_def lib_def Let_def fs_add_chat_def)
  moreover have "fst (put_copy J bp ?w1) = None \<and> cl_ok_no (fc_cli (snd (put_copy J bp ?w1))) = 0"
  proof (rule put_copy_succeeds [where b = ?b and d = "one_slash dir"])
    show "dir_at (one_slash dir) ?w1" using mkdir_done [OF mk [unfolded calm1]] by (simp add: standing_def fs_add_chat_def)
    show "room_at ''tmp'' ?w1"
      using room_dirs [of w w1 "''tmp''"] o1 assms(4) by (auto simp: fs_room_def room_at_def standing_def fs_add_chat_def)
    show "map_of (fs_nodes ?w1) ?b \<noteq> Some Dir" using same1 [of ?b] b assms(4) by (simp add: fs_room_def fs_add_chat_def)
    show "?b \<noteq> put_tmp_file ?w1" "?b \<noteq> ''tmp''"
      by (simp_all add: put_tmp_file_def blob_path_def blob_dir_def algorithm_root_def)
  qed (use assms(2,5) calm1 c1 names tidy t tmp0 dir(3) bp(2) in
      \<open>simp_all add: fs_calm_def one_device_def fs_add_chat_def\<close>)
  ultimately show ?thesis by simp
qed

end

end
