(* ===== verification/Cli_Fs_Spec.thy ===== *)
theory Cli_Fs_Spec
  imports Cli_Fs_Store
begin

text \<open>
  The properties of the file service of the client, and a library that has the interface they assume.
\<close>

section \<open>A library\<close>

definition a_mkdirat_path :: "bytes \<Rightarrow> client \<Rightarrow> cli_error option \<times> client" where
  "a_mkdirat_path p w =
     (case make_dirs (slash_prefixes [] (one_slash p @ ''/'')) w of
        (failed, w1) \<Rightarrow> (if \<not> failed \<and> dir_at (one_slash p) w1 then None else Some (Strerror ENOTDIR), w1))"

definition a_mkdirat_EEXIST :: "bytes \<Rightarrow> client \<Rightarrow> unit sysret \<times> client" where
  "a_mkdirat_EEXIST p w =
     (case io_fs_mkdir (one_slash p) w of
        (Inl e, w1) \<Rightarrow> (if map_of (fs_nodes w1) (one_slash p) \<noteq> None \<and> e = EEXIST then Inr () else Inl e, w1)
      | (Inr u, w1) \<Rightarrow> (Inr u, w1))"

definition a_fsizeat :: "bytes \<Rightarrow> client \<Rightarrow> ((errno \<times> cli_error) + nat) \<times> client" where
  "a_fsizeat p w =
     (case io_fs_lstat p w of
        (Inl e, w1) \<Rightarrow> (Inl (if e = EEXIST then EOTHER else e, Strerror e), w1)
      | (Inr n, w1) \<Rightarrow> (Inr (node_size n), w1))"

definition a_jmscott :: jmscott where
  "a_jmscott =
     \<lparr>lib_msg_size = 512, lib_frisk_udig = (\<lambda>u. None), lib_stack = (\<lambda>i. NUL),
      jm_strcat = (\<lambda>n t ss. take (n - 1) (t @ concat ss)),
      jm_mkdirat_path = a_mkdirat_path,
      jm_mkdirat_EEXIST = a_mkdirat_EEXIST,
      jm_fsizeat = a_fsizeat,
      jm_send_file = (\<lambda>evs ws n.
        if ws = [] \<and> plain evs then ((None, event_data evs, n + int (length (event_data evs))), [], [])
        else ((Some (Strerror EOTHER), [], n), evs, ws)),
      jm_rewind = (\<lambda>w. case fs_touch w of (Inl e, w1) \<Rightarrow> (Some (Strerror e), w1) | (Inr u, w1) \<Rightarrow> (None, w1)),
      jm_write_all = (\<lambda>bs ws. if ws = [] then (Inr (), bs, []) else (Inl EOTHER, [], ws)),
      jm_read_exact = (\<lambda>n bs w.
        case fs_touch w of
          (Inl e, w1) \<Rightarrow> (Inl e, w1)
        | (Inr u, w1) \<Rightarrow> (if n \<le> length bs then Inr (take n bs) else Inl ENODATA, w1)),
      jm_split = (\<lambda>bs c n.
        let os = filter (\<lambda>i. bs ! i = c) [0..<length bs] in
        if length os \<le> n then Inr os else Inl (Msg ''too many fields''))\<rparr>"

lemma slash_prefixes_dir: "slash_prefixes acc (p @ ''/'') = slash_prefixes acc p @ [acc @ p]"
  by (induction acc p rule: slash_prefixes.induct) auto

lemma make_dirs_where:
  "make_dirs ds w = (f, w') \<Longrightarrow> map_of (fs_nodes w') q \<noteq> map_of (fs_nodes w) q \<Longrightarrow> q \<in> set ds"
proof (induction ds w rule: make_dirs.induct)
  case (2 d ds w)
  obtain g w1 where m: "arbor_make_path d w = (g, w1)" by fastforce
  have e: "map_of (fs_nodes w1) q = map_of (fs_nodes w) q" if "q \<noteq> d"
    using m that by (auto simp: arbor_make_path_def io_fs_mkdir_def fs_call_def
        split: prod.splits sum.splits option.splits if_splits)
  show ?case
  proof (cases g)
    case True
    then show ?thesis using "2.prems" m e by auto
  next
    case False
    then have "make_dirs ds w1 = (f, w')" using "2.prems"(1) m by simp
    then show ?thesis using "2.IH" [OF m [symmetric] False] "2.prems"(2) e by (metis list.set_intros)
  qed
qed simp

lemma one_slash_first: "take 1 (one_slash p) = take 1 p"
  by (induction p rule: one_slash.induct) auto

lemma a_mkdirat_calm:
  assumes "a_mkdirat_path p w = (r, w')" and "fs_faults w = []" and "take 1 p \<notin> {[], ''/''}"
    and "\<forall>q \<in> set (slash_prefixes [] (one_slash p @ ''/'')). room_at q w"
  shows "r = None \<and> fs_faults w' = []"
proof -
  let ?ds = "slash_prefixes [] (one_slash p @ ''/'')"
  have "take 1 (one_slash p @ ''/'') \<noteq> ''/''"
    using assms(3) one_slash_first [of p] by (cases "one_slash p") auto
  then have "parents_first {} ?ds"
    using slash_prefixes_parents [of "[]" "{}" "one_slash p @ ''/''"] by (simp add: dir_of_def)
  moreover have "\<forall>d \<in> set ?ds. \<forall>bs. map_of (fs_nodes w) d \<noteq> Some (File bs)"
    using assms(4) by (auto simp: room_at_def standing_def)
  ultimately obtain ns where "make_dirs ?ds w = (False, w\<lparr>fs_nodes := ns\<rparr>)" "\<forall>q \<in> set ?ds. standing ns q"
    using make_dirs_calm [of w "{}" ?ds] assms(2) by auto
  then show ?thesis
    using assms(1,2) by (auto simp: a_mkdirat_path_def slash_prefixes_dir)
qed

lemma a_mkdirat:
  assumes "a_mkdirat_path p w = (r, w')"
  shows "only_dirs_added w w' \<and> fs_only w w'"
    and "map_of (fs_nodes w') q \<noteq> map_of (fs_nodes w) q \<Longrightarrow> q \<in> set (slash_prefixes [] (one_slash p @ ''/''))"
    and "r = None \<Longrightarrow> dir_at (one_slash p) w'"
  using assms make_dirs_only_dirs fs_only_make_dirs make_dirs_where
  by (fastforce simp: a_mkdirat_path_def split: prod.splits if_splits)+

lemma a_mkdirat_EEXIST:
  assumes "a_mkdirat_EEXIST p w = (s, w')"
  shows "only_dirs_added w w' \<and> fs_only w w'"
    and "map_of (fs_nodes w') q \<noteq> map_of (fs_nodes w) q \<Longrightarrow> q = one_slash p"
    and "s = Inr u \<Longrightarrow> map_of (fs_nodes w') (one_slash p) \<noteq> None"
    and "fs_faults w = [] \<Longrightarrow> p \<noteq> [] \<Longrightarrow> parent_there (one_slash p) (fs_nodes w) \<Longrightarrow> s = Inr () \<and> fs_faults w' = []"
proof -
  obtain m w1 where m: "io_fs_mkdir (one_slash p) w = (m, w1)" by fastforce
  have w1: "w' = w1" using assms m by (cases m) (auto simp: a_mkdirat_EEXIST_def)
  show "only_dirs_added w w' \<and> fs_only w w'"
    unfolding w1 using mkdir_only_dirs [OF m] fs_only_mkdir [OF m] by blast
  show "map_of (fs_nodes w') q \<noteq> map_of (fs_nodes w) q \<Longrightarrow> q = one_slash p"
    using m w1 by (auto simp: io_fs_mkdir_def fs_call_def split: prod.splits option.splits if_splits)
  have ne: "p \<noteq> [] \<Longrightarrow> one_slash p \<noteq> []" using one_slash_first [of p] by (cases "one_slash p") (auto simp: neq_Nil_conv)
  show "s = Inr u \<Longrightarrow> map_of (fs_nodes w') (one_slash p) \<noteq> None"
    using assms m by (auto simp: a_mkdirat_EEXIST_def io_fs_mkdir_def fs_call_def
        split: prod.splits sum.splits option.splits if_splits)
  show "fs_faults w = [] \<Longrightarrow> p \<noteq> [] \<Longrightarrow> parent_there (one_slash p) (fs_nodes w) \<Longrightarrow> s = Inr () \<and> fs_faults w' = []"
    using assms m ne by (auto simp: a_mkdirat_EEXIST_def io_fs_mkdir_def calm_call
        split: prod.splits sum.splits option.splits if_splits)
qed

lemma a_fsizeat:
  assumes "a_fsizeat p w = (z, w')"
  shows "fs_nodes w' = fs_nodes w \<and> fs_only w w'"
    and "z = Inl (e, err) \<Longrightarrow> err \<noteq> Msg '''' \<and> e \<noteq> EEXIST"
    and "z = Inr n \<Longrightarrow> \<exists>node. map_of (fs_nodes w) p = Some node \<and> (\<forall>bs. node = File bs \<longrightarrow> n = length bs)"
    and "z = Inl (ENOENT, err) \<Longrightarrow> fs_faults w = [] \<Longrightarrow> map_of (fs_nodes w) p = None"
    and "fs_faults w = [] \<Longrightarrow>
      fs_faults w' = [] \<and> (map_of (fs_nodes w) p \<noteq> None \<longrightarrow> (\<exists>n. z = Inr n)) \<and>
      (map_of (fs_nodes w) p = None \<longrightarrow> (\<exists>err. z = Inl (ENOENT, err)))"
proof -
  obtain m w1 where m: "io_fs_lstat p w = (m, w1)" by fastforce
  have w1: "w' = w1" using assms m by (cases m) (auto simp: a_fsizeat_def)
  show "fs_nodes w' = fs_nodes w \<and> fs_only w w'"
    unfolding w1 using lstat_nodes [OF m] fs_only_lstat [OF m] by blast
  show "z = Inl (e, err) \<Longrightarrow> err \<noteq> Msg '''' \<and> e \<noteq> EEXIST"
    using assms m by (auto simp: a_fsizeat_def split: sum.splits if_splits)
  show "z = Inr n \<Longrightarrow> \<exists>node. map_of (fs_nodes w) p = Some node \<and> (\<forall>bs. node = File bs \<longrightarrow> n = length bs)"
    using assms m by (auto simp: a_fsizeat_def io_fs_lstat_def fs_call_def node_size_def
        split: prod.splits sum.splits option.splits)
  show "z = Inl (ENOENT, err) \<Longrightarrow> fs_faults w = [] \<Longrightarrow> map_of (fs_nodes w) p = None"
    using assms m by (auto simp: a_fsizeat_def io_fs_lstat_def calm_call split: sum.splits option.splits if_splits)
  show "fs_faults w = [] \<Longrightarrow>
      fs_faults w' = [] \<and> (map_of (fs_nodes w) p \<noteq> None \<longrightarrow> (\<exists>n. z = Inr n)) \<and>
      (map_of (fs_nodes w) p = None \<longrightarrow> (\<exists>err. z = Inl (ENOENT, err)))"
    using assms m by (auto simp: a_fsizeat_def io_fs_lstat_def calm_call split: sum.splits option.splits)
qed

lemma a_jm_simps:
  "jm_mkdirat_path a_jmscott = a_mkdirat_path" "jm_mkdirat_EEXIST a_jmscott = a_mkdirat_EEXIST"
  "jm_fsizeat a_jmscott = a_fsizeat" "jm_strcat a_jmscott n t ss = take (n - 1) (t @ concat ss)"
  by (simp_all add: a_jmscott_def)

interpretation a_jm: libjmscott a_jmscott
  apply unfold_locales
  unfolding a_jm_simps
                     apply simp
                    apply (erule a_mkdirat(1))
                   apply (erule (1) a_mkdirat(2))
                  apply (erule a_mkdirat(3) [OF _ refl])
                 apply (erule (3) a_mkdirat_calm)
                apply (erule a_mkdirat_EEXIST(1))
               apply (erule (1) a_mkdirat_EEXIST(2))
               apply (erule a_mkdirat_EEXIST(3) [OF _ refl])
              apply (erule (3) a_mkdirat_EEXIST(4))
             apply (erule a_fsizeat(1))
            apply (erule a_fsizeat(2) [OF _ refl])
           apply (erule a_fsizeat(3) [OF _ refl])
          apply (erule (1) a_fsizeat(4) [OF _ refl])
         apply (erule (1) a_fsizeat(5))
        apply (auto simp: a_jmscott_def Let_def fs_touch_calm dest: fs_touch_nodes fs_only_touch
      split: prod.splits sum.splits if_splits)
  done

section \<open>Put and get\<close>

lemma store_path_root:
  assumes "fs_ready ssl w" and "store_ok (store_hash ssl) v"
    and "map_of (fs_nodes v) (store_path w) = Some (File bs)"
  shows "has_digest (name_hash ssl (cl_algorithm (fc_cli w))) (cl_ascii_digest (fc_cli w)) bs"
  using assms ready_names [OF assms(1)] name_hash_root [OF ready_names(1) [OF assms(1)], of ssl]
  by (auto simp: store_ok_def has_digest_def fs_ready_def Let_def)

lemma same_but_eqI: "same_but P w v \<Longrightarrow> (\<And>q. P q \<Longrightarrow> Q q) \<Longrightarrow> same_but Q w v"
  unfolding same_but_def by metis

text \<open>
  C5: a get from the directory of a server.  Let the files be those of a server at any time between two
  requests.  When \<^verbatim>\<open>fs_get\<close> ends without an error and with \<^verbatim>\<open>ok_no\<close> 0, whatever the kernel failed on
  the way, then what it has written to the standard output, or what is under the name of the new output
  file, has the digest that was asked for, although the client does not compute it; no other file
  has changed.  And when nothing fails and the blob is there, it ends that way.
\<close>

theorem fs_get_serves_the_store:
  assumes "libjmscott J" and "child_ok ssl r" and "fs_nodes w = fs_nodes (rq_module r)" and "fs_ready ssl w"
    and "fs_get J w = (err, w')"
  defines "good \<equiv> has_digest (name_hash ssl (cl_algorithm (fc_cli w))) (cl_ascii_digest (fc_cli w))"
  shows "(err = None \<and> cl_ok_no (fc_cli w') = 0 \<longrightarrow>
      (cl_output_path (fc_cli w) = None \<longrightarrow>
        (\<exists>bs. good bs \<and> cl_output (fc_cli w') = cl_output (fc_cli w) @ bs)) \<and>
      (\<forall>q. cl_output_path (fc_cli w) = Some q \<and> q \<noteq> ''/dev/null'' \<and> map_of (fs_nodes w) (fc_cwd w q) = None \<longrightarrow>
        (\<exists>n. map_of (fs_nodes w') (fc_cwd w q) = Some n \<and> (\<forall>bs. n = File bs \<longrightarrow> good bs)))) \<and>
    same_but (\<lambda>q. \<exists>p. cl_output_path (fc_cli w) = Some p \<and> q = fc_cwd w p) w w' \<and>
    (fs_calm w \<and> cl_output_path (fc_cli w) = None \<and> (\<exists>bs. map_of (fs_nodes w) (store_path w) = Some (File bs)) \<longrightarrow>
      err = None \<and> cl_ok_no (fc_cli w') = 0)"
proof -
  have got: "fs_get J w = (None, w')" if "err = None" using assms(5) that by simp
  note got = libjmscott.get_value [OF assms(1,4) got]
  have st: "store_ok (store_hash ssl) w"
    using assms(2,3) by (simp add: child_ok_def store_ok_def)
  note dig = store_path_root [OF assms(4) st]
  have "same_but (out_area w) w w'"
    using libjmscott.keeps_get [OF assms(1), of w] assms(5) by (simp add: keeps_def stays_def)
  then have frame: "same_but (\<lambda>q. \<exists>p. cl_output_path (fc_cli w) = Some p \<and> q = fc_cwd w p) w w'"
    by (rule same_but_eqI) (auto simp: out_area_def)
  have live: "err = None \<and> cl_ok_no (fc_cli w') = 0"
    if "fs_calm w" "cl_output_path (fc_cli w) = None" "map_of (fs_nodes w) (store_path w) = Some (File bs)" for bs
    using libjmscott.get_succeeds [OF assms(1,4) that(1,3,2)] assms(5) by simp
  have stdout: "\<exists>bs. good bs \<and> cl_output (fc_cli w') = cl_output (fc_cli w) @ bs"
    if "err = None" "cl_ok_no (fc_cli w') = 0" "cl_output_path (fc_cli w) = None"
    using got(2) [OF that] dig unfolding good_def by blast
  have out: "\<exists>n. map_of (fs_nodes w') (fc_cwd w q) = Some n \<and> (\<forall>bs. n = File bs \<longrightarrow> good bs)"
    if "err = None" "cl_ok_no (fc_cli w') = 0" "cl_output_path (fc_cli w) = Some q" "q \<noteq> ''/dev/null''"
      "map_of (fs_nodes w) (fc_cwd w q) = None" for q
    using got(3) [OF that] dig unfolding good_def by auto
  show ?thesis using frame live stdout out by blast
qed

definition a_fs_client :: "(bytes \<times> node) list \<Rightarrow> cli \<Rightarrow> client" where
  "a_fs_client ns s =
     \<lparr>fs_nodes = ns, fs_faults = [], fs_dev = (\<lambda>_. 0), fc_cli = s, fc_data = ''data/fs_sha'', fc_wrap_set = [],
      fc_open = True, fc_end_point = ''/srv'', fc_cwd = (\<lambda>p. ''home/'' @ p), fc_pid = ''7'', fc_epoch = ''99'',
      fc_file_writes = [], fc_log = None\<rparr>"

lemma a_fs_client_ready: "fs_ready an_openssl (a_fs_client ns (a_client v a_digest evs))"
  using a_client_digest [of an_openssl] a_digest_name
  by (simp add: fs_ready_def a_fs_client_def a_client_def algorithm_root_def)

theorem fs_get_serves_the_store_witness:
  "\<exists>w'. fs_get a_jmscott (a_fs_client [(blob_path fs_sha_root a_digest, File ''x'')] (a_client ''get'' a_digest [])) =
      (None, w') \<and>
    (\<exists>bs. has_digest (ossl_sha1 an_openssl) a_digest bs \<and> cl_output (fc_cli w') = bs)"
proof -
  let ?w = "a_fs_client [(blob_path fs_sha_root a_digest, File ''x'')] (a_client ''get'' a_digest [])"
  obtain err w' where g: "fs_get a_jmscott ?w = (err, w')" by fastforce
  have n: "fs_nodes ?w = fs_nodes (rq_module (an_x_child []))"
    by (simp add: a_fs_client_def an_x_child_def req_init_def)
  have s: "cl_output_path (fc_cli ?w) = None" "cl_output (fc_cli ?w) = []" "cl_algorithm (fc_cli ?w) = ''sha''"
    "cl_ascii_digest (fc_cli ?w) = a_digest" "fs_calm ?w"
    by (simp_all add: a_fs_client_def a_client_def fs_calm_def one_device_def)
  have "map_of (fs_nodes ?w) (store_path ?w) = Some (File ''x'')"
    unfolding s by (simp add: a_fs_client_def algorithm_roots)
  then show ?thesis
    using fs_get_serves_the_store [OF a_jm.libjmscott_axioms an_x_child_ok n a_fs_client_ready g] g
    unfolding s by (auto simp: name_hash_def s)
qed

text \<open>Where a put may write.\<close>

lemma put_area_eq:
  assumes "libjmscott J" and "fs_ready ssl w" and "fs_tidy w"
  shows "put_area J w q \<longleftrightarrow> q = store_path w \<or> q = put_tmp_file w"
proof -
  obtain p where "fs_blob_path J (BLOBIO_MAX_FS_PATH + 1) w = Inr p" "one_slash p = store_path w"
    by (rule libjmscott.ready_path [OF assms(1,2)])
  then show ?thesis
    using libjmscott.tidy_tmp(2) [OF assms(1,3)] by (auto simp: put_area_def put_path_def)
qed

lemma tmp_not_blob: "\<not> is_blob_path (put_tmp_file w)"
  by (auto simp: is_blob_path_def store_roots_def put_tmp_file_def blob_path_def blob_dir_def)

lemma put_keeps_store:
  assumes "store_ok (store_hash ssl) w" and "fs_ready ssl w"
    and "same_but (\<lambda>q. q = store_path w \<or> q = put_tmp_file w) w w'"
    and "map_of (fs_nodes w') (store_path w) \<in> {map_of (fs_nodes w) (store_path w), Some (File bs)}"
    and "has_digest (name_hash ssl (cl_algorithm (fc_cli w))) (cl_ascii_digest (fc_cli w)) bs"
  shows "store_ok (store_hash ssl) w'"
  unfolding store_ok_def
proof (intro ballI allI impI)
  fix root d cs
  assume p: "root \<in> set store_roots" "blob_name d" "map_of (fs_nodes w') (blob_path root d) = Some (File cs)"
  show "concat (map encode_byte (store_hash ssl root cs)) = d"
  proof (cases "blob_path root d = store_path w \<and> map_of (fs_nodes w') (store_path w) = Some (File bs)")
    case True
    then have r: "root = algorithm_root (cl_algorithm (fc_cli w))" "d = cl_ascii_digest (fc_cli w)" "cs = bs"
      using p assms(2) blob_path_inj by (auto simp: fs_ready_def Let_def)
    then show ?thesis
      using assms(5) name_hash_root [OF ready_names(1) [OF assms(2)], of ssl] by (simp add: has_digest_def)
  next
    case False
    have "is_blob_path (blob_path root d)" using p by (auto simp: is_blob_path_def)
    then have "blob_path root d \<noteq> put_tmp_file w" using tmp_not_blob by metis
    then have "map_of (fs_nodes w) (blob_path root d) = Some (File cs)"
      using False p(3) assms(3,4) unfolding same_but_def
      by (metis (mono_tags, lifting) empty_iff insert_iff node.distinct(1) option.inject)
    then show ?thesis using assms(1) p by (simp add: store_ok_def)
  qed
qed

text \<open>
  C4: a put into the directory of a server.  Whatever the kernel fails, \<^verbatim>\<open>fs_put\<close> changes no file but
  the blob and its temporary file, and the blob is what it was or all the bytes of the input; a put that
  ends without an error and with \<^verbatim>\<open>ok_no\<close> 0 leaves a blob there, which is the input when there was
  none; the put of an input with the digest keeps the invariant of the server's store, so that the
  service may trust its caller, and no digest is computed here.  And when nothing fails and there is
  room, a put from the standard input ends that way.
\<close>

theorem fs_put_into_the_store:
  assumes "libjmscott J" and "fs_ready ssl w" and "fs_tidy w" and "source w bs"
    and "\<forall>p. cl_input_path (fc_cli w) = Some p \<longrightarrow> fc_cwd w p \<noteq> store_path w"
    and "fs_put J w = (err, w')"
  shows "same_but (\<lambda>q. q = store_path w \<or> q = put_tmp_file w) w w' \<and>
    map_of (fs_nodes w') (store_path w) \<in> {map_of (fs_nodes w) (store_path w), Some (File bs)} \<and>
    (err = None \<and> cl_ok_no (fc_cli w') = 0 \<longrightarrow> map_of (fs_nodes w') (store_path w) \<noteq> None) \<and>
    (store_ok (store_hash ssl) w \<and>
      has_digest (name_hash ssl (cl_algorithm (fc_cli w))) (cl_ascii_digest (fc_cli w)) bs \<longrightarrow>
      store_ok (store_hash ssl) w') \<and>
    (fs_calm w \<and> fs_room w \<and> plain (cl_input (fc_cli w)) \<and> cl_input_path (fc_cli w) = None \<longrightarrow>
      err = None \<and> cl_ok_no (fc_cli w') = 0 \<and> map_of (fs_nodes w') (store_path w) = Some (File bs))"
proof -
  have apart: "one_slash (fs_put_tmp J w) \<noteq> store_path w"
    using libjmscott.tidy_tmp(2,4) [OF assms(1,3)] by simp
  note put = libjmscott.put_value [OF assms(1,2,4) apart assms(6,5)]
  have "same_but (put_area J w) w w'"
    using libjmscott.keeps_put [OF assms(1), of w] assms(6) by (simp add: keeps_def stays_def)
  then have frame: "same_but (\<lambda>q. q = store_path w \<or> q = put_tmp_file w) w w'"
    by (rule same_but_eqI) (simp add: put_area_eq [OF assms(1-3)])
  have live: "err = None \<and> cl_ok_no (fc_cli w') = 0"
    if "fs_calm w" "fs_room w" "plain (cl_input (fc_cli w))" "cl_input_path (fc_cli w) = None"
    using libjmscott.put_succeeds [OF assms(1,2) that(1) assms(3) that(2,3,4)] assms(6) by simp
  show ?thesis
    using frame put live put_keeps_store [OF _ assms(2) frame put(1)] by blast
qed

definition a_fs_putter :: client where
  "a_fs_putter = a_fs_client [(''data'', Dir)] a_put_client"

lemma a_fs_putter_facts:
  "fs_ready an_openssl a_fs_putter" "fs_tidy a_fs_putter" "source a_fs_putter ''x''" "fs_calm a_fs_putter"
  "fs_room a_fs_putter" "plain (cl_input (fc_cli a_fs_putter))" "cl_input_path (fc_cli a_fs_putter) = None"
  "store_path a_fs_putter = blob_path fs_sha_root a_digest"
proof -
  have a: "a_digest = ''0101010101010101010101010101010101010101''" by code_simp
  have s: "cl_algorithm a_put_client = ''sha''" "cl_ascii_digest a_put_client = a_digest"
    "cl_udig a_put_client = ''sha:'' @ a_digest" "cl_input a_put_client = [CData ''x'']"
    "cl_input_path a_put_client = None" "cl_output_writes a_put_client = []"
    by (simp_all add: a_put_client_def a_client_def)
  show "fs_ready an_openssl a_fs_putter"
    using a_fs_client_ready [of "[(''data'', Dir)]" "''put''" "[]"]
    by (auto simp: a_fs_putter_def a_fs_client_def a_put_client_def fs_ready_def Let_def)
  show p: "store_path a_fs_putter = blob_path fs_sha_root a_digest"
    by (simp add: a_fs_putter_def a_fs_client_def s algorithm_roots)
  show "fs_tidy a_fs_putter" "source a_fs_putter ''x''" "fs_calm a_fs_putter"
    "plain (cl_input (fc_cli a_fs_putter))" "cl_input_path (fc_cli a_fs_putter) = None"
    by (simp_all add: a_fs_putter_def a_fs_client_def s fs_tidy_def source_def fs_calm_def one_device_def a)
  have "slash_prefixes [] (blob_path fs_sha_root a_digest) =
      [''data'', ''data/fs_sha'', ''data/fs_sha/010'', ''data/fs_sha/010/101'']"
    by (simp add: blob_path_def blob_dir_def fs_sha_root_def a)
  then show "fs_room a_fs_putter"
    unfolding fs_room_def p
    by (simp add: a_fs_putter_def a_fs_client_def room_at_def standing_def put_tmp_file_def blob_path_def
        blob_dir_def fs_sha_root_def)
qed

theorem fs_put_into_the_store_witness:
  "\<exists>w'. fs_put a_jmscott a_fs_putter = (None, w') \<and>
    map_of (fs_nodes w') (blob_path fs_sha_root a_digest) = Some (File ''x'')"
proof -
  obtain err w' where g: "fs_put a_jmscott a_fs_putter = (err, w')" by fastforce
  note f = a_fs_putter_facts
  have "\<forall>p. cl_input_path (fc_cli a_fs_putter) = Some p \<longrightarrow> fc_cwd a_fs_putter p \<noteq> store_path a_fs_putter"
    using f(7) by simp
  from fs_put_into_the_store [OF a_jm.libjmscott_axioms f(1-3) this g]
  show ?thesis using f(4-8) g by simp
qed

text \<open>
  C26: a put and then a get of another client give the blob back, when nothing fails.
\<close>

theorem fs_put_then_get:
  assumes "libjmscott J" and "fs_ready ssl w" and "fs_tidy w" and "fs_calm w" and "fs_room w"
    and "plain (cl_input (fc_cli w))" and "cl_input_path (fc_cli w) = None"
    and "fs_nodes u = fs_nodes (snd (fs_put J w))" and "fs_ready ssl u" and "fs_calm u"
    and "store_path u = store_path w" and "cl_output_path (fc_cli u) = None" and "cl_output (fc_cli u) = []"
  shows "fst (fs_put J w) = None \<and> fst (fs_get J u) = None \<and>
    cl_output (fc_cli (snd (fs_get J u))) = event_data (cl_input (fc_cli w))"
proof -
  obtain err w' where p: "fs_put J w = (err, w')" by fastforce
  obtain er u' where g: "fs_get J u = (er, u')" by fastforce
  let ?bs = "event_data (cl_input (fc_cli w))"
  have s: "source w ?bs" using assms(7) by (simp add: source_def)
  have apart: "one_slash (fs_put_tmp J w) \<noteq> store_path w"
    using libjmscott.tidy_tmp(2,4) [OF assms(1,3)] by simp
  have ok: "err = None" using libjmscott.put_succeeds [OF assms(1,2,4,3,5,6,7)] p by simp
  have node: "map_of (fs_nodes u) (store_path u) = Some (File ?bs)"
    using libjmscott.put_value(3) [OF assms(1,2) s apart p _ ok assms(7)] assms(7,8,11) p by simp
  have gok: "er = None" "cl_ok_no (fc_cli u') = 0"
    using libjmscott.get_succeeds [OF assms(1,9,10) node assms(12)] g by simp_all
  then show ?thesis
    using libjmscott.get_value(2) [OF assms(1,9) _ gok(2) assms(12)] g node assms(13) ok p by auto
qed

theorem fs_put_then_get_witness:
  "cl_output (fc_cli (snd (fs_get a_jmscott
     (a_fs_client (fs_nodes (snd (fs_put a_jmscott a_fs_putter))) (a_client ''get'' a_digest []))))) = ''x''"
proof -
  let ?u = "a_fs_client (fs_nodes (snd (fs_put a_jmscott a_fs_putter))) (a_client ''get'' a_digest [])"
  have u: "fs_nodes ?u = fs_nodes (snd (fs_put a_jmscott a_fs_putter))" "fs_calm ?u"
    "store_path ?u = store_path a_fs_putter" "cl_output_path (fc_cli ?u) = None" "cl_output (fc_cli ?u) = []"
    by (simp_all add: a_fs_client_def a_client_def fs_calm_def one_device_def a_fs_putter_def a_put_client_def)
  have "event_data (cl_input (fc_cli a_fs_putter)) = ''x''"
    using a_fs_putter_facts(3) by (simp add: source_def)
  then show ?thesis
    using fs_put_then_get [OF a_jm.libjmscott_axioms a_fs_putter_facts(1,2,4,5,6,7) u(1) a_fs_client_ready u(2-5)]
    by simp
qed

end
