(* ===== verification/Cli_Fs_Roll.thy ===== *)
theory Cli_Fs_Roll
  imports Cli_Fs_Spec
begin

text \<open>
  The verbs roll and wrap of the file service: the loop over offsets of newlines is a loop over lines,
  and a wrap and a later roll of its set fit together.
\<close>

section \<open>Lines\<close>

text \<open>The lines of a text; what follows the final newline is none.\<close>

fun fs_lines :: "bytes \<Rightarrow> bytes \<Rightarrow> bytes list" where
  "fs_lines acc [] = []"
| "fs_lines acc (c # cs) = (if c = NL then acc # fs_lines [] cs else fs_lines (acc @ [c]) cs)"

definition wrap_file :: "bytes \<Rightarrow> bytes" where
  "wrap_file l = one_slash (''spool/wrap/'' @ cstr l @ ''.brr'')"

text \<open>The loop of \<^verbatim>\<open>fs_roll\<close> over the lines.\<close>

fun roll_lines :: "jmscott \<Rightarrow> bytes list \<Rightarrow> fs_run" where
  "roll_lines J [] w = (None, w)"
| "roll_lines J (l # ls) w =
     (if cstr l = [] then (Some (Msg ''empty udig''), w)
      else if length (cstr l) < 34 then (Some (Msg ''wrap udig < 34 chars''), w)
      else
        case sys_unlink (one_slash (jm_strcat J (BLOBIO_MAX_FS_PATH + 1) [] [''spool/wrap/'', cstr l, ''.brr''])) w of
          (Inl e, w1) \<Rightarrow> if e \<noteq> ENOENT then (Some (Strerror e), w1) else roll_lines J ls w1
        | (Inr _, w1) \<Rightarrow> roll_lines J ls w1)"

lemma fs_lines_no: "NL \<notin> set p \<Longrightarrow> fs_lines acc p = []"
  by (induction acc p rule: fs_lines.induct) auto

lemma fs_lines_first: "NL \<notin> set a \<Longrightarrow> fs_lines acc (a @ NL # b) = (acc @ a) # fs_lines [] b"
  by (induction a arbitrary: acc) auto

lemma filter_shift:
  "filter (\<lambda>i. (p @ r) ! i = c) [length p..<length p + length r] = map (\<lambda>i. length p + i) (filter (\<lambda>i. r ! i = c) [0..<length r])"
proof -
  have "[length p..<length p + length r] = map (\<lambda>i. length p + i) [0..<length r]"
    by (simp add: map_add_upt add.commute)
  then show ?thesis by (simp add: filter_map comp_def)
qed

lemma filter_none: "c \<notin> set r \<Longrightarrow> filter (\<lambda>i. r ! i = c) [0..<length r] = []"
  by (auto simp: filter_empty_conv)

lemma filter_first:
  assumes "c \<notin> set a"
  shows "filter (\<lambda>i. (a @ c # b) ! i = c) [0..<length (a @ c # b)] =
    length a # map (\<lambda>i. length a + 1 + i) (filter (\<lambda>i. b ! i = c) [0..<length b])"
proof -
  have "[0..<length (a @ c # b)] = [0..<length a] @ length a # [length a + 1..<length a + 1 + length b]"
    using upt_add_eq_append [of 0 "length a" "Suc (length b)"] upt_conv_Cons [of "length a" "length a + Suc (length b)"]
    by simp
  moreover have "filter (\<lambda>i. (a @ c # b) ! i = c) [0..<length a] = []"
    using filter_none [OF assms] by (auto simp: filter_empty_conv nth_append)
  moreover have "filter (\<lambda>i. (a @ c # b) ! i = c) [length a + 1..<length a + 1 + length b] =
      map (\<lambda>i. length a + 1 + i) (filter (\<lambda>i. b ! i = c) [0..<length b])"
    using filter_shift [of "a @ [c]" b c] by simp
  ultimately show ?thesis by simp
qed

text \<open>
  The offsets of the newlines in \<open>r\<close>, of a text of which \<open>q\<close> has been worked on.
\<close>

lemma roll_loop_lines:
  "fs_roll_loop J (map (\<lambda>i. length q + i) (filter (\<lambda>i. r ! i = NL) [0..<length r])) (length q) (q @ r @ t) w =
   roll_lines J (fs_lines [] r) w"
proof (induction "length r" arbitrary: q r w rule: less_induct)
  case less
  show ?case
  proof (cases "NL \<in> set r")
    case False
    then show ?thesis by (simp add: fs_lines_no filter_none)
  next
    case True
    then obtain a b where r: "r = a @ NL # b" "NL \<notin> set a" using split_list_first by metis
    let ?o = "length q + length a" and ?q = "q @ a @ [NUL]"
    have os: "map (\<lambda>i. length q + i) (filter (\<lambda>i. r ! i = NL) [0..<length r]) =
        ?o # map (\<lambda>i. length ?q + i) (filter (\<lambda>i. b ! i = NL) [0..<length b])"
      unfolding r(1) filter_first [OF r(2)] by (simp add: comp_def add.assoc)
    have up: "(q @ r @ t)[?o := NUL] = ?q @ b @ t" by (simp add: r(1) list_update_append)
    have at: "(q @ r @ t) ! ?o = NL" by (simp add: r(1) nth_append)
    have ud: "cstr (drop (length q) (?q @ b @ t)) = cstr a" by (simp add: cstr_def takeWhile_tail)
    have "length b < length r" by (simp add: r(1))
    note ih = less.hyps [OF this, of ?q]
    have len: "?o + 1 = length ?q" by simp
    show ?thesis
      unfolding os fs_roll_loop.simps(2) at up Let_def ud len ih by (simp add: r fs_lines_first)
  qed
qed

section \<open>Roll\<close>

lemma calm_sys_unlink:
  assumes "fs_faults w = []" and "sys_unlink p w = (r, w1)"
  shows "fs_faults w1 = []" and "r = Inr u \<or> r = Inl ENOENT \<Longrightarrow> map_of (fs_nodes w1) p = None"
    and "map_of (fs_nodes w) p \<noteq> Some Dir \<Longrightarrow> r = Inr () \<or> r = Inl ENOENT"
    and "map_of (fs_nodes w) q = None \<Longrightarrow> map_of (fs_nodes w1) q = None"
  using assms by (auto simp: sys_unlink_def calm_call split: option.splits node.splits if_splits)

lemma cstr_length: "length (cstr l) \<le> length l"
  unfolding cstr_def by (rule length_takeWhile_le)

lemma wrap_file_text:
  assumes "libjmscott J" and "length l \<le> 200"
  shows "one_slash (jm_strcat J (BLOBIO_MAX_FS_PATH + 1) [] [''spool/wrap/'', cstr l, ''.brr'']) = wrap_file l"
  using libjmscott.strcat [OF assms(1), of "[]" "[''spool/wrap/'', cstr l, ''.brr'']" 256] assms(2) cstr_length [of l]
  by (simp add: wrap_file_def BLOBIO_MAX_FS_PATH_def)

lemma roll_lines_keeps:
  assumes "libjmscott J" and "\<forall>l \<in> set ls. length l \<le> 200 \<and> P (wrap_file l)" and "stays P v w"
  shows "keeps P v (roll_lines J ls w)"
  using assms(2,3)
proof (induction ls arbitrary: w)
  case (Cons l ls)
  note t = wrap_file_text [OF assms(1), of l]
  show ?case
    unfolding roll_lines.simps using Cons t by (auto intro!: frame Cons.IH)
qed (simp add: keeps_pair)

lemma roll_lines_value:
  assumes "libjmscott J" and "\<forall>l \<in> set ls. length l \<le> 200" and "roll_lines J ls w = (err, w')"
  shows "err = None \<Longrightarrow> \<forall>l \<in> set ls. 34 \<le> length (cstr l)"
    and "fs_faults w = [] \<Longrightarrow> fs_faults w' = [] \<and> (\<forall>q. map_of (fs_nodes w) q = None \<longrightarrow> map_of (fs_nodes w') q = None) \<and>
      (err = None \<longrightarrow> (\<forall>l \<in> set ls. map_of (fs_nodes w') (wrap_file l) = None))"
    and "fs_faults w = [] \<Longrightarrow> \<forall>l \<in> set ls. 34 \<le> length (cstr l) \<and> map_of (fs_nodes w) (wrap_file l) \<noteq> Some Dir \<Longrightarrow>
      err = None"
proof -
  have "(err = None \<longrightarrow> (\<forall>l \<in> set ls. 34 \<le> length (cstr l))) \<and>
    (fs_faults w = [] \<longrightarrow> fs_faults w' = [] \<and> (\<forall>q. map_of (fs_nodes w) q = None \<longrightarrow> map_of (fs_nodes w') q = None) \<and>
      (err = None \<longrightarrow> (\<forall>l \<in> set ls. map_of (fs_nodes w') (wrap_file l) = None)) \<and>
      ((\<forall>l \<in> set ls. 34 \<le> length (cstr l) \<and> map_of (fs_nodes w) (wrap_file l) \<noteq> Some Dir) \<longrightarrow> err = None))"
    using assms(2,3)
  proof (induction ls arbitrary: w)
    case (Cons l ls)
    note t = wrap_file_text [OF assms(1), of l]
    show ?case
    proof (cases "length (cstr l) < 34")
      case True
      then have "err \<noteq> None \<and> w' = w" using Cons.prems(2) by (auto split: if_splits)
      then show ?thesis using True by auto
    next
      case False
      then have ne: "cstr l \<noteq> []" by auto
      obtain r w1 where u: "sys_unlink (wrap_file l) w = (r, w1)" by fastforce
      have at: "map_of (fs_nodes w1) q = map_of (fs_nodes w) q" if "q \<noteq> wrap_file l" for q
        using unlink_at [OF u that] .
      show ?thesis
      proof (cases "\<exists>e. r = Inl e \<and> e \<noteq> ENOENT")
        case True
        then have e: "err \<noteq> None \<and> w' = w1" using Cons.prems u t False ne by auto
        have "map_of (fs_nodes w) (wrap_file l) = Some Dir" if "fs_faults w = []"
          using True calm_sys_unlink(3) [OF that u] by auto
        then show ?thesis
          using e calm_sys_unlink(1,4) [OF _ u] by auto
      next
        case False
        then have r: "r = Inr () \<or> r = Inl ENOENT" by (cases r) auto
        then have "roll_lines J ls w1 = (err, w')"
          using Cons.prems u t \<open>\<not> length (cstr l) < 34\<close> ne by auto
        note ih = Cons.IH [OF _ this]
        have pre: "(\<forall>l \<in> set ls. 34 \<le> length (cstr l) \<and> map_of (fs_nodes w) (wrap_file l) \<noteq> Some Dir) \<longrightarrow>
            (\<forall>l \<in> set ls. 34 \<le> length (cstr l) \<and> map_of (fs_nodes w1) (wrap_file l) \<noteq> Some Dir)"
          if "fs_faults w = []"
          using at calm_sys_unlink(2) [OF that u r] by (metis option.distinct(1))
        have gone: "map_of (fs_nodes w1) (wrap_file l) = None" "fs_faults w1 = []"
          "map_of (fs_nodes w) q = None \<longrightarrow> map_of (fs_nodes w1) q = None" if "fs_faults w = []" for q
          using calm_sys_unlink [OF that u] r by auto
        show ?thesis
          using ih pre gone Cons.prems(1) \<open>\<not> length (cstr l) < 34\<close> by auto
      qed
    qed
  qed simp
  then show "err = None \<Longrightarrow> \<forall>l \<in> set ls. 34 \<le> length (cstr l)"
    "fs_faults w = [] \<Longrightarrow> fs_faults w' = [] \<and> (\<forall>q. map_of (fs_nodes w) q = None \<longrightarrow> map_of (fs_nodes w') q = None) \<and>
      (err = None \<longrightarrow> (\<forall>l \<in> set ls. map_of (fs_nodes w') (wrap_file l) = None))"
    "fs_faults w = [] \<Longrightarrow> \<forall>l \<in> set ls. 34 \<le> length (cstr l) \<and> map_of (fs_nodes w) (wrap_file l) \<noteq> Some Dir \<Longrightarrow>
      err = None" by blast+
qed

text \<open>The way of \<^verbatim>\<open>fs_roll\<close> to its loop.\<close>

lemma split_lines: "filter (\<lambda>i. bs ! i = NL) [0..<length bs] = [] \<longleftrightarrow> fs_lines [] bs = []"
  "length (filter (\<lambda>i. bs ! i = NL) [0..<length bs]) = length (fs_lines [] bs)"
proof -
  show l: "length (filter (\<lambda>i. bs ! i = NL) [0..<length bs]) = length (fs_lines [] bs)"
  proof (induction "length bs" arbitrary: bs rule: less_induct)
    case less
    show ?case
    proof (cases "NL \<in> set bs")
      case False
      then show ?thesis by (simp add: fs_lines_no filter_none)
    next
      case True
      then obtain a b where bs: "bs = a @ NL # b" "NL \<notin> set a" using split_list_first by metis
      then show ?thesis
        using less.hyps [of b] unfolding bs(1) filter_first [OF bs(2)] by (simp add: fs_lines_first [OF bs(2)])
    qed
  qed
  then show "filter (\<lambda>i. bs ! i = NL) [0..<length bs] = [] \<longleftrightarrow> fs_lines [] bs = []" by (metis length_0_conv)
qed

lemma roll_run:
  assumes "libjmscott J" and "fs_ready ssl w"
  obtains (early) err w' where "fs_roll J w = (Some err, w')" "stays (\<lambda>_. False) w w'"
    and "\<And>bs. fs_faults w = [] \<Longrightarrow> map_of (fs_nodes w) (store_path w) = Some (File bs) \<Longrightarrow>
      fs_lines [] bs = [] \<or> 16384 < length (fs_lines [] bs)"
  | (loop) bs v where "map_of (fs_nodes w) (store_path w) = Some (File bs)" "stays (\<lambda>_. False) w v"
    "fs_nodes v = fs_nodes w" "fs_faults w = [] \<Longrightarrow> fs_faults v = []" "fs_lines [] bs \<noteq> []"
    "fs_roll J w = lib (roll_lines J (fs_lines [] bs) v) (answer J 0 ''ok'')"
proof -
  let ?w = "on_cli (\<lambda>s. s\<lparr>cl_ok_no := 1\<rparr>) w" and ?b = "store_path w"
  have st0: "stays (\<lambda>_. False) w ?w" by (intro frame stays_refl) (simp add: cli_names_def)
  obtain p where p: "fs_blob_path J (BLOBIO_MAX_FS_PATH + 1) w = Inr p" "one_slash p = ?b"
    by (rule libjmscott.ready_path [OF assms])
  obtain s w1 where ls: "io_fs_lstat ?b ?w = (s, w1)" by fastforce
  have st1: "stays (\<lambda>_. False) w w1" using keeps_lstat [OF st0, of ?b] ls by (simp add: keeps_def)
  note f1 = fs_only_lstat [OF ls] lstat_nodes [OF ls]
  have fl: "map_of (fs_nodes w) ?b = Some n" if "s = Inr n" for n
    using ls that by (auto simp: io_fs_lstat_def fs_call_def split: prod.splits option.splits)
  have calm1: "fs_faults w1 = [] \<and> s = Inr (File bs)" if "fs_faults w = []" "map_of (fs_nodes w) ?b = Some (File bs)" for bs
    using ls that by (auto simp: io_fs_lstat_def calm_call)
  have run: "fs_roll J w = (case (s, w1) of
      (Inl e, w1) \<Rightarrow> (Some (if e = ENOENT then Msg ''roll blob does not exist'' else Strerror e), w1)
    | (Inr st, w1) \<Rightarrow> sys (io_fs_open ?b w1) (\<lambda>bs w. sys (jm_read_exact J (node_size st) bs w) (\<lambda>roll_blob w.
        sys (fs_touch w) (\<lambda>_ w. val_or (jm_split J roll_blob NL (16 * 1024)) (\<lambda>roll_offset w.
          if roll_offset = [] then (Some (Msg ''no udigs in roll set''), w)
          else lib (fs_roll_loop J roll_offset 0 (roll_blob @ [NUL]) w) (answer J 0 ''ok'')) w))))"
    unfolding fs_roll_def p(1) by (simp add: val_or_def [of "Inr p"] p(2) ls cong: sum.case_cong)
  show ?thesis
  proof (cases s)
    case (Inl e)
    then show ?thesis
      by (intro early [OF _ st1])
        ((use run in \<open>simp\<close>), (use calm1 Inl in \<open>fastforce\<close>))
  next
    case n: (Inr n)
    obtain o' w2 where op: "io_fs_open ?b w1 = (o', w2)" by fastforce
    have st2: "stays (\<lambda>_. False) w w2" using keeps_open [OF st1, of ?b] op by (simp add: keeps_def)
    have calm2: "fs_faults w2 = [] \<and> o' = Inr bs" if "fs_faults w = []" "map_of (fs_nodes w) ?b = Some (File bs)" for bs
      using op calm1 [OF that] that(2) f1(2) by (auto simp: io_fs_open_def calm_call)
    show ?thesis
    proof (cases o')
      case (Inl e)
      then show ?thesis
      by (intro early [OF _ st2])
        ((use run n op in \<open>simp add: sys_def\<close>), (use calm2 Inl in \<open>fastforce\<close>))
    next
      case bs: (Inr bs)
      have fnode: "map_of (fs_nodes w) ?b = Some (File bs)" "fs_nodes w2 = fs_nodes w"
        using open_value [OF op [unfolded bs]] f1(2) by simp_all
      then have sz: "node_size n = length bs" using fl [OF n] by (simp add: node_size_def)
      obtain b w3 where rd: "jm_read_exact J (length bs) bs w2 = (b, w3)" by fastforce
      have st3: "stays (\<lambda>_. False) w w3" using libjmscott.keeps_read [OF assms(1) st2, of "length bs" bs] rd by (simp add: keeps_def)
      have calm3: "fs_faults w3 = [] \<and> b = Inr bs" if "fs_faults w = []"
        using libjmscott.read_calm [OF assms(1) rd] calm2 [OF that fnode(1)] by simp
      show ?thesis
      proof (cases b)
        case (Inl e)
        then show ?thesis
      by (intro early [OF _ st3])
        ((use run n op bs sz rd in \<open>simp add: sys_def\<close>), (use calm3 Inl in \<open>fastforce\<close>))
      next
        case buf: (Inr buf)
        then have bb: "buf = bs" using libjmscott.read_exact [OF assms(1)] rd by fastforce
        have nd3: "fs_nodes w3 = fs_nodes w" using libjmscott.read_only [OF assms(1) rd] fnode(2) by simp
        obtain c w4 where tc: "fs_touch w3 = (c, w4)" by fastforce
        have st4: "stays (\<lambda>_. False) w w4" using keeps_touch [OF st3] tc by (simp add: keeps_def)
        have calm4: "fs_faults w4 = [] \<and> c = Inr ()" if "fs_faults w = []"
          using tc fs_touch_calm [of w3] calm3 [OF that] by simp
        show ?thesis
        proof (cases c)
          case (Inl e)
          then show ?thesis
      by (intro early [OF _ st4])
        ((use run n op bs sz rd buf tc in \<open>simp add: sys_def\<close>), (use calm4 Inl in \<open>fastforce\<close>))
        next
          case c: (Inr u)
          have r4: "fs_roll J w = val_or (jm_split J bs NL (16 * 1024)) (\<lambda>roll_offset w.
              if roll_offset = [] then (Some (Msg ''no udigs in roll set''), w)
              else lib (fs_roll_loop J roll_offset 0 (bs @ [NUL]) w) (answer J 0 ''ok'')) w4"
            using run n op bs sz rd buf tc c bb by (simp add: sys_def)
          show ?thesis
          proof (cases "jm_split J bs NL (16 * 1024)")
            case (Inl e)
            have os_short: "16384 < length (fs_lines [] bs)"
            proof (rule ccontr)
              assume "\<not> ?thesis"
              then have "\<exists>os. jm_split J bs NL (16 * 1024) = Inr os"
                by (intro libjmscott.split_room [OF assms(1)]) (simp add: split_lines(2))
              with Inl show False by simp
            qed
            then show ?thesis
      by (intro early [OF _ st4])
        ((use r4 Inl fnode(1) in \<open>simp add: val_or_def\<close>), (use os_short fnode(1) in \<open>simp\<close>))
          next
            case os: (Inr os)
            have os': "os = filter (\<lambda>i. bs ! i = NL) [0..<length bs]" by (rule libjmscott.split_at [OF assms(1) os])
            show ?thesis
            proof (cases "os = []")
              case True
              then have os_short: "fs_lines [] bs = []" using os' split_lines(1) by simp
              show ?thesis
      by (intro early [OF _ st4])
        ((use True r4 os in \<open>simp add: val_or_def\<close>), (use os_short fnode(1) in \<open>simp\<close>))
            next
              case False
              have "fs_roll_loop J os 0 (bs @ [NUL]) w4 = roll_lines J (fs_lines [] bs) w4"
                using roll_loop_lines [of J "[]" bs "[NUL]" w4] os' by simp
              then show ?thesis
                using loop [OF fnode(1) st4] r4 os False os' split_lines(1) calm4 nd3 fs_touch_nodes [OF tc]
                by (simp add: val_or_def)
            qed
          qed
        qed
      qed
    qed
  qed
qed

lemma answer_ok: "answer J n c v = (None, w') \<Longrightarrow> fs_nodes w' = fs_nodes v \<and> cl_ok_no (fc_cli w') = n"
  by (auto simp: answer_def fs_add_chat_def)

definition fs_roll_set :: "client \<Rightarrow> bytes list" where
  "fs_roll_set w =
     (case map_of (fs_nodes w) (store_path w) of Some (File bs) \<Rightarrow> fs_lines [] bs | _ \<Rightarrow> [])"


definition a_wrapped :: bytes where "a_wrapped = ''sha:'' @ a_digest"

definition a_roller :: client where
  "a_roller = a_fs_client
     [(blob_path fs_sha_root a_digest, File (a_wrapped @ [NL])), (''spool/wrap/'' @ a_wrapped @ ''.brr'', File ''log'')]
     (a_client ''roll'' a_digest [])"


end
