(* ===== verification/Cli_Brr.thy ===== *)
theory Cli_Brr
  imports Cli_Fs_Spec Frisk
begin

text \<open>
  The client's own request records, \<^verbatim>\<open>brr_service\<close> of \<^verbatim>\<open>cli/blobio/brr.c\<close>, on the file service, the only
  one with a \<^verbatim>\<open>brr_frisk\<close>; and what the log checker \<^verbatim>\<open>bio-frisk-brr\<close> makes of them.
\<close>

section \<open>brr_service\<close>

definition cli_brr_text :: "tm \<Rightarrow> nat \<Rightarrow> cli_brr \<Rightarrow> int \<times> int \<Rightarrow> bytes" where
  "cli_brr_text t start_nsec brr wall =
     rfc3339 t start_nsec @ TAB # cb_transport brr @ TAB # cb_verb brr @ TAB # cb_udig brr @
     TAB # cb_chat_history brr @ TAB # dec_int (cb_blob_size brr) @
     TAB # dec_int (fst wall) @ CHR ''.'' # pad0 9 (nat (snd wall)) @ [NL]"

text \<open>The wall clock, which is not let run backwards.\<close>

definition wall_duration :: "timespec \<Rightarrow> timespec \<Rightarrow> int \<times> int" where
  "wall_duration start_time end_time =
     (case elapsed start_time end_time of
        (sec, nsec) \<Rightarrow> if sec < 0 then (0, 0) else (sec, if nsec < 0 then 0 else nsec))"

text \<open>The test of the size; \<^verbatim>\<open>is_ok\<close> looks at the last character of the verb.\<close>

definition brr_size_error :: "cli_digest \<Rightarrow> cli \<Rightarrow> bytes option" where
  "brr_size_error di s =
     (let is_ok = last (cl_verb s) = CHR ''k'' in
      if di_empty di (cl_ascii_digest s) then
        if cl_blob_size s \<noteq> 0 then Some ''empty blob has size > 0'' else None
      else if cl_blob_size s = 0 \<and> strchr ''gtp'' (cstr_at (cl_verb s) 0) \<and> is_ok then
        if last (cl_chat_history s) = CHR ''k'' then Some ''ok: blob size == 0 for non empty blob'' else None
      else None)"

text \<open>\<^verbatim>\<open>dprintf\<close> to the log.\<close>

definition dprintf_log :: "bytes \<Rightarrow> client \<Rightarrow> (cli_error option, client) outcome" where
  "dprintf_log buf w =
     (case bio4_write 0 buf (fc_file_writes w) of
        (wr, out, evs) \<Rightarrow>
          let w = append_node (the (fc_log w)) out (w\<lparr>fc_file_writes := evs\<rparr>)
          in case wr of Written err \<Rightarrow> Ret err w | _ \<Rightarrow> Blocked w)"

text \<open>From \<^verbatim>\<open>gmtime\<close> on; \<open>now\<close> is what \<^verbatim>\<open>clock_gettime\<close> answers.\<close>

definition brr_log_record ::
  "(int \<Rightarrow> tm sysret) \<Rightarrow> timespec \<Rightarrow> timespec sysret \<Rightarrow> cli_brr \<Rightarrow> client \<Rightarrow> (cli_error option, client) outcome" where
  "brr_log_record gmtime start_time now brr w =
     (case (gmtime (tv_sec start_time), now) of
        (Inr t, Inr end_time) \<Rightarrow>
          (case fs_touch w of
             (Inl e, w) \<Rightarrow> Ret (Some (Strerror e)) w
           | (Inr _, w) \<Rightarrow>
               proceed (dprintf_log
                   (cli_brr_text t (nat (tv_nsec start_time)) brr (wall_duration start_time end_time)) w)
                 (\<lambda>err w. case sys_else err (fs_touch w) of (err, w) \<Rightarrow> Ret err w))
      | (Inl e, _) \<Rightarrow> Ret (Some (Strerror e)) w
      | (_, Inl e) \<Rightarrow> Ret (Some (Strerror e)) w)"

text \<open>
  \<open>brr_frisk\<close> is the function of the service.  A record has no negative \<^verbatim>\<open>log_fd\<close>: it starts as zero
  and is set to a descriptor that has been opened.
\<close>

definition brr_service ::
  "jmscott \<Rightarrow> (int \<Rightarrow> tm sysret) \<Rightarrow> timespec \<Rightarrow> timespec sysret \<Rightarrow>
    (cli_brr \<Rightarrow> client \<Rightarrow> cli_error option \<times> cli_brr \<times> client) \<Rightarrow> client \<Rightarrow> (cli_error option, client) outcome" where
  "brr_service J gmtime start_time now brr_frisk w =
     (let s = fc_cli w;
          brr = \<lparr>cb_transport = [], cb_verb = jm_strcat J 9 [] [cl_verb s],
                 cb_udig = jm_strcat J UDIG_SIZE [] [cl_udig s],
                 cb_chat_history = jm_strcat J 9 [] [cl_chat_history s], cb_blob_size = 0\<rparr>
      in if cb_verb brr = [] then Ret (Some (Msg ''variable is empty: verb'')) w
      else if cl_chat_history s = [] then Ret (Some (Msg ''zero length chat history'')) w
      else
        (case cl_digest s of
           None \<Rightarrow> Ret (Some (Msg ''impossible empty digest module'')) w
         | Some di \<Rightarrow>
             (case brr_size_error di s of
                Some e \<Rightarrow> Ret (Some (Msg e)) w
              | None \<Rightarrow>
                  (case brr_frisk (brr\<lparr>cb_blob_size := cl_blob_size s\<rparr>) w of
                     (Some err, _, w) \<Rightarrow> Ret (Some err) w
                   | (None, brr, w) \<Rightarrow>
                       if cb_transport brr = [] then Ret (Some (Msg ''variable is empty: transport'')) w
                       else if cb_chat_history brr = []
                       then Ret (Some (Msg ''variable is empty: chat_history'')) w
                       else if cb_udig brr = [] \<and>
                           (cstr_at (cb_verb brr) 0 \<noteq> CHR ''w'' \<or> cstr_at (cb_chat_history brr) 0 \<noteq> CHR ''n'')
                       then Ret (Some (Msg ''variable is empty: udig'')) w
                       else brr_log_record gmtime start_time now brr w))))"

section \<open>The text of a record\<close>

lemma dec_int_nat [simp]: "0 \<le> i \<Longrightarrow> dec_int i = dec_nat (nat i)"
  by (simp add: dec_int_def)

lemma wall_nonneg: "wall_duration b e = (sec, nsec) \<Longrightarrow> 0 \<le> sec \<and> 0 \<le> nsec"
  by (auto simp: wall_duration_def split: prod.splits if_splits)

text \<open>The client and the server write the same record for the same values.\<close>

lemma cli_brr_text_same:
  assumes "0 \<le> cb_blob_size brr" and "wall_duration b e = (sec, nsec)"
  shows "cli_brr_text t n brr (wall_duration b e) =
    brr_text t n (cb_transport brr) (cb_verb brr) (cb_udig brr) (cb_chat_history brr)
      (nat (cb_blob_size brr)) (nat sec) (nat nsec)"
  using assms wall_nonneg [OF assms(2)] by (simp add: cli_brr_text_def brr_text_def)

text \<open>
  The test of the size never finds an ok without bytes, since no verb ends with the letter that it
  looks for.
\<close>

lemma brr_size_error_verbs:
  assumes "cl_verb s \<in> {''get'', ''put'', ''give'', ''take'', ''eat'', ''wrap'', ''roll'', ''empty''}"
  shows "brr_size_error di s \<noteq> None \<longleftrightarrow> di_empty di (cl_ascii_digest s) \<and> cl_blob_size s \<noteq> 0"
  using assms by (elim insertE) (auto simp: brr_size_error_def Let_def)

lemma dprintf_calm:
  assumes "fc_file_writes w = []"
  shows "dprintf_log buf w = Ret None (append_node (the (fc_log w)) buf w)"
proof -
  have e: "w\<lparr>fc_file_writes := []\<rparr> = w" using assms by (cases w) simp
  show ?thesis unfolding dprintf_log_def assms bio4_write.simps prod.case Let_def written.case e ..
qed

section \<open>The log of the file service\<close>

definition brr_log :: "client \<Rightarrow> bytes" where
  "brr_log w = one_slash (''spool/'' @ cl_fnp (fc_cli w) @ ''.brr'')"

lemma one_slash_plain: "CHR ''/'' \<notin> set p \<Longrightarrow> one_slash p = p"
  by (induction p rule: one_slash.induct) auto

lemma brr_log_path:
  assumes "CHR ''/'' \<notin> set (cl_fnp (fc_cli w))" and "cl_fnp (fc_cli w) \<noteq> []"
  shows "brr_log w = ''spool/'' @ cl_fnp (fc_cli w) @ ''.brr''" and "dir_of (brr_log w) = Some ''spool''"
proof -
  obtain c q where f: "cl_fnp (fc_cli w) = c # q" using assms(2) by (cases "cl_fnp (fc_cli w)") auto
  have q: "one_slash (c # q @ ''.brr'') = c # q @ ''.brr''" "c \<noteq> CHR ''/''"
    using one_slash_plain [of "c # q @ ''.brr''"] assms(1) f by auto
  then show p: "brr_log w = ''spool/'' @ cl_fnp (fc_cli w) @ ''.brr''" by (simp add: brr_log_def f)
  have d: "dropWhile (\<lambda>c. c \<noteq> CHR ''/'') (rev q @ r) = dropWhile (\<lambda>c. c \<noteq> CHR ''/'') r" for r
    using assms(1) f by (intro dropWhile_append2) auto
  show "dir_of (brr_log w) = Some ''spool''"
    unfolding p dir_of_def using d assms(1) by (auto simp: f)
qed

text \<open>What the service gives to the record.\<close>

definition fs_record :: "client \<Rightarrow> cli_brr \<Rightarrow> cli_brr" where
  "fs_record w brr =
     brr\<lparr>cb_chat_history := cl_chat_history (fc_cli w),
         cb_transport := ''fs~'' @ fc_end_point w @ ''#'' @ fc_pid w\<rparr>"

lemma client_only: "fs_only w w1 \<Longrightarrow> fc_cli w1 = fc_cli w \<and> fc_file_writes w1 = fc_file_writes w"
proof -
  assume "fs_only w w1"
  then have "fc_cli w1 = fc_cli (w\<lparr>fs_faults := fs_faults w1, fs_nodes := fs_nodes w1\<rparr>)"
    "fc_file_writes w1 = fc_file_writes (w\<lparr>fs_faults := fs_faults w1, fs_nodes := fs_nodes w1\<rparr>)"
    unfolding fs_only_def by metis+
  then show ?thesis by simp
qed

context libjmscott
begin

lemma frisk_calm:
  assumes calm: "fs_faults w = []" and room: "room_at ''spool'' w"
    and node: "map_of (fs_nodes w) (brr_log w) = (if fresh then None else Some (File old))"
    and fnp: "CHR ''/'' \<notin> set (cl_fnp (fc_cli w))" "cl_fnp (fc_cli w) \<noteq> []" "length (cl_fnp (fc_cli w)) \<le> 32"
    and fits: "length (cl_chat_history (fc_cli w)) \<le> 8" "length (fc_end_point w @ fc_pid w) \<le> 133"
  obtains w' where "fs_brr_frisk J brr w = (None, fs_record w brr, w')" and "fs_faults w' = []"
    and "fc_log w' = Some (brr_log w)" and "fc_file_writes w' = fc_file_writes w"
    and "map_of (fs_nodes w') (brr_log w) = Some (File (if fresh then [] else old))"
proof -
  let ?brr = "brr\<lparr>cb_chat_history := jm_strcat J 9 [] [cl_chat_history (fc_cli w)],
      cb_transport := jm_strcat J 138 [] [''fs~'', fc_end_point w, ''#'', fc_pid w]\<rparr>"
  have brr: "?brr = fs_record w brr" using fits by (simp add: fs_record_def strcat)
  obtain s w1 where m: "jm_mkdirat_EEXIST J ''spool'' w = (s, w1)" by fastforce
  have s: "s = Inr ()" "fs_faults w1 = []"
    using mkdir1_calm [OF m calm] by (simp_all add: parent_there_def dir_of_def)
  have only: "only_dirs_added w w1" "fs_only w w1" using mkdir1_only [OF m] by auto
  have same: "fc_cli w1 = fc_cli w" "fc_file_writes w1 = fc_file_writes w"
    using client_only [OF only(2)] by simp_all
  have p: "one_slash (fs_brr_path J w1) = brr_log w"
    using fnp(3) same(1) by (simp add: fs_brr_path_def brr_log_def strcat BLOBIO_MAX_FS_PATH_def)
  note path = brr_log_path [OF fnp(1,2)]
  have "brr_log w \<noteq> one_slash ''spool''" using path(1) by simp
  then have n: "map_of (fs_nodes w1) (brr_log w) = (if fresh then None else Some (File old))"
    using mkdir1_where [OF m] node by metis
  have "map_of (fs_nodes w1) ''spool'' \<noteq> None" using mkdir1_done [of "''spool''" w _ w1] m s(1) by simp
  then have "map_of (fs_nodes w1) ''spool'' = Some Dir \<or> map_of (fs_nodes w1) ''spool'' = Some Link"
    using room only(1) unfolding room_at_def standing_def only_dirs_added_def by metis
  then have d: "parent_there (brr_log w) (fs_nodes w1)" by (simp add: parent_there_def path(2))
  let ?w = "if fresh then w1\<lparr>fs_nodes := set_node (brr_log w) (File []) (fs_nodes w1)\<rparr> else w1"
  have "io_fs_open_append (brr_log w) w1 = (Inr (), ?w)"
    using n d s(2) by (simp add: io_fs_open_append_def calm_call)
  then have "fs_brr_frisk J brr w = (None, fs_record w brr, ?w\<lparr>fc_log := Some (brr_log w)\<rparr>)"
    unfolding fs_brr_frisk_def Let_def brr m s(1) by (simp add: p)
  then show thesis by (rule that) (use s(2) same(2) n in auto)
qed

end

section \<open>The log checker reads the log\<close>

text \<open>The fields of the record that \<^verbatim>\<open>brr_service\<close> writes.\<close>

definition client_fields :: "tm \<Rightarrow> timespec \<Rightarrow> timespec \<Rightarrow> client \<Rightarrow> brr_fields" where
  "client_fields t start_time end_time w =
     (case wall_duration start_time end_time of
        (sec, nsec) \<Rightarrow>
          \<lparr>bf_time = t, bf_nsec = nat (tv_nsec start_time), bf_proto = CHR ''f'', bf_protocol = ''s'',
           bf_peer = fc_end_point w @ ''#'' @ fc_pid w, bf_udig = cl_udig (fc_cli w),
           bf_size = nat (cl_blob_size (fc_cli w)), bf_wall_sec = nat sec, bf_wall_nsec = nat nsec\<rparr>)"

text \<open>A request that the file service has answered, with a log that can be written.\<close>

definition brr_calm :: "client \<Rightarrow> bytes \<Rightarrow> bool" where
  "brr_calm w old \<longleftrightarrow>
     fs_faults w = [] \<and> fc_file_writes w = [] \<and> room_at ''spool'' w \<and>
     map_of (fs_nodes w) (brr_log w) \<in> {if old = [] then None else Some (File old), Some (File old)} \<and>
     CHR ''/'' \<notin> set (cl_fnp (fc_cli w)) \<and> cl_fnp (fc_cli w) \<noteq> [] \<and> length (cl_fnp (fc_cli w)) \<le> 32"

definition answered :: "client \<Rightarrow> bool" where
  "answered w \<longleftrightarrow>
     (let s = fc_cli w in
      cl_verb s \<in> {''get'', ''put'', ''give'', ''take'', ''eat'', ''wrap'', ''roll''} \<and>
      set_field ''nok,'' 8 (cl_chat_history s) \<and> length (cl_chat_history s) \<in> {2, 5, 8} \<and>
      0 \<le> cl_blob_size s \<and>
      (cl_udig s = [] \<longrightarrow> cl_verb s = ''wrap'' \<and> cstr_at (cl_chat_history s) 0 = CHR ''n'') \<and>
      (\<exists>di. cl_digest s = Some di \<and> (di_empty di (cl_ascii_digest s) \<longrightarrow> cl_blob_size s = 0)))"



definition a_logger :: client where
  "a_logger = a_fs_client [(''spool'', Dir)] ((a_client ''put'' a_digest [])
     \<lparr>cl_udig := ''sha:'' @ a_digest, cl_chat_history := ''ok,ok'', cl_blob_size := 1, cl_fnp := ''fs''\<rparr>)"

lemma a_logger_fields:
  "client_fields (a_time\<lparr>tm_year := 2024\<rparr>) \<lparr>tv_sec = 5, tv_nsec = 7\<rparr> \<lparr>tv_sec = 5, tv_nsec = 4007\<rparr> a_logger =
     a_brr\<lparr>bf_proto := CHR ''f'', bf_protocol := ''s'', bf_peer := ''/srv#7'', bf_udig := ''sha:'' @ a_digest,
           bf_size := 1\<rparr>"
  by (simp add: client_fields_def wall_duration_def elapsed_def a_logger_def a_fs_client_def a_client_def a_brr_def)

lemma a_logger_frisked:
  "frisk_fields (\<lambda>_. True) (a_brr\<lparr>bf_proto := CHR ''f'', bf_protocol := ''s'', bf_peer := ''/srv#7'',
     bf_udig := ''sha:'' @ a_digest, bf_size := 1\<rparr>)"
proof -
  have d: "a_digest = ''0101010101010101010101010101010101010101''" by code_simp
  show ?thesis unfolding d
    by (simp add: frisk_fields_def a_brr_def frisk_tm_def a_time_def frisk_transport_def
        set_field_def frisk_udig_field_def graph_isgraph c_isgraph_def c_islower_def lower_alnum_def
        LLONG_MAX_def dec_text digits_def)
qed


end
