(* ===== verification/Cli_Service.thy ===== *)
theory Cli_Service
  imports Cli_Brr Cli_Qarg
begin

text \<open>
  The services of the client: \<^verbatim>\<open>struct service\<close> of \<^verbatim>\<open>blobio.h\<close>, the connection of \<^verbatim>\<open>bio4.c\<close>, \<^verbatim>\<open>null.c\<close>,
  \<^verbatim>\<open>buf.c\<close> and the table of \<^verbatim>\<open>service.c\<close>, over the state of the whole program.
\<close>

section \<open>The state of the program\<close>

text \<open>What \<^verbatim>\<open>output_fd\<close> refers to; \<open>Out_bad\<close> is -1.\<close>

datatype out_target = Out_std | Out_file bytes | Out_null | Out_bad

text \<open>
  \<^verbatim>\<open>gethostbyname\<close> answers with an address, as text, or with one of the values of \<^verbatim>\<open>h_errno\<close>; a list of
  these, and of the errors of \<^verbatim>\<open>socket\<close>, \<^verbatim>\<open>connect\<close> and \<^verbatim>\<open>getsockname\<close>, is what the network does.
  \<open>EINTR\<close> stands for \<^verbatim>\<open>EAGAIN\<close> too.  \<open>nw_peer\<close> is the text of the own address.
\<close>

datatype host_answer = Host bytes | Try_again | No_host | No_recovery | Unknown_host

record network =
  nw_hosts :: "host_answer list"
  nw_sockets :: "errno option list"
  nw_connects :: "errno option list"
  nw_getsockname :: "errno option"
  nw_peer :: bytes
  nw_server :: bool
  nw_transport :: bytes

text \<open>
  The globals of \<^verbatim>\<open>blobio.c\<close> that no service reads.  \<open>sh_service\<close> is the name of the service, whose
  \<^verbatim>\<open>end_point\<close> is \<open>fc_end_point\<close>; \<open>cl_output\<close> is what has been written to \<^verbatim>\<open>output_fd\<close>; \<open>sh_clock\<close> is
  what \<^verbatim>\<open>clock_gettime\<close> answers; \<open>sh_stderr\<close> and \<open>sh_last_words\<close> are what has been written to the
  standard error, and the texts that \<^verbatim>\<open>jmscott_die\<close> got.
\<close>

record shell =
  sh_fs :: client
  sh_net :: network
  sh_service :: "bytes option"
  sh_query :: bytes
  sh_qargs :: qargs
  sh_tracing :: bool
  sh_rm_output_path_error :: bool
  sh_output :: out_target
  sh_clock :: "timespec sysret list"
  sh_stderr :: bytes
  sh_last_words :: "bytes list"

abbreviation sh_cli :: "shell \<Rightarrow> cli" where
  "sh_cli h \<equiv> fc_cli (sh_fs h)"

abbreviation on_sh_cli :: "(cli \<Rightarrow> cli) \<Rightarrow> shell \<Rightarrow> shell" where
  "on_sh_cli f h \<equiv> h\<lparr>sh_fs := on_cli f (sh_fs h)\<rparr>"

text \<open>The libraries: libjmscott, OpenSSL, the C library.\<close>

record main_lib =
  ml_jm :: jmscott
  ml_ssl :: openssl
  ml_strerror :: "errno \<Rightarrow> bytes"
  ml_a2ui63 :: "bytes \<Rightarrow> bytes + nat"
  ml_gmtime :: "int \<Rightarrow> tm sysret"
  ml_host_name_max :: nat

text \<open>
  A function of a service.  \<open>Blocked\<close> is also the outcome where C gives none: a write outside of an array,
  a null pointer for a text.
\<close>

type_synonym service_run = "shell \<Rightarrow> (cli_error option, shell) outcome"

record service =
  sv_name :: bytes
  sv_end_point_syntax :: "bytes \<Rightarrow> service_run"
  sv_open :: service_run
  sv_close :: service_run
  sv_get :: service_run
  sv_eat :: service_run
  sv_put :: service_run
  sv_take :: service_run
  sv_give :: service_run
  sv_roll :: service_run
  sv_wrap :: service_run
  sv_brr_frisk :: "(cli_brr \<Rightarrow> client \<Rightarrow> cli_error option \<times> cli_brr \<times> client) option"

section \<open>The connection of bio4\<close>

fun bio4_host :: "nat \<Rightarrow> host_answer list \<Rightarrow> (errno + bytes) \<times> host_answer list" where
  "bio4_host trys [] = (Inl ENOENT, [])"
| "bio4_host trys (h # hs) =
     (let trys = trys + 1 in
      case h of
        Host a \<Rightarrow> (Inr a, hs)
      | Try_again \<Rightarrow> if trys < 5 then bio4_host trys hs else (Inl EOTHER, hs)
      | No_host \<Rightarrow> (Inl ENOENT, hs)
      | No_recovery \<Rightarrow> (Inl EOTHER, hs)
      | Unknown_host \<Rightarrow> (Inl EINVAL, hs))"

text \<open>The loops around \<^verbatim>\<open>socket\<close> and \<^verbatim>\<open>connect\<close>: no event left is a success.\<close>

fun bio4_again :: "errno option list \<Rightarrow> errno option \<times> errno option list" where
  "bio4_again [] = (None, [])"
| "bio4_again (e # es) = (if e = Some EINTR then bio4_again es else (e, es))"

text \<open>The result is the value that \<^verbatim>\<open>bio4_connect\<close> returns, 0 as \<open>None\<close>.\<close>

definition bio4_connect :: "bytes \<Rightarrow> nat \<Rightarrow> network \<Rightarrow> errno option \<times> network" where
  "bio4_connect host port n =
     (case bio4_host 0 (nw_hosts n) of
        (Inl e, hs) \<Rightarrow> (Some e, n\<lparr>nw_hosts := hs\<rparr>)
      | (Inr a, hs) \<Rightarrow>
          (case bio4_again (nw_sockets n) of
             (Some e, ss) \<Rightarrow> (Some e, n\<lparr>nw_hosts := hs, nw_sockets := ss\<rparr>)
           | (None, ss) \<Rightarrow>
               (case bio4_again (nw_connects n) of
                  (Some e, cs) \<Rightarrow> (Some e, n\<lparr>nw_hosts := hs, nw_sockets := ss, nw_connects := cs\<rparr>)
                | (None, cs) \<Rightarrow>
                    let n = n\<lparr>nw_hosts := hs, nw_sockets := ss, nw_connects := cs, nw_server := True\<rparr> in
                    if nw_getsockname n \<noteq> None then (nw_getsockname n, n)
                    else (None, n\<lparr>nw_transport :=
                      take 136 (''tcp4~'' @ a @ '':'' @ dec_nat port @ '';'' @ nw_peer n)\<rparr>))))"

text \<open>
  The test of \<^verbatim>\<open>open\<close> is for a result less than -1, so that a failure is not seen, and the output is -1.
  Opening a file that must not be there makes it.
\<close>

definition bio4_open_output :: "bytes \<Rightarrow> shell \<Rightarrow> shell" where
  "bio4_open_output output_path h =
     (if output_path = ''/dev/null'' then
        (case fs_touch (sh_fs h) of
           (Inl e, w) \<Rightarrow> h\<lparr>sh_fs := on_cli (\<lambda>s. s\<lparr>cl_output_writes := [write_event.WFail 0 EOTHER]\<rparr>) w, sh_output := Out_bad\<rparr>
         | (Inr _, w) \<Rightarrow> h\<lparr>sh_fs := w, sh_output := Out_null\<rparr>)
      else
        (case io_fs_create (fc_cwd (sh_fs h) output_path) (sh_fs h) of
           (Inl e, w) \<Rightarrow> h\<lparr>sh_fs := on_cli (\<lambda>s. s\<lparr>cl_output_writes := [write_event.WFail 0 EOTHER]\<rparr>) w, sh_output := Out_bad\<rparr>
         | (Inr _, w) \<Rightarrow> h\<lparr>sh_fs := w, sh_output := Out_file (fc_cwd w output_path)\<rparr>))"

text \<open>\<^verbatim>\<open>host\<close> has \<^verbatim>\<open>HOST_NAME_MAX + 1\<close> bytes and \<^verbatim>\<open>pbuf\<close>, which all that follows the colon goes to, has 6.\<close>

definition bio4_open :: "main_lib \<Rightarrow> service_run" where
  "bio4_open M h =
     (let h = (case cl_output_path (sh_cli h) of None \<Rightarrow> h | Some p \<Rightarrow> bio4_open_output p h);
          ep = fc_end_point (sh_fs h);
          host = takeWhile (\<lambda>c. c \<noteq> CHR '':'') ep;
          p = drop (length host + 1) ep
      in if cl_algo (sh_cli h) \<noteq> []
         then Ret (Some (Msg ''service query arg \"algo\" can not exist for bio4'')) h
         else if length host > ml_host_name_max M \<or> length p > 5 then Blocked h
         else
           (case bio4_connect host (undec (takeWhile c_isdigit p)) (sh_net h) of
              (status, n) \<Rightarrow>
                Ret (case status of
                       None \<Rightarrow> None
                     | Some e \<Rightarrow> Some (if e = ENOENT then Msg (''can'' @ CHR 0x27 # ''t resolve host name'') else Strerror e))
                  (h\<lparr>sh_net := n\<rparr>)))"

definition bio4_close :: service_run where
  "bio4_close h =
     (if nw_server (sh_net h) then
        (case fs_touch (sh_fs h) of
           (Inl e, w) \<Rightarrow> Ret (Some (Strerror e)) (h\<lparr>sh_fs := w\<rparr>)
         | (Inr _, w) \<Rightarrow> Ret None (h\<lparr>sh_fs := w\<rparr>))
      else Ret None h)"

section \<open>The services\<close>

text \<open>The functions of \<^verbatim>\<open>bio4.c\<close> and \<^verbatim>\<open>fs.c\<close> on the state of the program; what went to an output file is in it.\<close>

definition settled :: "cli \<Rightarrow> shell \<Rightarrow> shell" where
  "settled s h =
     (let out = drop (length (cl_output (sh_cli h))) (cl_output s);
          w = (sh_fs h)\<lparr>fc_cli := s\<rparr>
      in h\<lparr>sh_fs := (case sh_output h of Out_file p \<Rightarrow> append_node p out w | _ \<Rightarrow> w)\<rparr>)"

definition on_bio4 :: "(cli \<Rightarrow> cli_error option cli_run) \<Rightarrow> service_run" where
  "on_bio4 f h =
     (case f (sh_cli h) of
        Ret err s \<Rightarrow> Ret err (settled s h)
      | Exited s \<Rightarrow> Exited (settled s h)
      | Blocked s \<Rightarrow> Blocked (settled s h))"

text \<open>\<^verbatim>\<open>bio4_give\<close> removes the input when the server has taken the blob.\<close>

definition on_bio4_give :: "cli_lib \<Rightarrow> service_run" where
  "on_bio4_give L h =
     (case (bio4_put L (sh_cli h), cl_input_path (sh_cli h)) of
        (Ret None s, Some p) \<Rightarrow>
          if cl_ok_no s = 1 then on_bio4 (bio4_give L) h
          else
            (case sys_unlink (fc_cwd (sh_fs h) p) (sh_fs h) of
               (r, w) \<Rightarrow> on_bio4 (\<lambda>s. bio4_give L (s\<lparr>cl_unlink := r\<rparr>)) (h\<lparr>sh_fs := w\<rparr>))
      | _ \<Rightarrow> on_bio4 (bio4_give L) h)"

definition on_fs :: "fs_run \<Rightarrow> service_run" where
  "on_fs f h = (case f (sh_fs h) of (err, w) \<Rightarrow> Ret err (h\<lparr>sh_fs := w\<rparr>))"

definition bio4_service :: "main_lib \<Rightarrow> service" where
  "bio4_service M =
     (let L = cli_lib.truncate (ml_jm M) in
      \<lparr>sv_name = ''bio4'', sv_end_point_syntax = (\<lambda>ep h. Ret (bio4_end_point_syntax ep) h),
       sv_open = bio4_open M, sv_close = bio4_close, sv_get = on_bio4 (bio4_get L),
       sv_eat = on_bio4 (bio4_eat L), sv_put = on_bio4 (bio4_put L), sv_take = on_bio4 (bio4_take L),
       sv_give = on_bio4_give L, sv_roll = on_bio4 (bio4_roll L), sv_wrap = on_bio4 (bio4_wrap L),
       sv_brr_frisk = None\<rparr>)"

definition fs_service :: "main_lib \<Rightarrow> service" where
  "fs_service M =
     (let J = ml_jm M in
      \<lparr>sv_name = ''fs'', sv_end_point_syntax = (\<lambda>ep. on_fs (fs_end_point_syntax ep)),
       sv_open = on_fs (fs_open (ml_ssl M) J), sv_close = on_fs fs_close, sv_get = on_fs (fs_get J),
       sv_eat = on_fs (fs_eat J), sv_put = on_fs (fs_put J), sv_take = on_fs (fs_take J),
       sv_give = on_fs (fs_give J), sv_roll = on_fs (fs_roll J), sv_wrap = on_fs (fs_wrap J),
       sv_brr_frisk = Some (fs_brr_frisk J)\<rparr>)"

definition services :: "main_lib \<Rightarrow> service list" where
  "services M = [bio4_service M, fs_service M]"

text \<open>A service that is in no table.\<close>

definition null_verb :: "int \<Rightarrow> bytes \<Rightarrow> service_run" where
  "null_verb ok_no msg h = Ret (Some (Msg msg)) (on_sh_cli (\<lambda>s. s\<lparr>cl_ok_no := ok_no\<rparr>) h)"

definition null_service :: service where
  "null_service =
     \<lparr>sv_name = ''null'',
      sv_end_point_syntax = (\<lambda>null_path. Ret (if null_path = ''/dev/null'' then None
        else Some (Msg ''unknown null path: expected /dev/null''))),
      sv_open = Ret None, sv_close = Ret None,
      sv_get = null_verb 1 ''null_get not supported'', sv_eat = null_verb 0 ''null_eat not supported'',
      sv_put = null_verb 0 ''null_put not supported'', sv_take = null_verb 0 ''null_take not supported'',
      sv_give = null_verb 0 ''null_give not supported'', sv_roll = null_verb 0 ''null_roll not supported'',
      sv_wrap = null_verb 0 ''null_wrap not supported'', sv_brr_frisk = None\<rparr>"

section \<open>Concatenation\<close>

text \<open>
  \<^verbatim>\<open>bufcat\<close> returns its target and not the end of it, so that the next text is appended with all the room
  that the target has.
\<close>

definition bufcat :: "jmscott \<Rightarrow> bytes \<Rightarrow> nat \<Rightarrow> bytes \<Rightarrow> bytes" where
  "bufcat J tgt tgtsize src = jm_strcat J tgtsize tgt [src]"

definition buf2cat :: "jmscott \<Rightarrow> bytes \<Rightarrow> nat \<Rightarrow> bytes \<Rightarrow> bytes \<Rightarrow> bytes" where
  "buf2cat J tgt tgtsize src1 src2 =
     (let next = bufcat J tgt tgtsize src1 in
      if tgtsize = 0 then next else bufcat J next tgtsize src2)"

definition buf3cat :: "jmscott \<Rightarrow> bytes \<Rightarrow> nat \<Rightarrow> bytes \<Rightarrow> bytes \<Rightarrow> bytes \<Rightarrow> bytes" where
  "buf3cat J tgt tgtsize src1 src2 src3 =
     (let next = bufcat J tgt tgtsize src1 in
      if tgtsize = 0 then next else buf2cat J next tgtsize src2 src3)"

definition buf4cat :: "jmscott \<Rightarrow> bytes \<Rightarrow> nat \<Rightarrow> bytes \<Rightarrow> bytes \<Rightarrow> bytes \<Rightarrow> bytes \<Rightarrow> bytes" where
  "buf4cat J tgt tgtsize src1 src2 src3 src4 =
     (let next = bufcat J tgt tgtsize src1 in
      if tgtsize = 0 then next else buf3cat J next tgtsize src2 src3 src4)"

end
