(* ===== verification/Cli_Main.thy ===== *)
theory Cli_Main
  imports Cli_Service
begin

text \<open>
  The program \<^verbatim>\<open>blobio\<close>, \<^verbatim>\<open>cli/blobio/blobio.c\<close>: the command line, the checks across its options, the
  run of the service and the ways to end.
\<close>

section \<open>The ends of the program\<close>

definition MAX_ATOMIC_MSG :: "main_lib \<Rightarrow> nat" where
  "MAX_ATOMIC_MSG M = lib_msg_size (ml_jm M)"

abbreviation msg_cat :: "main_lib \<Rightarrow> bytes \<Rightarrow> bytes list \<Rightarrow> bytes" where
  "msg_cat M buf ss \<equiv> jm_strcat (ml_jm M) (MAX_ATOMIC_MSG M) buf ss"

text \<open>An error as the text that the code has.\<close>

fun error_text :: "main_lib \<Rightarrow> cli_error \<Rightarrow> bytes" where
  "error_text M (Msg m) = m"
| "error_text M (Strerror e) = ml_strerror M e"

definition find_service :: "main_lib \<Rightarrow> bytes \<Rightarrow> service option" where
  "find_service M name = List.find (\<lambda>sv. sv_name sv = name) (services M)"

text \<open>The global \<^verbatim>\<open>service\<close>.\<close>

definition the_service :: "main_lib \<Rightarrow> shell \<Rightarrow> service option" where
  "the_service M h = Option.bind (sh_service h) (find_service M)"

definition ecat :: "main_lib \<Rightarrow> shell \<Rightarrow> bytes \<Rightarrow> bytes" where
  "ecat M h msg =
     (let buf = msg_cat M [] [''blobio''];
          buf = (if cl_verb (sh_cli h) \<noteq> [] then msg_cat M buf ['': '', cl_verb (sh_cli h)] else buf);
          buf = (case sh_service h of Some name \<Rightarrow> msg_cat M buf ['': '', name] | None \<Rightarrow> buf)
      in msg_cat M buf ['': ERROR: '', msg])"

text \<open>The end of \<^verbatim>\<open>cleanup\<close>: the output file of a run that has failed is removed.\<close>

definition remove_output :: "main_lib \<Rightarrow> int \<Rightarrow> shell \<Rightarrow> shell" where
  "remove_output M status h =
     (case cl_output_path (sh_cli h) of
        None \<Rightarrow> h
      | Some p \<Rightarrow>
          if status > 1 \<and> sh_rm_output_path_error h \<and> p \<noteq> ''/dev/null'' then
            (case sys_unlink (fc_cwd (sh_fs h) p) (sh_fs h) of
               (Inr _, w) \<Rightarrow> h\<lparr>sh_fs := w\<rparr>
             | (Inl e, w) \<Rightarrow>
                 if e = ENOENT then h\<lparr>sh_fs := w\<rparr>
                 else h\<lparr>sh_fs := w, sh_stderr := sh_stderr h @
                   msg_cat M (ecat M h ''PANIC: unlink(output_path) failed: '') [ml_strerror M e, [NL]]\<rparr>)
          else h)"

text \<open>The service is closed, and then the input and the output; that they fail is not noticed.\<close>

definition cleanup :: "main_lib \<Rightarrow> int \<Rightarrow> shell \<Rightarrow> (unit, shell) outcome" where
  "cleanup M status h =
     proceed (case the_service M h of
         None \<Rightarrow> Ret () h
       | Some sv \<Rightarrow> proceed (sv_close sv h) (\<lambda>_ h. Ret () (h\<lparr>sh_service := None\<rparr>)))
     (\<lambda>_ h. Ret () (remove_output M status (h\<lparr>sh_fs := snd (fs_touch (snd (fs_touch (sh_fs h))))\<rparr>)))"

definition exit_with :: "int \<Rightarrow> shell \<Rightarrow> ('a, shell) outcome" where
  "exit_with status h = Exited (on_sh_cli (\<lambda>s. s\<lparr>cl_exit := nat (status mod 256)\<rparr>) h)"

definition help_blurb :: bytes where
  "help_blurb = concat (map (\<lambda>line. line @ [NL])
     [''Usage:'',
      [TAB] @ ''blobio [get|put|give|take|eat|wrap|roll|empty | help] [options]'',
      ''Options:'',
      [TAB] @ ''--service       request blob from service <name:end_point>'',
      [TAB] @ ''--input-path    put/give/eat source file <default stdin>'',
      [TAB] @ ''--output-path   get/take target file <default stdout>'',
      [TAB] @ ''--udig          algorithm:digest for get/put/give/take/eat/empty/roll'',
      [TAB] @ ''--algorithm     algorithm name for local eat request'',
      [TAB] @ ''--trace'' @ [TAB] @ [TAB] @ ''deep trace to standard error'',
      [TAB] @ ''--io-timeout'' @ [TAB] @ ''network only read/write() timeouts.'',
      [TAB] @ ''--help'',
      ''Service Query Args:'',
      [TAB] @ ''algo'' @ [TAB] @ ''hash algorithm for wrap verb [sha|btc20]'',
      [TAB] @ ''brr'' @ [TAB] @ ''hex one byte bit map mask for which brr records to write'',
      [TAB] @ [TAB] @ ''  '' @ [CHR 0x22] @ ''brr=ff'' @ [CHR 0x22] @ '' puts a brr for all verbs'',
      [TAB] @ [TAB] @ ''  '' @ [CHR 0x22] @ ''brr=6e'' @ [CHR 0x22] @ '' puts a brr for verbs that write to storage'',
      [TAB] @ ''fnp'' @ [TAB] @ ''file name prefix of the path to log file spool/<prefix>.brr'',
      ''Exit Status:'',
      [TAB] @ ''0'' @ [TAB] @ ''request succeed'',
      ''  '' @ [TAB] @ ''1'' @ [TAB] @ ''request denied.  blob may not exist or is not empty'',
      [TAB] @ ''2'' @ [TAB] @ ''timeout on i/o'',
      [TAB] @ ''3'' @ [TAB] @ ''unexpected error'',
      ''Examples:'',
      [TAB] @ ''S=bio4:localhost:1797'',
      [TAB] @ ''UD=sha:a0bc76c479b55b5af2e3c7c4a4d2ccf44e6c4e71'',
      [],
      [TAB] @ ''blobio get --service $S --udig $UD --output-path tmp.blob'',
      [],
      [TAB] @ ''blobio take --service $S --udig $UD --output-path /dev/null'',
      [],
      [TAB] @ ''UDIG=$(blobio eat --algorithm sha --input-path resume.pdf)'',
      [TAB] @ ''blobio put --udig $UD --input-path resume.pdf --service $S'',
      ''Digest Algorithms:''])"

text \<open>\<^verbatim>\<open>write\<close>, whose result nobody looks at.\<close>

definition write_blind :: "bytes \<Rightarrow> shell \<Rightarrow> (unit, shell) outcome" where
  "write_blind buf h =
     (case bio4_write 0 buf (cl_output_writes (sh_cli h)) of
        (wr, out, evs) \<Rightarrow>
          let s = sh_cli h;
              h = settled (s\<lparr>cl_output := cl_output s @ out, cl_output_writes := evs\<rparr>) h
          in case wr of Written _ \<Rightarrow> Ret () h | _ \<Rightarrow> Blocked h)"

fun writes_blind :: "bytes list \<Rightarrow> shell \<Rightarrow> (unit, shell) outcome" where
  "writes_blind [] h = Ret () h"
| "writes_blind (buf # bufs) h = proceed (write_blind buf h) (\<lambda>_. writes_blind bufs)"

definition help_writes :: "main_lib \<Rightarrow> bytes list" where
  "help_writes M =
     help_blurb #
     concat (map (\<lambda>(j, d). [if j = 0 then [TAB] else '', '', di_algorithm d])
       (enumerate 0 (cli_digests (ml_ssl M)))) @ [[NL]]"

definition help_exit :: "main_lib \<Rightarrow> shell \<Rightarrow> ('a, shell) outcome" where
  "help_exit M h =
     proceed (writes_blind (help_writes M) h) (\<lambda>_ h. proceed (cleanup M 0 h) (\<lambda>_. exit_with 0))"

text \<open>\<^verbatim>\<open>die\<close> and what formats messages for it.  \<^verbatim>\<open>die3\<close> does not clean up.\<close>

definition cli_die :: "main_lib \<Rightarrow> bytes \<Rightarrow> shell \<Rightarrow> ('a, shell) outcome" where
  "cli_die M msg h =
     proceed (cleanup M 3 h) (\<lambda>_ h.
       exit_with 3 (h\<lparr>sh_last_words :=
         (if cl_verb (sh_cli h) \<noteq> [] then [cl_verb (sh_cli h), msg] else [msg])\<rparr>))"

definition die2 :: "main_lib \<Rightarrow> bytes \<Rightarrow> bytes \<Rightarrow> shell \<Rightarrow> ('a, shell) outcome" where
  "die2 M msg1 msg2 = cli_die M (msg_cat M [] [msg1, '': '', msg2])"

definition die3 :: "main_lib \<Rightarrow> bytes \<Rightarrow> bytes \<Rightarrow> bytes \<Rightarrow> shell \<Rightarrow> ('a, shell) outcome" where
  "die3 M msg1 msg2 msg3 h =
     exit_with 3 (h\<lparr>sh_last_words := [msg_cat M [] [msg1, '': '', msg2], msg3]\<rparr>)"

definition eopt :: "main_lib \<Rightarrow> bytes \<Rightarrow> bytes \<Rightarrow> shell \<Rightarrow> ('a, shell) outcome" where
  "eopt M opt why = cli_die M (msg_cat M (msg_cat M [] [''option --'', opt]) ['': '', why])"

definition eopt2 :: "main_lib \<Rightarrow> bytes \<Rightarrow> bytes \<Rightarrow> bytes \<Rightarrow> shell \<Rightarrow> ('a, shell) outcome" where
  "eopt2 M opt why1 why2 =
     (let buf = msg_cat M [] [why1];
          buf = (if buf \<noteq> [] then msg_cat M buf ['': ''] else buf)
      in eopt M opt (msg_cat M buf [why2]))"

definition eservice :: "main_lib \<Rightarrow> bytes \<Rightarrow> shell \<Rightarrow> ('a, shell) outcome" where
  "eservice M why = eopt M ''service'' why"

definition eservice2 :: "main_lib \<Rightarrow> bytes \<Rightarrow> bytes \<Rightarrow> shell \<Rightarrow> ('a, shell) outcome" where
  "eservice2 M why1 why2 =
     (if why2 \<noteq> [] then eopt2 M ''service'' why1 why2 else eopt M ''service'' why1)"

definition no_opt :: "main_lib \<Rightarrow> bytes \<Rightarrow> shell \<Rightarrow> ('a, shell) outcome" where
  "no_opt M opt = cli_die M (msg_cat M [] [''missing required option: --'', opt])"

definition emany :: "main_lib \<Rightarrow> bytes \<Rightarrow> shell \<Rightarrow> ('a, shell) outcome" where
  "emany M opt = cli_die M (msg_cat M [] [''option given more than once: --'', opt])"

definition enot :: "main_lib \<Rightarrow> bytes \<Rightarrow> shell \<Rightarrow> ('a, shell) outcome" where
  "enot M opt = eopt M opt ''not needed''"

section \<open>The options\<close>

text \<open>
  The value of an option is the next argument, when there is one.  A character array gets what the code
  copies to it, at the size that the code passes.
\<close>

definition opt_udig :: "main_lib \<Rightarrow> bytes option \<Rightarrow> shell \<Rightarrow> (unit, shell) outcome" where
  "opt_udig M arg h =
     (let s = sh_cli h in
      if cl_ascii_digest s \<noteq> [] then emany M ''udig'' h
      else if cl_algorithm s \<noteq> [] then eopt M ''udig'' ''option --algorithm conflicts'' h
      else
        (case arg of
           None \<Rightarrow> eopt M ''udig'' ''missing <algorithm:digest>'' h
         | Some ud \<Rightarrow>
             (case lib_frisk_udig (ml_jm M) ud of
                Some err \<Rightarrow> eopt2 M ''udig'' err ud h
              | None \<Rightarrow>
                  let algorithm = takeWhile (\<lambda>c. c \<noteq> CHR '':'') ud;
                      h = on_sh_cli (\<lambda>s. s\<lparr>cl_algorithm := algorithm\<rparr>) h
                  in (case find_digest (ml_ssl M) algorithm of
                        None \<Rightarrow> eopt2 M ''udig'' ''unknown algorithm'' algorithm h
                      | Some d \<Rightarrow>
                          let ascii = jm_strcat (ml_jm M) 129 [] [drop (length algorithm + 1) ud];
                              h = on_sh_cli (\<lambda>s. s\<lparr>cl_ascii_digest := ascii\<rparr>) h
                          in if di_syntax d ascii = 0 then eopt2 M ''udig'' ''bad syntax for digest'' ascii h
                          else Ret () (on_sh_cli (\<lambda>s. s\<lparr>cl_digest := Some d,
                            cl_udig := jm_strcat (ml_jm M) UDIG_SIZE [] [ud]\<rparr>) h)))))"

definition opt_algorithm :: "main_lib \<Rightarrow> bytes option \<Rightarrow> shell \<Rightarrow> (unit, shell) outcome" where
  "opt_algorithm M arg h =
     (if cl_ascii_digest (sh_cli h) \<noteq> [] then eopt M ''algorithm'' ''option --udig conflicts'' h
      else if cl_algorithm (sh_cli h) \<noteq> [] then emany M ''algorithm'' h
      else
        (case arg of
           None \<Rightarrow> eopt M ''algorithm'' ''missing <name>'' h
         | Some n \<Rightarrow>
             if n = [] then eopt M ''algorithm'' ''empty name'' h
             else
               (case find_digest (ml_ssl M) n of
                  None \<Rightarrow> eopt2 M ''algorithm'' ''unknown algorithm'' n h
                | Some d \<Rightarrow>
                    Ret () (on_sh_cli (\<lambda>s. s\<lparr>cl_algorithm := di_algorithm d, cl_digest := Some d\<rparr>) h))))"

definition opt_input_path :: "main_lib \<Rightarrow> bytes option \<Rightarrow> shell \<Rightarrow> (unit, shell) outcome" where
  "opt_input_path M arg h =
     (if cl_input_path (sh_cli h) \<noteq> None then emany M ''input-path'' h
      else
        (case arg of
           None \<Rightarrow> eopt M ''input-path'' ''requires file path'' h
         | Some p \<Rightarrow>
             if p = [] then eopt M ''input-path'' ''empty file path'' h
             else Ret () (on_sh_cli (\<lambda>s. s\<lparr>cl_input_path := Some p\<rparr>) h)))"

definition opt_output_path :: "main_lib \<Rightarrow> bytes option \<Rightarrow> shell \<Rightarrow> (unit, shell) outcome" where
  "opt_output_path M arg h =
     (if cl_output_path (sh_cli h) \<noteq> None then emany M ''output-path'' h
      else
        (case arg of
           None \<Rightarrow> eopt M ''output-path'' ''missing <file path>'' h
         | Some p \<Rightarrow> Ret () (on_sh_cli (\<lambda>s. s\<lparr>cl_output_path := Some p\<rparr>) h)))"

text \<open>The loop over the end point with its query: whether a query has been seen, and the error.\<close>

fun end_point_error :: "bool \<Rightarrow> bytes \<Rightarrow> bytes option" where
  "end_point_error query [] = None"
| "end_point_error query (c # p) =
     (if \<not> c_isgraph c then Some ''non graph char in query arg''
      else if c = CHR ''?'' then
        if query then Some ''multiple \"?\" are forbidden'' else end_point_error True p
      else if c = CHR ''&'' \<and> \<not> query then Some ''missing \"?\" before \"&\"''
      else end_point_error query p)"

text \<open>
  The query arguments.  \<^verbatim>\<open>BLOBIO_SERVICE_get_algo\<close> and \<^verbatim>\<open>BLOBIO_SERVICE_get_fnp\<close> may write outside of
  their arrays.
\<close>

definition service_query :: "main_lib \<Rightarrow> bytes \<Rightarrow> shell \<Rightarrow> (unit, shell) outcome" where
  "service_query M query h =
     (let h = h\<lparr>sh_query := jm_strcat (ml_jm M) 256 [] [query]\<rparr> in
      case BLOBIO_SERVICE_frisk_qargs query (sh_qargs h) of
        (Some err, st) \<Rightarrow> eservice2 M ''query arg: frisk'' err (h\<lparr>sh_qargs := st\<rparr>)
      | (None, st) \<Rightarrow>
          let h = h\<lparr>sh_qargs := st\<rparr>; s = sh_cli h in
          (case (BLOBIO_SERVICE_get_algo query st (cl_algo s), BLOBIO_SERVICE_get_fnp query st (cl_fnp s)) of
             (Some a, Some f) \<Rightarrow>
               Ret () (on_sh_cli (\<lambda>s. s\<lparr>cl_algo := a,
                 cl_brr_mask := BLOBIO_SERVICE_get_brr_mask query st (cl_brr_mask s), cl_fnp := f\<rparr>) h)
           | _ \<Rightarrow> Blocked h))"

definition service_end_point :: "main_lib \<Rightarrow> service \<Rightarrow> bytes \<Rightarrow> shell \<Rightarrow> (unit, shell) outcome" where
  "service_end_point M sp endp h =
     proceed (sv_end_point_syntax sp endp h) (\<lambda>err h.
       case err of
         Some e \<Rightarrow> eservice2 M (error_text M e) endp h
       | None \<Rightarrow> Ret () (h\<lparr>sh_service := Some (sv_name sp), sh_fs := (sh_fs h)\<lparr>fc_end_point := endp\<rparr>\<rparr>))"

definition opt_service :: "main_lib \<Rightarrow> bytes option \<Rightarrow> shell \<Rightarrow> (unit, shell) outcome" where
  "opt_service M arg h =
     (if sh_service h \<noteq> None then emany M ''service'' h
      else
        (case arg of
           None \<Rightarrow> eservice M ''missing <name:end_point>'' h
         | Some s \<Rightarrow>
             let name = takeWhile (\<lambda>c. c \<noteq> CHR '':'') s; p = drop (length name + 1) s in
             if CHR '':'' \<notin> set s then eservice2 M ''no colon in <name:end_point>'' s h
             else if length name > 8 then eservice2 M ''name > 8 chars'' s h
             else if name = [] then eservice2 M ''empty name'' s h
             else
               (case find_service M name of
                  None \<Rightarrow> eservice2 M ''unknown service'' name h
                | Some sp \<Rightarrow>
                    if length p \<ge> 128 then eservice2 M ''end point >= 128 characters'' s h
                    else if p = [] then eservice2 M ''empty <end point>'' s h
                    else if hd p = CHR ''?'' then eservice2 M ''empty <end point> before ? char'' s h
                    else
                      (case end_point_error False p of
                         Some err \<Rightarrow> eservice M err h
                       | None \<Rightarrow>
                           let endp = takeWhile (\<lambda>c. c \<noteq> CHR ''?'') p in
                           if CHR ''?'' \<in> set p
                           then proceed (service_query M (drop (length endp + 1) p) h)
                             (\<lambda>_. service_end_point M sp endp)
                           else service_end_point M sp endp h))))"

definition opt_io_timeout :: "main_lib \<Rightarrow> bytes option \<Rightarrow> shell \<Rightarrow> (unit, shell) outcome" where
  "opt_io_timeout M arg h =
     (if cl_io_timeout (sh_cli h) \<ge> 0 then emany M ''io-timeout'' h
      else
        (case arg of
           None \<Rightarrow> emany M ''io-timeout'' h
         | Some a \<Rightarrow>
             (case ml_a2ui63 M a of
                Inl err \<Rightarrow> eopt2 M ''io-timeout'' ''can not parse seconds'' err h
              | Inr ull \<Rightarrow>
                  if ull > 255 then eopt M ''io-timeout'' ''seconds > 255'' h
                  else Ret () (on_sh_cli (\<lambda>s. s\<lparr>cl_io_timeout := int ull\<rparr>) h))))"

definition next_arg :: "bytes list \<Rightarrow> bytes option" where
  "next_arg args = (case args of [] \<Rightarrow> None | a # _ \<Rightarrow> Some a)"

function parse_options :: "main_lib \<Rightarrow> bytes list \<Rightarrow> shell \<Rightarrow> (unit, shell) outcome" where
  "parse_options M [] h = Ret () h"
| "parse_options M (arg # args) h =
     (let a = drop 2 arg; rest = (\<lambda>_ h. parse_options M (tl args) h); v = next_arg args in
      if cstr_at arg 0 \<noteq> CHR ''-'' \<or> cstr_at arg 1 \<noteq> CHR ''-'' then die2 M ''unknown option'' arg h
      else if a = ''udig'' then proceed (opt_udig M v h) rest
      else if a = ''algorithm'' then proceed (opt_algorithm M v h) rest
      else if a = ''input-path'' then proceed (opt_input_path M v h) rest
      else if a = ''output-path'' then proceed (opt_output_path M v h) rest
      else if a = ''service'' then proceed (opt_service M v h) rest
      else if a = ''trace'' then
        if sh_tracing h then emany M ''trace'' h else parse_options M args (h\<lparr>sh_tracing := True\<rparr>)
      else if a = ''io-timeout'' then proceed (opt_io_timeout M v h) rest
      else if a = ''help'' then help_exit M h
      else die2 M ''unknown option'' arg h)"
  by pat_completeness auto
termination by (relation "measure (\<lambda>(M, args, h). length args)") auto

declare parse_options.simps [simp del]

text \<open>The end of \<^verbatim>\<open>parse_argv\<close>.\<close>

definition options_end :: "main_lib \<Rightarrow> shell \<Rightarrow> (unit, shell) outcome" where
  "options_end M h =
     (case the_service M h of
        Some sv \<Rightarrow>
          if cl_brr_mask (sh_cli h) > 0 \<and> sv_brr_frisk sv = None
          then die2 M ''brr mask not supported for service'' (sv_name sv) h
          else Ret () (on_sh_cli (\<lambda>s. s\<lparr>cl_io_timeout := max 0 (cl_io_timeout s)\<rparr>) h)
      | None \<Rightarrow> Ret () (on_sh_cli (\<lambda>s. s\<lparr>cl_io_timeout := max 0 (cl_io_timeout s)\<rparr>) h))"

definition request_verbs :: "bytes list" where
  "request_verbs = [''get'', ''put'', ''eat'', ''give'', ''take'', ''wrap'', ''roll'', ''empty'']"

definition usage :: bytes where
  "usage = ''usage: blobio [help | get|put|give|take|eat|wrap|roll|empty] [options]'' @ [NL]"

text \<open>\<open>args\<close> is \<^verbatim>\<open>argv\<close> behind the name of the program.\<close>

definition parse_argv :: "main_lib \<Rightarrow> bytes list \<Rightarrow> shell \<Rightarrow> (unit, shell) outcome" where
  "parse_argv M args h =
     (case args of
        [] \<Rightarrow> cli_die M ''no command line arguments'' (h\<lparr>sh_stderr := sh_stderr h @ usage\<rparr>)
      | v # opts \<Rightarrow>
          if v = ''help'' \<or> v = ''--help'' then help_exit M h
          else if v \<notin> set request_verbs then die2 M ''unknown verb'' v h
          else
            proceed (parse_options M opts (on_sh_cli (\<lambda>s. s\<lparr>cl_verb := v\<rparr>) h)) (\<lambda>_. options_end M))"

section \<open>The checks across the options\<close>

text \<open>What \<^verbatim>\<open>xref_argv\<close> complains about: an option that is missing or one that is not needed.\<close>

datatype complaint = No_opt bytes | E_not bytes

definition xref_complaint :: "bool \<Rightarrow> cli \<Rightarrow> complaint option" where
  "xref_complaint service s =
     (let v = cstr_at (cl_verb s) 0; v1 = cstr_at (cl_verb s) 1;
          udig = cl_ascii_digest s \<noteq> []; alg = cl_algorithm s \<noteq> [];
          inp = cl_input_path s \<noteq> None; outp = cl_output_path s \<noteq> None
      in if v = CHR ''g'' \<or> v = CHR ''p'' \<or> v = CHR ''t'' \<or> v = CHR ''r'' then
        if \<not> service then Some (No_opt ''service'')
        else if \<not> udig then Some (No_opt ''udig'')
        else if v = CHR ''r'' then
          if inp then Some (E_not ''input-path'') else if outp then Some (E_not ''output-path'') else None
        else if v1 = CHR ''i'' then (if outp then Some (E_not ''output-path'') else None)
        else if v1 = CHR ''e'' then (if inp then Some (E_not ''input-path'') else None)
        else if v1 = CHR ''a'' then (if inp then Some (E_not ''input-path'') else None)
        else if v = CHR ''p'' then (if outp then Some (E_not ''output-path'') else None)
        else None
      else if v = CHR ''e'' then
        if v1 = CHR ''a'' then
          if service then
            if inp then Some (E_not ''input-path'')
            else if outp then Some (E_not ''output-path'')
            else if alg then (if \<not> udig then Some (E_not ''algorithm'') else None)
            else Some (No_opt ''udig'')
          else if udig then Some (No_opt ''service'')
          else if \<not> alg then Some (No_opt ''algorithm'')
          else None
        else if outp then Some (E_not ''output-path'')
        else if inp then Some (E_not ''input-path'')
        else if service then Some (E_not ''service'')
        else if \<not> udig \<and> \<not> alg then Some (No_opt ''{udig,algorithm}'')
        else None
      else if v = CHR ''w'' then
        if \<not> service then Some (No_opt ''service'')
        else if inp then Some (E_not ''input-path'')
        else if udig then Some (E_not ''udig'')
        else if alg then Some (E_not ''algorithm'')
        else None
      else None)"

definition xref_argv :: "main_lib \<Rightarrow> shell \<Rightarrow> (unit, shell) outcome" where
  "xref_argv M h =
     (case xref_complaint (sh_service h \<noteq> None) (sh_cli h) of
        None \<Rightarrow> Ret () h
      | Some (No_opt opt) \<Rightarrow> no_opt M opt h
      | Some (E_not opt) \<Rightarrow> enot M opt h)"

section \<open>The main function\<close>

text \<open>The input must be there and the output must not.\<close>

definition check_input :: "main_lib \<Rightarrow> shell \<Rightarrow> (unit, shell) outcome" where
  "check_input M h =
     (case cl_input_path (sh_cli h) of
        None \<Rightarrow> Ret () h
      | Some p \<Rightarrow>
          (case io_fs_lstat (fc_cwd (sh_fs h) p) (sh_fs h) of
             (Inl e, w) \<Rightarrow>
               eopt2 M ''input-path'' (if e = ENOENT then ''no file'' else ml_strerror M e) p (h\<lparr>sh_fs := w\<rparr>)
           | (Inr _, w) \<Rightarrow> Ret () (h\<lparr>sh_fs := w\<rparr>)))"

definition check_output :: "main_lib \<Rightarrow> shell \<Rightarrow> (unit, shell) outcome" where
  "check_output M h =
     (case cl_output_path (sh_cli h) of
        None \<Rightarrow> Ret () h
      | Some p \<Rightarrow>
          if p = ''/dev/null'' then Ret () h
          else
            (case io_fs_lstat (fc_cwd (sh_fs h) p) (sh_fs h) of
               (Inr _, w) \<Rightarrow>
                 eopt2 M ''output-path'' ''refuse to overwrite file'' p
                   (h\<lparr>sh_fs := w, sh_rm_output_path_error := False\<rparr>)
             | (Inl e, w) \<Rightarrow>
                 if e \<noteq> ENOENT then eopt2 M ''output-path'' (ml_strerror M e) p (h\<lparr>sh_fs := w\<rparr>)
                 else Ret () (h\<lparr>sh_fs := w\<rparr>)))"

text \<open>The digest module never fails to begin.\<close>

definition init_digest :: "cli \<Rightarrow> cli" where
  "init_digest s =
     (case cl_digest s of
        None \<Rightarrow> s
      | Some d \<Rightarrow> s\<lparr>cl_digest_state := di_init d (cl_ascii_digest s) (cl_digest_state s)\<rparr>)"

definition open_service :: "main_lib \<Rightarrow> shell \<Rightarrow> (unit, shell) outcome" where
  "open_service M h =
     (case the_service M h of
        None \<Rightarrow> Ret () h
      | Some sv \<Rightarrow>
          proceed (sv_open sv h) (\<lambda>err h.
            case err of
              None \<Rightarrow> Ret () h
            | Some e \<Rightarrow>
                die2 M (buf3cat (ml_jm M) [] (MAX_ATOMIC_MSG M) ''service open('' (sv_name sv) '') failed'')
                  (error_text M e) h))"

text \<open>When the input cannot be opened \<^verbatim>\<open>die3\<close> gets \<^verbatim>\<open>err\<close>, which is a null pointer then or has no value.\<close>

definition open_input :: "main_lib \<Rightarrow> shell \<Rightarrow> (unit, shell) outcome" where
  "open_input M h =
     (case cl_input_path (sh_cli h) of
        None \<Rightarrow> Ret () h
      | Some p \<Rightarrow>
          (case io_fs_open (fc_cwd (sh_fs h) p) (sh_fs h) of
             (Inl e, w) \<Rightarrow> Blocked (h\<lparr>sh_fs := w\<rparr>)
           | (Inr bs, w) \<Rightarrow> Ret () (h\<lparr>sh_fs := on_cli (\<lambda>s. s\<lparr>cl_input := [CData bs]\<rparr>) w\<rparr>)))"

definition open_output :: "main_lib \<Rightarrow> shell \<Rightarrow> (unit, shell) outcome" where
  "open_output M h =
     (let v = cstr_at (cl_verb (sh_cli h)) 0 in
      case cl_output_path (sh_cli h) of
        None \<Rightarrow> Ret () h
      | Some p \<Rightarrow>
          if v = CHR ''e'' \<and> sh_service h = None \<or> v = CHR ''w'' \<or> v = CHR ''r'' then
            if p = ''/dev/null'' then
              (case fs_touch (sh_fs h) of
                 (Inl e, w) \<Rightarrow> die3 M ''open(output) failed'' (ml_strerror M e) p (h\<lparr>sh_fs := w\<rparr>)
               | (Inr _, w) \<Rightarrow> Ret () (h\<lparr>sh_fs := w, sh_output := Out_null\<rparr>))
            else
              (case io_fs_create (fc_cwd (sh_fs h) p) (sh_fs h) of
                 (Inl e, w) \<Rightarrow> die3 M ''open(output) failed'' (ml_strerror M e) p (h\<lparr>sh_fs := w\<rparr>)
               | (Inr _, w) \<Rightarrow> Ret () (h\<lparr>sh_fs := w, sh_output := Out_file (fc_cwd w p)\<rparr>))
          else Ret () h)"

text \<open>A call of a service: its error, or \<^verbatim>\<open>ok_no\<close>.\<close>

definition call_service :: "main_lib \<Rightarrow> bytes \<Rightarrow> service_run \<Rightarrow> (int \<Rightarrow> shell \<Rightarrow> (int, shell) outcome) \<Rightarrow>
    shell \<Rightarrow> (int, shell) outcome" where
  "call_service M msg run k h =
     proceed (run h) (\<lambda>err h.
       case err of
         Some e \<Rightarrow> die2 M msg (error_text M e) h
       | None \<Rightarrow> k (cl_ok_no (sh_cli h)) h)"

text \<open>\<^verbatim>\<open>jmscott_write_all\<close> to the output.\<close>

definition write_out :: "main_lib \<Rightarrow> bytes \<Rightarrow> bytes \<Rightarrow> shell \<Rightarrow> (unit, shell) outcome" where
  "write_out M msg buf h =
     (case jm_write_all (ml_jm M) buf (cl_output_writes (sh_cli h)) of
        (r, out, evs) \<Rightarrow>
          let s = sh_cli h;
              h = settled (s\<lparr>cl_output := cl_output s @ out, cl_output_writes := evs\<rparr>) h
          in case r of Inl e \<Rightarrow> die2 M msg (ml_strerror M e) h | Inr _ \<Rightarrow> Ret () h)"

definition run_give :: "main_lib \<Rightarrow> service \<Rightarrow> shell \<Rightarrow> (int, shell) outcome" where
  "run_give M sv = call_service M ''give failed'' (sv_give sv) (\<lambda>ok_no h.
     case cl_input_path (sh_cli h) of
       Some p \<Rightarrow>
         if ok_no = 0 then
           (case sys_unlink (fc_cwd (sh_fs h) p) (sh_fs h) of
              (Inl e, w) \<Rightarrow>
                if e \<noteq> ENOENT then die2 M ''unlink(input) failed'' (ml_strerror M e) (h\<lparr>sh_fs := w\<rparr>)
                else Ret ok_no (h\<lparr>sh_fs := w\<rparr>)
            | (Inr _, w) \<Rightarrow> Ret ok_no (h\<lparr>sh_fs := w\<rparr>))
         else Ret ok_no h
     | None \<Rightarrow> Ret ok_no h)"

definition eat_local :: "main_lib \<Rightarrow> cli_digest \<Rightarrow> shell \<Rightarrow> (int, shell) outcome" where
  "eat_local M d h =
     (let s = sh_cli h in
      case di_eat_input d (MAX_ATOMIC_MSG M) (cl_input s) (cl_digest_state s) of
        (Inl e, evs, ds) \<Rightarrow>
          die2 M ''eat(input) failed'' (ml_strerror M e)
            (on_sh_cli (\<lambda>s. s\<lparr>cl_input := evs, cl_digest_state := ds\<rparr>) h)
      | (Inr a, evs, ds) \<Rightarrow>
          let h = on_sh_cli (\<lambda>s. s\<lparr>cl_input := evs, cl_digest_state := ds, cl_ascii_digest := a\<rparr>) h in
          proceed (write_out M ''write(ascii_digest) failed'' (buf2cat (ml_jm M) [] 129 a [NL]) h)
            (\<lambda>_. Ret 0))"

definition run_empty :: "cli_digest \<Rightarrow> shell \<Rightarrow> (int, shell) outcome" where
  "run_empty d h =
     (let a = cl_ascii_digest (sh_cli h) in
      if a \<noteq> [] then Ret (if di_empty d a then 0 else 1) h
      else proceed (writes_blind [di_empty_digest d, [NL]] h) (\<lambda>_. Ret 0))"

definition run_wrap :: "main_lib \<Rightarrow> service \<Rightarrow> shell \<Rightarrow> (int, shell) outcome" where
  "run_wrap M sv = call_service M ''wrap() failed'' (sv_wrap sv) (\<lambda>ok_no h.
     if cl_udig (sh_cli h) \<noteq> []
     then proceed (write_out M ''write(udig) failed'' (cl_udig (sh_cli h) @ [NL]) h) (\<lambda>_. Ret ok_no)
     else if ok_no = 0 then cli_die M ''no udig for ok wrap'' h
     else Ret ok_no h)"

text \<open>The value is \<^verbatim>\<open>exit_status\<close>, which is -1 before.\<close>

definition run_verb :: "main_lib \<Rightarrow> shell \<Rightarrow> (int, shell) outcome" where
  "run_verb M h =
     (let v = cstr_at (cl_verb (sh_cli h)) 0; v1 = cstr_at (cl_verb (sh_cli h)) 1;
          sv = the (the_service M h); d = the (cl_digest (sh_cli h))
      in if v = CHR ''g'' then
        if v1 = CHR ''e'' then call_service M ''get failed'' (sv_get sv) Ret h else run_give M sv h
      else if v = CHR ''e'' then
        if v1 = CHR ''a'' then
          if sh_service h \<noteq> None then call_service M ''eat(service) failed'' (sv_eat sv) Ret h
          else eat_local M d h
        else run_empty d h
      else if v = CHR ''p'' then call_service M ''put() failed'' (sv_put sv) Ret h
      else if v = CHR ''t'' then call_service M ''take() failed'' (sv_take sv) Ret h
      else if v = CHR ''w'' then run_wrap M sv h
      else if v = CHR ''r'' then call_service M ''roll() failed'' (sv_roll sv) Ret h
      else Ret (- 1) h)"

text \<open>The clock answers with the next value.\<close>

definition sys_clock :: "shell \<Rightarrow> timespec sysret \<times> shell" where
  "sys_clock h = (case sh_clock h of [] \<Rightarrow> (Inl EOTHER, h) | t # ts \<Rightarrow> (t, h\<lparr>sh_clock := ts\<rparr>))"

definition log_request :: "main_lib \<Rightarrow> timespec \<Rightarrow> shell \<Rightarrow> (unit, shell) outcome" where
  "log_request M start_time h =
     (case the_service M h of
        None \<Rightarrow> Ret () h
      | Some sv \<Rightarrow>
          if cli_brr_mask_is_set (cl_verb (sh_cli h)) (cl_brr_mask (sh_cli h)) then
            (case sys_clock h of
               (now, h) \<Rightarrow>
                 (case brr_service (ml_jm M) (ml_gmtime M) start_time now (the (sv_brr_frisk sv)) (sh_fs h) of
                    Ret (Some e) w \<Rightarrow>
                      die3 M ''brr_service() failed'' (sv_name sv) (error_text M e) (h\<lparr>sh_fs := w\<rparr>)
                  | Ret None w \<Rightarrow> Ret () (h\<lparr>sh_fs := w\<rparr>)
                  | Exited w \<Rightarrow> Exited (h\<lparr>sh_fs := w\<rparr>)
                  | Blocked w \<Rightarrow> Blocked (h\<lparr>sh_fs := w\<rparr>)))
          else Ret () h)"

text \<open>\<^verbatim>\<open>main\<close> behind the command line.\<close>

definition main_request :: "main_lib \<Rightarrow> timespec \<Rightarrow> shell \<Rightarrow> (unit, shell) outcome" where
  "main_request M start_time h =
     proceed (check_input M h) (\<lambda>_ h.
     proceed (check_output M h) (\<lambda>_ h.
     proceed (open_service M (on_sh_cli init_digest h)) (\<lambda>_ h.
     proceed (open_input M h) (\<lambda>_ h.
     proceed (open_output M h) (\<lambda>_ h.
     proceed (run_verb M h) (\<lambda>exit_status h.
     proceed (log_request M start_time h) (\<lambda>_ h.
     proceed (cleanup M exit_status h) (\<lambda>_. exit_with exit_status))))))))"

definition cli_main :: "main_lib \<Rightarrow> bytes list \<Rightarrow> shell \<Rightarrow> (unit, shell) outcome" where
  "cli_main M args h =
     (case sys_clock h of
        (Inl e, h) \<Rightarrow> die2 M ''clock_gettime(start REALTIME) failed'' (ml_strerror M e) h
      | (Inr start_time, h) \<Rightarrow>
          proceed (parse_argv M args h) (\<lambda>_ h.
          proceed (xref_argv M h) (\<lambda>_. main_request M start_time)))"

end
