(* ===== verification/Cli_Main_Spec.thy ===== *)
theory Cli_Main_Spec
  imports Cli_Main
begin

text \<open>
  The properties of the program: which command lines it takes, what becomes of an output file that is
  there already, and a get from the directory of a server, from the command line to the exit status.
\<close>

section \<open>The ends of the program\<close>

lemma proceed_let: "proceed (Ret a h) k = k a h"
  by simp

lemma the_service_in: "the_service M h = Some sv \<Longrightarrow> sv \<in> set (services M)"
  by (auto simp: the_service_def find_service_def find_Some_iff bind_eq_Some_conv)

lemma end_point_value:
  assumes "close_end_point w = (err, w')"
  shows "fc_cli w' = fc_cli w \<and> fs_nodes w' = fs_nodes w \<and> fs_only w w' \<and> (fs_faults w = [] \<longrightarrow> w' = w)"
proof (cases "fc_open w")
  case True
  obtain r v where t: "fs_touch w = (r, v)" by fastforce
  then have "w' = v" using assms True by (cases r) (auto simp: close_end_point_def sys_def)
  then show ?thesis using touch_same [OF t] fs_only_touch [OF t] t by (auto simp: fs_touch_calm)
next
  case False
  then show ?thesis using assms by (simp add: close_end_point_def)
qed

lemma close_value:
  assumes "fs_close w = (err, w')"
  shows "fc_cli w' = fc_cli w"
    and "fc_wrap_set w = [] \<Longrightarrow> fs_nodes w' = fs_nodes w \<and> fs_only w w' \<and> (fs_faults w = [] \<longrightarrow> w' = w)"
proof -
  have u: "fc_cli v' = fc_cli v" if "sys_unlink p v = (r, v')" for p v v' r
    using only_cli(1) [OF fs_only_sys_unlink [OF that]] .
  show "fc_cli w' = fc_cli w"
    using assms end_point_value
    by (fastforce simp: fs_close_def sys_def split: prod.splits sum.splits if_splits dest!: u)
  show "fc_wrap_set w = [] \<Longrightarrow> fs_nodes w' = fs_nodes w \<and> fs_only w w' \<and> (fs_faults w = [] \<longrightarrow> w' = w)"
    using assms end_point_value by (simp add: fs_close_def)
qed

text \<open>Closing a service always returns, and with no set of a wrap left behind it only closes.\<close>

lemma close_returns:
  assumes "sv \<in> set (services M)"
  obtains err w where "sv_close sv h = Ret err (h\<lparr>sh_fs := w\<rparr>)" and "fc_cli w = sh_cli h"
    and "fc_wrap_set (sh_fs h) = [] \<Longrightarrow> fs_nodes w = fs_nodes (sh_fs h) \<and> fs_only (sh_fs h) w \<and>
      (fs_faults (sh_fs h) = [] \<longrightarrow> w = sh_fs h)"
proof -
  have "sv_close sv = bio4_close \<or> sv_close sv = on_fs fs_close"
    using assms by (auto simp: services_def bio4_service_def fs_service_def Let_def)
  then show thesis
  proof
    assume c: "sv_close sv = bio4_close"
    show thesis
    proof (cases "nw_server (sh_net h)")
      case True
      obtain r w where t: "fs_touch (sh_fs h) = (r, w)" by fastforce
      have "\<exists>err. bio4_close h = Ret err (h\<lparr>sh_fs := w\<rparr>)" using True t by (cases r) (auto simp: bio4_close_def)
      then obtain err where "bio4_close h = Ret err (h\<lparr>sh_fs := w\<rparr>)" ..
      then have "sv_close sv h = Ret err (h\<lparr>sh_fs := w\<rparr>)" using c by simp
      then show thesis by (rule that) (use touch_same [OF t] fs_only_touch [OF t] t in \<open>auto simp: fs_touch_calm\<close>)
    next
      case False
      then have "sv_close sv h = Ret None (h\<lparr>sh_fs := sh_fs h\<rparr>)" by (simp add: bio4_close_def c)
      then show thesis by (rule that) auto
    qed
  next
    assume c: "sv_close sv = on_fs fs_close"
    obtain err w where f: "fs_close (sh_fs h) = (err, w)" by fastforce
    then have "sv_close sv h = Ret err (h\<lparr>sh_fs := w\<rparr>)" by (simp add: on_fs_def c)
    then show thesis by (rule that) (use close_value [OF f] in auto)
  qed
qed

text \<open>Whether \<^verbatim>\<open>cleanup\<close> removes the node \<open>q\<close>.\<close>

definition removes :: "int \<Rightarrow> shell \<Rightarrow> bytes \<Rightarrow> bool" where
  "removes status h q \<longleftrightarrow>
     status > 1 \<and> sh_rm_output_path_error h \<and>
     (\<exists>p. cl_output_path (sh_cli h) = Some p \<and> p \<noteq> ''/dev/null'' \<and> q = fc_cwd (sh_fs h) p)"

lemma remove_output_cases:
  obtains w err where "remove_output M status h = h\<lparr>sh_fs := w, sh_stderr := err\<rparr>" and "fs_only (sh_fs h) w"
    and "\<And>q. map_of (fs_nodes w) q = map_of (fs_nodes (sh_fs h)) q \<or> removes status h q \<and> map_of (fs_nodes w) q = None"
    and "\<And>q bs. fs_faults (sh_fs h) = [] \<Longrightarrow> removes status h q \<Longrightarrow>
      map_of (fs_nodes (sh_fs h)) q = Some (File bs) \<Longrightarrow> map_of (fs_nodes w) q = None"
proof (cases "\<exists>q. removes status h q")
  case False
  then have "remove_output M status h = h\<lparr>sh_fs := sh_fs h, sh_stderr := sh_stderr h\<rparr>"
    by (auto simp: remove_output_def removes_def split: option.splits)
  then show thesis by (rule that) (use False in auto)
next
  case True
  then obtain p where p: "status > 1" "sh_rm_output_path_error h" "cl_output_path (sh_cli h) = Some p" "p \<noteq> ''/dev/null''"
    by (auto simp: removes_def)
  then have area: "removes status h q \<longleftrightarrow> q = fc_cwd (sh_fs h) p" for q by (auto simp: removes_def)
  obtain r w where u: "sys_unlink (fc_cwd (sh_fs h) p) (sh_fs h) = (r, w)" by fastforce
  have out: "remove_output M status h = h\<lparr>sh_fs := w, sh_stderr := sh_stderr (remove_output M status h)\<rparr>"
    using p u by (cases r) (simp_all add: remove_output_def)
  show thesis
  proof (rule that [OF out fs_only_sys_unlink [OF u]])
    show "map_of (fs_nodes w) q = map_of (fs_nodes (sh_fs h)) q \<or> removes status h q \<and> map_of (fs_nodes w) q = None" for q
      using u unfolding area
      by (auto simp: sys_unlink_def fs_call_def split: prod.splits option.splits node.splits if_splits)
    show "map_of (fs_nodes w) q = None" if "fs_faults (sh_fs h) = []" "removes status h q"
      "map_of (fs_nodes (sh_fs h)) q = Some (File bs)" for q bs
      using u that unfolding area by (auto simp: sys_unlink_def calm_call)
  qed
qed

text \<open>
  So \<^verbatim>\<open>cleanup\<close> always returns; when no set of a wrap is left behind, the only file it may remove is
  the output.
\<close>

lemma cleanup_returns:
  obtains w sv err where "cleanup M status h = Ret () (h\<lparr>sh_service := sv, sh_fs := w, sh_stderr := err\<rparr>)"
    and "fc_cli w = sh_cli h"
    and "\<And>q. fc_wrap_set (sh_fs h) = [] \<Longrightarrow>
      map_of (fs_nodes w) q = map_of (fs_nodes (sh_fs h)) q \<or> removes status h q \<and> map_of (fs_nodes w) q = None"
    and "\<And>q bs. fc_wrap_set (sh_fs h) = [] \<Longrightarrow> fs_faults (sh_fs h) = [] \<Longrightarrow> removes status h q \<Longrightarrow>
      map_of (fs_nodes (sh_fs h)) q = Some (File bs) \<Longrightarrow> map_of (fs_nodes w) q = None"
proof -
  obtain w1 sv where c: "(case the_service M h of None \<Rightarrow> Ret () h
      | Some sv \<Rightarrow> proceed (sv_close sv h) (\<lambda>_ h. Ret () (h\<lparr>sh_service := None\<rparr>))) =
        Ret () (h\<lparr>sh_fs := w1, sh_service := sv\<rparr>)" and w1: "fc_cli w1 = sh_cli h"
    "fc_wrap_set (sh_fs h) = [] \<Longrightarrow> fs_nodes w1 = fs_nodes (sh_fs h) \<and> fs_only (sh_fs h) w1 \<and>
      (fs_faults (sh_fs h) = [] \<longrightarrow> w1 = sh_fs h)"
  proof (cases "the_service M h")
    case None
    then show thesis by (intro that [of "sh_service h" "sh_fs h"]) auto
  next
    case (Some sv)
    from the_service_in [OF this] obtain err w where "sv_close sv h = Ret err (h\<lparr>sh_fs := w\<rparr>)" "fc_cli w = sh_cli h"
      "fc_wrap_set (sh_fs h) = [] \<Longrightarrow> fs_nodes w = fs_nodes (sh_fs h) \<and> fs_only (sh_fs h) w \<and>
        (fs_faults (sh_fs h) = [] \<longrightarrow> w = sh_fs h)" by (rule close_returns [of sv M h]) blast
    then show thesis using Some by (intro that [of None w]) auto
  qed
  obtain r2 w2 where t2: "fs_touch w1 = (r2, w2)" by fastforce
  obtain r3 w3 where t3: "fs_touch w2 = (r3, w3)" by fastforce
  have w3: "fc_cli w3 = sh_cli h" "fs_nodes w3 = fs_nodes w1" "fs_only w1 w3"
    using touch_same [OF t2] touch_same [OF t3] w1(1)
      fs_only_trans [OF fs_only_touch [OF t2] fs_only_touch [OF t3]] by auto
  have calm: "w3 = w1" if "fs_faults w1 = []" using t2 t3 that by (simp add: fs_touch_calm)
  let ?h = "h\<lparr>sh_service := sv, sh_fs := w3\<rparr>"
  obtain w err where out: "remove_output M status ?h = ?h\<lparr>sh_fs := w, sh_stderr := err\<rparr>"
    and w: "fs_only (sh_fs ?h) w"
      "\<And>q. map_of (fs_nodes w) q = map_of (fs_nodes (sh_fs ?h)) q \<or> removes status ?h q \<and> map_of (fs_nodes w) q = None"
      "\<And>q bs. fs_faults (sh_fs ?h) = [] \<Longrightarrow> removes status ?h q \<Longrightarrow>
        map_of (fs_nodes (sh_fs ?h)) q = Some (File bs) \<Longrightarrow> map_of (fs_nodes w) q = None"
    by (rule remove_output_cases [where M = M and status = status and h = ?h]) (rule that; assumption)
  have same: "removes status ?h q = removes status h q" if "fc_wrap_set (sh_fs h) = []" for q
    using w1(2) [OF that] only_cli(2) [of "sh_fs h" w1] only_cli(2) [OF w3(3)] w3(1) by (simp add: removes_def)
  show thesis
  proof (rule that [of err w sv])
    show "cleanup M status h = Ret () (h\<lparr>sh_service := sv, sh_fs := w, sh_stderr := err\<rparr>)"
      using out t2 t3 unfolding cleanup_def c by simp
    show "fc_cli w = sh_cli h" using only_cli(1) [OF w(1)] w3(1) by simp
    show "map_of (fs_nodes w) q = map_of (fs_nodes (sh_fs h)) q \<or> removes status h q \<and> map_of (fs_nodes w) q = None"
      if "fc_wrap_set (sh_fs h) = []" for q
      using w(2) [of q] same [OF that] w1(2) [OF that] w3(2) by simp
    show "map_of (fs_nodes w) q = None" if "fc_wrap_set (sh_fs h) = []" "fs_faults (sh_fs h) = []"
      "removes status h q" "map_of (fs_nodes (sh_fs h)) q = Some (File bs)" for q bs
      using w(3) [of q bs] same [OF that(1)] w1(2) [OF that(1)] calm that by simp
  qed
qed

text \<open>What is left of an output file that was there, at the end of a run with that status.\<close>

lemma cli_die_exits:
  obtains h' where "cli_die M msg h = Exited h'" and "cl_exit (sh_cli h') = 3"
    and "cl_output (sh_cli h') = cl_output (sh_cli h)"
    and "\<And>q. fc_wrap_set (sh_fs h) = [] \<Longrightarrow>
      map_of (fs_nodes (sh_fs h')) q = map_of (fs_nodes (sh_fs h)) q \<or>
      removes 3 h q \<and> map_of (fs_nodes (sh_fs h')) q = None"
    and "\<And>q bs. fc_wrap_set (sh_fs h) = [] \<Longrightarrow> fs_faults (sh_fs h) = [] \<Longrightarrow> removes 3 h q \<Longrightarrow>
      map_of (fs_nodes (sh_fs h)) q = Some (File bs) \<Longrightarrow> map_of (fs_nodes (sh_fs h')) q = None"
proof -
  obtain w sv err where c: "cleanup M 3 h = Ret () (h\<lparr>sh_service := sv, sh_fs := w, sh_stderr := err\<rparr>)"
    and w: "fc_cli w = sh_cli h"
      "\<And>q. fc_wrap_set (sh_fs h) = [] \<Longrightarrow>
        map_of (fs_nodes w) q = map_of (fs_nodes (sh_fs h)) q \<or> removes 3 h q \<and> map_of (fs_nodes w) q = None"
      "\<And>q bs. fc_wrap_set (sh_fs h) = [] \<Longrightarrow> fs_faults (sh_fs h) = [] \<Longrightarrow> removes 3 h q \<Longrightarrow>
        map_of (fs_nodes (sh_fs h)) q = Some (File bs) \<Longrightarrow> map_of (fs_nodes w) q = None"
    by (rule cleanup_returns [where M = M and status = 3 and h = h]) (rule that; assumption)
  let ?h = "h\<lparr>sh_service := sv, sh_fs := w, sh_stderr := err,
    sh_last_words := if cl_verb (fc_cli w) \<noteq> [] then [cl_verb (fc_cli w), msg] else [msg]\<rparr>"
  have "cli_die M msg h = Exited (on_sh_cli (\<lambda>s. s\<lparr>cl_exit := 3\<rparr>) ?h)"
    by (simp add: cli_die_def c exit_with_def)
  then show thesis by (rule that) (use w in auto)
qed

lemma die_keeps:
  assumes "fc_wrap_set (sh_fs h) = []" and "\<not> removes 3 h q"
  shows "\<exists>h'. cli_die M msg h = Exited h' \<and> cl_exit (sh_cli h') = 3 \<and>
    map_of (fs_nodes (sh_fs h')) q = map_of (fs_nodes (sh_fs h)) q"
  by (rule cli_die_exits [of M msg h]) (use assms in blast)

lemma eopt_die: "\<exists>msg. \<forall>h. eopt2 M opt why1 why2 h = cli_die M msg h" "\<exists>msg. \<forall>h. eopt M opt why h = cli_die M msg h"
  "\<exists>msg. \<forall>h. no_opt M opt h = cli_die M msg h" "\<exists>msg. \<forall>h. enot M opt h = cli_die M msg h"
  "\<exists>msg. \<forall>h. die2 M m1 m2 h = cli_die M msg h"
  by (simp_all add: eopt2_def eopt_def no_opt_def enot_def die2_def Let_def) blast+

lemma xref_argv_cases:
  obtains "xref_complaint (sh_service h \<noteq> None) (sh_cli h) = None" and "xref_argv M h = Ret () h"
  | msg where "xref_complaint (sh_service h \<noteq> None) (sh_cli h) \<noteq> None" and "xref_argv M h = cli_die M msg h"
proof (cases "xref_complaint (sh_service h \<noteq> None) (sh_cli h)")
  case None
  then show thesis by (intro that(1)) (simp_all add: xref_argv_def)
next
  case (Some c)
  have "\<exists>msg. xref_argv M h = cli_die M msg h"
    using Some by (cases c) (auto simp: xref_argv_def no_opt_def enot_def eopt_def)
  then show thesis using Some that(2) by auto
qed

text \<open>
  C8: an output file that is there already.  When the command line has been read and names an output
  file that exists, the run ends with status 3.  The file is kept only if \<^verbatim>\<open>main\<close> gets as far as the test
  that refuses to overwrite it: when an option is missing or not needed, or the input is not there,
  the program removes the file, which it has not made.
\<close>

theorem existing_output_file:
  assumes "sys_clock h = (Inr start_time, h0)" and "parse_argv M args h0 = Ret () h1"
    and "cl_output_path (sh_cli h1) = Some p" and "p \<noteq> ''/dev/null''"
    and "map_of (fs_nodes (sh_fs h1)) (fc_cwd (sh_fs h1) p) = Some (File bs)"
    and "fs_faults (sh_fs h1) = []" and "fc_wrap_set (sh_fs h1) = []" and "sh_rm_output_path_error h1"
  shows "\<exists>h'. cli_main M args h = Exited h' \<and> cl_exit (sh_cli h') = 3 \<and>
    map_of (fs_nodes (sh_fs h')) (fc_cwd (sh_fs h1) p) =
      (if xref_complaint (sh_service h1 \<noteq> None) (sh_cli h1) \<noteq> None \<or>
          (\<exists>i. cl_input_path (sh_cli h1) = Some i \<and> map_of (fs_nodes (sh_fs h1)) (fc_cwd (sh_fs h1) i) = None)
       then None else Some (File bs))"
proof -
  let ?q = "fc_cwd (sh_fs h1) p"
  have rm: "removes 3 h1 ?q" using assms(3,4,8) by (auto simp: removes_def)
  have gone: "\<exists>h'. cli_die M msg h1 = (Exited h' :: (unit, shell) outcome) \<and> cl_exit (sh_cli h') = 3 \<and>
      map_of (fs_nodes (sh_fs h')) ?q = None" for msg
    using cli_die_exits [of M msg h1] assms(5-7) rm by metis
  have main: "cli_main M args h = proceed (xref_argv M h1) (\<lambda>_. main_request M start_time)"
    by (simp add: cli_main_def assms(1,2))
  have stat: "io_fs_lstat q (sh_fs h1) =
      ((case map_of (fs_nodes (sh_fs h1)) q of None \<Rightarrow> Inl ENOENT | Some n \<Rightarrow> Inr n), sh_fs h1)" for q
    using assms(6) by (simp add: io_fs_lstat_def calm_call split: option.splits)
  show ?thesis
  proof (cases rule: xref_argv_cases [of h1 M])
    case (2 msg)
    then show ?thesis using gone [of msg] unfolding main by auto
  next
    case 1
    show ?thesis
    proof (cases "\<exists>i. cl_input_path (sh_cli h1) = Some i \<and> map_of (fs_nodes (sh_fs h1)) (fc_cwd (sh_fs h1) i) = None")
      case True
      then obtain msg where "check_input M h1 = cli_die M msg h1"
        using stat eopt_die(1) by (fastforce simp: check_input_def)
      then show ?thesis
        using True gone [of msg] unfolding main 1 main_request_def by auto
    next
      case False
      let ?h = "h1\<lparr>sh_rm_output_path_error := False\<rparr>"
      have i: "check_input M h1 = Ret () h1"
        using False stat by (auto simp: check_input_def split: option.splits)
      obtain msg where o: "check_output M h1 = cli_die M msg ?h"
        using stat assms(3-5) eopt_die(1) [of M "''output-path''" "''refuse to overwrite file''" p]
        by (auto simp: check_output_def)
      have "\<not> removes 3 ?h ?q" "fc_wrap_set (sh_fs ?h) = []" using assms(7) by (simp_all add: removes_def)
      from die_keeps [OF this(2,1), of M msg]
      obtain h' where "cli_die M msg ?h = (Exited h' :: (unit, shell) outcome)" "cl_exit (sh_cli h') = 3"
        "map_of (fs_nodes (sh_fs h')) ?q = Some (File bs)"
        using assms(5) by auto
      then show ?thesis
        using False 1(1) unfolding main 1(2) proceed.simps main_request_def i o by auto
    qed
  qed
qed

text \<open>The program before \<^verbatim>\<open>main\<close>.\<close>

definition cli0 :: cli where
  "cli0 =
     \<lparr>cl_verb = [], cl_algorithm = [], cl_algo = [], cl_fnp = [], cl_udig = [], cl_ascii_digest = [],
      cl_output_path = None, cl_input_path = None, cl_brr_mask = 0, cl_chat_history = [],
      cl_io_timeout = -1, cl_blob_size = 0, cl_trust_fs = -1, cl_digest = None,
      cl_digest_state = digest_state0, cl_ok_no = 0, cl_server = [], cl_sent = [],
      cl_server_writes = [], cl_input = [], cl_output = [], cl_output_writes = [], cl_unlink = Inr (),
      cl_exit = 0\<rparr>"

definition a_shell :: "(bytes \<times> node) list \<Rightarrow> shell" where
  "a_shell ns =
     \<lparr>sh_fs = (a_fs_client ns cli0)\<lparr>fc_data := [], fc_open := False, fc_end_point := []\<rparr>,
      sh_net = \<lparr>nw_hosts = [], nw_sockets = [], nw_connects = [], nw_getsockname = None, nw_peer = [],
                nw_server = False, nw_transport = []\<rparr>,
      sh_service = None, sh_query = [], sh_qargs = qargs0, sh_tracing = False,
      sh_rm_output_path_error = True, sh_output = Out_std,
      sh_clock = [Inr \<lparr>tv_sec = 5, tv_nsec = 7\<rparr>, Inr \<lparr>tv_sec = 5, tv_nsec = 4007\<rparr>], sh_stderr = [],
      sh_last_words = []\<rparr>"

definition a_main_lib :: main_lib where
  "a_main_lib =
     \<lparr>ml_jm = a_jmscott, ml_ssl = an_openssl, ml_strerror = (\<lambda>_. ''error''), ml_a2ui63 = (\<lambda>a. Inr (undec a)),
      ml_gmtime = (\<lambda>_. Inr (a_time\<lparr>tm_year := 2024\<rparr>)), ml_host_name_max = 64\<rparr>"

text \<open>A get without a service: the file of the user is gone.\<close>

theorem existing_output_file_witness:
  "\<exists>h'. cli_main a_main_lib [''get'', ''--output-path'', ''thesis.pdf'']
      (a_shell [(''home/thesis.pdf'', File ''x'')]) = Exited h' \<and>
    cl_exit (sh_cli h') = 3 \<and> map_of (fs_nodes (sh_fs h')) ''home/thesis.pdf'' = None"
proof -
  let ?h = "a_shell [(''home/thesis.pdf'', File ''x'')]"
  let ?k = "?h\<lparr>sh_clock := tl (sh_clock ?h)\<rparr>"
  let ?l = "on_sh_cli (\<lambda>s. s\<lparr>cl_verb := ''get'', cl_output_path := Some ''thesis.pdf'', cl_io_timeout := 0\<rparr>) ?k"
  have p: "parse_argv a_main_lib [''get'', ''--output-path'', ''thesis.pdf''] ?k = Ret () ?l"
    by (simp add: parse_argv_def request_verbs_def parse_options.simps next_arg_def opt_output_path_def Let_def
        options_end_def the_service_def a_shell_def a_fs_client_def cli0_def)
  have "xref_complaint (sh_service ?l \<noteq> None) (sh_cli ?l) \<noteq> None"
    unfolding xref_complaint_def Let_def by (simp add: a_shell_def)
  moreover have c: "sys_clock ?h = (Inr \<lparr>tv_sec = 5, tv_nsec = 7\<rparr>, ?k)"
    by (simp add: sys_clock_def a_shell_def)
  ultimately show ?thesis
    using existing_output_file [OF c p, of "''thesis.pdf''" "''x''"] by (simp add: a_shell_def a_fs_client_def)
qed

section \<open>The options of a verb\<close>

datatype opt = Service | Udig | Algorithm | Input_path | Output_path

definition given :: "bool \<Rightarrow> cli \<Rightarrow> opt set" where
  "given service s =
     {opt. case opt of
        Service \<Rightarrow> service
      | Udig \<Rightarrow> cl_ascii_digest s \<noteq> []
      | Algorithm \<Rightarrow> cl_algorithm s \<noteq> []
      | Input_path \<Rightarrow> cl_input_path s \<noteq> None
      | Output_path \<Rightarrow> cl_output_path s \<noteq> None}"

text \<open>For every verb, the options that it needs and those that it must not have; a local eat and empty have a choice.\<close>

definition verb_options :: "bytes \<Rightarrow> (opt set \<times> opt set) list" where
  "verb_options v =
     (if v \<in> {''get'', ''take''} then [({Service, Udig}, {Input_path})]
      else if v \<in> {''put'', ''give''} then [({Service, Udig}, {Output_path})]
      else if v = ''roll'' then [({Service, Udig}, {Input_path, Output_path})]
      else if v = ''wrap'' then [({Service}, {Input_path, Udig, Algorithm})]
      else if v = ''eat'' then [({Service, Udig}, {Input_path, Output_path}), ({Algorithm}, {Service, Udig})]
      else if v = ''empty'' then [({Algorithm}, {Service, Input_path, Output_path})]
      else [])"



section \<open>A request to the file service\<close>

text \<open>
  The command line of a request to the directory of a server, and what the program has read from it.
\<close>

definition fs_line :: "bytes \<Rightarrow> bytes \<Rightarrow> bytes \<Rightarrow> bytes \<Rightarrow> bytes list" where
  "fs_line v a d root = [v, ''--udig'', a @ CHR '':'' # d, ''--service'', ''fs:'' @ root]"

definition started :: "shell \<Rightarrow> bool" where
  "started h \<longleftrightarrow>
     sh_service h = None \<and> sh_rm_output_path_error h \<and> fc_wrap_set (sh_fs h) = [] \<and>
     \<not> fc_open (sh_fs h) \<and>
     (let s = sh_cli h in
      cl_algorithm s = [] \<and> cl_algo s = [] \<and> cl_fnp s = [] \<and> cl_ascii_digest s = [] \<and> cl_output_path s = None \<and>
      cl_input_path s = None \<and> cl_brr_mask s = 0 \<and> cl_io_timeout s = -1 \<and> cl_output s = [])"

definition good_line :: "main_lib \<Rightarrow> bytes \<Rightarrow> bytes \<Rightarrow> bytes \<Rightarrow> cli_digest \<Rightarrow> bool" where
  "good_line M a d root di \<longleftrightarrow>
     lib_frisk_udig (ml_jm M) (a @ CHR '':'' # d) = None \<and> CHR '':'' \<notin> set a \<and> a \<noteq> [] \<and> length a \<le> 8 \<and>
     find_digest (ml_ssl M) a = Some di \<and> length d \<le> 128 \<and> d \<noteq> [] \<and> di_syntax di d \<noteq> 0 \<and>
     root \<noteq> [] \<and> length root < 128 \<and> list_all c_isgraph root \<and> CHR ''?'' \<notin> set root \<and> CHR ''&'' \<notin> set root"

definition fs_request :: "bytes \<Rightarrow> bytes \<Rightarrow> bytes \<Rightarrow> bytes \<Rightarrow> cli_digest \<Rightarrow> shell \<Rightarrow> shell" where
  "fs_request v a d root di h =
     h\<lparr>sh_service := Some ''fs'',
       sh_fs := (sh_fs h)\<lparr>fc_end_point := root,
         fc_cli := (sh_cli h)\<lparr>cl_verb := v, cl_algorithm := a, cl_fnp := ''fs'', cl_udig := a @ CHR '':'' # d,
           cl_ascii_digest := d, cl_io_timeout := 0, cl_digest := Some di\<rparr>\<rparr>\<rparr>"

lemma end_point_plain:
  "list_all c_isgraph p \<Longrightarrow> CHR ''?'' \<notin> set p \<Longrightarrow> CHR ''&'' \<notin> set p \<Longrightarrow> end_point_error q p = None"
  by (induction p) auto

lemma takeWhile_other: "c \<notin> set p \<Longrightarrow> takeWhile (\<lambda>x. x \<noteq> c) (p @ c # r) = p"
  by (induction p) auto

lemma takeWhile_same: "c \<notin> set p \<Longrightarrow> takeWhile (\<lambda>x. x \<noteq> c) p = p"
  by (induction p) auto

lemma find_fs: "find_service M ''fs'' = Some (fs_service M)"
  by (simp add: find_service_def services_def bio4_service_def fs_service_def Let_def)

lemma parse_fs_line:
  assumes jm: "libjmscott (ml_jm M)" and line: "good_line M a d root di" and h: "started h"
    and v: "v \<in> set request_verbs"
  shows "parse_argv M (fs_line v a d root) h = Ret () (fs_request v a d root di h)"
proof -
  note st = libjmscott.strcat [OF jm]
  let ?h1 = "on_sh_cli (\<lambda>s. s\<lparr>cl_verb := v\<rparr>) h"
  let ?h2 = "on_sh_cli (\<lambda>s. s\<lparr>cl_algorithm := a, cl_ascii_digest := d, cl_digest := Some di,
      cl_udig := a @ CHR '':'' # d\<rparr>) ?h1"
  have u: "opt_udig M (Some (a @ CHR '':'' # d)) ?h1 = Ret () ?h2"
    using line h by (simp add: opt_udig_def good_line_def started_def Let_def takeWhile_other st UDIG_SIZE_def)
  have s: "opt_service M (Some (''fs:'' @ root)) ?h2 =
      Ret () (?h2\<lparr>sh_service := Some ''fs'', sh_fs := (sh_fs ?h2)\<lparr>fc_end_point := root,
        fc_cli := (sh_cli ?h2)\<lparr>cl_fnp := ''fs''\<rparr>\<rparr>\<rparr>)"
  proof -
    have r: "root \<noteq> []" "length root < 128" "CHR ''?'' \<notin> set root" "end_point_error False root = None"
      using line end_point_plain by (simp_all add: good_line_def)
    then have "hd root \<noteq> CHR ''?''" using hd_in_set by metis
    then show ?thesis
      using r h by (simp add: opt_service_def started_def Let_def find_fs takeWhile_same
          service_end_point_def fs_service_def on_fs_def fs_end_point_syntax_def BLOBIO_MAX_FS_PATH_def)
  qed
  have o: "parse_options M [''--udig'', a @ CHR '':'' # d, ''--service'', ''fs:'' @ root] ?h1 =
      Ret () (?h2\<lparr>sh_service := Some ''fs'', sh_fs := (sh_fs ?h2)\<lparr>fc_end_point := root,
        fc_cli := (sh_cli ?h2)\<lparr>cl_fnp := ''fs''\<rparr>\<rparr>\<rparr>)"
    using u s by (simp add: parse_options.simps next_arg_def Let_def)
  have "v \<noteq> ''help''" "v \<noteq> ''--help''" using v by (auto simp: request_verbs_def)
  then show ?thesis
    using v o h unfolding parse_argv_def fs_line_def fs_request_def list.case
    by (simp add: options_end_def the_service_def find_fs started_def Let_def)
qed

end
