(* ===== verification/Cli_Main_Get.thy ===== *)
theory Cli_Main_Get
  imports Cli_Main_Spec
begin

text \<open>
  A get from the directory of a server, from the command line to the exit status.
\<close>

section \<open>Opening the service\<close>

text \<open>Nothing is in the way of the directory of the module.\<close>

definition data_room :: "bytes \<Rightarrow> client \<Rightarrow> bool" where
  "data_room a w \<longleftrightarrow> (\<forall>q \<in> set (slash_prefixes [] (one_slash (''data/fs_'' @ a) @ ''/'')). room_at q w)"

lemma client_fields_only:
  assumes "fs_only w w'"
  shows "fc_data w' = fc_data w" "fs_dev w' = fs_dev w" "fc_wrap_set w' = fc_wrap_set w"
proof -
  obtain f n where "w' = w\<lparr>fs_faults := f, fs_nodes := n\<rparr>" using assms unfolding fs_only_def by blast
  then show "fc_data w' = fc_data w" "fs_dev w' = fs_dev w" "fc_wrap_set w' = fc_wrap_set w" by simp_all
qed

context libjmscott
begin

lemma open_get:
  assumes "cl_verb (fc_cli w) = ''get''" and "cl_input_path (fc_cli w) = None"
    and "length (cl_algorithm (fc_cli w)) \<le> 8" and "fs_open ssl J w = (err, w')"
  shows "fc_cli w' = fc_cli w" and "fs_dev w' = fs_dev w" and "fc_file_writes w' = fc_file_writes w"
    and "only_dirs_added w w'"
    and "err = None \<Longrightarrow> fc_data w' = algorithm_root (cl_algorithm (fc_cli w))"
    and "fs_faults w = [] \<Longrightarrow> data_room (cl_algorithm (fc_cli w)) w \<Longrightarrow> err = None \<and> fs_faults w' = []"
    and "map_of (fs_nodes w') q \<noteq> map_of (fs_nodes w) q \<Longrightarrow>
      q \<in> set (slash_prefixes [] (one_slash (''data/fs_'' @ cl_algorithm (fc_cli w)) @ ''/''))"
proof -
  let ?a = "cl_algorithm (fc_cli w)"
  obtain r w1 where t: "fs_touch w = (r, w1)" by fastforce
  note w1 = touch_same [OF t] fs_only_touch [OF t] only_cli [OF fs_only_touch [OF t]]
    client_fields_only [OF fs_only_touch [OF t]]
  let ?w = "w1\<lparr>fc_open := True, fc_data := ''data/fs_'' @ ?a\<rparr>"
  obtain e w2 where m: "jm_mkdirat_path J (''data/fs_'' @ ?a) ?w = (e, w2)" by fastforce
  have s: "jm_strcat J 17 [] [''data/fs_'', ?a] = ''data/fs_'' @ ?a" using assms(3) by (simp add: strcat)
  have o: "fs_open ssl J w = (case r of Inl e \<Rightarrow> (Some (Strerror e), w1) | Inr _ \<Rightarrow> (e, w2))"
    using assms(1,2) t m w1(3)
    by (auto simp: fs_open_def fs_open_dirs_def sys_def lib_def Let_def s split: sum.splits option.splits)
  note m2 = mkdir_only [OF m]
  have add: "only_dirs_added w w2" using m2 w1 by (simp add: only_dirs_added_def)
  have add1: "only_dirs_added w w1" using w1 by (simp add: only_dirs_added_def)
  note k = only_cli [OF m2 [THEN conjunct2]] client_fields_only [OF m2 [THEN conjunct2]]
  show "fc_cli w' = fc_cli w" "fs_dev w' = fs_dev w" "fc_file_writes w' = fc_file_writes w" "only_dirs_added w w'"
    using assms(4) o w1 k add add1 by (cases r; simp)+
  show "err = None \<Longrightarrow> fc_data w' = algorithm_root ?a"
    using assms(4) o k by (cases r) (simp_all add: algorithm_root_def)
  show "q \<in> set (slash_prefixes [] (one_slash (''data/fs_'' @ ?a) @ ''/''))"
    if "map_of (fs_nodes w') q \<noteq> map_of (fs_nodes w) q"
  proof (cases r)
    case (Inl e)
    then show ?thesis using that assms(4) o w1(1) by simp
  next
    case (Inr u)
    then show ?thesis using that assms(4) o w1(1) mkdir_where [OF m, of q] by simp
  qed
  show "err = None \<and> fs_faults w' = []" if "fs_faults w = []" "data_room ?a w"
  proof -
    have r: "r = Inr ()" "w1 = w" using t that(1) by (simp_all add: fs_touch_calm)
    have "e = None \<and> fs_faults w2 = []"
      using mkdir_calm [OF m] that r by (simp add: data_room_def room_at_def standing_def)
    then show ?thesis using assms(4) o r by simp
  qed
qed

lemma get_answer:
  assumes "fs_ready ssl w" and "cl_output_path (fc_cli w) = None" and "fs_get J w = (None, w')"
  shows "cl_ok_no (fc_cli w') = 0 \<or> cl_ok_no (fc_cli w') = 1 \<and> cl_output (fc_cli w') = cl_output (fc_cli w)"
proof -
  obtain p where p: "fs_blob_path J (BLOBIO_MAX_FS_PATH + 1) w = Inr p" using ready_path [OF assms(1)] by blast
  obtain r w1 where o: "io_fs_open (one_slash p) w = (r, w1)" by fastforce
  note c = only_cli(1) [OF fs_only_open [OF o]]
  have g: "get_copy J p None w = (None, w')" using assms(2,3) p by (simp add: fs_get_def val_or_def)
  show ?thesis
  proof (cases r)
    case (Inl e)
    then show ?thesis using g o c by (auto simp: get_copy_def answer_def fs_add_chat_def split: if_splits)
  next
    case (Inr bs)
    then show ?thesis
      using g o c assms(2)
      by (fastforce simp: get_copy_def answer_def fs_add_chat_def Let_def send_stdout_def
          split: prod.splits dest!: bye_same)
  qed
qed

lemma get_missing:
  assumes "fs_ready ssl w" and "fs_faults w = []" and "map_of (fs_nodes w) (store_path w) = None"
    and "cl_output_path (fc_cli w) = None"
  shows "fst (fs_get J w) = None \<and> cl_ok_no (fc_cli (snd (fs_get J w))) = 1"
proof -
  obtain p where p: "fs_blob_path J (BLOBIO_MAX_FS_PATH + 1) w = Inr p" "one_slash p = store_path w"
    using ready_path [OF assms(1)] by blast
  have "io_fs_open (one_slash p) w = (Inl ENOENT, w)"
    using assms(2,3) p(2) by (simp add: io_fs_open_def calm_call)
  then show ?thesis using assms(4) p(1) by (simp add: fs_get_def val_or_def get_copy_def answer_def fs_add_chat_def)
qed

lemma get_live:
  assumes "fs_ready ssl w" and "fs_calm w" and "cl_output_path (fc_cli w) = None"
    and "map_of (fs_nodes w) (store_path w) \<in> {None, Some (File bs)}" and "fs_get J w = (err, w')"
  shows "err = None \<and> cl_ok_no (fc_cli w') = (if map_of (fs_nodes w) (store_path w) = None then 1 else 0)"
proof (cases "map_of (fs_nodes w) (store_path w) = None")
  case True
  then show ?thesis using get_missing [OF assms(1) _ _ assms(3)] assms(2,5) by (simp add: fs_calm_def)
next
  case False
  then have "map_of (fs_nodes w) (store_path w) = Some (File bs)" using assms(4) by auto
  then show ?thesis using get_succeeds [OF assms(1,2) _ assms(3)] False assms(5) by simp
qed

text \<open>Opening the service makes directories, but none where the blob would be.\<close>

lemma open_get_blob:
  assumes "cl_verb (fc_cli w) = ''get''" and "cl_input_path (fc_cli w) = None"
    and "length (cl_algorithm (fc_cli w)) \<le> 8" and "fs_open ssl J w = (None, w')" and "fs_ready ssl w'"
  shows "map_of (fs_nodes w') (store_path w') = Some (File cs) \<longleftrightarrow> map_of (fs_nodes w) (store_path w') = Some (File cs)"
    and "map_of (fs_nodes w) (store_path w') = None \<Longrightarrow> map_of (fs_nodes w') (store_path w') = None"
proof -
  note op = open_get [OF assms(1-4)]
  show "map_of (fs_nodes w') (store_path w') = Some (File cs) \<longleftrightarrow> map_of (fs_nodes w) (store_path w') = Some (File cs)"
    using op(4) unfolding only_dirs_added_def by (metis node.distinct(1) option.distinct(1) option.inject)
  let ?a = "cl_algorithm (fc_cli w)"
  have "length (store_path w') \<ge> length (''data/fs_'' @ ?a @ ''/'')" "?a \<in> {''sha'', ''bc160'', ''btc20''}"
    using ready_names(1) [OF assms(5)] op(1,5) by (simp_all add: blob_path_def blob_dir_def algorithm_root_def)
  then have "store_path w' \<notin> set (slash_prefixes [] (one_slash (''data/fs_'' @ ?a) @ ''/''))"
    using slash_prefixes_shorter [of "store_path w'" "[]" "one_slash (''data/fs_'' @ ?a) @ ''/''"] by auto
  then show "map_of (fs_nodes w) (store_path w') = None \<Longrightarrow> map_of (fs_nodes w') (store_path w') = None"
    using op(7) [of "store_path w'"] by metis
qed

end

section \<open>The run\<close>

lemma die2_exits: "\<exists>h'. die2 M m1 m2 h = Exited h' \<and> cl_exit (sh_cli h') = 3"
  unfolding die2_def by (rule cli_die_exits [of M "msg_cat M [] [m1, '': '', m2]" h]) blast

lemma die2_proceed: "proceed (die2 M m1 m2 h :: (unit, shell) outcome) f = (die2 M m1 m2 h :: (unit, shell) outcome)"
  using die2_exits [of M m1 m2 h, where ?'a = unit] by auto

lemma no_mask: "\<not> cli_brr_mask_is_set v 0"
  by (simp add: cli_brr_mask_is_set_def Let_def)

text \<open>What is left of the run when \<^verbatim>\<open>fs_get\<close> is called.\<close>

lemma get_end:
  assumes jm: "libjmscott (ml_jm M)" and "sh_service h = Some ''fs''" and "cl_verb (sh_cli h) = ''get''" and "cl_brr_mask (sh_cli h) = 0"
    and "cl_input_path (sh_cli h) = None" and "cl_output_path (sh_cli h) = None"
    and "fs_get (ml_jm M) (sh_fs h) = (err, w)"
  shows "\<exists>h'. proceed (open_input M h) (\<lambda>_ h. proceed (open_output M h) (\<lambda>_ h.
      proceed (run_verb M h) (\<lambda>exit_status h. proceed (log_request M start_time h) (\<lambda>_ h.
      proceed (cleanup M exit_status h) (\<lambda>_. exit_with exit_status))))) = Exited h' \<and>
    cl_exit (sh_cli h') = (if err = None then nat (cl_ok_no (fc_cli w) mod 256) else 3) \<and>
    (err = None \<longrightarrow> cl_output (sh_cli h') = cl_output (fc_cli w))"
proof -
  have fs: "the_service M h = Some (fs_service M)" using assms(2) by (simp add: the_service_def find_fs)
  have io: "open_input M h = Ret () h" "open_output M h = Ret () h"
    using assms(5,6) by (simp_all add: open_input_def open_output_def)
  let ?h = "h\<lparr>sh_fs := w\<rparr>"
  have run: "run_verb M h = (case err of Some e \<Rightarrow> die2 M ''get failed'' (error_text M e) ?h
      | None \<Rightarrow> Ret (cl_ok_no (fc_cli w)) ?h)"
  proof -
    have "sv_get (fs_service M) h = Ret err ?h" using assms(7) by (simp add: fs_service_def Let_def on_fs_def)
    moreover have "run_verb M h = call_service M ''get failed'' (sv_get (fs_service M)) Ret h"
      unfolding run_verb_def Let_def using assms(3) fs by simp
    ultimately show ?thesis by (simp add: call_service_def split: option.splits)
  qed
  show ?thesis
  proof (cases err)
    case (Some e)
    obtain h' where "die2 M ''get failed'' (error_text M e) ?h = (Exited h' :: (int, shell) outcome)"
      "cl_exit (sh_cli h') = 3" using die2_exits by blast
    then show ?thesis using io run Some by (intro exI [of _ h']) simp
  next
    case None
    have "names w = names (sh_fs h)"
      using libjmscott.keeps_get [OF jm, of "sh_fs h"] assms(7) by (simp add: keeps_def stays_def)
    then have "cl_brr_mask (fc_cli w) = 0" using assms(4) by (simp add: names_def cli_names_def)
    then have log: "log_request M start_time ?h = Ret () ?h"
      using no_mask by (simp add: log_request_def the_service_def find_fs assms(2))
    obtain w' sv er where c: "cleanup M (cl_ok_no (fc_cli w)) ?h =
        Ret () (?h\<lparr>sh_service := sv, sh_fs := w', sh_stderr := er\<rparr>)" "fc_cli w' = sh_cli ?h"
      by (rule cleanup_returns [of M "cl_ok_no (fc_cli w)" ?h])
    show ?thesis
      by (rule exI [of _ "on_sh_cli (\<lambda>s. s\<lparr>cl_exit := nat (cl_ok_no (fc_cli w) mod 256)\<rparr>)
            (?h\<lparr>sh_service := sv, sh_fs := w', sh_stderr := er\<rparr>)"])
        (use io run None log c in \<open>simp add: exit_with_def\<close>)
  qed
qed

text \<open>The state in which \<open>main\<close> opens the service.\<close>

definition get_asked :: "bytes \<Rightarrow> bytes \<Rightarrow> bytes \<Rightarrow> cli_digest \<Rightarrow> shell \<Rightarrow> shell" where
  "get_asked a d root di h = on_sh_cli init_digest (fs_request ''get'' a d root di (h\<lparr>sh_clock := tl (sh_clock h)\<rparr>))"

lemma get_asked_simps:
  fixes a d root :: bytes and di :: cli_digest
  assumes "started h"
  defines "k \<equiv> get_asked a d root di h"
  shows "cl_verb (sh_cli k) = ''get''" "cl_algorithm (sh_cli k) = a" "cl_ascii_digest (sh_cli k) = d"
    "cl_digest (sh_cli k) = Some di" "cl_input_path (sh_cli k) = None" "cl_output_path (sh_cli k) = None"
    "cl_brr_mask (sh_cli k) = 0" "cl_output (sh_cli k) = []" "sh_service k = Some ''fs''"
    "fs_nodes (sh_fs k) = fs_nodes (sh_fs h)" "fs_faults (sh_fs k) = fs_faults (sh_fs h)"
    "fs_dev (sh_fs k) = fs_dev (sh_fs h)" "fc_file_writes (sh_fs k) = fc_file_writes (sh_fs h)"
    "cl_output_writes (sh_cli k) = cl_output_writes (sh_cli h)"
  using assms(1) by (simp_all add: k_def get_asked_def fs_request_def init_digest_def started_def Let_def)

lemma get_line_opens:
  fixes a d root :: bytes and di :: cli_digest
  assumes jm: "libjmscott (ml_jm M)" and line: "good_line M a d root di" "blob_name d"
    and start: "started h" "sh_clock h = Inr t # ts"
    and o: "fs_open (ml_ssl M) (ml_jm M) (sh_fs (get_asked a d root di h)) = (err, w)"
  defines "k \<equiv> get_asked a d root di h\<lparr>sh_fs := w\<rparr>"
  shows "cli_main M (fs_line ''get'' a d root) h =
      (case err of Some e \<Rightarrow> die2 M (buf3cat (ml_jm M) [] (MAX_ATOMIC_MSG M) ''service open('' ''fs'' '') failed'')
          (error_text M e) k
       | None \<Rightarrow> proceed (open_input M k) (\<lambda>_ h. proceed (open_output M h) (\<lambda>_ h.
          proceed (run_verb M h) (\<lambda>exit_status h. proceed (log_request M t h) (\<lambda>_ h.
          proceed (cleanup M exit_status h) (\<lambda>_. exit_with exit_status))))))"
proof -
  let ?l = "h\<lparr>sh_clock := ts\<rparr>"
  let ?r = "fs_request ''get'' a d root di ?l"
  have a: "get_asked a d root di h = on_sh_cli init_digest ?r" by (simp add: get_asked_def start(2))
  have "started ?l" using start(1) by (simp add: started_def)
  from parse_fs_line [OF jm line(1) this]
  have parse: "parse_argv M (fs_line ''get'' a d root) ?l = Ret () ?r" by (simp add: request_verbs_def)
  have r: "cl_verb (sh_cli ?r) = ''get''" "cl_ascii_digest (sh_cli ?r) \<noteq> []" "cl_input_path (sh_cli ?r) = None"
    "cl_output_path (sh_cli ?r) = None" "sh_service ?r = Some ''fs''"
    using line(1) start(1) by (simp_all add: fs_request_def good_line_def started_def Let_def)
  have "xref_argv M ?r = Ret () ?r"
    using r unfolding xref_argv_def xref_complaint_def Let_def by simp
  moreover have "check_input M ?r = Ret () ?r" "check_output M ?r = Ret () ?r"
    using r by (simp_all add: check_input_def check_output_def)
  moreover have "open_service M (get_asked a d root di h) =
      (case err of Some e \<Rightarrow> die2 M (buf3cat (ml_jm M) [] (MAX_ATOMIC_MSG M)
        ''service open('' ''fs'' '') failed'') (error_text M e) k | None \<Rightarrow> Ret () k)"
    using get_asked_simps(9) [OF start(1)] o by (simp add: open_service_def the_service_def find_fs)
      (simp add: fs_service_def Let_def on_fs_def k_def split: option.splits)
  ultimately show ?thesis
    using start(2) parse
    by (auto simp: die2_proceed cli_main_def sys_clock_def main_request_def a [symmetric] split: option.splits)
qed

text \<open>
  C3: \<^verbatim>\<open>blobio get --udig ... --service fs:...\<close>, in the directory of a server.  The program always ends, with
  status 0, 1 or 3, whatever the kernel fails on the way.  With status 0 the standard output has a blob with the
  digest that was asked for; with status 1 nothing has been written.  When nothing fails, the status is 0 if
  the blob is there and 1 if it is not.
\<close>

theorem get_from_the_command_line:
  assumes jm: "libjmscott (ml_jm M)" and store: "child_ok (ml_ssl M) r" "fs_nodes (sh_fs h) = fs_nodes (rq_module r)"
    and line: "good_line M a d root di" "blob_name d" and start: "started h" "sh_clock h = Inr t # ts"
  shows "\<exists>h'. cli_main M (fs_line ''get'' a d root) h = Exited h' \<and>
    cl_exit (sh_cli h') \<in> {0, 1, 3} \<and>
    (cl_exit (sh_cli h') = 0 \<longrightarrow> has_digest (name_hash (ml_ssl M) a) d (cl_output (sh_cli h'))) \<and>
    (cl_exit (sh_cli h') = 1 \<longrightarrow> cl_output (sh_cli h') = []) \<and>
    (fs_calm (sh_fs h) \<and> data_room a (sh_fs h) \<and>
      map_of (fs_nodes (sh_fs h)) (blob_path (algorithm_root a) d) \<in> {None, Some (File bs)} \<longrightarrow>
      cl_exit (sh_cli h') = (if map_of (fs_nodes (sh_fs h)) (blob_path (algorithm_root a) d) = None then 1 else 0))"
proof -
  let ?J = "ml_jm M" and ?k = "get_asked a d root di h" and ?b = "blob_path (algorithm_root a) d"
  note s = get_asked_simps [OF start(1), of a d root di]
  obtain err w where o: "fs_open (ml_ssl M) ?J (sh_fs ?k) = (err, w)" by fastforce
  note main = get_line_opens [OF jm line start o]
  have a8: "length (cl_algorithm (sh_cli ?k)) \<le> 8" using line(1) s by (simp add: good_line_def)
  note op = libjmscott.open_get [OF jm s(1,5) a8 o]
  have room: "data_room (cl_algorithm (sh_cli ?k)) (sh_fs ?k) = data_room a (sh_fs h)"
    unfolding data_room_def room_at_def standing_def s ..
  show ?thesis
  proof (cases err)
    case (Some e)
    have "\<not> (fs_calm (sh_fs h) \<and> data_room a (sh_fs h))"
      using op(6) Some s room by (auto simp: fs_calm_def)
    then show ?thesis unfolding main Some option.case using die2_exits by fastforce
  next
    case None
    have w: "fc_cli w = sh_cli ?k" "fc_data w = algorithm_root a" using op(1,5) None s by simp_all
    have ready: "fs_ready (ml_ssl M) w"
      using w s line by (simp add: fs_ready_def Let_def good_line_def)
    have path: "store_path w = ?b" "cl_output_path (fc_cli w) = None" "cl_output (fc_cli w) = []"
      using w s by simp_all
    note blob = libjmscott.open_get_blob [OF jm s(1,5) a8 o [unfolded None] ready, unfolded path(1) s(10)]
    obtain er v where g: "fs_get ?J w = (er, v)" by fastforce
    obtain h' where run: "cli_main M (fs_line ''get'' a d root) h = Exited h'"
      and ex: "cl_exit (sh_cli h') = (if er = None then nat (cl_ok_no (fc_cli v) mod 256) else 3)"
      and out: "er = None \<longrightarrow> cl_output (sh_cli h') = cl_output (fc_cli v)"
      unfolding main None option.case using get_end [OF jm, of "?k\<lparr>sh_fs := w\<rparr>" er v t] s w g by auto
    have good: "has_digest (name_hash (ml_ssl M) a) d (cl_output (sh_cli h'))"
      if e: "er = None" and z: "cl_ok_no (fc_cli v) = 0"
    proof -
      obtain cs where cs: "map_of (fs_nodes w) ?b = Some (File cs)" "cl_output (fc_cli v) = cs"
        using libjmscott.get_value(2) [OF jm ready _ z path(2)] g e path by auto
      have "store_ok (store_hash (ml_ssl M)) (rq_module r)" using store(1) by (simp add: child_ok_def)
      from store_path_root [OF ready this, of cs] show ?thesis
        using cs blob(1) [of cs] store(2) w s path(1) out e by simp
    qed
    have ok: "cl_ok_no (fc_cli v) = 0 \<or> cl_ok_no (fc_cli v) = 1 \<and> cl_output (fc_cli v) = []" if "er = None"
      using libjmscott.get_answer [OF jm ready path(2)] g that path(3) by auto
    have live: "er = None \<and> cl_ok_no (fc_cli v) = (if map_of (fs_nodes (sh_fs h)) ?b = None then 1 else 0)"
      if c: "fs_calm (sh_fs h)" "data_room a (sh_fs h)" "map_of (fs_nodes (sh_fs h)) ?b \<in> {None, Some (File bs)}"
    proof -
      have calm: "fs_calm w" using c op(2,3,6) s room w by (simp add: fs_calm_def one_device_def)
      have "map_of (fs_nodes w) ?b = map_of (fs_nodes (sh_fs h)) ?b" using c(3) blob by auto
      then show ?thesis
        using libjmscott.get_live [OF jm ready calm path(2) _ g, of bs] c(3) path(1) by simp
    qed
    show ?thesis using run ex good ok out live by (cases er) auto
  qed
qed

theorem get_from_the_command_line_witness:
  "\<exists>h'. cli_main a_main_lib [''get'', ''--udig'', ''sha:'' @ a_digest, ''--service'', ''fs:/srv'']
      (a_shell [(blob_path fs_sha_root a_digest, File ''x'')]) = Exited h' \<and>
    cl_exit (sh_cli h') = 0 \<and> has_digest (ossl_sha1 an_openssl) a_digest (cl_output (sh_cli h'))"
proof -
  let ?h = "a_shell [(blob_path fs_sha_root a_digest, File ''x'')]"
  have d: "find_digest an_openssl ''sha'' = Some (sha_digest an_openssl)"
    using a_client_digest [of an_openssl] by (simp add: a_client_def)
  have syn: "sha_syntax a_digest \<noteq> 0" "length a_digest = 40" by code_simp+
  have line: "good_line a_main_lib ''sha'' a_digest ''/srv'' (sha_digest an_openssl)"
    using d syn by (auto simp: good_line_def a_main_lib_def a_jmscott_def sha_digest_def c_isgraph_def)
  have start: "started ?h" "sh_clock ?h = Inr \<lparr>tv_sec = 5, tv_nsec = 7\<rparr> # [Inr \<lparr>tv_sec = 5, tv_nsec = 4007\<rparr>]"
    by (simp_all add: started_def a_shell_def a_fs_client_def cli0_def)
  have n: "fs_nodes (sh_fs ?h) = fs_nodes (rq_module (an_x_child []))"
    by (simp add: a_shell_def a_fs_client_def an_x_child_def req_init_def)
  have jm: "libjmscott (ml_jm a_main_lib)" using a_jm.libjmscott_axioms by (simp add: a_main_lib_def)
  have r: "child_ok (ml_ssl a_main_lib) (an_x_child [])" using an_x_child_ok by (simp add: a_main_lib_def)
  have root: "algorithm_root ''sha'' = fs_sha_root" by (simp add: algorithm_root_def fs_sha_root_def)
  have "fs_calm (sh_fs ?h)"
    by (simp add: fs_calm_def a_shell_def a_fs_client_def cli0_def one_device_def)
  moreover have "data_room ''sha'' (sh_fs ?h)"
    by (simp add: data_room_def room_at_def standing_def a_shell_def a_fs_client_def blob_path_def blob_dir_def
        fs_sha_root_def)
  moreover have "map_of (fs_nodes (sh_fs ?h)) (blob_path fs_sha_root a_digest) = Some (File ''x'')"
    by (simp add: a_shell_def a_fs_client_def)
  ultimately show ?thesis
    using get_from_the_command_line [OF jm r n line a_digest_name start, of "''x''"]
    by (auto simp: fs_line_def root name_hash_def a_main_lib_def)
qed

end
