(* ===== verification/Flowd_Execv.thy ===== *)
theory Flowd_Execv
  imports Brr_Record
begin

text \<open>
  The worker \<^verbatim>\<open>flowd/flowd-execv.c\<close> of the flow daemon: it reads argument vectors from its standard input,
  runs each as a process, and answers with a record of how the process ended and with its output.
\<close>

section \<open>The state\<close>

definition MAX_X_ARG :: nat where "MAX_X_ARG = 256"
definition MAX_X_ARGC :: nat where "MAX_X_ARGC = 64"

text \<open>
  A process that is run: what reading its output delivers, how it ends, and the times it has used.
\<close>

datatype child_status = Child_exit int | Child_sig int | Child_stop int | Child_strange

record child =
  ch_output :: "bytes sysret list"
  ch_status :: child_status
  ch_utime :: "nat \<times> nat"
  ch_stime :: "nat \<times> nat"

text \<open>
  \<open>xv_args\<close> is the array \<^verbatim>\<open>args\<close> and \<open>xv_arg\<close> an index of it, \<open>None\<close> for a null pointer; \<open>xv_children\<close> are
  the processes to come, \<open>xv_ran\<close> the vectors that were run, and \<open>xv_writes\<close> how many bytes the writes
  take.  \<open>xv_died\<close> are the texts of an error.
\<close>

record execv =
  xv_args :: "nat \<Rightarrow> char"
  xv_argc :: nat
  xv_arg :: "nat option"
  xv_children :: "child list"
  xv_ran :: "bytes list list"
  xv_out :: bytes
  xv_writes :: "nat sysret list"
  xv_exit :: nat
  xv_died :: "bytes list"
  xv_errno :: "errno option"

type_synonym 'a execv_run = "execv \<Rightarrow> ('a, execv) outcome"

definition execv_die :: "bytes \<Rightarrow> errno option \<Rightarrow> 'a execv_run" where
  "execv_die msg e x = Exited (x\<lparr>xv_exit := 1, xv_died := [msg], xv_errno := e\<rparr>)"

section \<open>Reading and writing\<close>

text \<open>\<^verbatim>\<open>jmscott_read\<close> of at most \<open>n\<close> bytes.\<close>

fun take_read :: "nat \<Rightarrow> bytes sysret list \<Rightarrow> bytes sysret \<times> bytes sysret list" where
  "take_read n [] = (Inr [], [])"
| "take_read n (Inl e # es) = (Inl e, es)"
| "take_read n (Inr bs # es) =
     (if length bs \<le> n then (Inr bs, es) else (Inr (take n bs), Inr (drop n bs) # es))"

fun read_size :: "bytes sysret \<Rightarrow> nat" where
  "read_size (Inl e) = 1"
| "read_size (Inr bs) = Suc (length bs)"

lemma take_read_shrinks:
  "take_read n es = (Inr bs, es') \<Longrightarrow> bs \<noteq> [] \<Longrightarrow> sum_list (map read_size es') < sum_list (map read_size es)"
  by (induction n es rule: take_read.induct) (auto split: if_splits)

text \<open>\<^verbatim>\<open>_read_request\<close>: an error, or a text that ends with a new-line.\<close>

function read_request :: "nat \<Rightarrow> bytes \<Rightarrow> bytes sysret list \<Rightarrow>
    (bytes \<times> errno option + bytes) \<times> bytes sysret list" where
  "read_request max_msg got es =
     (case take_read (max_msg - length got) es of
        (Inl e, es') \<Rightarrow> (Inl (''read(request) failed'', Some e), es')
      | (Inr bs, es') \<Rightarrow>
          if bs = [] then (Inl (''unexpected read(request) of 0'', None), es')
          else if last bs = NL then (Inr (got @ bs), es')
          else read_request max_msg (got @ bs) es')"
  by pat_completeness auto
termination
  by (relation "measure (\<lambda>(m, got, es). sum_list (map read_size es))") (auto dest: take_read_shrinks [OF sym])

declare read_request.simps [simp del]

text \<open>\<^verbatim>\<open>_read_child\<close>, which stops when its buffer is full.\<close>

function read_child :: "nat \<Rightarrow> bytes \<Rightarrow> bytes sysret list \<Rightarrow> bytes sysret" where
  "read_child max_msg got es =
     (case take_read (max_msg - length got) es of
        (Inl e, es') \<Rightarrow> Inl e
      | (Inr bs, es') \<Rightarrow> if bs = [] then Inr got else read_child max_msg (got @ bs) es')"
  by pat_completeness auto
termination
  by (relation "measure (\<lambda>(m, got, es). sum_list (map read_size es))") (auto dest: take_read_shrinks [OF sym])

declare read_child.simps [simp del]

text \<open>
  \<^verbatim>\<open>_write\<close>, where \<open>nb\<close> is what the last write took: the next write starts \<open>nb\<close> bytes behind the start
  of the buffer.
\<close>

fun execv_write :: "bytes \<Rightarrow> nat \<Rightarrow> nat \<Rightarrow> nat sysret list \<Rightarrow> (bytes \<times> errno option) option \<times> bytes \<times> nat sysret list" where
  "execv_write p nb nbytes [] = (None, take nbytes (drop nb p), [])"
| "execv_write p nb nbytes (Inl e # ws) = (Some (''write(1) failed'', Some e), [], ws)"
| "execv_write p nb nbytes (Inr k # ws) =
     (let k = min k nbytes; now = take k (drop nb p) in
      if k = 0 then (Some (''write(1) wrote 0 bytes'', None), [], ws)
      else if nbytes - k = 0 then (None, now, ws)
      else (case execv_write p k (nbytes - k) ws of (r, out, ws) \<Rightarrow> (r, now @ out, ws)))"

definition write_reply :: "bytes \<Rightarrow> unit execv_run" where
  "write_reply p x =
     (case execv_write p 0 (length p) (xv_writes x) of
        (r, out, ws) \<Rightarrow>
          let x = x\<lparr>xv_out := xv_out x @ out, xv_writes := ws\<rparr>
          in case r of None \<Rightarrow> Ret () x | Some (msg, e) \<Rightarrow> execv_die msg e x)"

section \<open>Running a process\<close>

definition execv_time :: "nat \<times> nat \<Rightarrow> bytes" where
  "execv_time t = dec_nat (fst t) @ CHR ''.'' # pad0 6 (snd t)"

definition xdr_class :: "child_status \<Rightarrow> (bytes \<times> int) option" where
  "xdr_class st =
     (case st of
        Child_exit n \<Rightarrow> Some (''EXIT'', n)
      | Child_sig n \<Rightarrow> Some (''SIG'', n)
      | Child_stop n \<Rightarrow> Some (''STOP'', n)
      | Child_strange \<Rightarrow> None)"

definition xdr_text :: "child \<Rightarrow> bytes \<times> int \<Rightarrow> nat \<Rightarrow> bytes" where
  "xdr_text c xs olen =
     fst xs @ TAB # dec_nat (nat (snd xs)) @ TAB # execv_time (ch_utime c) @ TAB # execv_time (ch_stime c) @
     TAB # dec_nat olen @ [NL]"

text \<open>
  The calls on the pipe are taken to succeed; a child whose \<^verbatim>\<open>execv\<close> fails is one that writes an error and
  ends.
\<close>

definition fork_wait :: "nat \<Rightarrow> bytes list \<Rightarrow> unit execv_run" where
  "fork_wait max_msg argv x =
     (case xv_children x of
        [] \<Rightarrow> execv_die ''fork(request) failed'' None x
      | c # cs \<Rightarrow>
          let x = x\<lparr>xv_children := cs, xv_ran := xv_ran x @ [argv]\<rparr> in
          (case read_child max_msg [] (ch_output c) of
             Inl e \<Rightarrow> execv_die ''read(child) failed'' (Some e) x
           | Inr child_out \<Rightarrow>
               (case xdr_class (ch_status c) of
                  None \<Rightarrow> execv_die ''wait(request) impossible status'' None x
                | Some xs \<Rightarrow>
                    proceed (write_reply (xdr_text c xs (length child_out)) x) (\<lambda>_ x.
                      if length child_out > 0 then write_reply child_out x else Ret () x))))"

section \<open>The requests\<close>

text \<open>
  \<^verbatim>\<open>x_argv[k]\<close>, of which the last is never set.  Writing through it may leave the array, and then
  \<open>Blocked\<close> says that C gives no outcome.
\<close>

definition x_slot :: "nat \<Rightarrow> nat option" where
  "x_slot k = (if k < MAX_X_ARGC then Some (k * (MAX_X_ARG + 1)) else None)"

definition put_char :: "char \<Rightarrow> unit execv_run" where
  "put_char c x =
     (case xv_arg x of
        None \<Rightarrow> Blocked x
      | Some i \<Rightarrow>
          if i < MAX_X_ARGC * (MAX_X_ARG + 1) then Ret () (x\<lparr>xv_args := (xv_args x)(i := c)\<rparr>) else Blocked x)"

text \<open>The string at an index: what is before the first \<^verbatim>\<open>NUL\<close> of the array.\<close>

definition arg_at :: "(nat \<Rightarrow> char) \<Rightarrow> nat \<Rightarrow> bytes" where
  "arg_at mem i = takeWhile (\<lambda>c. c \<noteq> NUL) (map mem [i..<MAX_X_ARGC * (MAX_X_ARG + 1)])"

definition x_argv :: "execv \<Rightarrow> bytes list" where
  "x_argv x = map (\<lambda>k. arg_at (xv_args x) (k * (MAX_X_ARG + 1))) [0..<xv_argc x]"

definition run_line :: "nat \<Rightarrow> unit execv_run" where
  "run_line max_msg x =
     (if x_argv x = [[]] then Exited (x\<lparr>xv_exit := 0\<rparr>)
      else proceed (fork_wait max_msg (x_argv x) x) (\<lambda>_ x. Ret () (x\<lparr>xv_arg := x_slot 0, xv_argc := 0\<rparr>)))"

fun run_chars :: "nat \<Rightarrow> bytes \<Rightarrow> unit execv_run" where
  "run_chars max_msg [] x = Ret () x"
| "run_chars max_msg (c # p) x =
     (if c = NUL then Ret () x
      else if c = TAB then
        proceed (put_char NUL x) (\<lambda>_ x.
          let x = x\<lparr>xv_argc := xv_argc x + 1\<rparr> in
          if xv_argc x > MAX_X_ARGC then execv_die ''argc too big'' None x
          else run_chars max_msg p (x\<lparr>xv_arg := x_slot (xv_argc x)\<rparr>))
      else if c = NL then
        proceed (put_char NUL x) (\<lambda>_ x.
          proceed (run_line max_msg (x\<lparr>xv_argc := xv_argc x + 1\<rparr>)) (\<lambda>_. run_chars max_msg p))
      else if \<not> c_isascii c then execv_die ''non-ascii input'' None x
      else
        (case (xv_arg x, x_slot (xv_argc x)) of
           (Some i, Some s) \<Rightarrow>
             if i - s > MAX_X_ARG then execv_die ''arg too big'' None x
             else proceed (put_char c x) (\<lambda>_ x. run_chars max_msg p (x\<lparr>xv_arg := Some (i + 1)\<rparr>))
         | _ \<Rightarrow> Blocked x))"

lemma read_request_shrinks:
  "read_request m got es = (Inr p, es') \<Longrightarrow> sum_list (map read_size es') < sum_list (map read_size es)"
proof (induction m got es rule: read_request.induct)
  case (1 m got es)
  obtain r es1 where t: "take_read (m - length got) es = (r, es1)" by fastforce
  show ?case
    using "1.prems" "1.IH" [OF t [symmetric]] take_read_shrinks [of "m - length got" es _ es1] t
    by (subst (asm) read_request.simps) (force split: sum.splits if_splits)
qed

text \<open>The loop of \<^verbatim>\<open>main\<close>, which only ends with the process.\<close>

function execv_main :: "nat \<Rightarrow> bytes sysret list \<Rightarrow> unit execv_run" where
  "execv_main max_msg es x =
     (case read_request max_msg [] es of
        (Inl (msg, e), _) \<Rightarrow> execv_die msg e x
      | (Inr p, es') \<Rightarrow> proceed (run_chars max_msg p x) (\<lambda>_. execv_main max_msg es'))"
  by pat_completeness auto
termination
  by (relation "measure (\<lambda>(m, es, x). sum_list (map read_size es))")
    (auto dest: read_request_shrinks [OF sym])

declare execv_main.simps [simp del]

section \<open>What a worker answers\<close>

lemma read_request_whole:
  assumes "\<forall>c \<in> set cs. c \<noteq> []" and "concat cs = p @ [NL]" and "NL \<notin> set p" and "length got + length (p @ [NL]) \<le> m"
  shows "read_request m got (map Inr cs @ es) = (Inr (got @ p @ [NL]), es)"
  using assms
proof (induction cs arbitrary: got p)
  case (Cons c cs)
  have c: "c \<noteq> []" "length c \<le> m - length got"
    using Cons.prems(1,4) arg_cong [OF Cons.prems(2), of length] by auto
  show ?case
  proof (cases "concat cs = []")
    case True
    then have "cs = []" using Cons.prems(1) by (cases cs) auto
    then show ?thesis using c Cons.prems(2) by (subst read_request.simps) simp
  next
    case False
    then obtain q where q: "concat cs = q @ [NL]" and p: "p = c @ q"
      using Cons.prems(2) by (metis append_butlast_last_id append_assoc butlast_append concat.simps(2) last_appendR last_snoc
          butlast_snoc)
    have "last c \<noteq> NL" using c(1) Cons.prems(3) p by (metis Un_iff last_in_set set_append)
    then show ?thesis
      using c p Cons.IH [of q "got @ c"] Cons.prems q by (subst read_request.simps) auto
  qed
qed simp

lemma read_child_whole:
  assumes "\<forall>c \<in> set cs. c \<noteq> []" and "length got \<le> m"
  shows "read_child m got (map Inr cs) = Inr (take m (got @ concat cs))"
  using assms
proof (induction cs arbitrary: got)
  case Nil
  then show ?case by (simp add: read_child.simps)
next
  case (Cons c cs)
  show ?case
  proof (cases "length c \<le> m - length got")
    case True
    then show ?thesis using Cons.prems Cons.IH [of "got @ c"] by (subst read_child.simps) auto
  next
    case False
    then have f: "take m (got @ c @ concat cs) = got @ take (m - length got) c" using Cons.prems(2) by simp
    let ?g = "got @ take (m - length got) c"
    have "length ?g = m" using False Cons.prems(2) by simp
    then have "read_child m ?g es = Inr ?g" if "es = Inr (drop (m - length got) c) # map Inr cs" for es
      unfolding that using False by (subst read_child.simps) simp
    then show ?thesis using False f by (subst read_child.simps) (auto simp del: append_assoc)
  qed
qed

text \<open>The line of an argument vector, and the vectors that fit the arrays.\<close>

fun vec_line :: "bytes list \<Rightarrow> bytes" where
  "vec_line [] = [NL]"
| "vec_line [a] = a @ [NL]"
| "vec_line (a # as) = a @ TAB # vec_line as"

definition arg_ok :: "bytes \<Rightarrow> bool" where
  "arg_ok a = (length a \<le> MAX_X_ARG \<and> (\<forall>c \<in> set a. c_isascii c \<and> c \<noteq> NUL \<and> c \<noteq> TAB \<and> c \<noteq> NL))"

definition vec_ok :: "bytes list \<Rightarrow> bool" where
  "vec_ok as = (as \<noteq> [] \<and> length as \<le> MAX_X_ARGC \<and> (\<forall>a \<in> set as. arg_ok a))"

definition holds :: "(nat \<Rightarrow> char) \<Rightarrow> nat \<Rightarrow> bytes \<Rightarrow> bool" where
  "holds mem s a = (\<forall>j < length a. mem (s + j) = a ! j)"

lemma holds_Cons: "holds mem s (c # a) = (mem s = c \<and> holds mem (Suc s) a)"
  by (auto simp: holds_def All_less_Suc2)

lemma holds_below: "\<forall>j < e. mem' j = mem j \<Longrightarrow> s + length a \<le> e \<Longrightarrow> holds mem s a \<Longrightarrow> holds mem' s a"
  by (simp add: holds_def)

lemma arg_at_holds:
  assumes "holds mem s (a @ [NUL])" and "NUL \<notin> set a" and "s + length a < MAX_X_ARGC * (MAX_X_ARG + 1)"
  shows "arg_at mem s = a"
proof -
  let ?e = "MAX_X_ARGC * (MAX_X_ARG + 1)"
  have "[s..<?e] = [s..<s + length a] @ (s + length a) # [Suc (s + length a)..<?e]"
    using assms(3) upt_add_eq_append [of s "s + length a" "?e - (s + length a)"] by (simp add: upt_conv_Cons)
  moreover have "map mem [s..<s + length a] = a"
    using assms(1) by (auto simp: holds_def nth_append intro!: nth_equalityI)
  moreover have "mem (s + length a) = NUL" using assms(1) by (auto simp: holds_def)
  ultimately show ?thesis using assms(2) by (simp add: arg_at_def takeWhile_append)
qed

text \<open>Writing an argument, and an argument vector, to the array.\<close>

fun put_at :: "(nat \<Rightarrow> char) \<Rightarrow> nat \<Rightarrow> bytes \<Rightarrow> nat \<Rightarrow> char" where
  "put_at mem i [] = mem"
| "put_at mem i (c # a) = put_at (mem(i := c)) (Suc i) a"

fun lay :: "(nat \<Rightarrow> char) \<Rightarrow> nat \<Rightarrow> bytes list \<Rightarrow> nat \<Rightarrow> char" where
  "lay mem k [] = mem"
| "lay mem k (a # as) = lay (put_at mem (k * (MAX_X_ARG + 1)) (a @ [NUL])) (Suc k) as"

lemma put_at_below: "j < i \<Longrightarrow> put_at mem i a j = mem j"
  by (induction mem i a rule: put_at.induct) auto

lemma put_at_holds: "holds (put_at mem i a) i a"
proof (induction a arbitrary: mem i)
  case Nil
  then show ?case by (simp add: holds_def)
qed (simp add: holds_Cons put_at_below)

lemma put_at_snoc: "put_at mem i (a @ [c]) = (put_at mem i a)(i + length a := c)"
  by (induction a arbitrary: mem i) simp_all

lemma lay_below: "j < k * (MAX_X_ARG + 1) \<Longrightarrow> lay mem k as j = mem j"
  by (induction mem k as rule: lay.induct) (auto simp: put_at_below simp del: put_at.simps)

lemma lay_args:
  assumes "k + length as \<le> MAX_X_ARGC" and "\<forall>a \<in> set as. arg_ok a"
  shows "map (\<lambda>j. arg_at (lay mem k as) (j * (MAX_X_ARG + 1))) [k..<k + length as] = as"
  using assms
proof (induction mem k as rule: lay.induct)
  case (2 mem k a as)
  let ?s = "k * (MAX_X_ARG + 1)"
  have a: "length a \<le> MAX_X_ARG" "NUL \<notin> set a" using "2.prems"(2) by (auto simp: arg_ok_def)
  have "Suc k * (MAX_X_ARG + 1) \<le> MAX_X_ARGC * (MAX_X_ARG + 1)"
    using mult_le_mono1 [of "Suc k" MAX_X_ARGC "MAX_X_ARG + 1"] "2.prems"(1) by simp
  then have s: "?s + length a < MAX_X_ARGC * (MAX_X_ARG + 1)" using a(1) by simp
  have "holds (lay mem k (a # as)) ?s (a @ [NUL])"
    by (rule holds_below [OF _ _ put_at_holds [of mem], of "Suc k * (MAX_X_ARG + 1)"])
      (use lay_below [of _ "Suc k"] a(1) in auto)
  then have "arg_at (lay mem k (a # as)) ?s = a" by (rule arg_at_holds [OF _ a(2) s])
  moreover have "[k..<k + length (a # as)] = k # [Suc k..<Suc k + length as]" by (simp add: upt_conv_Cons del: upt_Suc)
  moreover have "map (\<lambda>j. arg_at (lay mem k (a # as)) (j * (MAX_X_ARG + 1))) [Suc k..<Suc k + length as] = as"
    using "2.IH" "2.prems" by (simp del: upt_Suc)
  ultimately show ?case by (simp del: upt_Suc lay.simps)
qed simp

declare mult_Suc_right [simp del]

lemma run_arg:
  assumes "xv_arg x = Some (k * (MAX_X_ARG + 1) + n)" and "xv_argc x = k" and "k < MAX_X_ARGC"
    and "n + length a \<le> MAX_X_ARG" and "\<forall>c \<in> set a. c_isascii c \<and> c \<noteq> NUL \<and> c \<noteq> TAB \<and> c \<noteq> NL"
  shows "run_chars m (a @ p) x = run_chars m p (x\<lparr>
    xv_args := put_at (xv_args x) (k * (MAX_X_ARG + 1) + n) a, xv_arg := Some (k * (MAX_X_ARG + 1) + n + length a)\<rparr>)"
  using assms
proof (induction a arbitrary: x n)
  case Nil
  then have "x\<lparr>xv_args := xv_args x, xv_arg := Some (k * (MAX_X_ARG + 1) + n)\<rparr> = x" by (cases x) simp
  then show ?case by simp
next
  case (Cons c a)
  let ?i = "k * (MAX_X_ARG + 1) + n"
  have "k * (MAX_X_ARG + 1) + (MAX_X_ARG + 1) \<le> MAX_X_ARGC * (MAX_X_ARG + 1)"
    using mult_le_mono1 [of "Suc k" MAX_X_ARGC "MAX_X_ARG + 1"] Cons.prems(3) by simp
  then have "?i < MAX_X_ARGC * (MAX_X_ARG + 1)" using Cons.prems(4) by simp
  then have "put_char c x = Ret () (x\<lparr>xv_args := (xv_args x)(?i := c)\<rparr>)"
    using Cons.prems(1) by (simp add: put_char_def)
  moreover have "x_slot k = Some (k * (MAX_X_ARG + 1))" using Cons.prems(3) by (simp add: x_slot_def)
  ultimately have "run_chars m ((c # a) @ p) x =
      run_chars m (a @ p) (x\<lparr>xv_args := (xv_args x)(?i := c), xv_arg := Some (Suc ?i)\<rparr>)"
    using Cons.prems by simp
  then show ?case
    using Cons.IH [of "x\<lparr>xv_args := (xv_args x)(?i := c), xv_arg := Some (Suc ?i)\<rparr>" "Suc n"] Cons.prems
    by (simp del: fun_upd_apply run_chars.simps)
qed

lemma run_ended_arg:
  assumes "xv_arg x = x_slot k" and "xv_argc x = k" and "k < MAX_X_ARGC" and "arg_ok a"
  defines "i \<equiv> k * (MAX_X_ARG + 1) + length a"
  defines "y \<equiv> x\<lparr>xv_args := put_at (xv_args x) (k * (MAX_X_ARG + 1)) (a @ [NUL]), xv_arg := Some i\<rparr>"
  shows "run_chars m (a @ TAB # p) x = run_chars m p (y\<lparr>xv_argc := Suc k, xv_arg := x_slot (Suc k)\<rparr>)"
    and "run_chars m (a @ NL # p) x = proceed (run_line m (y\<lparr>xv_argc := Suc k\<rparr>)) (\<lambda>_. run_chars m p)"
proof -
  let ?x = "x\<lparr>xv_args := put_at (xv_args x) (k * (MAX_X_ARG + 1)) a, xv_arg := Some i\<rparr>"
  have a: "run_chars m (a @ q) x = run_chars m q ?x" for q
    using run_arg [of x k 0 a m q] assms by (simp add: x_slot_def arg_ok_def)
  have "k * (MAX_X_ARG + 1) + (MAX_X_ARG + 1) \<le> MAX_X_ARGC * (MAX_X_ARG + 1)"
    using mult_le_mono1 [of "Suc k" MAX_X_ARGC "MAX_X_ARG + 1"] assms(3) by simp
  then have "i < MAX_X_ARGC * (MAX_X_ARG + 1)" using assms(4) by (simp add: i_def arg_ok_def)
  then have p: "put_char NUL ?x = Ret () y" by (simp add: put_char_def y_def put_at_snoc i_def del: fun_upd_apply)
  show "run_chars m (a @ TAB # p) x = run_chars m p (y\<lparr>xv_argc := Suc k, xv_arg := x_slot (Suc k)\<rparr>)"
    unfolding a using assms(2,3) p by (simp add: y_def)
  show "run_chars m (a @ NL # p) x = proceed (run_line m (y\<lparr>xv_argc := Suc k\<rparr>)) (\<lambda>_. run_chars m p)"
    unfolding a using assms(2) p by (simp add: y_def)
qed

lemma run_vec:
  assumes "as \<noteq> []" and "xv_arg x = x_slot k" and "xv_argc x = k" and "k + length as \<le> MAX_X_ARGC"
    and "\<forall>a \<in> set as. arg_ok a"
  shows "\<exists>i. run_chars m (vec_line as @ p) x =
    proceed (run_line m (x\<lparr>xv_args := lay (xv_args x) k as, xv_arg := i, xv_argc := k + length as\<rparr>))
      (\<lambda>_. run_chars m p)"
  using assms
proof (induction as arbitrary: x k rule: vec_line.induct)
  case (2 a)
  then show ?case using run_ended_arg(2) [of x k a m p] by auto
next
  case (3 a b as)
  let ?x = "x\<lparr>xv_args := put_at (xv_args x) (k * (MAX_X_ARG + 1)) (a @ [NUL]), xv_argc := Suc k,
    xv_arg := x_slot (Suc k)\<rparr>"
  have "run_chars m (vec_line (a # b # as) @ p) x = run_chars m (vec_line (b # as) @ p) ?x"
    using run_ended_arg(1) [of x k a m "vec_line (b # as) @ p"] "3.prems" by simp
  then show ?case using "3.IH" [of ?x "Suc k"] "3.prems" by simp
qed simp

lemma x_argv_laid: "vec_ok as \<Longrightarrow> x_argv (x\<lparr>xv_args := lay mem 0 as, xv_arg := i, xv_argc := length as\<rparr>) = as"
  using lay_args [of 0 as mem] by (simp add: x_argv_def vec_ok_def)

text \<open>What a process that ends gives, and what the worker writes of it.\<close>

definition kid_ok :: "child \<Rightarrow> bool" where
  "kid_ok c = (xdr_class (ch_status c) \<noteq> None \<and>
     list_all (\<lambda>e. case e of Inl _ \<Rightarrow> False | Inr b \<Rightarrow> b \<noteq> []) (ch_output c))"

lemma all_read: "list_all (\<lambda>e. case e of Inl _ \<Rightarrow> False | Inr b \<Rightarrow> b \<noteq> []) es \<Longrightarrow>
    \<exists>os. es = map Inr os \<and> (\<forall>b \<in> set os. b \<noteq> [])"
proof (induction es)
  case (Cons e es)
  then obtain os b where "es = map Inr os" "\<forall>b \<in> set os. b \<noteq> []" "e = Inr b" "b \<noteq> []" by (auto split: sum.splits)
  then show ?case by (intro exI [of _ "b # os"]) simp
qed simp

definition said :: "child \<Rightarrow> bytes" where
  "said c = concat (map (\<lambda>e. case e of Inl _ \<Rightarrow> [] | Inr b \<Rightarrow> b) (ch_output c))"

definition xdr_answer :: "nat \<Rightarrow> child \<Rightarrow> bytes" where
  "xdr_answer m c = xdr_text c (the (xdr_class (ch_status c))) (min m (length (said c))) @ take m (said c)"

lemma write_reply_whole: "xv_writes x = [] \<Longrightarrow> write_reply p x = Ret () (x\<lparr>xv_out := xv_out x @ p\<rparr>)"
  by (cases x) (simp add: write_reply_def)

lemma fork_wait_answers:
  assumes "xv_children x = c # cs" and "kid_ok c" and "xv_writes x = []"
  shows "fork_wait m argv x =
    Ret () (x\<lparr>xv_children := cs, xv_ran := xv_ran x @ [argv], xv_out := xv_out x @ xdr_answer m c\<rparr>)"
proof -
  obtain os where o: "ch_output c = map Inr os" "\<forall>b \<in> set os. b \<noteq> []" and s: "xdr_class (ch_status c) \<noteq> None"
    using assms(2) all_read [of "ch_output c"] by (auto simp: kid_ok_def)
  have "read_child m [] (ch_output c) = Inr (take m (said c))"
    using read_child_whole [OF o(2), of "[]" m] by (simp add: said_def o(1) comp_def)
  then show ?thesis
    using s assms(1,3) by (cases x) (auto simp: fork_wait_def write_reply_whole xdr_answer_def Let_def min.commute)
qed

lemma vec_line_text: "vec_ok as \<Longrightarrow> \<exists>p. vec_line as = p @ [NL] \<and> NL \<notin> set p"
proof -
  have "as \<noteq> [] \<Longrightarrow> \<forall>a \<in> set as. arg_ok a \<Longrightarrow> \<exists>p. vec_line as = p @ [NL] \<and> NL \<notin> set p"
  proof (induction as rule: vec_line.induct)
    case (3 a b as)
    then obtain p where "vec_line (b # as) = p @ [NL]" "NL \<notin> set p" by auto
    then show ?case using 3 by (intro exI [of _ "a @ TAB # p"]) (auto simp: arg_ok_def)
  qed (auto simp: arg_ok_def)
  then show "vec_ok as \<Longrightarrow> ?thesis" by (simp add: vec_ok_def)
qed

lemma run_request:
  assumes "vec_ok as" and "as \<noteq> [[]]" and "xv_arg x = Some 0" and "xv_argc x = 0"
    and "xv_children x = c # cs" and "kid_ok c" and "xv_writes x = []"
  shows "\<exists>mem. run_chars m (vec_line as) x = Ret () (x\<lparr>xv_args := mem, xv_children := cs,
    xv_ran := xv_ran x @ [as], xv_out := xv_out x @ xdr_answer m c\<rparr>)"
proof -
  have s: "x_slot 0 = Some 0" by (simp add: x_slot_def MAX_X_ARGC_def)
  obtain i where r: "run_chars m (vec_line as @ []) x =
      proceed (run_line m (x\<lparr>xv_args := lay (xv_args x) 0 as, xv_arg := i, xv_argc := length as\<rparr>))
        (\<lambda>_. run_chars m [])"
    using run_vec [of as x 0 m "[]"] assms(1,3,4) s by (auto simp: vec_ok_def)
  show ?thesis
    using r x_argv_laid [OF assms(1), of i "xv_args x" x] assms(2-7) s
    by (cases x) (auto simp: run_line_def fork_wait_answers)
qed

text \<open>
  C15: a worker that is sent its requests one after the other, each in any fragments, runs their argument
  vectors in that order and answers each with the record of its process and its output; the empty request
  ends it without an error.
\<close>

theorem worker_answers_in_order:
  assumes "list_all2 (\<lambda>cs as. concat cs = vec_line as \<and> (\<forall>c \<in> set cs. c \<noteq> []) \<and>
      vec_ok as \<and> as \<noteq> [[]] \<and> length (vec_line as) \<le> m) css vs"
    and "length kids = length vs" and "\<forall>c \<in> set kids. kid_ok c" and "0 < m"
    and "xv_arg x = Some 0" and "xv_argc x = 0" and "xv_children x = kids" and "xv_writes x = []"
  shows "\<exists>y. execv_main m (map Inr (concat css @ [[NL]])) x = Exited y \<and> xv_exit y = 0 \<and>
    xv_ran y = xv_ran x @ vs \<and> xv_out y = xv_out x @ concat (map (xdr_answer m) kids)"
  using assms
proof (induction css vs arbitrary: kids x rule: list_all2_induct)
  case Nil
  have v: "vec_ok [[]]" by (simp add: vec_ok_def arg_ok_def MAX_X_ARGC_def)
  obtain i where "run_chars m (vec_line [[]] @ []) x =
      proceed (run_line m (x\<lparr>xv_args := lay (xv_args x) 0 [[]], xv_arg := i, xv_argc := 1\<rparr>)) (\<lambda>_. run_chars m [])"
    using run_vec [of "[[]]" x 0 m "[]"] v Nil.prems by (auto simp: vec_ok_def x_slot_def MAX_X_ARGC_def)
  moreover have "run_line m (x\<lparr>xv_args := lay (xv_args x) 0 [[]], xv_arg := i, xv_argc := 1\<rparr>) =
      Exited (x\<lparr>xv_args := lay (xv_args x) 0 [[]], xv_arg := i, xv_argc := 1, xv_exit := 0\<rparr>)"
    using x_argv_laid [OF v, of i "xv_args x" x] by (simp add: run_line_def del: lay.simps)
  moreover have "read_request m [] [Inr [NL]] = (Inr [NL], [])"
    using read_request_whole [of "[[NL]]" "[]" "[]" m "[]"] Nil.prems by simp
  ultimately show ?case using Nil.prems by (subst execv_main.simps) simp
next
  case (Cons cs css as vs)
  then obtain kid kids' where k: "kids = kid # kids'" by (cases kids) auto
  let ?in = "map Inr (concat css @ [[NL]])"
  obtain p where p: "vec_line as = p @ [NL]" "NL \<notin> set p" using vec_line_text Cons.hyps(1) by blast
  have "read_request m [] (map Inr cs @ ?in) = (Inr (vec_line as), ?in)"
    using read_request_whole [of cs p "[]" m ?in] Cons.hyps(1) p by simp
  moreover obtain mem where "run_chars m (vec_line as) x = Ret () (x\<lparr>xv_args := mem, xv_children := kids',
      xv_ran := xv_ran x @ [as], xv_out := xv_out x @ xdr_answer m kid\<rparr>)"
    using run_request [of as x kid kids' m] Cons.hyps(1) Cons.prems k by auto
  ultimately have "execv_main m (map Inr (concat (cs # css) @ [[NL]])) x = execv_main m ?in (x\<lparr>xv_args := mem,
      xv_children := kids', xv_ran := xv_ran x @ [as], xv_out := xv_out x @ xdr_answer m kid\<rparr>)"
    by (subst execv_main.simps) simp
  then show ?case
    using Cons.IH [of kids' "x\<lparr>xv_args := mem, xv_children := kids', xv_ran := xv_ran x @ [as],
      xv_out := xv_out x @ xdr_answer m kid\<rparr>"] Cons.prems k by auto
qed

definition a_worker :: execv where
  "a_worker = \<lparr>xv_args = (\<lambda>_. NUL), xv_argc = 0, xv_arg = Some 0,
     xv_children =
       [\<lparr>ch_output = [Inr ''o'', Inr ''k''], ch_status = Child_exit 0, ch_utime = (0, 12), ch_stime = (1, 5)\<rparr>,
        \<lparr>ch_output = [], ch_status = Child_sig 9, ch_utime = (0, 0), ch_stime = (0, 0)\<rparr>],
     xv_ran = [], xv_out = [], xv_writes = [], xv_exit = 7, xv_died = [], xv_errno = None\<rparr>"

theorem worker_answers_in_order_witness:
  "\<exists>y. execv_main 512 (map Inr [''ec'', ''ho'' @ [TAB] @ ''o'', ''k'' @ [NL], ''x'' @ [NL], [NL]]) a_worker = Exited y \<and>
    xv_exit y = 0 \<and> xv_ran y = [[''echo'', ''ok''], [''x'']] \<and>
    xv_out y = ''EXIT'' @ [TAB] @ ''0'' @ [TAB] @ ''0.000012'' @ [TAB] @ ''1.000005'' @ [TAB] @ ''2'' @ [NL] @ ''ok'' @
      ''SIG'' @ [TAB] @ ''9'' @ [TAB] @ ''0.000000'' @ [TAB] @ ''0.000000'' @ [TAB] @ ''0'' @ [NL]"
proof -
  let ?css = "[[''ec'', ''ho'' @ [TAB] @ ''o'', ''k'' @ [NL]], [''x'' @ [NL]]]"
  have ok: "arg_ok ''echo''" "arg_ok ''ok''" "arg_ok ''x''" by code_simp+
  have "\<exists>y. execv_main 512 (map Inr (concat ?css @ [[NL]])) a_worker = Exited y \<and> xv_exit y = 0 \<and>
      xv_ran y = xv_ran a_worker @ [[''echo'', ''ok''], [''x'']] \<and>
      xv_out y = xv_out a_worker @ concat (map (xdr_answer 512) (xv_children a_worker))"
    by (rule worker_answers_in_order)
      (auto simp: a_worker_def vec_ok_def MAX_X_ARGC_def kid_ok_def xdr_class_def ok)
  moreover have "concat (map (xdr_answer 512) (xv_children a_worker)) =
      ''EXIT'' @ [TAB] @ ''0'' @ [TAB] @ ''0.000012'' @ [TAB] @ ''1.000005'' @ [TAB] @ ''2'' @ [NL] @ ''ok'' @
      ''SIG'' @ [TAB] @ ''9'' @ [TAB] @ ''0.000000'' @ [TAB] @ ''0.000000'' @ [TAB] @ ''0'' @ [NL]"
    by code_simp
  ultimately show ?thesis by (simp add: a_worker_def)
qed

end
