(* ===== verification/Spec2Isabelle.thy ===== *)
theory Spec2Isabelle
  imports Blob_Set Udig_Set Io Net Req Request_Frame Request_Scan Brr_Record Verbs Exit_Status
    Fs_World Fs_Frame Tmp_Map Fs_Store Fs_Sha Fs_Ripe Verb_Contract Module_Contract
    Wrap_Roll Wrap_Safe Server Wrap_Spec Pg_Udig Pg_Order
    Frisk Cli_Digest Cli_Bio4 Cli_Talk Cli_Server Cli_Store Cli_Qarg
    Cli_Fs Cli_Fs_Frame Cli_Fs_Store Cli_Fs_Spec Cli_Fs_Roll
    Cli_Brr Cli_Service Cli_Main Cli_Main_Spec Cli_Main_Get
    Flowd_Execv
begin

text \<open>
  A verification library of blobio: the blob server \<^verbatim>\<open>bio4d\<close> in \<^verbatim>\<open>src/bio4d\<close>, its client in
  \<^verbatim>\<open>src/cli\<close>, the PostgreSQL extension in \<^verbatim>\<open>src/sync\<close>, and the worker of the flow daemon in
  \<^verbatim>\<open>src/flowd\<close>.

  \<^bold>\<open>The program.\<close>  A master process (\<^verbatim>\<open>bio4d.c\<close>) accepts connections and forks a child for each.
  The child reads one request line, \<^verbatim>\<open>verb algorithm:digest\<close>, with a lexer that is a state machine
  over read chunks, finds the digest module of the algorithm (\<^verbatim>\<open>module.c\<close>, \<^verbatim>\<open>fs_sha.c\<close>,
  \<^verbatim>\<open>fs_bc160.c\<close>, \<^verbatim>\<open>fs_btc20.c\<close>), runs the handler of the verb (get, put, give, take, eat, cat, wrap,
  roll), answers \<^verbatim>\<open>ok\<close> and \<^verbatim>\<open>no\<close> to the client and notes the answers in a chat history (\<^verbatim>\<open>req.c\<close>),
  sends a blob request record to the logger process (\<^verbatim>\<open>brr.c\<close>) and exits with a status that encodes
  verb and answers, which the master decodes and counts.  A module stores a blob under the path of
  its digest; two more processes help: the arborist (\<^verbatim>\<open>arbor.c\<close>) moves received files into place,
  and the logger freezes its log on the request of a child that wraps.  All system calls go through
  \<^verbatim>\<open>io.c\<close> and \<^verbatim>\<open>net.c\<close>, which restart interrupted calls and put a timer on network calls.

  \<^bold>\<open>The theories\<close>, from the bottom:

  \<^item> \<open>Blobio_Prelude\<close>: bytes, the character classes, decimal and hexadecimal text, the type
    \<open>outcome\<close> of what a child does (return, exit, block) with \<open>proceed\<close> for sequencing and the
    predicate \<open>after Q E\<close>: \<open>Q\<close> holds when it returns, \<open>E\<close> when it ends or blocks.

  \<^item> \<open>Blob_Set\<close>, \<open>Udig_Set\<close>: the chained hash table of \<^verbatim>\<open>blob_set.c\<close>, its refinement of a set (locale
    \<open>blob_set_api\<close>), and the parser of udig sets of \<^verbatim>\<open>brr.c\<close>, proved inside the locale against
    the language of such sets, so that it rests on the interface of the table only.

  \<^item> \<open>Io\<close>, \<open>Net\<close>: the wrappers of system calls over scripts of what the kernel answers, framed
    messages on pipes, and network calls under a one-shot timer.

  \<^item> \<open>Req\<close>, \<open>Request_Frame\<close>, \<open>Request_Scan\<close>: the record of a request, the calls that read and write
    for it, the chat history, and the lexer with the read loop of \<^verbatim>\<open>request()\<close>.

  \<^item> \<open>Brr_Record\<close>, \<open>Exit_Status\<close>: the text of the request record and how it is sent, the exit status,
    and the counters of the master.

  \<^item> \<open>Verbs\<close>, \<open>Verb_Contract\<close>: the handlers over the callbacks of a module, and the locale
    \<open>digest_contract\<close> with the laws that a module must keep, from which the protocol of every verb
    follows.

  \<^item> \<open>Fs_World\<close>, \<open>Fs_Frame\<close>: files, directories and injected failures, the arborist, and what each of
    its operations leaves alone.

  \<^item> \<open>Tmp_Map\<close>: the map of temporary directories of \<^verbatim>\<open>tmp.c\<close>.

  \<^item> \<open>Fs_Store\<close>, \<open>Fs_Sha\<close>, \<open>Fs_Ripe\<close>, \<open>Module_Contract\<close>: what the three digest modules share, their
    instances, and the interpretations of \<open>digest_contract\<close> on all three.

  \<^item> \<open>Wrap_Roll\<close>, \<open>Wrap_Safe\<close>, \<open>Server\<close>, \<open>Wrap_Spec\<close>: the logger, the verbs wrap and roll, the server
    with all modules and verbs and its properties, and what wrap and roll promise together.

  \<^item> \<open>Pg_Udig\<close>, \<open>Pg_Order\<close>: the PostgreSQL extension \<^verbatim>\<open>sync/pgsql/contrib/udig/udig.c\<close> with the types of
    udigs, and the proof that values, texts and operators belong together (locale \<open>btree_opclass\<close>,
    interpreted on all four types); it shares with the server the digests of the empty blob.

  \<^item> \<open>Frisk\<close>: the checker \<^verbatim>\<open>cli/bio-frisk-brr.c\<close> of logs of request records, its line buffer, and which
    of the records that \<open>Brr_Record\<close> formats it takes.

  \<^item> \<open>Cli_Digest\<close>, \<open>Cli_Bio4\<close>: the digest modules of the client (\<^verbatim>\<open>cli/blobio/sha.c\<close>, \<^verbatim>\<open>bc160.c\<close>,
    \<^verbatim>\<open>btc20.c\<close>, \<^verbatim>\<open>digest.c\<close>) with their contract (locale \<open>client_digest\<close>, interpreted on all three), and
    the driver \<^verbatim>\<open>cli/blobio/bio4.c\<close> that talks to a server.

  \<^item> \<open>Cli_Talk\<close>, \<open>Cli_Server\<close>, \<open>Cli_Store\<close>: what the client checks of a blob that it fetches, how it
    reads replies, that client and server agree on digests and paths, and client and server (and the
    arborist) run together: a stored blob reaches the client, a blob that is put reaches the store.

  \<^item> \<open>Cli_Qarg\<close>: the query arguments of a service (\<^verbatim>\<open>cli/blobio/qarg.c\<close>), as a language and with the
    values that are copied out.

  \<^item> \<open>Cli_Fs\<close>, \<open>Cli_Fs_Frame\<close>, \<open>Cli_Fs_Store\<close>, \<open>Cli_Fs_Spec\<close>, \<open>Cli_Fs_Roll\<close>: the client's file service
    (\<^verbatim>\<open>cli/blobio/fs.c\<close>), which works on the directory of a server itself; the locale \<open>libjmscott\<close> has
    the documented laws of the external library, and frame rules take each function apart.  A get
    relies on the invariant that the server keeps, a put keeps it when its caller knows the digest,
    a roll removes what its set names.

  \<^item> \<open>Cli_Brr\<close>: the request records that the client writes itself (\<^verbatim>\<open>cli/blobio/brr.c\<close>), and which of them
    the checker of \<open>Frisk\<close> takes.

  \<^item> \<open>Cli_Service\<close>, \<open>Cli_Main\<close>, \<open>Cli_Main_Spec\<close>, \<open>Cli_Main_Get\<close>: the services as tables of functions with
    the connection of \<^verbatim>\<open>bio4.c\<close>, the program \<^verbatim>\<open>blobio\<close> (\<^verbatim>\<open>cli/blobio/blobio.c\<close>) from its command line to its
    exit status, which options the verbs take, what becomes of an output file that was there before,
    and a get by the file service from the command line on.

  \<^item> \<open>Flowd_Execv\<close>: the worker \<^verbatim>\<open>flowd/flowd-execv.c\<close> of the flow daemon, with the arrays that it keeps
    the arguments of a process in, and that it answers its requests in order however they are cut.

  \<^bold>\<open>How the code is read.\<close>  A C string is the list of its characters before the \<^verbatim>\<open>NUL\<close>; counters,
  lengths and bits that the code keeps in a fixed width are words.  A panic, an exit, a call that
  never returns and every early return are outcomes of the model.  What the kernel, the client and
  other processes do is data: a script of answers for each descriptor, a list of injected failures
  for the file system, a list of what the client sends.  All loops end, since each turn uses up
  part of such a script or of the bytes, so no fuel is needed; a call that blocks is the outcome
  \<open>Blocked\<close>.  SHA1, SHA256 and RIPEMD160 of OpenSSL are parameters, of which \<open>openssl_ok\<close> says
  that digests have twenty bytes and what the digests of the empty blob are.

  \<^bold>\<open>Not modelled.\<close>  The text of log messages (a log call only marks the exit status where the code
  does), the signal handlers and process groups of the master (\<^verbatim>\<open>signal.c\<close>), the process title,
  the fork and boot code and the pid files, the operator's samples (heartbeat, \<^verbatim>\<open>rrd\<close> and
  green-yellow-red files), and races between processes: the arborist and the logger answer one
  request at a time, between two calls of the child.  The Go and Perl tools (among them the flow
  daemon but for its worker), the SQL schema and the web pages are not C.  Of the client, the traces are not modelled; a write outside of an array and a
  null pointer that is used end the model of the client with \<open>Blocked\<close>; a hard link of the file service
  copies the bytes, so that a later write to one of its names is outside the model.
\<close>

end
